(* ===== verification/Prelude.thy ===== *)
theory Prelude
  imports Main "HOL-Library.Word"
begin

text \<open>
  Shared vocabulary of the development: the machine types of the 32-bit x86 target, the outcome
  type of kernel routines that may panic, the error numbers of \<open>kernel/include/errno.h\<close>, the
  named collections the component theories fill, and generic lemmas on words, lists and functions.

  Conventions used by every component theory:
  \<^item> \<open>unsigned int\<close> is \<^typ>\<open>32 word\<close>, \<open>unsigned char\<close> is \<^typ>\<open>8 word\<close>,
    \<open>unsigned long long\<close> is \<^typ>\<open>64 word\<close>; arithmetic on them wraps as in C;
  \<^item> a routine that calls \<open>Panic\<close> returns \<open>Panics\<close>; \<open>Panic\<close> never returns, so the state
    after it is not observable;
  \<^item> error results are the negative error numbers the C code returns, as \<^typ>\<open>int\<close>;
  \<^item> \<open>PrintLog\<close> only writes to the screen and leaves no trace in the
    state of the routine that calls it.
\<close>

unbundle bit_operations_syntax

section \<open>Machine types\<close>

type_synonym u8 = "8 word"
type_synonym u16 = "16 word"
type_synonym u32 = "32 word"
type_synonym u64 = "64 word"

section \<open>Outcomes\<close>

datatype 'a outcome = Returns 'a | Panics

fun bind_outcome :: "'a outcome \<Rightarrow> ('a \<Rightarrow> 'b outcome) \<Rightarrow> 'b outcome" where
  "bind_outcome (Returns x) f = f x"
| "bind_outcome Panics f = Panics"

text \<open>
  A routine that may also run forever: \<open>None\<close> is a call that does not return. \<open>seq\<close> is the C
  sequence of such calls.
\<close>

type_synonym 'a run = "'a outcome option"

fun seq :: "'a run \<Rightarrow> ('a \<Rightarrow> 'b run) \<Rightarrow> 'b run" where
  "seq None f = None"
| "seq (Some Panics) f = Some Panics"
| "seq (Some (Returns x)) f = f x"

abbreviation ret :: "'a \<Rightarrow> 'a run" where "ret x \<equiv> Some (Returns x)"
abbreviation panic :: "'a run" where "panic \<equiv> Some Panics"

section \<open>Error numbers\<close>

abbreviation (input) EPERM :: int where "EPERM \<equiv> 1"
abbreviation (input) ENOENT :: int where "ENOENT \<equiv> 2"
abbreviation (input) ESRCH :: int where "ESRCH \<equiv> 3"
abbreviation (input) EINTR :: int where "EINTR \<equiv> 4"
abbreviation (input) EIO :: int where "EIO \<equiv> 5"
abbreviation (input) ENXIO :: int where "ENXIO \<equiv> 6"
abbreviation (input) EBADF :: int where "EBADF \<equiv> 9"
abbreviation (input) ECHILD :: int where "ECHILD \<equiv> 10"
abbreviation (input) EACCES :: int where "EACCES \<equiv> 13"
abbreviation (input) EFAULT :: int where "EFAULT \<equiv> 14"
abbreviation (input) EBUSY :: int where "EBUSY \<equiv> 16"
abbreviation (input) EEXIST :: int where "EEXIST \<equiv> 17"
abbreviation (input) ENOTDIR :: int where "ENOTDIR \<equiv> 20"
abbreviation (input) EISDIR :: int where "EISDIR \<equiv> 21"
abbreviation (input) EINVAL :: int where "EINVAL \<equiv> 22"
abbreviation (input) EMFILE :: int where "EMFILE \<equiv> 24"
abbreviation (input) ENOTTY :: int where "ENOTTY \<equiv> 25"
abbreviation (input) ENOSPC :: int where "ENOSPC \<equiv> 28"
abbreviation (input) EROFS :: int where "EROFS \<equiv> 30"
abbreviation (input) ENAMETOOLONG :: int where "ENAMETOOLONG \<equiv> 36"
abbreviation (input) ENOSYS :: int where "ENOSYS \<equiv> 38"

section \<open>Collections\<close>

named_theorems heap_simps "field updates of the pointer heap"
named_theorems inv_elims "unfolding of component invariants"

section \<open>Generic lemmas\<close>

lemma bind_outcome_Returns [simp]:
  "bind_outcome m f = Returns y \<longleftrightarrow> (\<exists>x. m = Returns x \<and> f x = Returns y)"
  by (cases m) auto

lemma run_cases:
  obtains "m = None" | "m = panic" | x where "m = ret x"
  by (cases m) (auto intro: outcome.exhaust)

lemma seq_ret_iff [simp]: "seq m f = ret y \<longleftrightarrow> (\<exists>x. m = ret x \<and> f x = ret y)"
  by (cases "(m, f)" rule: seq.cases) auto

text \<open>Sequencing is monotone, so recursive routines may call themselves under \<open>seq\<close>.\<close>

lemma seq_bind: "seq m f = Option.bind m (\<lambda>r. case r of Returns x \<Rightarrow> f x | Panics \<Rightarrow> panic)"
  by (cases "(m, f)" rule: seq.cases) auto

lemma outcome_case_mono [partial_function_mono]:
  assumes "\<And>x. mono_option (\<lambda>f. C x f)"
  shows "mono_option (\<lambda>f. case r of Returns x \<Rightarrow> C x f | Panics \<Rightarrow> panic)"
  using assms by (cases r) (simp_all add: option.const_mono)

lemma seq_mono [partial_function_mono]:
  assumes "mono_option (\<lambda>f. B f)" "\<And>x. mono_option (\<lambda>f. C x f)"
  shows "mono_option (\<lambda>f. seq (B f) (\<lambda>x. C x f))"
  unfolding seq_bind by (intro bind_mono outcome_case_mono assms)

lemma unat_less_32: "unat (x :: u32) < 4294967296"
  using unsigned_less [of x, where ?'a = nat] by simp

lemma unat_plus_32:
  fixes x y :: u32
  assumes "unat x + unat y < 4294967296"
  shows "unat (x + y) = unat x + unat y"
  using assms by (simp add: unat_word_ariths)

lemma unat_mult_32:
  fixes x y :: u32
  assumes "unat x * unat y < 4294967296"
  shows "unat (x * y) = unat x * unat y"
  using assms by (simp add: unat_word_ariths)

lemma unat_minus_32:
  fixes x y :: u32
  assumes "y \<le> x"
  shows "unat (x - y) = unat x - unat y"
  using assms by (simp add: unat_sub)

lemma uint_inc:
  fixes l n :: "'a::len word"
  assumes "l < n"
  shows "uint (l + 1) = uint l + 1"
proof -
  have "uint l < uint n" "uint n < 2 ^ LENGTH('a)" using assms by (simp_all add: word_less_def)
  then have "uint l + 1 < 2 ^ LENGTH('a)" by linarith
  then show ?thesis using assms by (simp add: uint_word_ariths mod_pos_pos_trivial word_less_def)
qed

lemma list_update_in_set_iff:
  "i < length xs \<Longrightarrow> set (xs[i := x]) = insert x (set (take i xs) \<union> set (drop (Suc i) xs))"
  by (simp add: upd_conv_take_nth_drop Un_commute)

end
