(* ===== verification/Linked_List.thy ===== *)
theory Linked_List
  imports Prelude
begin

text \<open>
  The circular doubly linked list of \<open>kernel/include/list.h\<close> on an explicit pointer heap.

  A heap maps addresses to \<open>ListHead\<close> structures. Every operation performs the assignments of the C
  function in their order, each one reading the heap the previous one wrote, so aliasing between
  the arguments is part of the model. The representation relation \<open>ListRep h head xs\<close> says that the
  ring starting at \<open>head\<close> holds exactly the entries \<open>xs\<close> in order, with consistent back pointers.

  The locale \<open>intrusive_list\<close> is the contract the rest of the kernel relies on (a list with
  constant-time insertion at both ends and constant-time removal of a known entry); it is
  interpreted on the pointer operations at the end. The kernel's users of the list (scheduler, wait
  queues, timers, regions, slabs) are modelled on the represented lists.
\<close>

section \<open>Structure and operations\<close>

record 'a ListHead =
  nxt :: 'a
  prv :: 'a

type_synonym 'a heap = "'a \<Rightarrow> 'a ListHead"

definition set_nxt :: "'a \<Rightarrow> 'a \<Rightarrow> 'a heap \<Rightarrow> 'a heap" where
  "set_nxt p v h = h(p := (h p)\<lparr>nxt := v\<rparr>)"

definition set_prv :: "'a \<Rightarrow> 'a \<Rightarrow> 'a heap \<Rightarrow> 'a heap" where
  "set_prv p v h = h(p := (h p)\<lparr>prv := v\<rparr>)"

definition ListHeadInit :: "'a \<Rightarrow> 'a heap \<Rightarrow> 'a heap" where
  "ListHeadInit head h = set_prv head head (set_nxt head head h)"

definition ListEmpty :: "'a \<Rightarrow> 'a heap \<Rightarrow> bool" where
  "ListEmpty head h \<longleftrightarrow> nxt (h head) = head"

definition ListAddBefore :: "'a \<Rightarrow> 'a \<Rightarrow> 'a heap \<Rightarrow> 'a heap" where
  "ListAddBefore newItem item h0 =
     (let h1 = set_nxt newItem item h0;
          h2 = set_prv newItem (prv (h1 item)) h1;
          h3 = set_nxt (prv (h2 item)) newItem h2
      in set_prv item newItem h3)"

definition ListAddAfter :: "'a \<Rightarrow> 'a \<Rightarrow> 'a heap \<Rightarrow> 'a heap" where
  "ListAddAfter newItem item h0 =
     (let h1 = set_prv newItem item h0;
          h2 = set_nxt newItem (nxt (h1 item)) h1;
          h3 = set_prv (nxt (h2 item)) newItem h2
      in set_nxt item newItem h3)"

definition ListHeadAddFirst :: "'a \<Rightarrow> 'a \<Rightarrow> 'a heap \<Rightarrow> 'a heap" where
  "ListHeadAddFirst newItem head h = ListAddAfter newItem head h"

definition ListHeadAddLast :: "'a \<Rightarrow> 'a \<Rightarrow> 'a heap \<Rightarrow> 'a heap" where
  "ListHeadAddLast newItem head h = ListAddBefore newItem head h"

definition ListDelete :: "'a \<Rightarrow> 'a heap \<Rightarrow> 'a heap" where
  "ListDelete item h0 =
     (let h1 = set_nxt (prv (h0 item)) (nxt (h0 item)) h0
      in set_prv (nxt (h1 item)) (prv (h1 item)) h1)"

definition ListDeleteInit :: "'a \<Rightarrow> 'a heap \<Rightarrow> 'a heap" where
  "ListDeleteInit item h = ListHeadInit item (ListDelete item h)"

text \<open>
  The iteration macros. \<open>ListForEachEntry\<close> starts at \<open>head->next\<close> and follows \<open>next\<close> until it is
  back at the head, so on a broken ring it may run forever: the fuel bounds the number of
  iterations and \<open>None\<close> is a loop that has not finished. The loop body is any function that does
  not touch the ring; the macro's result is the sequence of entries it visits.
\<close>

fun walk_next :: "nat \<Rightarrow> 'a heap \<Rightarrow> 'a \<Rightarrow> 'a \<Rightarrow> 'a list option" where
  "walk_next 0 h head var = None"
| "walk_next (Suc fuel) h head var =
     (if var = head then Some []
      else map_option (\<lambda>xs. var # xs) (walk_next fuel h head (nxt (h var))))"

fun walk_prev :: "nat \<Rightarrow> 'a heap \<Rightarrow> 'a \<Rightarrow> 'a \<Rightarrow> 'a list option" where
  "walk_prev 0 h head var = None"
| "walk_prev (Suc fuel) h head var =
     (if var = head then Some []
      else map_option (\<lambda>xs. var # xs) (walk_prev fuel h head (prv (h var))))"

definition ListForEachEntry :: "nat \<Rightarrow> 'a heap \<Rightarrow> 'a \<Rightarrow> 'a list option" where
  "ListForEachEntry fuel h head = walk_next fuel h head (nxt (h head))"

definition ListForEachEntryReverse :: "nat \<Rightarrow> 'a heap \<Rightarrow> 'a \<Rightarrow> 'a list option" where
  "ListForEachEntryReverse fuel h head = walk_prev fuel h head (prv (h head))"

text \<open>
  \<open>ListForEachEntrySafe\<close> fetches the successor before the body runs; here with the body the
  callers use, which removes the current entry with \<open>ListDeleteInit\<close>. The result is the entries
  visited and the heap left behind.
\<close>

fun walk_safe_delete ::
  "nat \<Rightarrow> 'a heap \<Rightarrow> 'a \<Rightarrow> 'a \<Rightarrow> 'a \<Rightarrow> ('a list \<times> 'a heap) option" where
  "walk_safe_delete 0 h head var tmpVar = None"
| "walk_safe_delete (Suc fuel) h head var tmpVar =
     (if var = head then Some ([], h)
      else let h' = ListDeleteInit var h in
        map_option (\<lambda>(xs, h''). (var # xs, h''))
          (walk_safe_delete fuel h' head tmpVar (nxt (h' tmpVar))))"

definition ListForEachEntrySafe :: "nat \<Rightarrow> 'a heap \<Rightarrow> 'a \<Rightarrow> ('a list \<times> 'a heap) option" where
  "ListForEachEntrySafe fuel h head =
     walk_safe_delete fuel h head (nxt (h head)) (nxt (h (nxt (h head))))"

fun walk_safe_delete_back ::
  "nat \<Rightarrow> 'a heap \<Rightarrow> 'a \<Rightarrow> 'a \<Rightarrow> 'a \<Rightarrow> ('a list \<times> 'a heap) option" where
  "walk_safe_delete_back 0 h head var tmpVar = None"
| "walk_safe_delete_back (Suc fuel) h head var tmpVar =
     (if var = head then Some ([], h)
      else let h' = ListDeleteInit var h in
        map_option (\<lambda>(xs, h''). (var # xs, h''))
          (walk_safe_delete_back fuel h' head tmpVar (prv (h' tmpVar))))"

definition ListForEachEntrySafeReverse :: "nat \<Rightarrow> 'a heap \<Rightarrow> 'a \<Rightarrow> ('a list \<times> 'a heap) option" where
  "ListForEachEntrySafeReverse fuel h head =
     walk_safe_delete_back fuel h head (prv (h head)) (prv (h (prv (h head))))"

section \<open>Representation\<close>

text \<open>\<open>Seg h x ys z\<close>: from \<open>x\<close>, the forward pointers visit \<open>ys\<close> and then \<open>z\<close>, and every link is
  matched by a back pointer.\<close>

fun Seg :: "'a heap \<Rightarrow> 'a \<Rightarrow> 'a list \<Rightarrow> 'a \<Rightarrow> bool" where
  "Seg h x [] z \<longleftrightarrow> nxt (h x) = z \<and> prv (h z) = x"
| "Seg h x (y # ys) z \<longleftrightarrow> nxt (h x) = y \<and> prv (h y) = x \<and> Seg h y ys z"

definition ListRep :: "'a heap \<Rightarrow> 'a \<Rightarrow> 'a list \<Rightarrow> bool" where
  "ListRep h head xs \<longleftrightarrow> Seg h head xs head \<and> distinct (head # xs)"

section \<open>Segments\<close>

lemma set_nxt_sel [heap_simps]:
  "nxt (set_nxt p v h q) = (if q = p then v else nxt (h q))" "prv (set_nxt p v h q) = prv (h q)"
  by (simp_all add: set_nxt_def)

lemma set_prv_sel [heap_simps]:
  "prv (set_prv p v h q) = (if q = p then v else prv (h q))" "nxt (set_prv p v h q) = nxt (h q)"
  by (simp_all add: set_prv_def)

lemma Seg_append:
  "Seg h x (as @ y # bs) z \<longleftrightarrow> Seg h x as y \<and> Seg h y bs z"
  by (induction as arbitrary: x) auto

text \<open>The only cells a segment depends on: the \<open>next\<close> of all but the last, the \<open>prev\<close> of all but
  the first.\<close>

lemma Seg_cong:
  assumes "\<And>a. a \<in> set (x # ys) \<Longrightarrow> nxt (h' a) = nxt (h a)"
    and "\<And>a. a \<in> set (ys @ [z]) \<Longrightarrow> prv (h' a) = prv (h a)"
  shows "Seg h' x ys z = Seg h x ys z"
  using assms by (induction ys arbitrary: x) auto

lemma Seg_last: "Seg h x ys z \<Longrightarrow> prv (h z) = last (x # ys)"
  by (induction ys arbitrary: x) auto

lemma Seg_hd: "Seg h x ys z \<Longrightarrow> nxt (h x) = hd (ys @ [z])"
  by (cases ys) auto

lemma Seg_unique:
  "Seg h x ys z \<Longrightarrow> Seg h x ys' z \<Longrightarrow> z \<notin> set ys \<Longrightarrow> z \<notin> set ys' \<Longrightarrow> ys = ys'"
proof (induction ys arbitrary: x ys')
  case Nil
  then show ?case by (cases ys') auto
next
  case (Cons y ys)
  then show ?case by (cases ys') auto
qed

section \<open>Fields after each operation\<close>

lemma ListHeadInit_sel [heap_simps]:
  "nxt (ListHeadInit p h q) = (if q = p then p else nxt (h q))"
  "prv (ListHeadInit p h q) = (if q = p then p else prv (h q))"
  by (simp_all add: ListHeadInit_def heap_simps)

lemma ListAddBefore_sel [heap_simps]:
  assumes "newItem \<noteq> item" "prv (h item) \<noteq> newItem"
  shows "nxt (ListAddBefore newItem item h q) =
           (if q = prv (h item) then newItem else if q = newItem then item else nxt (h q))"
    and "prv (ListAddBefore newItem item h q) =
           (if q = item then newItem else if q = newItem then prv (h item) else prv (h q))"
  using assms by (auto simp: ListAddBefore_def Let_def heap_simps)

lemma ListAddAfter_sel [heap_simps]:
  assumes "newItem \<noteq> item" "nxt (h item) \<noteq> newItem"
  shows "nxt (ListAddAfter newItem item h q) =
           (if q = item then newItem else if q = newItem then nxt (h item) else nxt (h q))"
    and "prv (ListAddAfter newItem item h q) =
           (if q = nxt (h item) then newItem else if q = newItem then item else prv (h q))"
  using assms by (auto simp: ListAddAfter_def Let_def heap_simps)

lemma ListDelete_sel [heap_simps]:
  assumes "prv (h item) \<noteq> item"
  shows "nxt (ListDelete item h q) = (if q = prv (h item) then nxt (h item) else nxt (h q))"
    and "prv (ListDelete item h q) = (if q = nxt (h item) then prv (h item) else prv (h q))"
  using assms by (auto simp: ListDelete_def Let_def heap_simps)


section \<open>The operations on represented lists\<close>

lemma ListRep_empty: "ListRep h head [] \<longleftrightarrow> nxt (h head) = head \<and> prv (h head) = head"
  by (simp add: ListRep_def)

lemma ListRep_unique: "ListRep h head xs \<Longrightarrow> ListRep h head ys \<Longrightarrow> xs = ys"
  by (auto simp: ListRep_def intro: Seg_unique)

lemma ListRep_ListHeadInit: "ListRep (ListHeadInit head h) head []"
  by (simp add: ListRep_def heap_simps)

lemma ListRep_ListEmpty: "ListRep h head xs \<Longrightarrow> ListEmpty head h \<longleftrightarrow> xs = []"
  by (cases xs) (auto simp: ListRep_def ListEmpty_def)

lemma ListRep_frame:
  assumes "ListRep h head xs"
    and "\<And>a. a \<in> set (head # xs) \<Longrightarrow> h' a = h a"
  shows "ListRep h' head xs"
  using assms Seg_cong [of head xs h' h head] by (auto simp: ListRep_def)

text \<open>Every operation redirects the end of a prefix of the ring to another cell.\<close>

lemma Seg_retarget:
  assumes "Seg h x as y" "distinct (x # as)" "p = last (x # as)"
    and "nxt (h' p) = w" "prv (h' w) = p"
    and "\<And>a. a \<in> insert x (set as) \<Longrightarrow> a \<noteq> p \<Longrightarrow> nxt (h' a) = nxt (h a)"
    and "\<And>a. a \<in> set as \<Longrightarrow> prv (h' a) = prv (h a)"
  shows "Seg h' x as w"
  using assms
proof (induction as arbitrary: x)
  case Nil
  then show ?case by simp
next
  case (Cons a as)
  have "Seg h' a as w" using Cons.prems by (intro Cons.IH) auto
  moreover have "x \<noteq> p" using Cons.prems(2,3) by auto
  then have "nxt (h' x) = a" "prv (h' a) = x" using Cons.prems by auto
  ultimately show ?case by simp
qed

lemma last_in_Cons: "last (x # xs) \<in> insert x (set xs)"
  by auto

lemma ListRep_split:
  assumes "ListRep h head (as @ item # bs)"
  obtains p q where "Seg h head as item" "Seg h item bs head" "distinct (head # as @ item # bs)"
    and "prv (h item) = p" "p = last (head # as)" "p \<in> insert head (set as)"
    and "nxt (h item) = q" "q = hd (bs @ [head])" "q \<in> insert head (set bs)"
proof -
  have segs: "Seg h head as item" "Seg h item bs head" "distinct (head # as @ item # bs)"
    using assms by (auto simp: ListRep_def Seg_append)
  have q: "hd (bs @ [head]) \<in> insert head (set bs)" by (cases bs) auto
  show ?thesis
    by (rule that [OF segs Seg_last [OF segs(1)] refl last_in_Cons Seg_hd [OF segs(2)] refl q])
qed

lemma ListRep_ListAddBefore:
  assumes rep: "ListRep h head (as @ item # bs)" and new: "n \<notin> set (head # as @ item # bs)"
  shows "ListRep (ListAddBefore n item h) head (as @ n # item # bs)"
proof -
  let ?h' = "ListAddBefore n item h"
  obtain p q where parts: "Seg h head as item" "Seg h item bs head"
      "distinct (head # as @ item # bs)" "prv (h item) = p" "p = last (head # as)"
      "p \<in> insert head (set as)"
    by (rule ListRep_split [OF rep]) blast
  have fresh: "n \<noteq> item" "prv (h item) \<noteq> n" using new parts(4,6) by auto
  note sel = ListAddBefore_sel [of n item h, OF fresh, unfolded parts(4)]
  have "Seg ?h' head as n"
    using parts(3,6) new by (intro Seg_retarget [OF parts(1) _ parts(5)]) (auto simp: sel)
  moreover have "Seg ?h' item bs head = Seg h item bs head"
    using parts(3,6) new by (intro Seg_cong) (auto simp: sel)
  moreover have "nxt (?h' n) = item" "prv (?h' item) = n" using parts(6) new by (auto simp: sel)
  ultimately show ?thesis using parts(2,3) new by (auto simp: ListRep_def Seg_append)
qed

lemma ListRep_ListHeadAddLast:
  assumes rep: "ListRep h head xs" and new: "n \<notin> set (head # xs)"
  shows "ListRep (ListHeadAddLast n head h) head (xs @ [n])"
proof -
  let ?h' = "ListHeadAddLast n head h"
  have seg: "Seg h head xs head" and dist: "distinct (head # xs)"
    using rep by (auto simp: ListRep_def)
  obtain p where p: "prv (h head) = p" "p = last (head # xs)" "p \<in> insert head (set xs)"
    using Seg_last [OF seg] last_in_Cons [of head xs] by simp
  have fresh: "n \<noteq> head" "prv (h head) \<noteq> n" using new p(1,3) by auto
  note sel = ListAddBefore_sel [of n head h, OF fresh, unfolded p(1), folded ListHeadAddLast_def]
  have "Seg ?h' head xs n"
    using dist new p(3) by (intro Seg_retarget [OF seg dist p(2)]) (auto simp: sel)
  moreover have "nxt (?h' n) = head" "prv (?h' head) = n" using p(3) new by (auto simp: sel)
  ultimately show ?thesis using dist new by (auto simp: ListRep_def Seg_append)
qed

text \<open>On a consistent ring, inserting after an entry is inserting before its successor.\<close>

lemma ListAddAfter_conv:
  assumes "prv (h (nxt (h item))) = item" "n \<noteq> item" "nxt (h item) \<noteq> n"
  shows "ListAddAfter n item h = ListAddBefore n (nxt (h item)) h"
  using assms by (intro ext ListHead.equality) (auto simp: heap_simps)

lemma ListRep_ListHeadAddFirst:
  assumes rep: "ListRep h head xs" and new: "n \<notin> set (head # xs)"
  shows "ListRep (ListHeadAddFirst n head h) head (n # xs)"
proof (cases xs)
  case Nil
  then have "ListAddAfter n head h = ListHeadAddLast n head h"
    using rep new ListAddAfter_conv [of h head n]
    by (simp add: ListRep_empty ListHeadAddLast_def)
  then show ?thesis
    using ListRep_ListHeadAddLast [OF rep new] Nil by (simp add: ListHeadAddFirst_def)
next
  case (Cons x ys)
  then have "ListAddAfter n head h = ListAddBefore n x h"
    using rep new ListAddAfter_conv [of h head n] by (auto simp: ListRep_def)
  then show ?thesis
    using ListRep_ListAddBefore [of h head "[]" x ys n] rep new Cons
    by (simp add: ListHeadAddFirst_def)
qed

lemma ListRep_ListDelete:
  assumes rep: "ListRep h head (as @ item # bs)"
  shows "ListRep (ListDelete item h) head (as @ bs)"
proof -
  let ?h' = "ListDelete item h"
  obtain p q where parts: "Seg h head as item" "Seg h item bs head"
      "distinct (head # as @ item # bs)" "prv (h item) = p" "p = last (head # as)"
      "p \<in> insert head (set as)" "nxt (h item) = q" "q = hd (bs @ [head])"
      "q \<in> insert head (set bs)"
    by (rule ListRep_split [OF rep])
  have "prv (h item) \<noteq> item" using parts(3,4,6) by auto
  note sel = ListDelete_sel [of h item, OF this, unfolded parts(4,7)]
  have pre: "Seg ?h' head as q"
    using parts(3,9) by (intro Seg_retarget [OF parts(1) _ parts(5)]) (auto simp: sel)
  show ?thesis
  proof (cases bs)
    case Nil
    then show ?thesis using pre parts(3,8) by (simp add: ListRep_def)
  next
    case (Cons b bs')
    have "Seg ?h' b bs' head = Seg h b bs' head"
      using parts(3,6,8) Cons by (intro Seg_cong) (auto simp: sel)
    then show ?thesis using pre parts(2,3,8) Cons by (auto simp: ListRep_def Seg_append)
  qed
qed

lemma ListDelete_other:
  assumes "ListRep h head (as @ item # bs)" "a \<notin> set (head # as @ bs)"
  shows "ListDelete item h a = h a"
proof -
  obtain p q where parts: "distinct (head # as @ item # bs)" "prv (h item) = p"
      "p \<in> insert head (set as)" "nxt (h item) = q" "q \<in> insert head (set bs)"
    by (rule ListRep_split [OF assms(1)]) blast
  then have "a \<noteq> prv (h item)" "a \<noteq> nxt (h item)" "prv (h item) \<noteq> item"
    using assms(2) by auto
  then show ?thesis by (intro ListHead.equality) (simp_all add: heap_simps)
qed

lemma ListRep_ListDeleteInit:
  assumes rep: "ListRep h head (as @ item # bs)"
  shows "ListRep (ListDeleteInit item h) head (as @ bs)"
    and "ListRep (ListDeleteInit item h) item []"
proof -
  have fresh: "item \<notin> set (head # as @ bs)" using rep by (auto simp: ListRep_def)
  have "ListHeadInit item h' a = h' a" if "a \<noteq> item" for a h'
    using that by (simp add: ListHeadInit_def set_nxt_def set_prv_def)
  with fresh show "ListRep (ListDeleteInit item h) head (as @ bs)"
    unfolding ListDeleteInit_def by (intro ListRep_frame [OF ListRep_ListDelete [OF rep]]) metis
  show "ListRep (ListDeleteInit item h) item []"
    by (simp add: ListDeleteInit_def ListRep_ListHeadInit)
qed

section \<open>Iteration\<close>

lemma walk_next_Seg:
  assumes "Seg h x ys head" "head \<notin> set ys" "length ys < fuel"
  shows "walk_next fuel h head (nxt (h x)) = Some ys"
  using assms
proof (induction ys arbitrary: x fuel)
  case Nil
  then show ?case by (cases fuel) auto
next
  case (Cons y ys)
  then show ?case by (cases fuel) auto
qed

lemma walk_prev_Seg:
  assumes "Seg h head ys x" "head \<notin> set ys" "length ys < fuel"
  shows "walk_prev fuel h head (prv (h x)) = Some (rev ys)"
  using assms
proof (induction ys arbitrary: x fuel rule: rev_induct)
  case Nil
  then show ?case by (cases fuel) auto
next
  case (snoc y ys)
  then show ?case by (cases fuel) (auto simp: Seg_append)
qed

lemma walk_safe_delete_Seg:
  assumes "ListRep h head ys" "length ys < fuel"
  shows "\<exists>h'. walk_safe_delete fuel h head (nxt (h head)) (nxt (h (nxt (h head)))) = Some (ys, h')
           \<and> ListRep h' head [] \<and> (\<forall>a. a \<notin> set (head # ys) \<longrightarrow> h' a = h a)"
  using assms
proof (induction ys arbitrary: h fuel)
  case Nil
  then show ?case by (cases fuel) (auto simp: ListRep_empty)
next
  case (Cons y ys)
  obtain fuel' where fuel: "fuel = Suc fuel'" "length ys < fuel'"
    using Cons.prems(2) by (cases fuel) auto
  let ?h = "ListDeleteInit y h"
  have parts: "nxt (h head) = y" "nxt (h y) = hd (ys @ [head])" "head \<noteq> y"
    using Cons.prems(1) Seg_hd by (auto simp: ListRep_def)
  have rep': "ListRep ?h head ys"
    using ListRep_ListDeleteInit(1) [of h head "[]" y ys] Cons.prems(1) by simp
  have second: "nxt (h y) = nxt (?h head)"
    using parts(2) Seg_hd [of ?h head ys head] rep' by (simp add: ListRep_def)
  obtain h' where h': "walk_safe_delete fuel' ?h head (nxt (?h head)) (nxt (?h (nxt (?h head))))
      = Some (ys, h')" "ListRep h' head []" "\<forall>a. a \<notin> set (head # ys) \<longrightarrow> h' a = ?h a"
    using Cons.IH [OF rep' fuel(2)] by blast
  have "\<forall>a. a \<notin> set (head # y # ys) \<longrightarrow> h' a = h a"
    using h'(3) ListDelete_other [of h head "[]" y ys] Cons.prems(1)
    by (auto simp: ListDeleteInit_def ListHeadInit_def set_nxt_def set_prv_def)
  then show ?case
    using h'(1,2) parts(3) by (auto simp: fuel parts(1) second)
qed

text \<open>A ring read backwards: the reverse macros are the forward ones on the heap with the two pointers exchanged.\<close>

definition mirror :: "'a heap \<Rightarrow> 'a heap" where
  "mirror h a = \<lparr>nxt = prv (h a), prv = nxt (h a)\<rparr>"

lemma mirror_sel [simp]: "nxt (mirror h a) = prv (h a)" "prv (mirror h a) = nxt (h a)" "mirror (mirror h) = h"
  by (simp_all add: mirror_def fun_eq_iff)

lemma mirror_Seg: "Seg (mirror h) z (rev xs) x \<longleftrightarrow> Seg h x xs z"
  by (induction xs arbitrary: x) (auto simp: Seg_append)

lemma mirror_ListRep: "ListRep (mirror h) head (rev xs) \<longleftrightarrow> ListRep h head xs"
  by (simp add: ListRep_def mirror_Seg)

lemma mirror_ListDeleteInit: "ListDeleteInit item (mirror h) = mirror (ListDeleteInit item h)"
  by (auto simp: fun_eq_iff mirror_def ListDeleteInit_def ListHeadInit_def ListDelete_def Let_def set_nxt_def set_prv_def)

lemma walk_back_mirror:
  "walk_safe_delete_back fuel h head var tmpVar =
     map_option (\<lambda>(xs, h'). (xs, mirror h')) (walk_safe_delete fuel (mirror h) head var tmpVar)"
  by (induction fuel arbitrary: h var tmpVar) (auto simp: mirror_ListDeleteInit Let_def option.map_comp comp_def split_def)

lemma walk_safe_delete_back_Seg:
  assumes "ListRep h head ys" "length ys < fuel"
  shows "\<exists>h'. ListForEachEntrySafeReverse fuel h head = Some (rev ys, h') \<and> ListRep h' head []"
  using walk_safe_delete_Seg [of "mirror h" head "rev ys" fuel] assms mirror_ListRep [of _ head "[]"]
  by (auto simp: ListForEachEntrySafeReverse_def walk_back_mirror mirror_ListRep)

section \<open>The list interface\<close>

text \<open>
  What the users of the list rely on. \<open>rep h l xs\<close> reads the list headed by \<open>l\<close>; an entry is
  inserted only when it is on no list. The lemmas proved from the contract are the queue
  disciplines the kernel uses: first-in first-out for the scheduler and the wait queues.
\<close>

locale intrusive_list =
  fixes rep :: "'h \<Rightarrow> 'a \<Rightarrow> 'a list \<Rightarrow> bool"
    and init :: "'a \<Rightarrow> 'h \<Rightarrow> 'h"
    and empty :: "'a \<Rightarrow> 'h \<Rightarrow> bool"
    and first :: "'h \<Rightarrow> 'a \<Rightarrow> 'a"
    and add_first :: "'a \<Rightarrow> 'a \<Rightarrow> 'h \<Rightarrow> 'h"
    and add_last :: "'a \<Rightarrow> 'a \<Rightarrow> 'h \<Rightarrow> 'h"
    and delete :: "'a \<Rightarrow> 'h \<Rightarrow> 'h"
  assumes rep_init: "rep (init l h) l []"
    and rep_unique: "rep h l xs \<Longrightarrow> rep h l ys \<Longrightarrow> xs = ys"
    and rep_empty: "rep h l xs \<Longrightarrow> empty l h \<longleftrightarrow> xs = []"
    and rep_first: "rep h l (x # xs) \<Longrightarrow> first h l = x"
    and rep_add_first: "rep h l xs \<Longrightarrow> n \<notin> set (l # xs) \<Longrightarrow> rep (add_first n l h) l (n # xs)"
    and rep_add_last: "rep h l xs \<Longrightarrow> n \<notin> set (l # xs) \<Longrightarrow> rep (add_last n l h) l (xs @ [n])"
    and rep_delete: "rep h l (xs @ n # ys) \<Longrightarrow> rep (delete n h) l (xs @ ys)"
    and rep_distinct: "rep h l xs \<Longrightarrow> distinct (l # xs)"
begin

lemma fifo_pop: "rep h l (x # xs) \<Longrightarrow> first h l = x \<and> rep (delete (first h l) h) l xs"
  using rep_delete [of h l "[]" x xs] rep_first by simp

lemma push_pop: "rep h l xs \<Longrightarrow> n \<notin> set (l # xs) \<Longrightarrow> rep (delete n (add_last n l h)) l xs"
  using rep_add_last [of h l xs n] rep_delete [of _ l xs n "[]"] by simp

fun add_all :: "'a list \<Rightarrow> 'a \<Rightarrow> 'h \<Rightarrow> 'h" where
  "add_all [] l h = h"
| "add_all (n # ns) l h = add_all ns l (add_last n l h)"

fun pop_all :: "nat \<Rightarrow> 'a \<Rightarrow> 'h \<Rightarrow> 'a list" where
  "pop_all 0 l h = []"
| "pop_all (Suc k) l h = (if empty l h then [] else first h l # pop_all k l (delete (first h l) h))"

lemma rep_add_all:
  "rep h l xs \<Longrightarrow> distinct ns \<Longrightarrow> set ns \<inter> set (l # xs) = {} \<Longrightarrow> rep (add_all ns l h) l (xs @ ns)"
proof (induction ns arbitrary: h xs)
  case Nil
  then show ?case by simp
next
  case (Cons n ns)
  have "rep (add_last n l h) l (xs @ [n])" using Cons.prems by (intro rep_add_last) auto
  then show ?case using Cons.IH [of "add_last n l h" "xs @ [n]"] Cons.prems by auto
qed

lemma pop_all_rep: "rep h l xs \<Longrightarrow> length xs \<le> k \<Longrightarrow> pop_all k l h = xs"
proof (induction k arbitrary: h xs)
  case 0
  then show ?case by simp
next
  case (Suc k)
  then show ?case by (cases xs) (auto simp: rep_empty dest: fifo_pop)
qed

text \<open>Entries leave in the order they were added.\<close>

lemma fifo:
  "distinct ns \<Longrightarrow> l \<notin> set ns \<Longrightarrow> pop_all (length ns) l (add_all ns l (init l h)) = ns"
  using pop_all_rep rep_add_all [OF rep_init, of ns] by auto

end

interpretation ring: intrusive_list ListRep ListHeadInit ListEmpty "\<lambda>h l. nxt (h l)"
  ListHeadAddFirst ListHeadAddLast ListDelete
  by unfold_locales
    (auto simp: ListRep_ListHeadInit ListRep_ListEmpty ListRep_ListHeadAddFirst
      ListRep_ListHeadAddLast ListRep_ListDelete ListRep_unique,
     auto simp: ListRep_def)

section \<open>Properties\<close>

text \<open>
  (C2) The list primitives implement lists: on a well-formed ring, inserting before any entry, at the
  front or at the back, and deleting any entry have exactly the effect of the corresponding list
  operation; deleting with \<open>ListDeleteInit\<close> also leaves the removed entry as an empty ring.
\<close>

theorem list_operations_refine:
  assumes "ListRep h head (as @ x # bs)" "n \<notin> set (head # as @ x # bs)"
  shows "ListRep (ListAddBefore n x h) head (as @ n # x # bs)
    \<and> ListRep (ListHeadAddLast n head h) head (as @ x # bs @ [n])
    \<and> ListRep (ListHeadAddFirst n head h) head (n # as @ x # bs)
    \<and> ListRep (ListDelete x h) head (as @ bs)
    \<and> ListRep (ListDeleteInit x h) head (as @ bs) \<and> ListRep (ListDeleteInit x h) x []"
  using assms ListRep_ListHeadAddLast [of h head "as @ x # bs" n]
    ListRep_ListHeadAddFirst [of h head "as @ x # bs" n]
  by (simp add: ListRep_ListAddBefore ListRep_ListDelete ListRep_ListDeleteInit)

definition two_ring :: "nat heap" where
  "two_ring a = \<lparr>nxt = 1 - a, prv = 1 - a\<rparr>"

lemma ListRep_two_ring: "ListRep two_ring 0 [1]"
  by (simp add: ListRep_def two_ring_def)

theorem list_operations_refine_witness:
  "ListRep (ListHeadAddLast 2 0 two_ring) 0 [1, 2] \<and> ListRep (ListDelete 1 two_ring) 0 []"
  using list_operations_refine [of two_ring 0 "[]" 1 "[]" 2] ListRep_two_ring by simp

text \<open>
  Iterating over a well-formed ring terminates within one step more than its length and visits
  every entry once, in order (in reverse order for the reverse macros); the deletion-safe macros
  visit every entry too while removing each one, and leave an empty ring.
\<close>

theorem list_iteration_complete:
  assumes "ListRep h head xs" "length xs < fuel"
  shows "ListForEachEntry fuel h head = Some xs \<and> ListForEachEntryReverse fuel h head = Some (rev xs)
    \<and> (\<exists>h'. ListForEachEntrySafe fuel h head = Some (xs, h') \<and> ListRep h' head [])
    \<and> (\<exists>h'. ListForEachEntrySafeReverse fuel h head = Some (rev xs, h') \<and> ListRep h' head [])"
  using assms walk_safe_delete_back_Seg [OF assms] walk_next_Seg [of h head xs head fuel] walk_prev_Seg [of h head xs head fuel]
    walk_safe_delete_Seg [OF assms]
  by (auto simp: ListForEachEntry_def ListForEachEntryReverse_def ListForEachEntrySafe_def ListRep_def)

theorem list_iteration_complete_witness: "ListForEachEntry 2 two_ring 0 = Some [1]"
  using list_iteration_complete [OF ListRep_two_ring, of 2] by simp

text \<open>
  A list used as a queue is first-in first-out: entries added at the back of a freshly initialised
  list leave from the front in the order they were added.
\<close>

theorem list_fifo:
  assumes "distinct ns" "l \<notin> set ns"
  shows "ring.pop_all (length ns) l (ring.add_all ns l (ListHeadInit l h)) = ns"
  using assms by (rule ring.fifo)

theorem list_fifo_witness:
  "ring.pop_all (length [5, 3, 8 :: nat]) 0 (ring.add_all [5, 3, 8] 0 (ListHeadInit 0 two_ring)) = [5, 3, 8]"
  by (rule list_fifo) simp_all

end
