(* ===== verification/Mem_Utils.thy ===== *)
theory Mem_Utils
  imports Prelude
begin

text \<open>
  The memory and string routines of \<open>kernel/src/utils.c\<close> on a byte-addressed 32-bit memory.
  Addresses wrap at \<open>2\<^sup>3\<^sup>2\<close> as pointer arithmetic does on the target; \<open>char\<close> is signed on x86, so
  comparisons of characters are signed and \<open>(char) value\<close> sign-extends when it is widened again.
  Each C loop is a recursive function over the remaining length.
\<close>

section \<open>Memory\<close>

type_synonym mem = "u32 \<Rightarrow> u8"

definition bytes :: "mem \<Rightarrow> u32 \<Rightarrow> nat \<Rightarrow> u8 list" where
  "bytes m p n = map (\<lambda>i. m (p + of_nat i)) [0..<n]"

text \<open>A little-endian store of an \<open>unsigned int\<close>.\<close>

definition store32 :: "u32 \<Rightarrow> u32 \<Rightarrow> mem \<Rightarrow> mem" where
  "store32 p w m = m(p := ucast w, p + 1 := ucast (drop_bit 8 w),
     p + 2 := ucast (drop_bit 16 w), p + 3 := ucast (drop_bit 24 w))"

section \<open>memset\<close>

fun fill_bytes :: "nat \<Rightarrow> u32 \<Rightarrow> u8 \<Rightarrow> mem \<Rightarrow> mem" where
  "fill_bytes 0 p v m = m"
| "fill_bytes (Suc n) p v m = fill_bytes n (p + 1) v (m(p := v))"

fun fill_words :: "nat \<Rightarrow> u32 \<Rightarrow> u32 \<Rightarrow> mem \<Rightarrow> mem" where
  "fill_words 0 p w m = m"
| "fill_words (Suc n) p w m = fill_words n (p + 4) w (store32 p w m)"

definition memset :: "u32 \<Rightarrow> u32 \<Rightarrow> nat \<Rightarrow> mem \<Rightarrow> mem" where
  "memset ptr value0 length0 m0 =
     (let value = (scast (ucast value0 :: u8) :: u32) in
      if length0 \<ge> 8 then
        (let lead = min (unat ptr mod 4) length0;
             m1 = fill_bytes lead ptr (ucast value) m0;
             length1 = length0 - lead;
             valueLong = value OR push_bit 8 value OR push_bit 16 value OR push_bit 24 value;
             p1 = ptr + of_nat lead;
             m2 = fill_words (length1 div 4) p1 valueLong m1;
             p2 = p1 + of_nat (4 * (length1 div 4))
         in fill_bytes (length1 mod 4) p2 (ucast value) m2)
      else fill_bytes length0 ptr (ucast value) m0)"

section \<open>memcpy and memmove\<close>

fun copy_up :: "nat \<Rightarrow> u32 \<Rightarrow> u32 \<Rightarrow> mem \<Rightarrow> mem" where
  "copy_up 0 d s m = m"
| "copy_up (Suc n) d s m = copy_up n (d + 1) (s + 1) (m(d := m s))"

fun copy_down :: "nat \<Rightarrow> u32 \<Rightarrow> u32 \<Rightarrow> mem \<Rightarrow> mem" where
  "copy_down 0 d s m = m"
| "copy_down (Suc n) d s m = copy_down n (d - 1) (s - 1) (m(d - 1 := m (s - 1)))"

definition memcpy :: "u32 \<Rightarrow> u32 \<Rightarrow> nat \<Rightarrow> mem \<Rightarrow> mem" where
  "memcpy dest src len m = copy_up len dest src m"

definition memmove :: "u32 \<Rightarrow> u32 \<Rightarrow> nat \<Rightarrow> mem \<Rightarrow> mem" where
  "memmove dest src len m =
     (if dest > src then copy_down len (dest + of_nat len) (src + of_nat len) m
      else if dest < src then copy_up len dest src m
      else m)"

section \<open>Comparison and strings\<close>

fun memcmp :: "mem \<Rightarrow> u32 \<Rightarrow> u32 \<Rightarrow> nat \<Rightarrow> int" where
  "memcmp m p q 0 = 0"
| "memcmp m p q (Suc n) =
     (if m p \<noteq> m q then (if sint (m p) < sint (m q) then -1 else 1)
      else memcmp m (p + 1) (q + 1) n)"

fun StrLen :: "mem \<Rightarrow> u32 \<Rightarrow> nat \<Rightarrow> nat" where
  "StrLen m s 0 = 0"
| "StrLen m s (Suc maxLen) = (if m s \<noteq> 0 then Suc (StrLen m (s + 1) maxLen) else 0)"

text \<open>\<open>newData\<close> is the block \<open>MemKAlloc\<close> returned for \<open>lenWithNull\<close> bytes.\<close>

definition StrDup :: "u32 \<Rightarrow> nat \<Rightarrow> u32 \<Rightarrow> mem \<Rightarrow> mem" where
  "StrDup s maxLen newData m =
     (let lenWithNull = StrLen m s maxLen + 1;
          m1 = memcpy newData s lenWithNull m
      in m1(newData + of_nat (lenWithNull - 1) := 0))"

text \<open>\<open>strcmp\<close> stops at the first difference or at the end of both strings; without a terminator
  it would not stop, so the loop has fuel and \<open>None\<close> is a comparison that is still running.\<close>

fun strcmp :: "nat \<Rightarrow> mem \<Rightarrow> u32 \<Rightarrow> u32 \<Rightarrow> int option" where
  "strcmp 0 m p q = None"
| "strcmp (Suc fuel) m p q =
     (if m p \<noteq> 0 \<and> m p = m q then strcmp fuel m (p + 1) (q + 1)
      else if m p = m q then Some 0
      else if sint (m p) < sint (m q) then Some (-1) else Some 1)"

section \<open>Address arithmetic\<close>

lemma unat_diff_Suc:
  fixes a p :: u32
  assumes "a \<noteq> p"
  shows "unat (a - (p + 1)) = unat (a - p) - 1" and "0 < unat (a - p)"
  using assms unat_minus_one [of "a - p"] by (simp_all add: diff_diff_eq unat_gt_0)

lemma unat_minus_one_wrap: "unat (- 1 :: u32) = 4294967295"
  by (simp add: unsigned_minus_1_eq_mask mask_eq_exp_minus_1)

section \<open>Fills\<close>

lemma fill_bytes_apply:
  "n \<le> 4294967296 \<Longrightarrow> fill_bytes n p v m a = (if unat (a - p) < n then v else m a)"
proof (induction n arbitrary: p m)
  case 0
  then show ?case by simp
next
  case (Suc n)
  show ?case
  proof (cases "a = p")
    case True
    then show ?thesis using Suc by (simp add: unat_minus_one_wrap)
  next
    case False
    then show ?thesis using Suc unat_diff_Suc [OF False] by auto
  qed
qed

definition same_bytes :: "u32 \<Rightarrow> u8 \<Rightarrow> bool" where
  "same_bytes w v \<longleftrightarrow> ucast w = v \<and> ucast (drop_bit 8 w) = v \<and> ucast (drop_bit 16 w) = v
     \<and> ucast (drop_bit 24 w) = v"

lemma store32_same: "same_bytes w v \<Longrightarrow> store32 p w m = fill_bytes 4 p v m"
  by (simp add: store32_def same_bytes_def numeral_eq_Suc add.assoc)

lemma fill_bytes_add: "fill_bytes (a + b) p v m = fill_bytes b (p + of_nat a) v (fill_bytes a p v m)"
  by (induction a arbitrary: p m) (simp_all add: algebra_simps)

lemma fill_words_same: "same_bytes w v \<Longrightarrow> fill_words n p w m = fill_bytes (4 * n) p v m"
proof (induction n arbitrary: p m)
  case 0
  then show ?case by simp
next
  case (Suc n)
  have "fill_bytes (4 * Suc n) p v m = fill_bytes (4 + 4 * n) p v m" by simp
  also have "\<dots> = fill_bytes (4 * n) (p + 4) v (fill_bytes 4 p v m)"
    unfolding fill_bytes_add by simp
  finally show ?case using Suc by (simp add: store32_same)
qed

text \<open>The replicated word is right exactly when the byte does not have its sign bit set: a negative
  \<open>char\<close> is sign-extended before it is shifted, and its upper bits survive the disjunction.\<close>

lemma same_bytes_replicate:
  fixes b :: u8
  defines "w \<equiv> (ucast b :: u32)"
  shows "same_bytes (w OR push_bit 8 w OR push_bit 16 w OR push_bit 24 w) b"
  unfolding same_bytes_def w_def
  by (auto simp: bit_eq_iff bit_simps dest: bit_imp_le_length)

lemma scast_nonneg:
  fixes b :: u8
  assumes "b < 128"
  shows "(scast b :: u32) = ucast b"
proof -
  have no: "\<not> bit b n" if "7 \<le> n" for n
  proof (cases "n = 7")
    case True
    then show ?thesis using assms by (simp add: bit_iff_odd div_word_less)
  next
    case False
    then show ?thesis using that bit_imp_le_length [of b n] by auto
  qed
  show ?thesis using no by (auto simp: bit_eq_iff bit_simps min_def)
qed

lemma memset_fill:
  assumes "(ucast value0 :: u8) < 128"
  shows "memset ptr value0 len m = fill_bytes len ptr (ucast value0) m"
proof -
  let ?b = "ucast value0 :: u8" and ?w = "scast (ucast value0 :: u8) :: u32"
  have b: "ucast ?w = ?b"
    unfolding scast_nonneg [OF assms] by (auto simp: bit_eq_iff bit_simps dest: bit_imp_le_length)
  have same: "same_bytes (?w OR push_bit 8 ?w OR push_bit 16 ?w OR push_bit 24 ?w) ?b"
    unfolding scast_nonneg [OF assms] by (rule same_bytes_replicate)
  have split: "fill_bytes len ptr ?b m =
      fill_bytes (l mod 4) (ptr + of_nat i + of_nat (4 * (l div 4))) ?b
        (fill_bytes (4 * (l div 4)) (ptr + of_nat i) ?b (fill_bytes i ptr ?b m))"
    if "len = i + l" for i l
  proof -
    have "len = i + (4 * (l div 4) + l mod 4)" using that by simp
    then show ?thesis by (metis fill_bytes_add)
  qed
  show ?thesis
    unfolding memset_def Let_def b fill_words_same [OF same]
    using split [of "min (unat ptr mod 4) len" "len - min (unat ptr mod 4) len"] by simp
qed

section \<open>Copies\<close>

lemma copy_up_apply:
  "n \<le> 4294967296 \<Longrightarrow> d = s \<or> n \<le> unat (d - s) \<Longrightarrow>
   copy_up n d s m a = (if unat (a - d) < n then m (s + (a - d)) else m a)"
proof (induction n arbitrary: d s m)
  case 0
  then show ?case by simp
next
  case (Suc n)
  have IH: "copy_up n (d + 1) (s + 1) (m(d := m s)) a =
      (if unat (a - (d + 1)) < n then (m(d := m s)) (s + 1 + (a - (d + 1))) else (m(d := m s)) a)"
    using Suc.prems by (intro Suc.IH) auto
  show ?case
  proof (cases "a = d")
    case True
    then show ?thesis using IH Suc.prems(1) by (simp add: unat_minus_one_wrap)
  next
    case False
    have "s + (a - d) \<noteq> d" if "unat (a - d) < Suc n"
    proof
      assume "s + (a - d) = d"
      then have "a - d = d - s" by (simp add: algebra_simps)
      with False that Suc.prems(2) show False by auto
    qed
    moreover have "s + 1 + (a - (d + 1)) = s + (a - d)" by simp
    ultimately show ?thesis using IH unat_diff_Suc [OF False] False by auto
  qed
qed

lemma copy_down_apply:
  "n \<le> 4294967296 \<Longrightarrow> d = s \<or> n \<le> unat (s - d) \<Longrightarrow>
   copy_down n d s m a = (if unat (d - 1 - a) < n then m (s - (d - a)) else m a)"
proof (induction n arbitrary: d s m)
  case 0
  then show ?case by simp
next
  case (Suc n)
  let ?m = "m(d - 1 := m (s - 1))"
  have IH: "copy_down n (d - 1) (s - 1) ?m a =
      (if unat (d - 1 - 1 - a) < n then ?m (s - 1 - (d - 1 - a)) else ?m a)"
    using Suc.prems by (intro Suc.IH) auto
  show ?case
  proof (cases "a = d - 1")
    case True
    then show ?thesis using IH Suc.prems(1) by (simp add: unat_minus_one_wrap)
  next
    case False
    then have ne: "d - 1 - a \<noteq> 0" by (auto simp: algebra_simps)
    then have step: "unat (d - 1 - 1 - a) = unat (d - 1 - a) - 1" "0 < unat (d - 1 - a)"
      using unat_minus_one [of "d - 1 - a"] by (simp_all add: unat_gt_0 algebra_simps)
    have "s - (d - a) \<noteq> d - 1" if "unat (d - 1 - a) < Suc n"
    proof
      assume "s - (d - a) = d - 1"
      then have "d - 1 - a = s - d" by (simp add: algebra_simps)
      with ne that Suc.prems(2) show False by auto
    qed
    moreover have "s - 1 - (d - 1 - a) = s - (d - a)" by simp
    ultimately show ?thesis using IH step False by (auto simp: algebra_simps)
  qed
qed

lemma bytes_nth [simp]: "i < n \<Longrightarrow> bytes m p n ! i = m (p + of_nat i)"
  by (simp add: bytes_def)

lemma length_bytes [simp]: "length (bytes m p n) = n"
  by (simp add: bytes_def)

lemma bytes_Suc: "bytes m p (Suc n) = m p # bytes m (p + 1) n"
  by (auto simp: bytes_def upt_conv_Cons simp flip: map_Suc_upt simp del: upt.simps)
    (simp add: algebra_simps)

lemma unat_of_nat_32: "i < 4294967296 \<Longrightarrow> unat (of_nat i :: u32) = i"
  by (simp add: unat_of_nat)

section \<open>Comparison\<close>

lemma memcmp_0_iff: "memcmp m p q n = 0 \<longleftrightarrow> bytes m p n = bytes m q n"
  by (induction n arbitrary: p q) (auto simp: bytes_Suc, simp add: bytes_def)

lemma StrLen_le: "StrLen m s n \<le> n"
  by (induction n arbitrary: s) auto

lemma StrLen_nonzero: "i < StrLen m s n \<Longrightarrow> m (s + of_nat i) \<noteq> 0"
proof (induction n arbitrary: s i)
  case (Suc n)
  then show ?case by (cases i) (auto split: if_splits simp flip: add.assoc)
qed simp

lemma StrLen_stop: "StrLen m s n < n \<Longrightarrow> m (s + of_nat (StrLen m s n)) = 0"
  by (induction n arbitrary: s) (auto split: if_splits simp flip: add.assoc)

lemma strcmp_bytes:
  assumes "\<And>i. i < n \<Longrightarrow> m (p + of_nat i) \<noteq> 0" "\<And>i. i < n \<Longrightarrow> m (p + of_nat i) = m (q + of_nat i)"
    and "m (p + of_nat n) = 0 \<or> m (p + of_nat n) \<noteq> m (q + of_nat n)" "n < fuel"
  shows "strcmp fuel m p q = Some (if m (p + of_nat n) = m (q + of_nat n) then 0
           else if sint (m (p + of_nat n)) < sint (m (q + of_nat n)) then -1 else 1)"
  using assms
proof (induction n arbitrary: p q fuel)
  case 0
  then show ?case by (cases fuel) auto
next
  case (Suc n)
  obtain f where f: "fuel = Suc f" "n < f" using Suc.prems(4) by (cases fuel) auto
  have first: "m p \<noteq> 0" "m p = m q" using Suc.prems(1,2) [of 0] by auto
  have shift: "p + of_nat (Suc i) = p + 1 + of_nat i" "q + of_nat (Suc i) = q + 1 + of_nat i" for i
    by simp_all
  have "strcmp f m (p + 1) (q + 1) = Some (if m (p + 1 + of_nat n) = m (q + 1 + of_nat n) then 0
      else if sint (m (p + 1 + of_nat n)) < sint (m (q + 1 + of_nat n)) then -1 else 1)"
    using Suc.prems(1,2) [of "Suc _"] Suc.prems(3) f(2) unfolding shift by (intro Suc.IH) auto
  then show ?case using first by (simp only: f(1) strcmp.simps shift) simp
qed

section \<open>Properties\<close>

lemma unat_rev_offset:
  fixes x :: u32
  assumes "len < 4294967296"
  shows "unat (of_nat len - 1 - x) < len \<longleftrightarrow> unat x < len"
proof (cases "len = 0")
  case False
  then have L: "unat (of_nat len - 1 :: u32) = len - 1"
    using assms by (simp add: unat_of_nat_32 unat_sub_if')
  show ?thesis using False L assms unat_less_32 [of x] unfolding unat_sub_if' [of "of_nat len - 1" x] L
    by auto
qed auto

lemma memmove_apply:
  assumes "unat src + len \<le> 4294967296" "unat dest + len \<le> 4294967296"
  shows "memmove dest src len m a = (if unat (a - dest) < len then m (src + (a - dest)) else m a)"
proof -
  consider "dest > src" | "dest < src" | "dest = src" by (meson linorder_less_linear)
  then show ?thesis
  proof cases
    case 1
    then have pos: "0 < unat dest" "unat src < unat dest" by (auto simp: word_less_nat_alt)
    then have len: "len < 4294967296" using assms by simp
    have "len \<le> unat (src + of_nat len - (dest + of_nat len))"
      using pos assms unat_less_32 [of dest] by (simp add: unat_sub_if')
    then have "memmove dest src len m a =
      (if unat (dest + of_nat len - 1 - a) < len then m (src + of_nat len - (dest + of_nat len - a))
       else m a)"
      using 1 len by (simp add: memmove_def copy_down_apply)
    moreover have "dest + of_nat len - 1 - a = of_nat len - 1 - (a - dest)"
      "src + of_nat len - (dest + of_nat len - a) = src + (a - dest)" by (simp_all add: algebra_simps)
    ultimately show ?thesis using unat_rev_offset [OF len] by simp
  next
    case 2
    then have "len \<le> unat (dest - src)"
      using assms unat_less_32 [of src] by (simp add: unat_sub_if' word_less_nat_alt)
    then show ?thesis using 2 assms by (auto simp: memmove_def copy_up_apply)
  next
    case 3
    then show ?thesis by (simp add: memmove_def)
  qed
qed

lemma bytes_shift_eq:
  assumes "\<And>a. unat (a - d) < n \<Longrightarrow> m' a = m (s + (a - d))" "n \<le> 4294967296"
  shows "bytes m' d n = bytes m s n"
proof (rule nth_equalityI)
  fix i assume "i < length (bytes m' d n)"
  then have "i < n" by simp
  then show "bytes m' d n ! i = bytes m s n ! i"
    using assms(2) assms(1) [of "d + of_nat i"] by (simp add: unat_of_nat_32)
qed simp

text \<open>
  (C32) \<open>memmove\<close> copies the source block to the destination whatever the overlap, and writes nothing
  outside the destination.
\<close>

theorem memmove_correct:
  assumes "unat src + len \<le> 4294967296" "unat dest + len \<le> 4294967296"
  shows "bytes (memmove dest src len m) dest len = bytes m src len
    \<and> (\<forall>a. unat (a - dest) \<ge> len \<longrightarrow> memmove dest src len m a = m a)"
  using assms by (auto simp: memmove_apply intro!: bytes_shift_eq)

theorem memmove_correct_witness:
  "bytes (memmove 102 100 4 (\<lambda>a. ucast a)) 102 4 = [100, 101, 102, 103 :: u8]"
proof -
  have "bytes (memmove 102 100 4 (\<lambda>a. ucast a)) 102 4 = bytes (\<lambda>a. ucast a) 100 4"
    using memmove_correct [of 100 4 102 "\<lambda>a. ucast a"] by simp
  then show ?thesis by (simp add: bytes_def upt_rec)
qed

text \<open>
  \<open>memset\<close> writes the low byte of its argument to every byte of the block and to nothing else,
  provided the byte is below \<open>0x80\<close>. (For other bytes and blocks of eight bytes or more it does not:
  see \<open>memset_sign_extension\<close>.)
\<close>

theorem memset_correct:
  assumes "(ucast v :: u8) < 128" "len \<le> 4294967296"
  shows "memset ptr v len m a = (if unat (a - ptr) < len then ucast v else m a)"
  using assms by (simp add: memset_fill fill_bytes_apply)

theorem memset_correct_witness:
  "memset 0x1003 0x41 11 (\<lambda>_. 0) 0x100D = 0x41 \<and> memset 0x1003 0x41 11 (\<lambda>_. 0) 0x100E = 0"
  using memset_correct [where v = "0x41" and len = 11 and ptr = "0x1003" and m = "\<lambda>_. 0"] by simp

text \<open>
  \<open>memset\<close> with a byte whose sign bit is set does not fill a block: \<open>MemSet(p, 0xFE, 8)\<close> (the wipe
  \<open>MemSlabFree\<close> performs when debugging) leaves \<open>0xFF\<close> in every byte that is not at the start of a
  word, because the sign-extended value is or-ed into the upper bytes of \<open>valueLong\<close>.
\<close>

theorem memset_sign_extension:
  "bytes (memset 0x1000 0xFE 8 m) 0x1000 8 = [0xFE, 0xFF, 0xFF, 0xFF, 0xFE, 0xFF, 0xFF, 0xFF]"
proof -
  have two: "fill_words 2 p w m = store32 (p + 4) w (store32 p w m)" for p w
    by (simp add: numeral_2_eq_2)
  show ?thesis by (simp add: memset_def two bytes_def upt_rec store32_def)
qed

text \<open>
  \<open>StrLen\<close> and \<open>memcmp\<close>: the length is bounded, no byte before it is the terminator, and if the
  bound was not reached the terminator is there; \<open>memcmp\<close> returns zero exactly when the two blocks
  hold the same bytes.
\<close>

theorem string_scan_correct:
  "StrLen m s n \<le> n \<and> (\<forall>i < StrLen m s n. m (s + of_nat i) \<noteq> 0)
   \<and> (StrLen m s n < n \<longrightarrow> m (s + of_nat (StrLen m s n)) = 0)
   \<and> (memcmp m p q k = 0 \<longleftrightarrow> bytes m p k = bytes m q k)"
  by (simp add: StrLen_le StrLen_nonzero StrLen_stop memcmp_0_iff)

end
