(* ===== verification/Bcache.thy ===== *)
theory Bcache
  imports Mem_Utils
begin

text \<open>
  The block cache, \<open>kernel/src/io/bcache.c\<close> and \<open>kernel/include/io/bcache.h\<close>: a write-through cache of
  the blocks of one device.

  The hash table of the blocks is the map it implements (theory \<open>Hash_Table\<close>), with the offset as key.
  A block's data lies in memory of its own, reached only through the block, and is a list of bytes;
  buffers of the callers lie in the byte memory \<open>umem\<close>. The device driver is an argument: its \<open>read\<close>
  and \<open>write\<close> operations, either of which may be missing, work on the driver's own state. A block is
  named by the number of its allocation, so that memory that is used again has a new name; the \<open>n\<close>-th
  allocation gives \<open>alloc n\<close>: the address of its data and what that memory held before. Whenever the cache may block, in a device operation or on the wait queue of a block, other
  threads may run: \<open>others\<close> is what they do. The checks of user memory are arguments too.
\<close>

section \<open>Byte ranges\<close>

fun put :: "'a::len word \<Rightarrow> u8 list \<Rightarrow> ('a word \<Rightarrow> u8) \<Rightarrow> 'a word \<Rightarrow> u8" where
  "put a [] m = m"
| "put a (x # xs) m = put (a + 1) xs (m(a := x))"

definition get :: "'a::len word \<Rightarrow> nat \<Rightarrow> ('a word \<Rightarrow> u8) \<Rightarrow> u8 list" where
  "get a n m = map (\<lambda>i. m (a + of_nat i)) [0..<n]"

section \<open>State\<close>

datatype IoBlockState = IO_BLOCK_OK | IO_BLOCK_READING | IO_BLOCK_WRITING | IO_BLOCK_ERROR

record IoBlock =
  blk_offset :: u64
  blk_state :: IoBlockState
  blk_refCount :: u32
  blk_address :: u32
  blk_data :: "u8 list"

type_synonym block_ref = nat

record 'd bcache =
  blockSize :: u32
  blockTable :: "u64 \<rightharpoonup> block_ref"
  blockList :: "block_ref list"
  blockAt :: "block_ref \<Rightarrow> IoBlock"
  freedBlocks :: "block_ref list"
  cacheFreed :: bool
  allocCount :: nat
  umem :: mem
  devState :: 'd

type_synonym 'd dev_read = "(u64 \<Rightarrow> u32 \<Rightarrow> 'd \<Rightarrow> int \<times> u8 list \<times> 'd) option"
type_synonym 'd dev_write = "(u64 \<Rightarrow> u8 list \<Rightarrow> 'd \<Rightarrow> int \<times> 'd) option"
type_synonym block_alloc = "nat \<Rightarrow> u32 \<times> u8 list"

definition upd_block :: "block_ref \<Rightarrow> (IoBlock \<Rightarrow> IoBlock) \<Rightarrow> 'd bcache \<Rightarrow> 'd bcache" where
  "upd_block b f s = s\<lparr>blockAt := (blockAt s)(b := f (blockAt s b))\<rparr>"

abbreviation set_state :: "block_ref \<Rightarrow> IoBlockState \<Rightarrow> 'd bcache \<Rightarrow> 'd bcache" where
  "set_state b st \<equiv> upd_block b (blk_state_update (\<lambda>_. st))"

definition IoBlockHashInsert :: "block_ref \<Rightarrow> 'd bcache \<Rightarrow> 'd bcache" where
  "IoBlockHashInsert b s =
     (let off = blk_offset (blockAt s b)
      in if blockTable s off = None then s\<lparr>blockTable := (blockTable s)(off \<mapsto> b)\<rparr> else s)"

definition IoBlockHashFind :: "u64 \<Rightarrow> 'd bcache \<Rightarrow> block_ref option" where
  "IoBlockHashFind off s = blockTable s off"

definition hash_remove_item :: "block_ref \<Rightarrow> 'd bcache \<Rightarrow> 'd bcache" where
  "hash_remove_item b s =
     (let off = blk_offset (blockAt s b)
      in if blockTable s off = Some b then s\<lparr>blockTable := (blockTable s)(off := None)\<rparr> else s)"

definition FreeBlock :: "block_ref \<Rightarrow> 'd bcache \<Rightarrow> 'd bcache" where
  "FreeBlock b s = s\<lparr>freedBlocks := freedBlocks s @ [b]\<rparr>"

section \<open>Creation and destruction\<close>

text \<open>The memory of a new cache is not cleared: \<open>junk\<close> is what its hash table holds.\<close>

definition IoBlockCacheCreate :: "u32 \<Rightarrow> (u64 \<rightharpoonup> block_ref) \<Rightarrow> 'd bcache \<Rightarrow> 'd bcache option" where
  "IoBlockCacheCreate bs junk s =
     (if bs AND (bs - 1) \<noteq> 0 \<or> bs = 0 then None
      else Some (s\<lparr>blockSize := bs, blockTable := junk, blockList := []\<rparr>))"

fun destroy_blocks :: "block_ref list \<Rightarrow> 'd bcache \<Rightarrow> bool \<times> 'd bcache" where
  "destroy_blocks [] s = (True, s)"
| "destroy_blocks (b # bs) s =
     (if blk_refCount (blockAt s b) = 0
      then destroy_blocks bs (FreeBlock b ((hash_remove_item b s)\<lparr>blockList := remove1 b (blockList s)\<rparr>))
      else let (_, s1) = destroy_blocks bs s in (False, s1))"

definition IoBlockCacheDestroy :: "'d bcache \<Rightarrow> bool \<times> 'd bcache" where
  "IoBlockCacheDestroy s =
     (let (allUnlocked, s1) = destroy_blocks (blockList s) s
      in (allUnlocked, if allUnlocked then s1\<lparr>cacheFreed := True\<rparr> else s1))"

definition CreateEmptyBlock :: "block_alloc \<Rightarrow> u64 \<Rightarrow> 'd bcache \<Rightarrow> block_ref \<times> 'd bcache" where
  "CreateEmptyBlock alloc off s =
     (let b = allocCount s; (addr, junk) = alloc b;
          s1 = s\<lparr>allocCount := Suc (allocCount s), blockAt := (blockAt s)(b :=
                 \<lparr>blk_offset = off, blk_state = IO_BLOCK_OK, blk_refCount = 1, blk_address = addr, blk_data = junk\<rparr>)\<rparr>
      in (b, IoBlockHashInsert b s1))"

section \<open>Blocks\<close>

definition IoBlockCacheUnlock :: "block_ref \<Rightarrow> 'd bcache \<Rightarrow> 'd bcache" where
  "IoBlockCacheUnlock b s =
     (if blk_refCount (blockAt s b) > 0 then
        (let s1 = upd_block b (blk_refCount_update (\<lambda>n. n - 1)) s in
         if blk_state (blockAt s1 b) = IO_BLOCK_ERROR \<and> blk_refCount (blockAt s1 b) = 0
         then FreeBlock b (s1\<lparr>blockList := remove1 b (blockList s1)\<rparr>) else s1)
      else s)"

text \<open>\<open>off &= ~(blockSize - 1)\<close>: the complement is taken in 32 bits and widened with zeros.\<close>

definition align_off :: "u64 \<Rightarrow> u32 \<Rightarrow> u64" where
  "align_off off bs = off AND ucast (NOT (bs - 1))"

definition IoBlockCacheRead ::
  "'d dev_read \<Rightarrow> ('d bcache \<Rightarrow> 'd bcache) \<Rightarrow> block_alloc \<Rightarrow> u64 \<Rightarrow> 'd bcache \<Rightarrow> int \<times> block_ref option \<times> 'd bcache" where
  "IoBlockCacheRead devRead others alloc off0 s =
     (let off = align_off off0 (blockSize s) in
      case IoBlockHashFind off s of
        None \<Rightarrow>
          (case devRead of
             None \<Rightarrow> (- ENOSYS, None, s)
           | Some dread \<Rightarrow>
               let (b, s1) = CreateEmptyBlock alloc off s;
                   s2 = set_state b IO_BLOCK_READING s1;
                   (res, data, d) = dread off (blockSize s2) (devState s2);
                   s3 = upd_block b (blk_data_update (\<lambda>_. data)) (others (s2\<lparr>devState := d\<rparr>))
               in if res \<noteq> 0 then
                    (- EIO, None, IoBlockCacheUnlock b (hash_remove_item b (set_state b IO_BLOCK_ERROR s3)))
                  else (0, Some b, set_state b IO_BLOCK_OK s3))
      | Some b \<Rightarrow>
          let s1 = upd_block b (blk_refCount_update (\<lambda>n. n + 1)) s in
          if blk_state (blockAt s1 b) = IO_BLOCK_READING then
            (let s2 = others s1 in
             if blk_state (blockAt s2 b) = IO_BLOCK_ERROR then (- EIO, None, IoBlockCacheUnlock b s2)
             else (0, Some b, s2))
          else (0, Some b, s1))"

section \<open>Buffers\<close>

definition block_off :: "u64 \<Rightarrow> u32 \<Rightarrow> u32" where
  "block_off off bs = ucast off AND (bs - 1)"

partial_function (option) IoBlockCacheReadBuffer ::
  "'d dev_read \<Rightarrow> ('d bcache \<Rightarrow> 'd bcache) \<Rightarrow> block_alloc \<Rightarrow> (u32 \<Rightarrow> u32 \<Rightarrow> bool) \<Rightarrow>
   u64 \<Rightarrow> u32 \<Rightarrow> u32 \<Rightarrow> 'd bcache \<Rightarrow> (int \<times> 'd bcache) option" where
  "IoBlockCacheReadBuffer devRead others alloc canRead off buffer len s =
     (if len = 0 then Some (0, s)
      else case IoBlockCacheRead devRead others alloc off s of
          (res, None, s1) \<Rightarrow> Some (res, s1)
        | (res, Some b, s1) \<Rightarrow>
            let blockOff = block_off off (blockSize s);
                blockLength = min (blockSize s - blockOff) len
            in if \<not> canRead buffer blockLength then Some (- EFAULT, IoBlockCacheUnlock b s1)
               else let data = take (unat blockLength) (drop (unat blockOff) (blk_data (blockAt s1 b)));
                        s2 = IoBlockCacheUnlock b (s1\<lparr>umem := put buffer data (umem s1)\<rparr>)
                    in IoBlockCacheReadBuffer devRead others alloc canRead
                         (off + ucast blockLength) (buffer + blockLength) (len - blockLength) s2)"

declare IoBlockCacheReadBuffer.simps [simp del]

partial_function (option) wait_block :: "('d bcache \<Rightarrow> 'd bcache) \<Rightarrow> block_ref \<Rightarrow> 'd bcache \<Rightarrow> 'd bcache option" where
  "wait_block others b s =
     (if blk_state (blockAt s b) = IO_BLOCK_READING \<or> blk_state (blockAt s b) = IO_BLOCK_WRITING
      then wait_block others b (others s) else Some s)"

declare wait_block.simps [simp del]

text \<open>The block a write goes to: a block that is written only in part is read first.\<close>

definition write_target ::
  "'d dev_read \<Rightarrow> ('d bcache \<Rightarrow> 'd bcache) \<Rightarrow> block_alloc \<Rightarrow> u64 \<Rightarrow> u32 \<Rightarrow> 'd bcache \<Rightarrow> int \<times> block_ref option \<times> 'd bcache" where
  "write_target devRead others alloc off blockLength s =
     (if block_off off (blockSize s) \<noteq> 0 \<or> blockLength \<noteq> blockSize s then IoBlockCacheRead devRead others alloc off s
      else case IoBlockHashFind (align_off off (blockSize s)) s of
          Some b \<Rightarrow> (0, Some b, s)
        | None \<Rightarrow> let (b, s1) = CreateEmptyBlock alloc (align_off off (blockSize s)) s
                  in (0, Some b, set_state b IO_BLOCK_OK s1))"

text \<open>The write of one block: into the cache, then to the device.\<close>

definition write_block ::
  "(u64 \<Rightarrow> u8 list \<Rightarrow> 'd \<Rightarrow> int \<times> 'd) \<Rightarrow> ('d bcache \<Rightarrow> 'd bcache) \<Rightarrow> block_ref \<Rightarrow> u64 \<Rightarrow> u32 \<Rightarrow> u32 \<Rightarrow> u32 \<Rightarrow>
   'd bcache \<Rightarrow> int \<times> 'd bcache" where
  "write_block dwrite others b off blockOff buffer blockLength s =
     (let chunk = get buffer (unat blockLength) (umem s);
          s1 = upd_block b (\<lambda>k. k\<lparr>blk_state := IO_BLOCK_WRITING,
                 blk_data := take (unat blockOff) (blk_data k) @ chunk @ drop (unat blockOff + unat blockLength) (blk_data k)\<rparr>) s;
          (res, d) = dwrite off (take (unat blockLength) (drop (unat blockOff) (blk_data (blockAt s1 b)))) (devState s1);
          s2 = others (s1\<lparr>devState := d\<rparr>);
          s3 = (if res = 0 then set_state b IO_BLOCK_OK s2 else hash_remove_item b (set_state b IO_BLOCK_ERROR s2))
      in (res, IoBlockCacheUnlock b s3))"

partial_function (option) write_loop ::
  "'d dev_read \<Rightarrow> (u64 \<Rightarrow> u8 list \<Rightarrow> 'd \<Rightarrow> int \<times> 'd) \<Rightarrow> ('d bcache \<Rightarrow> 'd bcache) \<Rightarrow> block_alloc \<Rightarrow> (u32 \<Rightarrow> u32 \<Rightarrow> bool) \<Rightarrow>
   u64 \<Rightarrow> u32 \<Rightarrow> u32 \<Rightarrow> 'd bcache \<Rightarrow> (int \<times> 'd bcache) option" where
  "write_loop devRead dwrite others alloc canWrite off buffer len s =
     (if len = 0 then Some (0, s)
      else let blockOff = block_off off (blockSize s);
               blockLength = min (blockSize s - blockOff) len
           in case write_target devRead others alloc off blockLength s of
                (res, None, s1) \<Rightarrow> Some (res, s1)
              | (res, Some b, s1) \<Rightarrow>
                  Option.bind (wait_block others b s1) (\<lambda>s2.
                    if blk_state (blockAt s2 b) = IO_BLOCK_ERROR then Some (- EIO, IoBlockCacheUnlock b s2)
                    else if \<not> canWrite (blk_address (blockAt s2 b) + blockOff) blockLength
                      then Some (- EFAULT, IoBlockCacheUnlock b s2)
                    else let (r, s3) = write_block dwrite others b off blockOff buffer blockLength s2
                         in if r \<noteq> 0 then Some (r, s3)
                            else write_loop devRead dwrite others alloc canWrite
                              (off + ucast blockLength) (buffer + blockLength) (len - blockLength) s3))"

declare write_loop.simps [simp del]

definition IoBlockCacheWriteBuffer ::
  "'d dev_read \<Rightarrow> 'd dev_write \<Rightarrow> ('d bcache \<Rightarrow> 'd bcache) \<Rightarrow> block_alloc \<Rightarrow> (u32 \<Rightarrow> u32 \<Rightarrow> bool) \<Rightarrow>
   u64 \<Rightarrow> u32 \<Rightarrow> u32 \<Rightarrow> 'd bcache \<Rightarrow> (int \<times> 'd bcache) option" where
  "IoBlockCacheWriteBuffer devRead devWrite others alloc canWrite off buffer len s =
     (if len = 0 then Some (0, s)
      else case devWrite of None \<Rightarrow> Some (- ENOSYS, s)
        | Some dwrite \<Rightarrow> write_loop devRead dwrite others alloc canWrite off buffer len s)"

section \<open>Lemmas on byte ranges\<close>

lemma length_get [simp]: "length (get a n m) = n"
  by (simp add: get_def)

lemma get_nth [simp]: "i < n \<Longrightarrow> get a n m ! i = m (a + of_nat i)"
  by (simp add: get_def)

lemma get_append: "get a (i + j) m = get a i m @ get (a + of_nat i) j m"
  by (rule nth_equalityI) (auto simp: nth_append algebra_simps)

lemma take_drop_get: "i + n \<le> j \<Longrightarrow> take n (drop i (get a j m)) = get (a + of_nat i) n m"
  by (rule nth_equalityI) (auto simp: algebra_simps)

lemma put_append: "put a (xs @ ys) m = put (a + of_nat (length xs)) ys (put a xs m)"
  by (induction xs arbitrary: a m) (simp_all add: algebra_simps)

lemma put_apply:
  fixes a x :: "'a::len word"
  assumes "unat a + length xs \<le> 2 ^ LENGTH('a)"
  shows "put a xs m x = (if unat a \<le> unat x \<and> unat x < unat a + length xs then xs ! (unat x - unat a) else m x)"
  using assms
proof (induction xs arbitrary: a m)
  case (Cons v xs)
  show ?case
  proof (cases "xs = []")
    case True
    then show ?thesis using word_unat_eq_iff [of x a] by auto
  next
    case False
    then have "unat (a + 1) = unat a + 1"
      using Cons.prems False unat_add_lem [of a 1] by (cases xs) auto
    then have "put (a + 1) xs (m(a := v)) x =
        (if unat a + 1 \<le> unat x \<and> unat x < unat a + 1 + length xs then xs ! (unat x - (unat a + 1)) else (m(a := v)) x)"
      using Cons.IH [of "a + 1"] Cons.prems by simp
    then show ?thesis using word_unat_eq_iff [of x a] unfolding put.simps by (auto simp: nth_Cons')
  qed
qed auto

lemma unat_index:
  fixes a :: "'a::len word"
  shows "unat a + n \<le> 2 ^ LENGTH('a) \<Longrightarrow> i < n \<Longrightarrow> unat (a + of_nat i) = unat a + i"
  by (simp add: unat_word_ariths unat_of_nat)

lemma get_put:
  fixes a b :: "'a::len word"
  assumes "unat a + n \<le> 2 ^ LENGTH('a)" "unat b + length xs \<le> 2 ^ LENGTH('a)"
  shows "unat a + n \<le> unat b \<or> unat b + length xs \<le> unat a \<Longrightarrow> get a n (put b xs m) = get a n m"
    and "unat a \<le> unat b \<Longrightarrow> unat b + length xs \<le> unat a + n \<Longrightarrow> get a n (put b xs m) =
      take (unat b - unat a) (get a n m) @ xs @ drop (unat b - unat a + length xs) (get a n m)"
  by (rule nth_equalityI; use assms unat_index [OF assms(1)] in \<open>auto simp: put_apply nth_append add.commute\<close>)+

section \<open>Alignment\<close>

lemma power_masks:
  assumes "k < 32"
  shows "(2 ^ k :: u32) - 1 = mask k" "unat (2 ^ k :: u32) = 2 ^ k"
proof -
  show "(2 ^ k :: u32) - 1 = mask k" by (simp add: mask_eq_exp_minus_1)
  have "(2 :: nat) ^ k < 2 ^ 32" using assms by (intro power_strict_increasing) simp_all
  then have "unat (of_nat (2 ^ k) :: u32) = 2 ^ k" by (simp only: unat_of_nat) simp
  then show "unat (2 ^ k :: u32) = 2 ^ k" by simp
qed

lemma unat_take_bit: "unat (take_bit k w) = unat w mod 2 ^ k"
  by (simp add: unsigned_take_bit_eq flip: take_bit_eq_mod)

lemma block_off_mod:
  assumes "k < 32"
  shows "unat (block_off off (2 ^ k)) = unat off mod 2 ^ k"
proof -
  have "block_off off (2 ^ k) = ucast (take_bit k off)"
    using assms by (intro bit_eqI) (auto simp: block_off_def power_masks bit_simps)
  moreover have "(2 :: nat) ^ k < 2 ^ 32" using assms by (intro power_strict_increasing) simp_all
  then have "unat off mod 2 ^ k < 2 ^ 32" by (meson mod_less_divisor less_trans zero_less_power zero_less_numeral)
  ultimately show ?thesis by (simp add: unsigned_ucast_eq unat_take_bit take_bit_nat_eq_self)
qed

lemma align_off_eq:
  assumes "k < 32" "unat off < 2 ^ 32"
  shows "align_off off (2 ^ k) + ucast (block_off off (2 ^ k)) = off"
    and "unat (align_off off (2 ^ k)) = unat off - unat off mod 2 ^ k"
proof -
  have high: "n < 32" if "bit off n" for n
  proof -
    have "unat (take_bit 32 off) = unat off" using assms(2) by (simp add: unat_take_bit)
    then have "take_bit 32 off = off" by (rule word_unat_eq_iff [THEN iffD2])
    then show ?thesis using that by (metis bit_take_bit_iff)
  qed
  have align: "align_off off (2 ^ k) = push_bit k (drop_bit k off)"
    using assms(1) high by (intro bit_eqI)
      (auto simp: align_off_def power_masks bit_simps not_less dest: high)
  have low: "(ucast (block_off off (2 ^ k)) :: u64) = take_bit k off"
    using assms(1) by (intro bit_eqI) (auto simp: block_off_def power_masks bit_simps)
  show sum: "align_off off (2 ^ k) + ucast (block_off off (2 ^ k)) = off"
    unfolding align low by (rule bits_ident)
  have "align_off off (2 ^ k) = off - take_bit k off" using sum low by (simp add: eq_diff_eq)
  moreover have "take_bit k off \<le> off" by (simp add: word_le_nat_alt unat_take_bit)
  ultimately show "unat (align_off off (2 ^ k)) = unat off - unat off mod 2 ^ k" by (simp add: unat_sub unat_take_bit)
qed

section \<open>Coherence\<close>

text \<open>
  A disk: its driver always succeeds, a read gives the bytes the disk holds and a write replaces them, as
  \<open>device.h\<close> documents the two operations; \<open>view\<close> is the contents of the disk in the driver's state.
\<close>

definition disk_read :: "('d \<Rightarrow> u64 \<Rightarrow> u8) \<Rightarrow> (u64 \<Rightarrow> u32 \<Rightarrow> 'd \<Rightarrow> int \<times> u8 list \<times> 'd) \<Rightarrow> bool" where
  "disk_read view dread \<longleftrightarrow> (\<forall>off n d. \<exists>d'. dread off n d = (0, get off (unat n) (view d), d') \<and> view d' = view d)"

definition disk_write :: "('d \<Rightarrow> u64 \<Rightarrow> u8) \<Rightarrow> (u64 \<Rightarrow> u8 list \<Rightarrow> 'd \<Rightarrow> int \<times> 'd) \<Rightarrow> bool" where
  "disk_write view dwrite \<longleftrightarrow> (\<forall>off xs d. \<exists>d'. dwrite off xs d = (0, d') \<and> view d' = put off xs (view d))"

text \<open>
  Every block of the table is complete, lies at an aligned offset below 4 GB and has the bytes of the
  disk; the blocks are the first ones of the sequence of allocations.
\<close>

definition block_ok :: "nat \<Rightarrow> (u64 \<Rightarrow> u8) \<Rightarrow> u64 \<Rightarrow> IoBlock \<Rightarrow> bool" where
  "block_ok k disk q k' \<longleftrightarrow> blk_offset k' = q \<and> blk_state k' = IO_BLOCK_OK \<and> unat q mod 2 ^ k = 0 \<and>
     unat q + 2 ^ k \<le> 2 ^ 32 \<and> blk_data k' = get q (2 ^ k) disk"

definition coherent :: "nat \<Rightarrow> ('d \<Rightarrow> u64 \<Rightarrow> u8) \<Rightarrow> block_alloc \<Rightarrow> 'd bcache \<Rightarrow> bool" where
  "coherent k view alloc s \<longleftrightarrow> k < 32 \<and> blockSize s = 2 ^ k \<and>
     (\<forall>q b. blockTable s q = Some b \<longrightarrow> block_ok k (view (devState s)) q (blockAt s b) \<and> b < allocCount s) \<and>
     (\<forall>n. length (snd (alloc n)) = 2 ^ k)"

text \<open>What the operations leave alone.\<close>

definition same_rest :: "('d \<Rightarrow> u64 \<Rightarrow> u8) \<Rightarrow> 'd bcache \<Rightarrow> 'd bcache \<Rightarrow> bool" where
  "same_rest view s s' \<longleftrightarrow> view (devState s') = view (devState s) \<and> umem s' = umem s \<and> blockList s' = blockList s"

lemma upd_block_sel [simp]:
  "blockSize (upd_block b f s) = blockSize s" "blockTable (upd_block b f s) = blockTable s"
  "blockList (upd_block b f s) = blockList s" "blockAt (upd_block b f s) = (blockAt s)(b := f (blockAt s b))"
  "allocCount (upd_block b f s) = allocCount s" "umem (upd_block b f s) = umem s" "devState (upd_block b f s) = devState s"
  by (simp_all add: upd_block_def)

lemma coherent_refCount:
  "coherent k view alloc s \<Longrightarrow> coherent k view alloc (upd_block b (blk_refCount_update f) s)"
  unfolding coherent_def by (auto simp: block_ok_def)

lemma unlock_ok:
  assumes "coherent k view alloc s" "blk_state (blockAt s b) = IO_BLOCK_OK"
  shows "coherent k view alloc (IoBlockCacheUnlock b s)" "same_rest view s (IoBlockCacheUnlock b s)"
    "blockTable (IoBlockCacheUnlock b s) = blockTable s"
  using assms coherent_refCount [OF assms(1)] by (auto simp: IoBlockCacheUnlock_def same_rest_def)

lemma coherentD:
  assumes "coherent k view alloc s" "blockTable s q = Some b"
  shows "block_ok k (view (devState s)) q (blockAt s b)" "b < allocCount s"
  using assms by (auto simp: coherent_def)

text \<open>A new block in the table, once its data is in place.\<close>

lemma coherent_new:
  assumes ok: "coherent k view alloc s" and off: "blockTable s q = None" and b: "b = allocCount s"
    and s': "blockTable s' = (blockTable s)(q \<mapsto> b)" "blockAt s' = (blockAt s)(b := k')" "blockSize s' = blockSize s"
      "allocCount s' = Suc (allocCount s)" "view (devState s') = view (devState s)"
    and new: "block_ok k (view (devState s)) q k'"
  shows "coherent k view alloc s'"
proof -
  have "block_ok k (view (devState s)) p (blockAt s' c) \<and> c < Suc (allocCount s)"
    if "blockTable s' p = Some c" for p c
  proof (cases "p = q")
    case True
    then show ?thesis using that new b s' by auto
  next
    case False
    then have "blockTable s p = Some c" using that s'(1) by simp
    then show ?thesis using coherentD [OF ok, of p c] b s'(2) by auto
  qed
  then show ?thesis using ok s'(3-5) by (simp add: coherent_def)
qed

lemma block_room:
  assumes "k < 32" "unat off < 2 ^ 32"
  shows "unat (align_off off (2 ^ k)) + 2 ^ k \<le> 2 ^ 32"
proof -
  have two: "(2 :: nat) ^ 32 = 2 ^ k * 2 ^ (32 - k)" using assms(1) by (simp flip: power_add)
  have "unat off div 2 ^ k < 2 ^ (32 - k)" using assms(2) unfolding two by (simp add: less_mult_imp_div_less mult.commute)
  moreover have "unat (align_off off (2 ^ k)) = 2 ^ k * (unat off div 2 ^ k)"
    unfolding align_off_eq(2) [OF assms] by (simp add: minus_mod_eq_mult_div)
  ultimately show ?thesis unfolding two by (metis Suc_leI mult_Suc_right mult_le_mono2 add.commute)
qed

lemma read_block:
  assumes ok: "coherent k view alloc s" and dread: "disk_read view dread" and low: "unat off < 2 ^ 32"
  shows "\<exists>b s'. IoBlockCacheRead (Some dread) id alloc off s = (0, Some b, s') \<and> coherent k view alloc s' \<and>
     same_rest view s s' \<and> blockTable s' (align_off off (2 ^ k)) = Some b"
proof -
  let ?q = "align_off off (2 ^ k)"
  have k: "k < 32" and bs: "blockSize s = 2 ^ k" using ok by (simp_all add: coherent_def)
  have room: "unat ?q + 2 ^ k \<le> 2 ^ 32" by (rule block_room [OF k low])
  have aligned: "unat ?q mod 2 ^ k = 0" unfolding align_off_eq(2) [OF k low] by (simp add: minus_mod_eq_mult_div)
  show ?thesis
  proof (cases "blockTable s ?q")
    case (Some b)
    then have "blk_state (blockAt s b) = IO_BLOCK_OK" using coherentD(1) [OF ok Some] by (simp add: block_ok_def)
    then show ?thesis using Some coherent_refCount [OF ok, of b]
      by (simp add: IoBlockCacheRead_def IoBlockHashFind_def bs Let_def same_rest_def)
  next
    case None
    define b where "b = allocCount s"
    obtain addr junk where new: "alloc (allocCount s) = (addr, junk)" by fastforce
    obtain d' where d': "dread ?q (2 ^ k) (devState s) = (0, get ?q (2 ^ k) (view (devState s)), d')" "view d' = view (devState s)"
      using dread k by (auto simp: disk_read_def power_masks dest!: spec [of _ ?q] spec [of _ "2 ^ k :: u32"] spec [of _ "devState s"])
    define s' where "s' = s\<lparr>allocCount := Suc (allocCount s), devState := d', blockTable := (blockTable s)(?q \<mapsto> b),
      blockAt := (blockAt s)(b := \<lparr>blk_offset = ?q, blk_state = IO_BLOCK_OK, blk_refCount = 1, blk_address = addr,
        blk_data = get ?q (2 ^ k) (view (devState s))\<rparr>)\<rparr>"
    have "IoBlockCacheRead (Some dread) id alloc off s = (0, Some b, s')"
      using None d' by (simp add: IoBlockCacheRead_def IoBlockHashFind_def bs Let_def CreateEmptyBlock_def new IoBlockHashInsert_def
          upd_block_def s'_def b_def)
    moreover have "coherent k view alloc s'"
      using room aligned new d'(2) by (intro coherent_new [OF ok None]) (auto simp: s'_def block_ok_def b_def)
    ultimately show ?thesis using d'(2) by (auto simp: same_rest_def s'_def)
  qed
qed

section \<open>Reading\<close>

text \<open>The part of a transfer that lies in one block.\<close>

lemma block_part:
  assumes "k < 32" "unat off < 2 ^ 32" "len \<noteq> 0"
  defines "bo \<equiv> block_off off (2 ^ k)"
  defines "bl \<equiv> min (2 ^ k - bo) len"
  shows "bl \<noteq> 0" "bl \<le> len" "unat bo + unat bl \<le> 2 ^ k" "unat (len - bl) < unat len" "unat bl + unat (len - bl) = unat len"
    "align_off off (2 ^ k) + of_nat (unat bo) = off" "unat (align_off off (2 ^ k)) + unat bo = unat off"
    "unat (align_off off (2 ^ k)) mod 2 ^ k = 0"
    "unat off + unat len \<le> 2 ^ 32 \<Longrightarrow> len \<noteq> bl \<Longrightarrow> unat (off + ucast bl) = unat off + unat bl"
    "(ucast bl :: u64) = of_nat (unat bl)"
proof -
  have bo: "unat bo = unat off mod 2 ^ k" unfolding bo_def by (rule block_off_mod [OF assms(1)])
  then have less: "unat bo < 2 ^ k" by simp
  then have "bo < 2 ^ k" using assms(1) by (simp add: word_less_nat_alt power_masks)
  then have diff: "unat (2 ^ k - bo) = 2 ^ k - unat bo" "2 ^ k - bo \<noteq> 0"
    using assms(1) by (auto simp: unat_minus_32 power_masks)
  show nz: "bl \<noteq> 0" using diff(2) assms(3) by (simp add: bl_def min_def)
  show le: "bl \<le> len" by (simp add: bl_def)
  have "unat bl \<le> unat (2 ^ k - bo)" by (simp add: bl_def flip: word_le_nat_alt)
  then show "unat bo + unat bl \<le> 2 ^ k" using diff less by simp
  show sum: "unat bl + unat (len - bl) = unat len" using le by (simp add: unat_sub word_le_nat_alt)
  moreover have "unat bl > 0" using nz by (simp add: unat_gt_0)
  ultimately show "unat (len - bl) < unat len" by linarith
  show "align_off off (2 ^ k) + of_nat (unat bo) = off"
    using align_off_eq(1) [OF assms(1,2)] by (simp add: bo_def)
  show "unat (align_off off (2 ^ k)) + unat bo = unat off" using align_off_eq(2) [OF assms(1,2)] bo by simp
  show "unat (align_off off (2 ^ k)) mod 2 ^ k = 0" using align_off_eq(2) [OF assms(1,2)] by (simp add: minus_mod_eq_mult_div)
  show up: "(ucast bl :: u64) = of_nat (unat bl)" by simp
  show "unat (off + ucast bl) = unat off + unat bl" if "unat off + unat len \<le> 2 ^ 32" "len \<noteq> bl"
  proof -
    have "unat (ucast bl :: u64) = unat bl"
      using unat_less_32 [of bl] by (simp add: unsigned_ucast_eq take_bit_nat_eq_self_iff)
    then show ?thesis using that sum unat_add_lem [of off "ucast bl"] by simp
  qed
qed

text \<open>One block of a read: the loop goes on behind the first \<open>bl\<close> bytes.\<close>

lemma read_buffer_step:
  assumes ok: "coherent k view alloc s" and dread: "disk_read view dread" and low: "unat off < 2 ^ 32" and nz: "len \<noteq> 0"
  defines "bl \<equiv> min (2 ^ k - block_off off (2 ^ k)) len"
  shows "\<exists>s3. IoBlockCacheReadBuffer (Some dread) id alloc (\<lambda>_ _. True) off buffer len s =
      IoBlockCacheReadBuffer (Some dread) id alloc (\<lambda>_ _. True) (off + ucast bl) (buffer + bl) (len - bl) s3 \<and> coherent k view alloc s3 \<and>
    view (devState s3) = view (devState s) \<and> blockList s3 = blockList s \<and> umem s3 = put buffer (get off (unat bl) (view (devState s))) (umem s)"
proof -
  have k: "k < 32" and bs: "blockSize s = 2 ^ k" using ok by (simp_all add: coherent_def)
  define bo where "bo = block_off off (2 ^ k)"
  have bl: "bl = min (2 ^ k - bo) len" by (simp add: bl_def bo_def)
  note part = block_part [OF k low nz, folded bo_def, folded bl]
  let ?o = "align_off off (2 ^ k)" and ?disk = "view (devState s)"
  obtain b s1 where read: "IoBlockCacheRead (Some dread) id alloc off s = (0, Some b, s1)"
    and s1: "coherent k view alloc s1" "same_rest view s s1" "blockTable s1 ?o = Some b"
    using read_block [OF ok dread low] by blast
  have blk: "block_ok k ?disk ?o (blockAt s1 b)" using coherentD(1) [OF s1(1,3)] s1(2) by (simp add: same_rest_def)
  then have data: "take (unat bl) (drop (unat bo) (blk_data (blockAt s1 b))) = get off (unat bl) ?disk"
    using part(3,6) by (simp add: block_ok_def take_drop_get)
  define s2 where "s2 = s1\<lparr>umem := put buffer (get off (unat bl) ?disk) (umem s1)\<rparr>"
  have "coherent k view alloc s2" using s1(1) by (simp add: coherent_def s2_def)
  moreover have "blk_state (blockAt s2 b) = IO_BLOCK_OK" using blk by (simp add: s2_def block_ok_def)
  ultimately have s3: "coherent k view alloc (IoBlockCacheUnlock b s2)" "same_rest view s2 (IoBlockCacheUnlock b s2)" by (rule unlock_ok)+
  have "IoBlockCacheReadBuffer (Some dread) id alloc (\<lambda>_ _. True) off buffer len s =
      IoBlockCacheReadBuffer (Some dread) id alloc (\<lambda>_ _. True) (off + ucast bl) (buffer + bl) (len - bl) (IoBlockCacheUnlock b s2)"
    using nz read data by (subst IoBlockCacheReadBuffer.simps) (simp add: bs Let_def s2_def flip: bo_def bl)
  then show ?thesis using s3 s1(2) by (intro exI [of _ "IoBlockCacheUnlock b s2"]) (simp add: same_rest_def s2_def)
qed

lemma read_buffer_ok:
  assumes "coherent k view alloc s" "disk_read view dread" "unat off + unat len \<le> 2 ^ 32"
  shows "\<exists>s'. IoBlockCacheReadBuffer (Some dread) id alloc (\<lambda>_ _. True) off buffer len s = Some (0, s') \<and>
     coherent k view alloc s' \<and> view (devState s') = view (devState s) \<and> blockList s' = blockList s \<and>
     umem s' = put buffer (get off (unat len) (view (devState s))) (umem s)"
  using assms
proof (induction "unat len" arbitrary: off buffer len s rule: less_induct)
  case less
  show ?case
  proof (cases "len = 0")
    case True
    then show ?thesis using less.prems by (simp add: IoBlockCacheReadBuffer.simps get_def)
  next
    case False
    then have "unat len > 0" by (simp add: unat_gt_0)
    then have low: "unat off < 2 ^ 32" using less.prems(3) by linarith
    have k: "k < 32" using less.prems(1) by (simp add: coherent_def)
    let ?disk = "view (devState s)"
    define bl where "bl = min (2 ^ k - block_off off (2 ^ k)) len"
    note part = block_part [OF k low False, folded bl_def]
    obtain s3 where step: "IoBlockCacheReadBuffer (Some dread) id alloc (\<lambda>_ _. True) off buffer len s =
        IoBlockCacheReadBuffer (Some dread) id alloc (\<lambda>_ _. True) (off + ucast bl) (buffer + bl) (len - bl) s3"
      and s3: "coherent k view alloc s3" "view (devState s3) = ?disk" "blockList s3 = blockList s" "umem s3 = put buffer (get off (unat bl) ?disk) (umem s)"
      using read_buffer_step [OF less.prems(1,2) low False] unfolding bl_def by blast
    have "get off (unat len) ?disk = get off (unat bl) ?disk @ get (off + ucast bl) (unat (len - bl)) ?disk"
      using get_append [of off "unat bl" "unat (len - bl)"] part(5) by simp
    then have whole: "put buffer (get off (unat len) ?disk) (umem s) = put (buffer + bl) (get (off + ucast bl) (unat (len - bl)) ?disk) (umem s3)"
      by (simp add: put_append s3(4))
    show ?thesis
    proof (cases "len = bl")
      case True
      then show ?thesis using step s3 whole by (simp add: IoBlockCacheReadBuffer.simps get_def)
    next
      case False
      then have "unat (off + ucast bl) + unat (len - bl) \<le> 2 ^ 32" using part(5,9) less.prems(3) by auto
      from less.hyps [OF part(4) s3(1) less.prems(2) this, of "buffer + bl"] show ?thesis unfolding step whole s3(2,3) .
    qed
  qed
qed

section \<open>Writing\<close>

text \<open>A block that agrees with the disk outside the bytes that are about to be written.\<close>

definition target_ok :: "nat \<Rightarrow> (u64 \<Rightarrow> u8) \<Rightarrow> u64 \<Rightarrow> nat \<Rightarrow> nat \<Rightarrow> IoBlock \<Rightarrow> bool" where
  "target_ok k disk q bo bl blk \<longleftrightarrow> blk_state blk = IO_BLOCK_OK \<and> length (blk_data blk) = 2 ^ k \<and>
     take bo (blk_data blk) = take bo (get q (2 ^ k) disk) \<and> drop (bo + bl) (blk_data blk) = drop (bo + bl) (get q (2 ^ k) disk)"

abbreviation refill :: "nat \<Rightarrow> ('d \<Rightarrow> u64 \<Rightarrow> u8) \<Rightarrow> u64 \<Rightarrow> block_ref \<Rightarrow> 'd bcache \<Rightarrow> 'd bcache" where
  "refill k view q b s \<equiv> upd_block b (blk_data_update (\<lambda>_. get q (2 ^ k) (view (devState s)))) s"

lemma target_intact:
  assumes "coherent k view alloc s" "blockTable s q = Some b"
  shows "coherent k view alloc (refill k view q b s) \<and> target_ok k (view (devState s)) q i j (blockAt s b)"
proof -
  have blk: "block_ok k (view (devState s)) q (blockAt s b)" by (rule coherentD(1) [OF assms])
  then have "(blockAt s b)\<lparr>blk_data := get q (2 ^ k) (view (devState s))\<rparr> = blockAt s b"
    by (cases "blockAt s b") (simp add: block_ok_def)
  then have "refill k view q b s = s" by (simp add: upd_block_def)
  then show ?thesis using blk assms(1) by (simp add: block_ok_def target_ok_def)
qed

text \<open>A new block for a write that covers it whole.\<close>

lemma target_created:
  assumes ok: "coherent k view alloc s" and low: "unat off < 2 ^ 32" and none: "blockTable s (align_off off (2 ^ k)) = None"
  defines "q \<equiv> align_off off (2 ^ k)"
  shows "\<exists>b s'. CreateEmptyBlock alloc q s = (b, s') \<and> blockTable (set_state b IO_BLOCK_OK s') q = Some b \<and> same_rest view s (set_state b IO_BLOCK_OK s') \<and>
    coherent k view alloc (refill k view q b (set_state b IO_BLOCK_OK s')) \<and>
    target_ok k (view (devState s)) q 0 (2 ^ k) (blockAt (set_state b IO_BLOCK_OK s') b)"
proof -
  have k: "k < 32" using ok by (simp add: coherent_def)
  define b where "b = allocCount s"
  obtain addr junk where new: "alloc (allocCount s) = (addr, junk)" by fastforce
  have junk: "length junk = 2 ^ k" using ok new by (simp add: coherent_def) (metis snd_conv)
  define s' where "s' = s\<lparr>allocCount := Suc (allocCount s), blockTable := (blockTable s)(q \<mapsto> b),
    blockAt := (blockAt s)(b := \<lparr>blk_offset = q, blk_state = IO_BLOCK_OK, blk_refCount = 1, blk_address = addr, blk_data = junk\<rparr>)\<rparr>"
  have s1: "CreateEmptyBlock alloc q s = (b, s')" "set_state b IO_BLOCK_OK s' = s'"
    using none by (simp_all flip: q_def add: CreateEmptyBlock_def new IoBlockHashInsert_def upd_block_def s'_def b_def Let_def)
  have "coherent k view alloc (refill k view q b s')"
    using new block_room [OF k low] block_part(8) [OF k low one_neq_zero]
    by (intro coherent_new [OF ok none]) (auto simp: s'_def block_ok_def upd_block_def q_def b_def)
  moreover have "target_ok k (view (devState s)) q 0 (2 ^ k) (blockAt s' b)" using junk k by (simp add: target_ok_def s'_def)
  ultimately show ?thesis using s1 by (auto simp: same_rest_def s'_def)
qed

lemma write_target_ok:
  fixes len :: u32
  assumes ok: "coherent k view alloc s" and dread: "disk_read view dread" and low: "unat off < 2 ^ 32"
  defines "bo \<equiv> block_off off (2 ^ k)"
  defines "bl \<equiv> min (2 ^ k - bo) len" and "q \<equiv> align_off off (2 ^ k)"
  shows "\<exists>b s'. write_target (Some dread) id alloc off bl s = (0, Some b, s') \<and> blockTable s' q = Some b \<and>
     same_rest view s s' \<and> coherent k view alloc (refill k view q b s') \<and>
     target_ok k (view (devState s)) q (unat bo) (unat bl) (blockAt s' b)"
proof (cases "bo \<noteq> 0 \<or> bl \<noteq> 2 ^ k")
  case True
  then have "write_target (Some dread) id alloc off bl s = IoBlockCacheRead (Some dread) id alloc off s"
    using ok by (auto simp: write_target_def coherent_def bo_def)
  then show ?thesis using read_block [OF ok dread low] target_intact unfolding q_def by (fastforce simp: same_rest_def)
next
  case False
  then have full: "write_target (Some dread) id alloc off bl s = (case blockTable s q of Some b \<Rightarrow> (0, Some b, s)
      | None \<Rightarrow> let (b, s1) = CreateEmptyBlock alloc q s in (0, Some b, set_state b IO_BLOCK_OK s1))"
    using ok by (simp add: write_target_def coherent_def bo_def q_def IoBlockHashFind_def cong: option.case_cong)
  have size: "unat bo = 0" "unat bl = 2 ^ k" using False ok by (simp_all add: power_masks coherent_def)
  show ?thesis
  proof (cases "blockTable s q")
    case (Some b)
    then show ?thesis using full target_intact [OF ok Some] by (auto simp: same_rest_def)
  next
    case None
    then show ?thesis using full target_created [OF ok low] unfolding q_def size by auto
  qed
qed

lemma aligned_apart:
  fixes p q :: u64
  assumes "unat p mod 2 ^ k = 0" "unat q mod 2 ^ k = 0" "p \<noteq> q"
  shows "unat p + 2 ^ k \<le> unat q \<or> unat q + 2 ^ k \<le> unat p"
proof -
  obtain i j where ij: "unat p = 2 ^ k * i" "unat q = 2 ^ k * j" using assms(1,2) by (metis dvdE mod_0_imp_dvd)
  then have "i \<noteq> j" using assms(3) by (metis word_unat_eq_iff)
  then have "Suc i \<le> j \<or> Suc j \<le> i" by linarith
  then have "2 ^ k * Suc i \<le> 2 ^ k * j \<or> 2 ^ k * Suc j \<le> 2 ^ k * i" by (metis mult_le_mono2)
  then show ?thesis unfolding ij by (simp add: add.commute)
qed

text \<open>The other blocks do not see a write.\<close>

lemma block_ok_put:
  assumes "block_ok k disk p blk" "unat q mod 2 ^ k = 0" "p \<noteq> q" "unat q + 2 ^ k \<le> 2 ^ 32"
    and "unat q \<le> unat off" "unat off + length xs \<le> unat q + 2 ^ k"
  shows "block_ok k (put off xs disk) p blk"
proof -
  have "unat p + 2 ^ k \<le> unat q \<or> unat q + 2 ^ k \<le> unat p"
    using assms(1-3) by (intro aligned_apart) (simp_all add: block_ok_def)
  then have "get p (2 ^ k) (put off xs disk) = get p (2 ^ k) disk"
    using assms by (intro get_put(1)) (auto simp: block_ok_def)
  then show ?thesis using assms(1) by (simp add: block_ok_def)
qed

lemma write_block_ok:
  assumes ok: "coherent k view alloc (refill k view q b s)" and here: "blockTable s q = Some b" and dwrite: "disk_write view dwrite"
    and target: "target_ok k (view (devState s)) q (unat bo) (unat bl) (blockAt s b)"
    and part: "unat bo + unat bl \<le> 2 ^ k" "unat q + unat bo = unat off"
  shows "\<exists>s'. write_block dwrite id b off bo buffer bl s = (0, s') \<and> coherent k view alloc s' \<and> umem s' = umem s \<and>
     blockList s' = blockList s \<and> view (devState s') = put off (get buffer (unat bl) (umem s)) (view (devState s))"
proof -
  let ?disk = "view (devState s)" and ?chunk = "get buffer (unat bl) (umem s)"
  let ?data = "take (unat bo) (blk_data (blockAt s b)) @ ?chunk @ drop (unat bo + unat bl) (blk_data (blockAt s b))"
  obtain d' where d': "dwrite off ?chunk (devState s) = (0, d')" "view d' = put off ?chunk ?disk"
    using dwrite by (auto simp: disk_write_def dest!: spec [of _ off] spec [of _ ?chunk] spec [of _ "devState s"])
  define s1 where "s1 = upd_block b (\<lambda>blk. blk\<lparr>blk_data := ?data, blk_state := IO_BLOCK_OK\<rparr>) (s\<lparr>devState := d'\<rparr>)"
  have len: "length (blk_data (blockAt s b)) = 2 ^ k" using target by (simp add: target_ok_def)
  have run: "write_block dwrite id b off bo buffer bl s = (0, IoBlockCacheUnlock b s1)"
    using d'(1) part(1) len by (simp add: write_block_def Let_def s1_def upd_block_def)
  have blk: "block_ok k ?disk q (blockAt (refill k view q b s) b)" using coherentD(1) [OF ok, of q b] here by simp
  then have q: "unat q mod 2 ^ k = 0" "unat q + 2 ^ k \<le> 2 ^ 32" "blk_offset (blockAt s b) = q" by (simp_all add: block_ok_def)
  have "unat off - unat q = unat bo" "unat off + unat bl - unat q = unat bo + unat bl" using part(2) by linarith+
  then have "?data = get q (2 ^ k) (put off ?chunk ?disk)"
    using q(2) part target get_put(2) [of q "2 ^ k" off ?chunk ?disk] by (simp add: target_ok_def)
  then have new: "block_ok k (put off ?chunk ?disk) q (blockAt s1 b)" using q by (simp add: block_ok_def s1_def)
  have "block_ok k (view (devState s1)) p (blockAt s1 c) \<and> c < allocCount s1"
    if c: "blockTable s1 p = Some c" for p c
  proof (cases "c = b")
    case True
    then have "p = q" using coherentD(1) [OF ok, of p b] c q(3) by (simp add: s1_def block_ok_def)
    then show ?thesis using True new c coherentD(2) [OF ok, of p c] by (simp add: s1_def d'(2))
  next
    case False
    have "block_ok k ?disk p (blockAt s c)" using coherentD(1) [OF ok, of p c] c False by (simp add: s1_def)
    moreover have "p \<noteq> q" using c here False by (auto simp: s1_def)
    ultimately have "block_ok k (put off ?chunk ?disk) p (blockAt s c)"
      using q part by (intro block_ok_put [of _ _ _ _ q]) auto
    then show ?thesis using c False coherentD(2) [OF ok, of p c] by (simp add: s1_def d'(2))
  qed
  then have s1: "coherent k view alloc s1" using ok by (simp add: coherent_def s1_def)
  have "blk_state (blockAt s1 b) = IO_BLOCK_OK" by (simp add: s1_def)
  then show ?thesis using run unlock_ok [OF s1, of b] d'(2) by (auto simp: same_rest_def s1_def)
qed

text \<open>One block of a write.\<close>

lemma write_loop_step:
  assumes ok: "coherent k view alloc s" and disk: "disk_read view dread" "disk_write view dwrite" and low: "unat off < 2 ^ 32" and nz: "len \<noteq> 0"
  defines "bl \<equiv> min (2 ^ k - block_off off (2 ^ k)) len"
  shows "\<exists>s2. write_loop (Some dread) dwrite id alloc (\<lambda>_ _. True) off buffer len s =
      write_loop (Some dread) dwrite id alloc (\<lambda>_ _. True) (off + ucast bl) (buffer + bl) (len - bl) s2 \<and> coherent k view alloc s2 \<and>
    umem s2 = umem s \<and> blockList s2 = blockList s \<and> view (devState s2) = put off (get buffer (unat bl) (umem s)) (view (devState s))"
proof -
  have k: "k < 32" and bs: "blockSize s = 2 ^ k" using ok by (simp_all add: coherent_def)
  define bo where "bo = block_off off (2 ^ k)"
  have bl: "bl = min (2 ^ k - bo) len" by (simp add: bl_def bo_def)
  note part = block_part [OF k low nz, folded bo_def, folded bl]
  obtain b s1 where target: "write_target (Some dread) id alloc off bl s = (0, Some b, s1)"
    and s1: "blockTable s1 (align_off off (2 ^ k)) = Some b" "same_rest view s s1"
      "coherent k view alloc (refill k view (align_off off (2 ^ k)) b s1)"
      "target_ok k (view (devState s1)) (align_off off (2 ^ k)) (unat bo) (unat bl) (blockAt s1 b)"
    using write_target_ok [OF ok disk(1) low] unfolding bo_def bl_def by (fastforce simp: same_rest_def)
  obtain s2 where s2: "write_block dwrite id b off bo buffer bl s1 = (0, s2)" "coherent k view alloc s2" "umem s2 = umem s"
      "blockList s2 = blockList s" "view (devState s2) = put off (get buffer (unat bl) (umem s)) (view (devState s))"
    using write_block_ok [OF s1(3,1) disk(2) s1(4) part(3,7)] s1(2) by (auto simp: same_rest_def)
  have "wait_block id b s1 = Some s1" "blk_state (blockAt s1 b) \<noteq> IO_BLOCK_ERROR"
    using s1(4) by (simp_all add: target_ok_def wait_block.simps)
  then have "write_loop (Some dread) dwrite id alloc (\<lambda>_ _. True) off buffer len s =
      write_loop (Some dread) dwrite id alloc (\<lambda>_ _. True) (off + ucast bl) (buffer + bl) (len - bl) s2"
    using nz target s2(1) by (subst write_loop.simps) (simp add: bs Let_def flip: bo_def bl)
  then show ?thesis using s2 by blast
qed

lemma write_loop_ok:
  assumes "coherent k view alloc s" "disk_read view dread" "disk_write view dwrite" "unat off + unat len \<le> 2 ^ 32"
  shows "\<exists>s'. write_loop (Some dread) dwrite id alloc (\<lambda>_ _. True) off buffer len s = Some (0, s') \<and>
     coherent k view alloc s' \<and> umem s' = umem s \<and> blockList s' = blockList s \<and>
     view (devState s') = put off (get buffer (unat len) (umem s)) (view (devState s))"
  using assms
proof (induction "unat len" arbitrary: off buffer len s rule: less_induct)
  case less
  show ?case
  proof (cases "len = 0")
    case True
    then show ?thesis using less.prems by (simp add: write_loop.simps get_def)
  next
    case False
    then have "unat len > 0" by (simp add: unat_gt_0)
    then have low: "unat off < 2 ^ 32" using less.prems(4) by linarith
    have k: "k < 32" using less.prems(1) by (simp add: coherent_def)
    define bl where "bl = min (2 ^ k - block_off off (2 ^ k)) len"
    note part = block_part [OF k low False, folded bl_def]
    obtain s2 where step: "write_loop (Some dread) dwrite id alloc (\<lambda>_ _. True) off buffer len s =
        write_loop (Some dread) dwrite id alloc (\<lambda>_ _. True) (off + ucast bl) (buffer + bl) (len - bl) s2"
      and s2: "coherent k view alloc s2" "umem s2 = umem s" "blockList s2 = blockList s"
        "view (devState s2) = put off (get buffer (unat bl) (umem s)) (view (devState s))"
      using write_loop_step [OF less.prems(1-3) low False] unfolding bl_def by blast
    let ?rest = "get (buffer + bl) (unat (len - bl)) (umem s)"
    have "get buffer (unat len) (umem s) = get buffer (unat bl) (umem s) @ ?rest"
      using get_append [of buffer "unat bl" "unat (len - bl)"] part(5) by simp
    then have whole: "put off (get buffer (unat len) (umem s)) (view (devState s)) = put (off + ucast bl) ?rest (view (devState s2))"
      by (simp add: put_append s2(4))
    show ?thesis
    proof (cases "len = bl")
      case True
      then show ?thesis using step s2 whole by (simp add: write_loop.simps get_def)
    next
      case False
      then have "unat (off + ucast bl) + unat (len - bl) \<le> 2 ^ 32" using part(5,9) less.prems(4) by auto
      from less.hyps [OF part(4) s2(1) less.prems(2,3) this, of "buffer + bl"] show ?thesis unfolding step whole s2(2,3) .
    qed
  qed
qed

section \<open>Properties\<close>


text \<open>A memory disk with blocks of 16 bytes.\<close>

definition ram_read :: "u64 \<Rightarrow> u32 \<Rightarrow> (u64 \<Rightarrow> u8) \<Rightarrow> int \<times> u8 list \<times> (u64 \<Rightarrow> u8)" where
  "ram_read off n d = (0, get off (unat n) d, d)"

definition ram_write :: "u64 \<Rightarrow> u8 list \<Rightarrow> (u64 \<Rightarrow> u8) \<Rightarrow> int \<times> (u64 \<Rightarrow> u8)" where
  "ram_write off xs d = (0, put off xs d)"

definition demo_alloc_block :: block_alloc where "demo_alloc_block n = (0xC0000000, replicate 16 0)"

definition ram_cache :: "(u64 \<Rightarrow> u8) bcache" where
  "ram_cache = \<lparr>blockSize = 16, blockTable = Map.empty, blockList = [], blockAt = (\<lambda>_. undefined), freedBlocks = [],
     cacheFreed = False, allocCount = 0, umem = (\<lambda>_. 0), devState = (\<lambda>a. ucast a)\<rparr>"

lemma ram_disk: "disk_read id ram_read" "disk_write id ram_write"
  by (simp_all add: disk_read_def disk_write_def ram_read_def ram_write_def)

lemma ram_coherent: "coherent 4 id demo_alloc_block ram_cache"
  by (simp add: coherent_def ram_cache_def demo_alloc_block_def)


text \<open>
  Write-through. Under the same conditions \<open>IoBlockCacheWriteBuffer\<close> ends with success, the disk then
  holds the bytes of the buffer and is otherwise unchanged, the buffers of the callers are unchanged and
  the cache is coherent with the new contents of the disk.
\<close>

theorem bcache_write_through:
  assumes "coherent k view alloc s" "disk_read view dread" "disk_write view dwrite" "unat off + unat len \<le> 2 ^ 32"
  shows "\<exists>s'. IoBlockCacheWriteBuffer (Some dread) (Some dwrite) id alloc (\<lambda>_ _. True) off buffer len s = Some (0, s') \<and>
     view (devState s') = put off (get buffer (unat len) (umem s)) (view (devState s)) \<and>
     umem s' = umem s \<and> coherent k view alloc s'"
proof (cases "len = 0")
  case True
  then show ?thesis using assms(1) by (simp add: IoBlockCacheWriteBuffer_def get_def)
next
  case False
  then show ?thesis using write_loop_ok [OF assms, of buffer] by (auto simp: IoBlockCacheWriteBuffer_def)
qed

theorem bcache_write_through_witness:
  "\<exists>s'. IoBlockCacheWriteBuffer (Some ram_read) (Some ram_write) id demo_alloc_block (\<lambda>_ _. True) 14 0x1000 4 ram_cache = Some (0, s') \<and>
     map (devState s') [13, 14, 17, 18] = [13, 0, 0, 18]"
proof -
  have "get (0x1000 :: u32) 4 (umem ram_cache) = [0, 0, 0, 0]" by (simp add: get_def upt_rec ram_cache_def)
  then show ?thesis
    using bcache_write_through [OF ram_coherent ram_disk, of 14 4 "0x1000"] by (auto simp: ram_cache_def)
qed

text \<open>
  (C7) Reading back. What is written through the cache at an offset is what a later read through the cache at
  that offset gives, whatever the sizes and the alignment.
\<close>

theorem bcache_write_read:
  assumes "coherent k view alloc s" "disk_read view dread" "disk_write view dwrite" "unat off + unat len \<le> 2 ^ 32"
  shows "\<exists>s1 s2. IoBlockCacheWriteBuffer (Some dread) (Some dwrite) id alloc (\<lambda>_ _. True) off src len s = Some (0, s1) \<and>
     IoBlockCacheReadBuffer (Some dread) id alloc (\<lambda>_ _. True) off dst len s1 = Some (0, s2) \<and>
     umem s2 = put dst (get src (unat len) (umem s)) (umem s)"
proof -
  let ?data = "get src (unat len) (umem s)"
  obtain s1 where s1: "write_loop (Some dread) dwrite id alloc (\<lambda>_ _. True) off src len s = Some (0, s1)"
      "coherent k view alloc s1" "umem s1 = umem s" "view (devState s1) = put off ?data (view (devState s))"
    using write_loop_ok [OF assms, of src] by blast
  have "get off (unat len) (put off ?data (view (devState s))) = ?data"
    using assms(4) get_put(2) [of off "unat len" off ?data] by simp
  then obtain s2 where "IoBlockCacheReadBuffer (Some dread) id alloc (\<lambda>_ _. True) off dst len s1 = Some (0, s2)"
      "umem s2 = put dst ?data (umem s)"
    using read_buffer_ok [OF s1(2) assms(2,4), of dst] s1(3,4) by auto
  then show ?thesis using s1(1) by (cases "len = 0") (auto simp: IoBlockCacheWriteBuffer_def write_loop.simps)
qed

theorem bcache_write_read_witness:
  "\<exists>s1 s2. IoBlockCacheWriteBuffer (Some ram_read) (Some ram_write) id demo_alloc_block (\<lambda>_ _. True) 14 0x1000 4 ram_cache = Some (0, s1) \<and>
     IoBlockCacheReadBuffer (Some ram_read) id demo_alloc_block (\<lambda>_ _. True) 14 0x2000 4 s1 = Some (0, s2) \<and>
     umem s2 0x2003 = 0"
proof -
  have "get (0x1000 :: u32) 4 (umem ram_cache) = [0, 0, 0, 0]" by (simp add: get_def upt_rec ram_cache_def)
  then show ?thesis using bcache_write_read [OF ram_coherent ram_disk, of 14 4 "0x1000" "0x2000"] by fastforce
qed

text \<open>
  Beyond 4 GB. The mask that aligns an offset has 32 bits: the high half of the offset is lost. An offset
  of 4 GB or more reads the block at the offset modulo 4 GB.
\<close>

theorem bcache_offset_truncated:
  "IoBlockCacheRead devRead others alloc off s = IoBlockCacheRead devRead others alloc (off AND 0xFFFFFFFF) s"
proof -
  have "off AND ucast (w :: u32) = (off AND 0xFFFFFFFF) AND ucast w" for w
  proof -
    have "0xFFFFFFFF AND (ucast w :: u64) = take_bit 32 (ucast w)"
      using take_bit_eq_mask [of 32 "ucast w :: u64"] by (simp add: mask_eq_exp_minus_1 and.commute)
    moreover have "take_bit 32 (ucast w :: u64) = ucast w"
      by (rule bit_eqI) (auto simp: bit_simps dest: bit_imp_le_length)
    ultimately show ?thesis by (simp add: and.assoc)
  qed
  then have "align_off off (blockSize s) = align_off (off AND 0xFFFFFFFF) (blockSize s)" unfolding align_off_def .
  then show ?thesis unfolding IoBlockCacheRead_def by metis
qed

text \<open>
  Destruction. No operation puts a block on the list of all blocks, on which \<open>IoBlockCacheDestroy\<close> relies:
  with the empty list of a new cache it reports success and frees the cache, whatever blocks are locked,
  and frees none of the blocks.
\<close>

theorem bcache_destroy_leaks:
  assumes "blockList s = []"
  shows "IoBlockCacheDestroy s = (True, s\<lparr>cacheFreed := True\<rparr>) \<and>
     blockList (snd (snd (IoBlockCacheRead devRead id alloc off s))) = []"
  using assms by (auto simp: IoBlockCacheDestroy_def IoBlockCacheRead_def IoBlockHashFind_def CreateEmptyBlock_def IoBlockHashInsert_def
      IoBlockCacheUnlock_def hash_remove_item_def FreeBlock_def Let_def split: option.split prod.split)

theorem bcache_destroy_leaks_witness:
  "\<exists>s :: (u64 \<Rightarrow> u8) bcache. blockTable s 0 = Some 0 \<and> blk_refCount (blockAt s 0) = 1 \<and> IoBlockCacheDestroy s = (True, s\<lparr>cacheFreed := True\<rparr>)"
proof -
  let ?r = "IoBlockCacheRead (Some ram_read) id demo_alloc_block 0 ram_cache"
  have "blockList (snd (snd ?r)) = []" using bcache_destroy_leaks [of ram_cache] by (simp add: ram_cache_def)
  then have "IoBlockCacheDestroy (snd (snd ?r)) = (True, (snd (snd ?r))\<lparr>cacheFreed := True\<rparr>)"
    using bcache_destroy_leaks by blast
  moreover have "blockTable (snd (snd ?r)) 0 = Some 0" "blk_refCount (blockAt (snd (snd ?r)) 0) = 1"
    by (simp_all add: IoBlockCacheRead_def IoBlockHashFind_def CreateEmptyBlock_def IoBlockHashInsert_def Let_def ram_read_def
        demo_alloc_block_def ram_cache_def align_off_def)
  ultimately show ?thesis by blast
qed

end
