(* ===== verification/Cpu_Fpu.thy ===== *)
theory Cpu_Fpu
  imports Prelude
begin

text \<open>
  Lazy switching of the floating point registers, \<open>kernel/src/cpu.c\<close>, and thread local storage
  descriptors, \<open>kernel/src/process/tls.c\<close>.

  The registers and a thread's save area are images of half words. \<open>fpuRegs\<close> is what the processor
  holds, \<open>fpuSaved t\<close> the area that \<open>t->fpuState\<close> points to (\<open>None\<close> for \<open>NULL\<close>); saving and restoring
  move whole images. Which thread is running is an argument, because the scheduler owns that variable.
\<close>

type_synonym fpu_image = "u16 list"

record fpu_state =
  hasFpu :: bool
  hasFxSave :: bool
  hasDenormalsAreZero :: bool
  fpuCurrent :: "u32 option"
  fpuRegs :: fpu_image
  fpuSaved :: "u32 \<Rightarrow> fpu_image option"
  fpuSwitches :: "u32 \<Rightarrow> u8"
  cr0_ts :: bool

definition CPU_FPU_SWITCH_THRESHOLD :: u8 where "CPU_FPU_SWITCH_THRESHOLD = 10"

text \<open>The contents of a new save area: 512 bytes with \<open>fxsave\<close>, 108 without.\<close>

definition fpu_init :: "bool \<Rightarrow> bool \<Rightarrow> fpu_image" where
  "fpu_init fxsave daz =
     (if fxsave then
        (let img = ((replicate 256 0)[0 := 0x37F])[12 := 0x1F80] in if daz then img[13 := 0xFFFF] else img)
      else (replicate 54 0)[0 := 0x37F])"

definition DoFpuSwitch :: "u32 \<Rightarrow> 'a fpu_state_scheme \<Rightarrow> 'a fpu_state_scheme" where
  "DoFpuSwitch thr s =
     (let s1 = (case fpuCurrent s of None \<Rightarrow> s
                | Some t \<Rightarrow> s\<lparr>fpuSaved := (fpuSaved s)(t := Some (fpuRegs s))\<rparr>);
          s2 = (case fpuSaved s1 thr of
                  None \<Rightarrow> s1\<lparr>fpuSaved := (fpuSaved s1)(thr := Some (fpu_init (hasFxSave s1) (hasDenormalsAreZero s1)))\<rparr>
                | Some _ \<Rightarrow> s1)
      in s2\<lparr>fpuRegs := the (fpuSaved s2 thr), fpuSwitches := (fpuSwitches s2)(thr := fpuSwitches s2 thr + 1),
            fpuCurrent := Some thr\<rparr>)"

datatype fpu_trap = FpuSwitched | FpuSignal

text \<open>The exception handler: a panic in kernel mode, a switch, or \<open>SIGFPE\<close> for the current thread.\<close>

definition CpuNoFpuException :: "u32 \<Rightarrow> u32 \<Rightarrow> 'a fpu_state_scheme \<Rightarrow> (fpu_trap \<times> 'a fpu_state_scheme) outcome" where
  "CpuNoFpuException cs thr s =
     (if cs = 0x08 then Panics
      else if hasFpu s \<and> Some thr \<noteq> fpuCurrent s then Returns (FpuSwitched, DoFpuSwitch thr (s\<lparr>cr0_ts := False\<rparr>))
      else Returns (FpuSignal, s))"

definition CpuTaskSwitched :: "u32 \<Rightarrow> 'a fpu_state_scheme \<Rightarrow> 'a fpu_state_scheme" where
  "CpuTaskSwitched thr s =
     (if hasFpu s then
        (let s1 = s\<lparr>cr0_ts := False\<rparr> in
         if Some thr \<noteq> fpuCurrent s1 then
           (if fpuSwitches s1 thr \<ge> CPU_FPU_SWITCH_THRESHOLD then DoFpuSwitch thr s1 else s1\<lparr>cr0_ts := True\<rparr>)
         else s1)
      else s)"

definition CpuFreeFpuState :: "u32 \<Rightarrow> 'a fpu_state_scheme \<Rightarrow> 'a fpu_state_scheme" where
  "CpuFreeFpuState thread s =
     (let s1 = (if fpuCurrent s = Some thread then s\<lparr>fpuCurrent := None\<rparr> else s)
      in if fpuSaved s1 thread \<noteq> None then s1\<lparr>fpuSaved := (fpuSaved s1)(thread := None)\<rparr> else s1)"

section \<open>Thread local storage\<close>

definition PROC_NULL_TLS_DESCRIPTOR :: u64 where "PROC_NULL_TLS_DESCRIPTOR = 0x0040F20000000000"
definition PROC_BASE_TLS_DESCRIPTOR :: u64 where "PROC_BASE_TLS_DESCRIPTOR = 0x00C0F60000000000"

definition ProcTlsCreateDescriptor :: "u32 \<Rightarrow> u64" where
  "ProcTlsCreateDescriptor basePtr =
     (if basePtr \<ge> 0x1000 \<and> basePtr \<le> 0xC0000000 then
        (let limit = drop_bit 12 (0xFFFFFFFF - basePtr) :: u32
         in PROC_BASE_TLS_DESCRIPTOR
            OR push_bit 16 (ucast basePtr AND 0x00FFFFFF)
            OR push_bit 56 (ucast basePtr AND 0xFF000000)
            OR (ucast limit AND 0x00FFFF)
            OR push_bit 32 (ucast limit AND 0xFF0000))
      else PROC_NULL_TLS_DESCRIPTOR)"

text \<open>The base and limit that the processor reads from a segment descriptor.\<close>

definition desc_base :: "u64 \<Rightarrow> u32" where
  "desc_base d = ucast (drop_bit 16 d AND 0xFFFFFF) OR push_bit 24 (ucast (drop_bit 56 d))"

definition desc_limit :: "u64 \<Rightarrow> u32" where
  "desc_limit d = ucast (d AND 0xFFFF) OR push_bit 16 (ucast (drop_bit 48 d AND 0xF))"

section \<open>The registers of a thread\<close>

text \<open>What a thread would see in the registers: the processor's, if it owns them, its save area, or the
  initial image.\<close>

definition fpu_of :: "'a fpu_state_scheme \<Rightarrow> u32 \<Rightarrow> fpu_image" where
  "fpu_of s t = (if fpuCurrent s = Some t then fpuRegs s
     else case fpuSaved s t of None \<Rightarrow> fpu_init (hasFxSave s) (hasDenormalsAreZero s) | Some img \<Rightarrow> img)"

text \<open>The thread that owns the registers has a save area.\<close>

definition fpu_ok :: "'a fpu_state_scheme \<Rightarrow> bool" where
  "fpu_ok s \<longleftrightarrow> (case fpuCurrent s of None \<Rightarrow> True | Some t \<Rightarrow> fpuSaved s t \<noteq> None)"

text \<open>A user thread can reach the registers only when the trap bit is clear.\<close>

definition fpu_guarded :: "u32 \<Rightarrow> 'a fpu_state_scheme \<Rightarrow> bool" where
  "fpu_guarded thr s \<longleftrightarrow> (if cr0_ts s then True else fpuCurrent s = Some thr)"

lemma DoFpuSwitch_ok: "fpu_ok (DoFpuSwitch thr s)"
  by (auto simp: DoFpuSwitch_def fpu_ok_def Let_def split: option.splits)

lemma DoFpuSwitch_of: "fpu_ok s \<Longrightarrow> fpuCurrent s \<noteq> Some thr \<Longrightarrow> fpu_of (DoFpuSwitch thr s) = fpu_of s"
  by (rule ext) (auto simp: DoFpuSwitch_def fpu_of_def fpu_ok_def Let_def split: option.splits)

lemma DoFpuSwitch_owner [simp]: "fpuCurrent (DoFpuSwitch thr s) = Some thr"
  by (simp add: DoFpuSwitch_def Let_def)

lemma fpu_of_ts [simp]: "fpu_of (s\<lparr>cr0_ts := b\<rparr>) = fpu_of s"
  by (simp add: fpu_of_def fun_eq_iff split: option.split)

lemma fpu_ok_ts [simp]: "fpu_ok (s\<lparr>cr0_ts := b\<rparr>) = fpu_ok s"
  by (simp add: fpu_ok_def split: option.split)

section \<open>Bits of a descriptor\<close>

lemma field_masks:
  "bit (0xF :: int) n \<longleftrightarrow> n < 4" "bit (0xFFFF :: int) n \<longleftrightarrow> n < 16" "bit (0xFFFFFF :: int) n \<longleftrightarrow> n < 24"
  using bit_mask_iff [of 4 n, where ?'a = int] bit_mask_iff [of 16 n, where ?'a = int]
    bit_mask_iff [of 24 n, where ?'a = int]
  by (simp_all add: mask_eq_exp_minus_1)

lemma shifted_masks:
  "bit (0xFF0000 :: int) n \<longleftrightarrow> 16 \<le> n \<and> n < 24" "bit (0xFF000000 :: int) n \<longleftrightarrow> 24 \<le> n \<and> n < 32"
proof -
  have "(0xFF0000 :: int) = push_bit 16 (mask 8)" "(0xFF000000 :: int) = push_bit 24 (mask 8)"
    by (simp_all add: mask_eq_exp_minus_1)
  then show "bit (0xFF0000 :: int) n \<longleftrightarrow> 16 \<le> n \<and> n < 24" "bit (0xFF000000 :: int) n \<longleftrightarrow> 24 \<le> n \<and> n < 32"
    by (simp_all only: bit_push_bit_iff bit_mask_iff) auto
qed

lemma base_bits: "bit PROC_BASE_TLS_DESCRIPTOR n \<Longrightarrow> 40 \<le> n \<and> n < 56 \<and> n \<notin> {48, 49, 50, 51}"
proof -
  assume a: "bit PROC_BASE_TLS_DESCRIPTOR n"
  have eq: "(PROC_BASE_TLS_DESCRIPTOR :: u64) = push_bit 40 0xC0F6" by (simp add: PROC_BASE_TLS_DESCRIPTOR_def)
  have b: "40 \<le> n" "bit (0xC0F6 :: u64) (n - 40)" using a [unfolded eq bit_push_bit_iff] by blast+
  have "(0xC0F6 :: u64) = take_bit 16 0xC0F6" by (simp add: take_bit_eq_mod)
  then have "n - 40 < 16" using b(2) by (metis bit_take_bit_iff)
  moreover have "n \<notin> {48, 49, 50, 51}" using b(2) by (auto simp: bit_iff_odd)
  ultimately show ?thesis using b(1) by auto
qed

lemma field_bits:
  fixes w :: u32
  shows "bit (push_bit 16 (ucast w AND 0x00FFFFFF) :: u64) n \<longleftrightarrow> 16 \<le> n \<and> n < 40 \<and> bit w (n - 16)"
    and "\<not> bit (push_bit 56 (ucast w AND 0xFF000000) :: u64) n"
    and "bit (ucast w AND 0x00FFFF :: u64) n \<longleftrightarrow> n < 16 \<and> bit w n"
    and "bit (push_bit 32 (ucast w AND 0xFF0000) :: u64) n \<longleftrightarrow> 48 \<le> n \<and> n < 56 \<and> bit w (n - 32)"
  unfolding bit_push_bit_iff bit_and_iff bit_unsigned_iff
  by (auto simp: field_masks shifted_masks)

lemma descriptor_bits:
  assumes "0x1000 \<le> base" "base \<le> 0xC0000000"
  shows "bit (ProcTlsCreateDescriptor base) n \<longleftrightarrow>
     bit PROC_BASE_TLS_DESCRIPTOR n \<or> (16 \<le> n \<and> n < 40 \<and> bit base (n - 16)) \<or>
     (n < 16 \<and> bit (drop_bit 12 (0xFFFFFFFF - base)) n) \<or> (48 \<le> n \<and> n < 56 \<and> bit (drop_bit 12 (0xFFFFFFFF - base)) (n - 32))"
proof -
  have "ProcTlsCreateDescriptor base = (let limit = drop_bit 12 (0xFFFFFFFF - base) :: u32
         in PROC_BASE_TLS_DESCRIPTOR OR push_bit 16 (ucast base AND 0x00FFFFFF)
            OR push_bit 56 (ucast base AND 0xFF000000) OR (ucast limit AND 0x00FFFF)
            OR push_bit 32 (ucast limit AND 0xFF0000))"
    unfolding ProcTlsCreateDescriptor_def using assms by (intro if_P) simp
  then show ?thesis by (simp only: Let_def bit_or_iff field_bits) blast
qed

section \<open>Properties\<close>


definition demo_fpu :: fpu_state where
  "demo_fpu = \<lparr>hasFpu = True, hasFxSave = False, hasDenormalsAreZero = False, fpuCurrent = Some 1, fpuRegs = [7, 8],
     fpuSaved = [1 \<mapsto> [0]], fpuSwitches = (\<lambda>_. 0), cr0_ts = False\<rparr>"


text \<open>
  Thread local storage. The descriptor built for a valid base address has the right segment limit,
  but its base is only the low 24 bits of the address: the high byte is shifted by 56 from its place at
  bit 24 and falls off the end of the 64 bit word.
\<close>

theorem tls_base_truncated:
  assumes "0x1000 \<le> base" "base \<le> 0xC0000000"
  shows "desc_base (ProcTlsCreateDescriptor base) = base AND 0xFFFFFF \<and>
     desc_limit (ProcTlsCreateDescriptor base) = drop_bit 12 (0xFFFFFFFF - base)"
proof
  note d = descriptor_bits [OF assms]
  show "desc_base (ProcTlsCreateDescriptor base) = base AND 0xFFFFFF"
  proof (rule bit_eqI)
    fix n assume "possible_bit TYPE(u32) n"
    show "bit (desc_base (ProcTlsCreateDescriptor base)) n \<longleftrightarrow> bit (base AND 0xFFFFFF) n"
      unfolding desc_base_def bit_or_iff bit_and_iff bit_unsigned_iff bit_push_bit_iff bit_drop_bit_eq comp_def d
      using base_bits [of "16 + n"] base_bits [of "56 + (n - 24)"] by (auto simp: field_masks)
  qed
  show "desc_limit (ProcTlsCreateDescriptor base) = drop_bit 12 (0xFFFFFFFF - base)"
  proof (rule bit_eqI)
    fix n assume "possible_bit TYPE(u32) n"
    have top: "bit (drop_bit 12 (0xFFFFFFFF - base)) n \<Longrightarrow> n < 20"
      by (auto simp: bit_drop_bit_eq dest: bit_imp_le_length)
    have mid: "16 \<le> n \<Longrightarrow> n - 16 < 4 \<Longrightarrow> \<not> bit PROC_BASE_TLS_DESCRIPTOR (48 + (n - 16))"
      using base_bits [of "48 + (n - 16)"] by auto
    show "bit (desc_limit (ProcTlsCreateDescriptor base)) n \<longleftrightarrow> bit (drop_bit 12 (0xFFFFFFFF - base)) n"
      unfolding desc_limit_def bit_or_iff bit_and_iff bit_unsigned_iff bit_push_bit_iff
        bit_drop_bit_eq [of 48] comp_def d
      using base_bits [of n] mid top by (auto simp: field_masks)
  qed
qed

theorem tls_base_truncated_witness: "desc_base (ProcTlsCreateDescriptor 0x12345000) = 0x345000"
  using tls_base_truncated [of "0x12345000"] by simp

end
