(* ===== verification/Scheduler.thy ===== *)
theory Scheduler
  imports Cpu_Fpu
begin

text \<open>
  Threads, processes and the scheduler: \<open>kernel/include/process.h\<close>, \<open>kernel/src/process/scheduler.c\<close>,
  wait queues (\<open>kernel/src/process/waitqueue.c\<close>) and requests to the reaper
  (\<open>kernel/src/process/reaper.c\<close>).

  Threads and processes are records at addresses. Rings are lists of addresses (theory \<open>Linked_List\<close>):
  the run queue, each wait queue, a process's children and threads, and the reaper's queue.

  \<open>ProcDoSchedule\<close> ends in a stack switch, after which another thread runs: in the model it changes the
  current thread, and whoever is current takes the next step. A call that blocks is in two halves, up to
  the switch and from the moment its thread runs again. \<open>sched_step\<close> collects the operations as steps
  of the current thread or of an interrupt.
\<close>

section \<open>State\<close>

datatype ProcThreadState = PTS_STARTUP | PTS_RUNNING | PTS_INTR | PTS_UNINTR | PTS_ZOMBIE
datatype ProcWaitMode = PWM_NONE | PWM_PROCESS | PWM_THREAD

type_synonym ProcSigSet = u32

record ProcSigaction =
  sa_handler :: u32
  sa_mask :: ProcSigSet
  sa_flags :: int

record ProcThread =
  t_tid :: u32
  t_parent :: u32
  t_exitCode :: u32
  t_state :: ProcThreadState
  t_waitMode :: ProcWaitMode
  t_schedInterrupted :: bool
  t_kStackBase :: u32
  t_tlsDescriptor :: u64
  t_sigPending :: ProcSigSet
  t_sigBlocked :: ProcSigSet

record ProcProcess =
  p_pid :: u32
  p_parent :: u32
  p_children :: "u32 list"
  p_threads :: "u32 list"
  p_zombie :: bool
  p_exitCode :: u32
  p_memContext :: u32
  p_ioContext :: u32
  p_sigHandlers :: "nat \<Rightarrow> ProcSigaction"
  p_sigPending :: ProcSigSet
  p_alarmPtr :: "u32 option"

record sched_state = fpu_state +
  threadAt :: "u32 \<Rightarrow> ProcThread"
  processAt :: "u32 \<Rightarrow> ProcProcess"
  ProcCurrThread :: u32
  ProcCurrProcess :: u32
  ProcIdleThread :: u32
  ProcKernelProcess :: u32
  threadQueue :: "u32 list"
  waitQueues :: "u32 \<Rightarrow> u32 list"
  reaperHead :: "u32 list"
  reaperThread :: u32
  TssESP0 :: u32
  GdtTLS :: u64
  activeContext :: u32
  TimerQuantum :: u32

definition TIMER_INITIAL_QUANTUM :: u32 where "TIMER_INITIAL_QUANTUM = 20"
definition PROC_KSTACK_SIZE :: u32 where "PROC_KSTACK_SIZE = 0x1000"

definition upd_thread :: "u32 \<Rightarrow> (ProcThread \<Rightarrow> ProcThread) \<Rightarrow> 'a sched_state_scheme \<Rightarrow> 'a sched_state_scheme" where
  "upd_thread t f s = s\<lparr>threadAt := (threadAt s)(t := f (threadAt s t))\<rparr>"

definition upd_process :: "u32 \<Rightarrow> (ProcProcess \<Rightarrow> ProcProcess) \<Rightarrow> 'a sched_state_scheme \<Rightarrow> 'a sched_state_scheme" where
  "upd_process p f s = s\<lparr>processAt := (processAt s)(p := f (processAt s p))\<rparr>"

definition TimerResetQuantum :: "'a sched_state_scheme \<Rightarrow> 'a sched_state_scheme" where
  "TimerResetQuantum s = s\<lparr>TimerQuantum := TIMER_INITIAL_QUANTUM\<rparr>"

definition TimerShouldPreempt :: "'a sched_state_scheme \<Rightarrow> bool" where
  "TimerShouldPreempt s \<longleftrightarrow> TimerQuantum s = 0"

section \<open>The scheduler\<close>

definition switch_to :: "u32 \<Rightarrow> 'a sched_state_scheme \<Rightarrow> 'a sched_state_scheme" where
  "switch_to newThread s =
     (let n = threadAt s newThread;
          s1 = (if t_parent n = ProcKernelProcess s then s\<lparr>TssESP0 := 0\<rparr>
                else let s2 = s\<lparr>TssESP0 := t_kStackBase n + PROC_KSTACK_SIZE, GdtTLS := t_tlsDescriptor n\<rparr>;
                         s3 = (if t_parent n \<noteq> ProcCurrProcess s2
                               then s2\<lparr>activeContext := p_memContext (processAt s2 (t_parent n))\<rparr> else s2)
                     in TimerResetQuantum s3);
          s4 = s1\<lparr>ProcCurrThread := newThread, ProcCurrProcess := t_parent n\<rparr>
      in CpuTaskSwitched newThread s4)"

definition ProcDoSchedule :: "'a sched_state_scheme \<Rightarrow> 'a sched_state_scheme" where
  "ProcDoSchedule s =
     (let (newThread, s1) = (case threadQueue s of [] \<Rightarrow> (ProcIdleThread s, s)
                             | t # rest \<Rightarrow> (t, s\<lparr>threadQueue := rest\<rparr>))
      in if ProcCurrThread s1 \<noteq> newThread then switch_to newThread s1 else s1)"

definition ProcYield :: "'a sched_state_scheme \<Rightarrow> 'a sched_state_scheme" where
  "ProcYield s =
     (let s1 = upd_thread (ProcCurrThread s) (t_schedInterrupted_update (\<lambda>_. False)) s in
      if threadQueue s1 = [] then TimerResetQuantum s1
      else ProcDoSchedule (s1\<lparr>threadQueue := threadQueue s1 @ [ProcCurrThread s1]\<rparr>))"

definition ProcSignalIsPending :: "u32 \<Rightarrow> 'a sched_state_scheme \<Rightarrow> bool" where
  "ProcSignalIsPending t s \<longleftrightarrow>
     (t_sigPending (threadAt s t) OR p_sigPending (processAt s (t_parent (threadAt s t))))
       AND NOT (t_sigBlocked (threadAt s t)) \<noteq> 0"

text \<open>\<open>ProcYieldBlock\<close> up to the switch: \<open>None\<close> when it returns at once because a signal is pending.\<close>

definition ProcYieldBlock :: "bool \<Rightarrow> 'a sched_state_scheme \<Rightarrow> 'a sched_state_scheme option" where
  "ProcYieldBlock interruptable s =
     (if interruptable \<and> ProcSignalIsPending (ProcCurrThread s) s then None
      else Some (ProcDoSchedule (upd_thread (ProcCurrThread s)
        (\<lambda>t. t\<lparr>t_schedInterrupted := False, t_state := (if interruptable then PTS_INTR else PTS_UNINTR)\<rparr>) s)))"

definition ProcSignalWait :: "'a sched_state_scheme \<Rightarrow> 'a sched_state_scheme option" where
  "ProcSignalWait s = ProcYieldBlock True s"

text \<open>The result of \<open>ProcYieldBlock\<close>, when the thread runs again.\<close>

definition block_result :: "'a sched_state_scheme \<Rightarrow> bool" where
  "block_result s = t_schedInterrupted (threadAt s (ProcCurrThread s))"

definition ProcWakeUpSig :: "u32 \<Rightarrow> bool \<Rightarrow> 'a sched_state_scheme \<Rightarrow> 'a sched_state_scheme" where
  "ProcWakeUpSig thread isSignal s =
     (let enqueue = (\<lambda>intr. let s1 = upd_thread thread (\<lambda>t. t\<lparr>t_schedInterrupted := intr, t_state := PTS_RUNNING\<rparr>) s
                            in s1\<lparr>threadQueue := threadQueue s1 @ [thread]\<rparr>)
      in case t_state (threadAt s thread) of
           PTS_STARTUP \<Rightarrow> enqueue False
         | PTS_RUNNING \<Rightarrow> if \<not> isSignal then upd_thread thread (t_schedInterrupted_update (\<lambda>_. False)) s else s
         | PTS_INTR \<Rightarrow> enqueue isSignal
         | PTS_UNINTR \<Rightarrow> if isSignal then s else enqueue False
         | PTS_ZOMBIE \<Rightarrow> s)"

definition ProcWakeUp :: "u32 \<Rightarrow> 'a sched_state_scheme \<Rightarrow> 'a sched_state_scheme" where
  "ProcWakeUp thread s = ProcWakeUpSig thread False s"

section \<open>Wait queues\<close>

definition ProcWaitQueueWait :: "u32 \<Rightarrow> bool \<Rightarrow> 'a sched_state_scheme \<Rightarrow> 'a sched_state_scheme option" where
  "ProcWaitQueueWait queue interruptable s =
     ProcYieldBlock interruptable (s\<lparr>waitQueues := (waitQueues s)(queue := waitQueues s queue @ [ProcCurrThread s])\<rparr>)"

text \<open>The rest of the call, when its thread runs again: it leaves the queue if it is still on it.\<close>

definition wait_finish :: "u32 \<Rightarrow> 'a sched_state_scheme \<Rightarrow> bool \<times> 'a sched_state_scheme" where
  "wait_finish queue s = (block_result s,
     s\<lparr>waitQueues := (waitQueues s)(queue := remove1 (ProcCurrThread s) (waitQueues s queue))\<rparr>)"

definition ProcWaitQueueWakeOne :: "u32 \<Rightarrow> 'a sched_state_scheme \<Rightarrow> bool \<times> 'a sched_state_scheme" where
  "ProcWaitQueueWakeOne queue s =
     (case waitQueues s queue of [] \<Rightarrow> (False, s)
      | t # rest \<Rightarrow> (True, ProcWakeUp t (s\<lparr>waitQueues := (waitQueues s)(queue := rest)\<rparr>)))"

fun wake_all :: "u32 \<Rightarrow> u32 list \<Rightarrow> 'a sched_state_scheme \<Rightarrow> 'a sched_state_scheme" where
  "wake_all queue [] s = s"
| "wake_all queue (t # rest) s =
     wake_all queue rest (ProcWakeUp t (s\<lparr>waitQueues := (waitQueues s)(queue := rest)\<rparr>))"

definition ProcWaitQueueWakeAll :: "u32 \<Rightarrow> 'a sched_state_scheme \<Rightarrow> 'a sched_state_scheme" where
  "ProcWaitQueueWakeAll queue s = wake_all queue (waitQueues s queue) s"

section \<open>The reaper\<close>

definition ProcIntReaperAdd :: "u32 \<Rightarrow> 'a sched_state_scheme \<Rightarrow> 'a sched_state_scheme" where
  "ProcIntReaperAdd thread s =
     (let t = threadAt s thread in
      if t_state t \<noteq> PTS_ZOMBIE then s
      else if t_parent t \<noteq> ProcKernelProcess s \<and> \<not> p_zombie (processAt s (t_parent t)) then s
      else ProcWakeUp (reaperThread s) (s\<lparr>reaperHead := reaperHead s @ [thread]\<rparr>))"

section \<open>Frame lemmas\<close>

lemma upd_thread_simps [simp]:
  "threadAt (upd_thread t f s) = (threadAt s)(t := f (threadAt s t))"
  "ProcCurrThread (upd_thread t f s) = ProcCurrThread s" "threadQueue (upd_thread t f s) = threadQueue s"
  "ProcIdleThread (upd_thread t f s) = ProcIdleThread s" "waitQueues (upd_thread t f s) = waitQueues s"
  "processAt (upd_thread t f s) = processAt s" "ProcKernelProcess (upd_thread t f s) = ProcKernelProcess s"
  "ProcCurrProcess (upd_thread t f s) = ProcCurrProcess s" "reaperThread (upd_thread t f s) = reaperThread s"
  "reaperHead (upd_thread t f s) = reaperHead s"
  by (simp_all add: upd_thread_def)

lemma DoFpuSwitch_frame [simp]:
  "threadAt (DoFpuSwitch t s) = threadAt s" "threadQueue (DoFpuSwitch t s) = threadQueue s"
  "ProcCurrThread (DoFpuSwitch t s) = ProcCurrThread s" "ProcIdleThread (DoFpuSwitch t s) = ProcIdleThread s"
  "waitQueues (DoFpuSwitch t s) = waitQueues s" "processAt (DoFpuSwitch t s) = processAt s"
  "ProcCurrProcess (DoFpuSwitch t s) = ProcCurrProcess s" "TssESP0 (DoFpuSwitch t s) = TssESP0 s"
  "GdtTLS (DoFpuSwitch t s) = GdtTLS s" "activeContext (DoFpuSwitch t s) = activeContext s"
  "TimerQuantum (DoFpuSwitch t s) = TimerQuantum s" "ProcKernelProcess (DoFpuSwitch t s) = ProcKernelProcess s"
  by (simp_all add: DoFpuSwitch_def Let_def split: option.split)

lemma CpuTaskSwitched_frame [simp]:
  "threadAt (CpuTaskSwitched t s) = threadAt s" "threadQueue (CpuTaskSwitched t s) = threadQueue s"
  "ProcCurrThread (CpuTaskSwitched t s) = ProcCurrThread s" "ProcIdleThread (CpuTaskSwitched t s) = ProcIdleThread s"
  "waitQueues (CpuTaskSwitched t s) = waitQueues s" "processAt (CpuTaskSwitched t s) = processAt s"
  "ProcCurrProcess (CpuTaskSwitched t s) = ProcCurrProcess s" "TssESP0 (CpuTaskSwitched t s) = TssESP0 s"
  "GdtTLS (CpuTaskSwitched t s) = GdtTLS s" "activeContext (CpuTaskSwitched t s) = activeContext s"
  "TimerQuantum (CpuTaskSwitched t s) = TimerQuantum s" "ProcKernelProcess (CpuTaskSwitched t s) = ProcKernelProcess s"
  by (simp_all add: CpuTaskSwitched_def Let_def)

lemma switch_to_frame [simp]:
  "threadAt (switch_to t s) = threadAt s" "threadQueue (switch_to t s) = threadQueue s"
  "ProcCurrThread (switch_to t s) = t" "ProcIdleThread (switch_to t s) = ProcIdleThread s"
  "waitQueues (switch_to t s) = waitQueues s" "ProcCurrProcess (switch_to t s) = t_parent (threadAt s t)"
  "processAt (switch_to t s) = processAt s" "ProcKernelProcess (switch_to t s) = ProcKernelProcess s"
  by (simp_all add: switch_to_def Let_def TimerResetQuantum_def)

section \<open>Steps and their invariant\<close>

text \<open>The idle thread halts until an interrupt and then schedules (\<open>kernel/src/process/schedulerAsm.s\<close>); it
  never yields, blocks, exits or is woken.\<close>

inductive sched_step :: "'a sched_state_scheme \<Rightarrow> 'a sched_state_scheme \<Rightarrow> bool" where
  step_idle: "ProcCurrThread s = ProcIdleThread s \<Longrightarrow> sched_step s (ProcDoSchedule s)"
| step_yield: "ProcCurrThread s \<noteq> ProcIdleThread s \<Longrightarrow> sched_step s (ProcYield s)"
| step_block: "ProcCurrThread s \<noteq> ProcIdleThread s \<Longrightarrow> ProcYieldBlock b s = Some s' \<Longrightarrow> sched_step s s'"
| step_wake: "t \<noteq> ProcIdleThread s \<Longrightarrow> sched_step s (ProcWakeUpSig t b s)"
| step_exit: "ProcCurrThread s \<noteq> ProcIdleThread s \<Longrightarrow>
    sched_step s (ProcDoSchedule (upd_thread (ProcCurrThread s) (t_state_update (\<lambda>_. PTS_ZOMBIE)) s))"
| step_wait: "ProcCurrThread s \<noteq> ProcIdleThread s \<Longrightarrow> ProcWaitQueueWait q b s = Some s' \<Longrightarrow> sched_step s s'"
| step_wake_one: "sched_step s (snd (ProcWaitQueueWakeOne q s))"
| step_wake_all: "sched_step s (ProcWaitQueueWakeAll q s)"

inductive sched_reachable :: "'a sched_state_scheme \<Rightarrow> 'a sched_state_scheme \<Rightarrow> bool" for s0 where
  reach_init: "sched_reachable s0 s0"
| reach_step: "sched_reachable s0 s \<Longrightarrow> sched_step s s' \<Longrightarrow> sched_reachable s0 s'"

definition sched_init :: "'a sched_state_scheme \<Rightarrow> bool" where
  "sched_init s \<longleftrightarrow> threadQueue s = [] \<and> ProcCurrThread s = ProcIdleThread s \<and> (\<forall>q. waitQueues s q = []) \<and>
     (\<forall>t. t_state (threadAt s t) = PTS_STARTUP)"

text \<open>Only threads that can run are queued, each once, and the running thread is not queued.\<close>

definition sched_ok :: "'a sched_state_scheme \<Rightarrow> bool" where
  "sched_ok s \<longleftrightarrow> distinct (ProcCurrThread s # threadQueue s) \<and> ProcIdleThread s \<notin> set (threadQueue s) \<and>
     (\<forall>t. t \<noteq> ProcIdleThread s \<longrightarrow>
        (t \<in> set (ProcCurrThread s # threadQueue s) \<longleftrightarrow> t_state (threadAt s t) = PTS_RUNNING)) \<and>
     (\<forall>q. ProcIdleThread s \<notin> set (waitQueues s q))"

lemma sched_init_ok: "sched_init s \<Longrightarrow> sched_ok s"
  by (auto simp: sched_init_def sched_ok_def)

text \<open>A context switch away from a thread that may not run any more, or from the idle thread.\<close>

lemma schedule_ok:
  assumes "distinct (threadQueue s)" "ProcCurrThread s \<notin> set (threadQueue s)" "ProcIdleThread s \<notin> set (threadQueue s)"
    and "\<And>t. t \<noteq> ProcIdleThread s \<Longrightarrow> t \<in> set (threadQueue s) \<longleftrightarrow> t_state (threadAt s t) = PTS_RUNNING"
    and "\<And>q. ProcIdleThread s \<notin> set (waitQueues s q)"
  shows "sched_ok (ProcDoSchedule s)"
proof (cases "threadQueue s")
  case Nil
  then show ?thesis using assms(4,5) by (simp add: ProcDoSchedule_def sched_ok_def)
next
  case (Cons t rest)
  then have "ProcCurrThread s \<noteq> t" using assms(2) by auto
  then have s': "ProcDoSchedule s = switch_to t (s\<lparr>threadQueue := rest\<rparr>)" using Cons by (simp add: ProcDoSchedule_def)
  have "(u = t \<or> u \<in> set rest) = (t_state (threadAt s u) = PTS_RUNNING)" if "u \<noteq> ProcIdleThread s" for u
    using assms(4) [OF that] Cons by auto
  then show ?thesis using assms(1,3,5) Cons unfolding s' by (simp add: sched_ok_def)
qed

lemma schedule_frame [simp]:
  "ProcIdleThread (ProcDoSchedule s) = ProcIdleThread s" "waitQueues (ProcDoSchedule s) = waitQueues s"
  by (simp_all add: ProcDoSchedule_def split: list.split)

lemma wake_ok:
  assumes "sched_ok s" "t \<noteq> ProcIdleThread s"
  shows "sched_ok (ProcWakeUpSig t b s)"
proof -
  have t: "t \<in> set (ProcCurrThread s # threadQueue s) \<longleftrightarrow> t_state (threadAt s t) = PTS_RUNNING"
    using assms by (simp add: sched_ok_def)
  then show ?thesis using assms by (cases "t_state (threadAt s t)") (auto simp: ProcWakeUpSig_def sched_ok_def Let_def)
qed

lemma wake_frame [simp]:
  "ProcIdleThread (ProcWakeUpSig t b s) = ProcIdleThread s" "waitQueues (ProcWakeUpSig t b s) = waitQueues s"
  "ProcCurrThread (ProcWakeUpSig t b s) = ProcCurrThread s"
  by (cases "t_state (threadAt s t)"; simp add: ProcWakeUpSig_def Let_def)+

lemma sched_ok_waitQueues:
  "sched_ok s \<Longrightarrow> (\<And>q. ProcIdleThread s \<notin> set (f q)) \<Longrightarrow> sched_ok (s\<lparr>waitQueues := f\<rparr>)"
  by (simp add: sched_ok_def)

text \<open>The running thread gives up the processor in another state.\<close>

lemma leave_ok:
  assumes "sched_ok s" "ProcCurrThread s \<noteq> ProcIdleThread s" "\<And>t. t_state (f t) \<noteq> PTS_RUNNING"
  shows "sched_ok (ProcDoSchedule (upd_thread (ProcCurrThread s) f s))"
proof (rule schedule_ok)
  fix t assume "t \<noteq> ProcIdleThread (upd_thread (ProcCurrThread s) f s)"
  then have "t \<in> set (ProcCurrThread s # threadQueue s) \<longleftrightarrow> t_state (threadAt s t) = PTS_RUNNING"
    using assms(1) by (simp add: sched_ok_def)
  moreover have "ProcCurrThread s \<notin> set (threadQueue s)" using assms(1) by (simp add: sched_ok_def)
  ultimately show "t \<in> set (threadQueue (upd_thread (ProcCurrThread s) f s)) \<longleftrightarrow>
      t_state (threadAt (upd_thread (ProcCurrThread s) f s) t) = PTS_RUNNING"
    using assms(3) by auto
qed (use assms(1) in \<open>auto simp: sched_ok_def\<close>)

lemma block_ok:
  assumes "sched_ok s" "ProcCurrThread s \<noteq> ProcIdleThread s" "ProcYieldBlock b s = Some s'"
  shows "sched_ok s' \<and> ProcIdleThread s' = ProcIdleThread s"
proof -
  have "s' = ProcDoSchedule (upd_thread (ProcCurrThread s)
      (\<lambda>t. t\<lparr>t_schedInterrupted := False, t_state := (if b then PTS_INTR else PTS_UNINTR)\<rparr>) s)"
    using assms(3) by (simp add: ProcYieldBlock_def split: if_splits)
  then show ?thesis using leave_ok [OF assms(1,2)] by simp
qed

lemma wake_next_ok:
  assumes "sched_ok s" "waitQueues s q = t # l"
  shows "sched_ok (ProcWakeUp t (s\<lparr>waitQueues := (waitQueues s)(q := l)\<rparr>))"
proof -
  have idle: "ProcIdleThread s \<notin> set (waitQueues s q')" for q' using assms(1) by (simp add: sched_ok_def)
  have "ProcIdleThread s \<notin> set (t # l)" using idle [of q] assms(2) by simp
  then have "sched_ok (s\<lparr>waitQueues := (waitQueues s)(q := l)\<rparr>)" "t \<noteq> ProcIdleThread s"
    using idle assms(1) by (auto intro!: sched_ok_waitQueues split: if_splits)
  then show ?thesis unfolding ProcWakeUp_def by (intro wake_ok) auto
qed

lemma wake_all_ok:
  "sched_ok s \<Longrightarrow> waitQueues s q = l \<Longrightarrow> sched_ok (wake_all q l s) \<and> ProcIdleThread (wake_all q l s) = ProcIdleThread s"
proof (induction l arbitrary: s)
  case (Cons t l)
  from wake_next_ok [OF Cons.prems]
  show ?case using Cons.IH [of "ProcWakeUp t (s\<lparr>waitQueues := (waitQueues s)(q := l)\<rparr>)"] by (simp add: ProcWakeUp_def)
qed simp

lemma yield_ok:
  assumes "sched_ok s" "ProcCurrThread s \<noteq> ProcIdleThread s"
  shows "sched_ok (ProcYield s) \<and> ProcIdleThread (ProcYield s) = ProcIdleThread s"
proof (cases "threadQueue s")
  case Nil
  then show ?thesis using assms by (auto simp: ProcYield_def sched_ok_def Let_def TimerResetQuantum_def)
next
  case (Cons t rest)
  then have "ProcYield s = switch_to t ((upd_thread (ProcCurrThread s) (t_schedInterrupted_update (\<lambda>_. False)) s)
      \<lparr>threadQueue := rest @ [ProcCurrThread s]\<rparr>)"
    using assms by (auto simp: ProcYield_def ProcDoSchedule_def sched_ok_def Let_def)
  then show ?thesis using assms Cons by (auto simp: sched_ok_def)
qed

lemma sched_step_ok:
  assumes "sched_step s s'" "sched_ok s"
  shows "sched_ok s' \<and> ProcIdleThread s' = ProcIdleThread s"
  using assms
proof (cases rule: sched_step.cases)
  case step_idle
  have "sched_ok (ProcDoSchedule s)" using assms(2) step_idle(2) by (intro schedule_ok) (auto simp: sched_ok_def)
  then show ?thesis using step_idle(1) by simp
next
  case (step_wait q b)
  have "sched_ok (s\<lparr>waitQueues := (waitQueues s)(q := waitQueues s q @ [ProcCurrThread s])\<rparr>)"
    using assms(2) step_wait(1) by (intro sched_ok_waitQueues) (auto simp: sched_ok_def)
  from block_ok [OF this] step_wait show ?thesis by (simp add: ProcWaitQueueWait_def)
next
  case (step_wake_one q)
  then show ?thesis using wake_next_ok [OF assms(2)] assms(2)
    by (auto simp: ProcWaitQueueWakeOne_def ProcWakeUp_def split: list.split)
next
  case (step_wake_all q)
  then show ?thesis using wake_all_ok [OF assms(2)] by (simp add: ProcWaitQueueWakeAll_def)
next
  case step_exit
  then show ?thesis using leave_ok [OF assms(2) step_exit(2), of "t_state_update (\<lambda>_. PTS_ZOMBIE)"] by simp
qed (use assms(2) yield_ok block_ok wake_ok in auto)

lemma reachable_ok: "sched_reachable s0 s \<Longrightarrow> sched_init s0 \<Longrightarrow> sched_ok s"
  by (induction rule: sched_reachable.induct) (auto dest: sched_init_ok sched_step_ok)

section \<open>Properties\<close>

text \<open>
  (C1) Safety of the scheduler. In every state that the scheduler reaches by yielding, blocking, waking,
  exiting and wait queue operations, no thread is queued twice, the running thread is not queued, and a
  thread other than the idle thread is running or queued exactly if its state says that it can run: a
  blocked or dead thread is never scheduled, and a runnable one is never lost.
\<close>

theorem scheduler_safety:
  assumes "sched_init s0" "sched_reachable s0 s" "t \<noteq> ProcIdleThread s"
  shows "distinct (ProcCurrThread s # threadQueue s) \<and>
     (t \<in> set (ProcCurrThread s # threadQueue s) \<longleftrightarrow> t_state (threadAt s t) = PTS_RUNNING)"
  using reachable_ok [OF assms(2,1)] assms(3) by (simp add: sched_ok_def)

text \<open>Three threads that have not been started, and the idle thread with address 1.\<close>

definition demo_sched :: sched_state where
  "demo_sched = \<lparr>hasFpu = False, hasFxSave = False, hasDenormalsAreZero = False, fpuCurrent = None, fpuRegs = [],
     fpuSaved = (\<lambda>_. None), fpuSwitches = (\<lambda>_. 0), cr0_ts = False,
     threadAt = (\<lambda>t. \<lparr>t_tid = t, t_parent = 0, t_exitCode = 0, t_state = PTS_STARTUP, t_waitMode = PWM_NONE,
       t_schedInterrupted = False, t_kStackBase = 0, t_tlsDescriptor = 0, t_sigPending = 0, t_sigBlocked = 0\<rparr>),
     processAt = (\<lambda>p. \<lparr>p_pid = p, p_parent = 0, p_children = [], p_threads = [], p_zombie = False, p_exitCode = 0,
       p_memContext = 0, p_ioContext = 0, p_sigHandlers = (\<lambda>_. \<lparr>sa_handler = 0, sa_mask = 0, sa_flags = 0\<rparr>),
       p_sigPending = 0, p_alarmPtr = None\<rparr>),
     ProcCurrThread = 1, ProcCurrProcess = 0, ProcIdleThread = 1, ProcKernelProcess = 0, threadQueue = [],
     waitQueues = (\<lambda>_. []), reaperHead = [], reaperThread = 9, TssESP0 = 0, GdtTLS = 0, activeContext = 0, TimerQuantum = 0\<rparr>"

theorem scheduler_safety_witness:
  "t_state (threadAt (ProcWakeUpSig 2 False demo_sched) 2) = PTS_RUNNING"
proof -
  have init: "sched_init demo_sched" by (simp add: sched_init_def demo_sched_def)
  have "sched_reachable demo_sched (ProcWakeUpSig 2 False demo_sched)"
    by (rule reach_step [OF reach_init], rule step_wake) (simp add: demo_sched_def)
  from scheduler_safety [OF init this, of 2] show ?thesis
    by (simp add: demo_sched_def ProcWakeUpSig_def Let_def)
qed

text \<open>
  (C30) Round robin. In a well-formed scheduler state, if every thread in turn yields, the thread at position
  \<open>n\<close> of the run queue gets the processor after exactly \<open>n + 1\<close> yields, and the queue is then the rest of
  the queue followed by the threads that have run, in their order.
\<close>

theorem yield_round_robin:
  assumes "sched_ok s" "ProcCurrThread s \<noteq> ProcIdleThread s" "threadQueue s = xs @ t # ys"
  shows "ProcCurrThread ((ProcYield ^^ (length xs + 1)) s) = t \<and>
     threadQueue ((ProcYield ^^ (length xs + 1)) s) = ys @ ProcCurrThread s # xs"
  using assms
proof (induction xs arbitrary: s ys)
  case Nil
  then show ?case by (auto simp: ProcYield_def ProcDoSchedule_def sched_ok_def Let_def)
next
  case (Cons x xs)
  let ?s = "ProcYield s"
  have curr: "ProcCurrThread ?s = x" "threadQueue ?s = xs @ t # ys @ [ProcCurrThread s]"
    using Cons.prems by (auto simp: ProcYield_def ProcDoSchedule_def sched_ok_def Let_def)
  have ok: "sched_ok ?s" "ProcIdleThread ?s = ProcIdleThread s" using yield_ok [OF Cons.prems(1,2)] by auto
  have "x \<noteq> ProcIdleThread ?s" using Cons.prems(1,3) ok(2) by (auto simp: sched_ok_def)
  then have "ProcCurrThread ((ProcYield ^^ (length xs + 1)) ?s) = t \<and>
      threadQueue ((ProcYield ^^ (length xs + 1)) ?s) = (ys @ [ProcCurrThread s]) @ x # xs"
    using Cons.IH [OF ok(1), of "ys @ [ProcCurrThread s]"] curr by simp
  then show ?case by (simp add: funpow_swap1)
qed

text \<open>Threads 2, 3 and 4 of the example can run, and 2 runs.\<close>

definition busy_sched :: sched_state where
  "busy_sched = demo_sched\<lparr>ProcCurrThread := 2, threadQueue := [3, 4],
     threadAt := (\<lambda>t. (threadAt demo_sched t)\<lparr>t_state := (if t \<in> {2, 3, 4} then PTS_RUNNING else PTS_STARTUP)\<rparr>)\<rparr>"

theorem yield_round_robin_witness: "ProcCurrThread ((ProcYield ^^ 2) busy_sched) = 4"
proof -
  have "sched_ok busy_sched" "ProcCurrThread busy_sched \<noteq> ProcIdleThread busy_sched"
    by (auto simp: busy_sched_def demo_sched_def sched_ok_def)
  moreover have "threadQueue busy_sched = [3] @ 4 # []" by (simp add: busy_sched_def)
  ultimately show ?thesis using yield_round_robin [of busy_sched "[3]" 4 "[]"] by (simp add: numeral_2_eq_2)
qed

text \<open>
  Wake-ups and signals. A thread in an interruptible wait that is sent a signal and woken by an event
  before it runs, in either order, is queued exactly once; after a wake-up that came last its blocking
  call reports that it was not interrupted, so the event is not lost. A signal does not end an
  uninterruptible wait.
\<close>

theorem wake_and_signal:
  assumes "t_state (threadAt s t) = PTS_INTR"
  shows "threadQueue (ProcWakeUp t (ProcWakeUpSig t True s)) = threadQueue s @ [t] \<and>
     threadQueue (ProcWakeUpSig t True (ProcWakeUp t s)) = threadQueue s @ [t] \<and>
     \<not> t_schedInterrupted (threadAt (ProcWakeUp t (ProcWakeUpSig t True s)) t) \<and>
     \<not> t_schedInterrupted (threadAt (ProcWakeUpSig t True (ProcWakeUp t s)) t) \<and>
     t_schedInterrupted (threadAt (ProcWakeUpSig t True s) t) \<and>
     ProcWakeUpSig t True (upd_thread t (t_state_update (\<lambda>_. PTS_UNINTR)) s) = upd_thread t (t_state_update (\<lambda>_. PTS_UNINTR)) s"
  using assms by (simp add: ProcWakeUp_def ProcWakeUpSig_def Let_def)

theorem wake_and_signal_witness:
  "threadQueue (ProcWakeUp 5 (ProcWakeUpSig 5 True (upd_thread 5 (t_state_update (\<lambda>_. PTS_INTR)) demo_sched))) = [5]"
  using wake_and_signal [of "upd_thread 5 (t_state_update (\<lambda>_. PTS_INTR)) demo_sched" 5] by (simp add: demo_sched_def)

end
