(* ===== verification/Log_Format.thy ===== *)
theory Log_Format
  imports Mem_Utils Scheduler
begin

text \<open>
  Logging and formatted output: \<open>kernel/src/log.c\<close>.

  A format string is the list of its bytes before the terminator; the arguments are the words that \<open>va_arg\<close>
  yields, counted from 0, and strings among them lie in the byte memory \<open>m\<close>. \<open>DoStringFormat\<close> never looks at
  the result of \<open>emitChar\<close>, so that what it emits is a list of characters, and printing applies the emitting
  function to each of them. The output is taken not to overwrite the format string or the arguments.
\<close>

section \<open>Conversions\<close>

definition TO_STRING_LEN :: nat where "TO_STRING_LEN = 12"

definition LEFT_ALIGN :: u32 where "LEFT_ALIGN = 1"
definition ZERO_PAD :: u32 where "ZERO_PAD = 2"
definition ALTERNATE :: u32 where "ALTERNATE = 4"
definition PRECISION :: u32 where "PRECISION = 8"
definition HEX_UPPER :: u32 where "HEX_UPPER = 16"

fun stringToNumber :: "u8 list \<Rightarrow> u32 \<Rightarrow> u32 \<times> u8 list" where
  "stringToNumber [] num = (num, [])"
| "stringToNumber (c # fmt) num =
     (if 0x30 \<le> c \<and> c \<le> 0x39 then stringToNumber fmt (push_bit 3 num + push_bit 1 num + ucast c - 0x30)
      else (num, c # fmt))"

record directive =
  prefix0 :: u8
  prefix1 :: u8
  flags :: u32
  width :: u32
  precision :: u32

definition no_directive :: directive where
  "no_directive = \<lparr>prefix0 = 0, prefix1 = 0, flags = 0, width = 0, precision = 1\<rparr>"

text \<open>Where the control character loop ends: at \<open>numberHandler\<close> with a value and a base, or at
  \<open>stringHandler\<close> with a string.\<close>

datatype conversion = Number directive u32 u32 | Text directive "u8 list"

definition add_flags :: "u32 \<Rightarrow> directive \<Rightarrow> directive" where
  "add_flags b d = d\<lparr>flags := flags d OR b\<rparr>"

definition signed_conversion :: "directive \<Rightarrow> u32 \<Rightarrow> conversion" where
  "signed_conversion d v =
     (if sint v < 0 then Number (d\<lparr>prefix0 := 0x2D\<rparr>) (if sint v = - (2 ^ 31) then 0x7FFFFFFF + 1 else of_int (- sint v)) 10
      else Number d v 10)"

definition hex_conversion :: "u8 \<Rightarrow> directive \<Rightarrow> u32 \<Rightarrow> conversion" where
  "hex_conversion x d v =
     Number (if v \<noteq> 0 \<and> flags d AND ALTERNATE \<noteq> 0 then d\<lparr>prefix0 := 0x30, prefix1 := x\<rparr> else d\<lparr>prefix0 := 0\<rparr>) v 16"

definition null_string :: "u8 list" where "null_string = [0x28, 0x6E, 0x75, 0x6C, 0x6C, 0x29]"

definition string_conversion :: "mem \<Rightarrow> directive \<Rightarrow> u32 \<Rightarrow> conversion" where
  "string_conversion m d p =
     (if p = 0 then Text (d\<lparr>precision := 6\<rparr>) null_string
      else let maxLen = (if flags d AND PRECISION \<noteq> 0 then precision d else 0xFFFFFFFF);
               len = StrLen m p (unat maxLen)
           in Text (d\<lparr>precision := of_nat len\<rparr>) (bytes m p len))"

text \<open>The conversion that a character selects, with the number of arguments it takes; \<open>None\<close> is an invalid
  character. \<open>a\<close> is the next argument.\<close>

definition convert :: "mem \<Rightarrow> directive \<Rightarrow> u8 \<Rightarrow> u32 \<Rightarrow> (conversion \<times> nat) option" where
  "convert m d c a =
     (if c = 0x64 \<or> c = 0x69 then Some (signed_conversion d a, 1)
      else if c = 0x75 then Some (Number (d\<lparr>prefix0 := 0\<rparr>) a 10, 1)
      else if c = 0x6F then Some (Number (d\<lparr>prefix0 := (if a \<noteq> 0 \<and> flags d AND ALTERNATE \<noteq> 0 then 0x30 else 0)\<rparr>) a 8, 1)
      else if c = 0x70 then
        Some (Number ((add_flags HEX_UPPER d)\<lparr>prefix0 := 0x30, prefix1 := 0x78, width := 0, precision := 8\<rparr>) a 16, 1)
      else if c = 0x78 then Some (hex_conversion 0x78 d a, 1)
      else if c = 0x58 then Some (hex_conversion 0x58 (add_flags HEX_UPPER d) a, 1)
      else if c = 0x73 then Some (string_conversion m d a, 1)
      else if c = 0x63 then Some (Text (d\<lparr>precision := 1\<rparr>) [ucast a], 1)
      else if c = 0x25 then Some (Text (d\<lparr>precision := 1\<rparr>) [0x25], 0)
      else None)"

lemma stringToNumber_length: "length (snd (stringToNumber fmt num)) \<le> length fmt"
  by (induction fmt num rule: stringToNumber.induct) auto

text \<open>
  The control character loop after a percent sign. A flag, a width or a precision changes the directive and
  leaves the rest of the format; any other character ends the loop.
\<close>

definition control_step :: "directive \<Rightarrow> u8 \<Rightarrow> u8 list \<Rightarrow> (directive \<times> u8 list) option" where
  "control_step d c fmt =
     (if c = 0x2B then Some (d\<lparr>prefix0 := 0x2B\<rparr>, fmt)
      else if c = 0x20 then Some (if prefix0 d = 0 then d\<lparr>prefix0 := 0x20\<rparr> else d, fmt)
      else if c = 0x23 then Some (add_flags ALTERNATE d, fmt)
      else if c = 0x2D then Some (add_flags LEFT_ALIGN d, fmt)
      else if c = 0x30 then Some (add_flags ZERO_PAD d, fmt)
      else if c = 0x2E then
        (let (num, rest) = stringToNumber fmt 0
         in Some (d\<lparr>flags := (flags d AND NOT ZERO_PAD) OR PRECISION, precision := num\<rparr>, rest))
      else if 0x31 \<le> c \<and> c \<le> 0x39 then
        (let (num, rest) = stringToNumber (c # fmt) 0 in Some (d\<lparr>width := num\<rparr>, rest))
      else None)"

lemma control_step_length:
  assumes "control_step d c fmt = Some (d', rest)"
  shows "length rest \<le> length fmt"
proof (cases "0x31 \<le> c \<and> c \<le> 0x39")
  case True
  then have "0x30 \<le> c" by unat_arith
  then show ?thesis
    using assms True stringToNumber_length [of fmt 0] stringToNumber_length [of fmt "push_bit 3 0 + push_bit 1 0 + ucast c - 0x30"]
    by (auto simp: control_step_def split: if_splits prod.splits)
next
  case False
  then show ?thesis using assms stringToNumber_length [of fmt 0] by (auto simp: control_step_def split: if_splits prod.splits)
qed

function control_loop :: "mem \<Rightarrow> directive \<Rightarrow> u8 list \<Rightarrow> u32 \<Rightarrow> (conversion \<times> nat \<times> u8 list) option" where
  "control_loop m d [] a = None"
| "control_loop m d (c # fmt) a =
     (case control_step d c fmt of
        Some (d', rest) \<Rightarrow> control_loop m d' rest a
      | None \<Rightarrow> map_option (\<lambda>(conv, n). (conv, n, fmt)) (convert m d c a))"
  by pat_completeness auto
termination
  by (relation "measure (\<lambda>(m, d, fmt, a). length fmt)") (auto simp: less_Suc_eq_le dest: control_step_length)

section \<open>Output of a conversion\<close>

definition digit :: "bool \<Rightarrow> u32 \<Rightarrow> u8" where
  "digit upper r = (if r \<ge> 10 then (if upper then 0x41 else 0x61) - 10 + ucast r else 0x30 + ucast r)"

text \<open>The loop that fills \<open>toStringResult\<close> from its end. The base is 8, 10 or 16; the test of it only serves
  the termination proof.\<close>

function digits_loop :: "bool \<Rightarrow> u32 \<Rightarrow> u32 \<Rightarrow> u8 list \<Rightarrow> u8 list" where
  "digits_loop upper base absValue rawStr =
     (if absValue = 0 \<or> base < 2 then rawStr
      else digits_loop upper base (absValue div base) (digit upper (absValue mod base) # rawStr))"
  by auto
termination
proof (relation "measure (\<lambda>(upper, base, v, raw). unat v)", goal_cases)
  case (2 upper base v raw)
  then have "0 < unat v" "2 \<le> unat base" by (simp_all add: word_less_nat_alt word_neq_0_conv)
  then show ?case by (simp add: unat_div)
qed simp

declare digits_loop.simps [simp del]

definition prefix_of :: "directive \<Rightarrow> u8 list" where
  "prefix_of d = (if prefix0 d \<noteq> 0 then prefix0 d # (if prefix1 d \<noteq> 0 then [prefix1 d] else []) else [])"

text \<open>From the label \<open>stringHandler\<close> on.\<close>

definition field_output :: "directive \<Rightarrow> nat \<Rightarrow> u8 list \<Rightarrow> u8 list" where
  "field_output d extraZeros rawStr =
     (let spaces = replicate (nat (sint (width d - precision d))) 0x20
      in (if flags d AND LEFT_ALIGN = 0 then spaces else []) @ prefix_of d @ replicate extraZeros 0x30 @ rawStr @
         (if flags d AND LEFT_ALIGN \<noteq> 0 then spaces else []))"

definition number_output :: "directive \<Rightarrow> u32 \<Rightarrow> u32 \<Rightarrow> u8 list" where
  "number_output d absValue base =
     (let rawStr = digits_loop (flags d AND HEX_UPPER \<noteq> 0) base absValue [];
          rawStrLen = of_nat (length rawStr);
          prefixLen = of_nat (length (prefix_of d));
          zeros = (if flags d AND ZERO_PAD \<noteq> 0 \<and> flags d AND LEFT_ALIGN = 0
                   then sint (width d - rawStrLen - prefixLen) else sint (precision d - rawStrLen));
          extraZeros = (if zeros < 0 then 0 else zeros)
      in field_output (d\<lparr>precision := rawStrLen + of_int extraZeros + prefixLen\<rparr>) (nat extraZeros) rawStr)"

fun conversion_output :: "conversion \<Rightarrow> u8 list" where
  "conversion_output (Number d absValue base) = number_output d absValue base"
| "conversion_output (Text d rawStr) = field_output d 0 rawStr"

lemma control_loop_length: "control_loop m d fmt a = Some (conv, n, rest) \<Longrightarrow> length rest < length fmt"
proof (induction m d fmt a rule: control_loop.induct)
  case (2 m d c fmt a)
  show ?case
  proof (cases "control_step d c fmt")
    case (Some r)
    then show ?thesis using 2 control_step_length [of d c fmt] by (cases r) fastforce
  qed (use 2 in auto)
qed simp

function DoStringFormat :: "mem \<Rightarrow> u8 list \<Rightarrow> (nat \<Rightarrow> u32) \<Rightarrow> u8 list" where
  "DoStringFormat m [] args = []"
| "DoStringFormat m (c # fmt) args =
     (if c = 0x25 then
        (case control_loop m no_directive fmt (args 0) of
           None \<Rightarrow> []
         | Some (conv, n, rest) \<Rightarrow> conversion_output conv @ DoStringFormat m rest (\<lambda>k. args (k + n)))
      else c # DoStringFormat m fmt args)"
  by pat_completeness auto
termination
  by (relation "measure (\<lambda>(m, fmt, args). length fmt)") (auto dest: control_loop_length)

section \<open>Strings and the screen\<close>

record sprint_state =
  strBuffer :: u32
  strBufferSize :: u32
  bufMem :: mem

definition SPrintEmitChar :: "u8 \<Rightarrow> sprint_state \<Rightarrow> bool \<times> sprint_state" where
  "SPrintEmitChar c s =
     (let s1 = s\<lparr>bufMem := (bufMem s)(strBuffer s := c), strBuffer := strBuffer s + 1, strBufferSize := strBufferSize s - 1\<rparr>
      in (sint (strBufferSize s1) \<le> 1, s1))"

definition SPrintFVarArgs :: "u32 \<Rightarrow> int \<Rightarrow> u8 list \<Rightarrow> (nat \<Rightarrow> u32) \<Rightarrow> sprint_state \<Rightarrow> sprint_state" where
  "SPrintFVarArgs buffer bufSize format args s =
     (if bufSize > 0 then
        (let s1 = (if bufSize > 1
                   then fold (\<lambda>c s. snd (SPrintEmitChar c s)) (DoStringFormat (bufMem s) format args)
                          (s\<lparr>strBuffer := buffer, strBufferSize := of_int bufSize\<rparr>)
                   else s)
         in s1\<lparr>bufMem := (bufMem s1)(strBuffer s1 := 0)\<rparr>)
      else s)"

record screen =
  nextPos :: u32
  video :: mem

definition PrintLogEmitChar :: "u8 \<Rightarrow> screen \<Rightarrow> screen" where
  "PrintLogEmitChar c s =
     (let s1 = (if c = 0x0A then s\<lparr>nextPos := nextPos s + (160 - (nextPos s - 0xC00B8000) mod 160)\<rparr>
                else s\<lparr>video := (video s)(nextPos s := c, nextPos s + 1 := 7), nextPos := nextPos s + 2\<rparr>)
      in if nextPos s1 \<ge> 0xC00B8FA0 then s1\<lparr>nextPos := 0xC00B8000\<rparr> else s1)"

datatype LogLevel = Fatal | Critical | Error | Warning | Notice | Info | Debug

definition ascii :: "string \<Rightarrow> u8 list" where
  "ascii t = map of_char t"

text \<open>The level is an enumeration, so that only its seven values occur after the validation.\<close>

fun logLevelStrings :: "LogLevel \<Rightarrow> string" where
  "logLevelStrings Fatal = ''Panic''"
| "logLevelStrings Critical = ''Critical''"
| "logLevelStrings Error = ''Error''"
| "logLevelStrings Warning = ''Warning''"
| "logLevelStrings Notice = ''Notice''"
| "logLevelStrings Info = ''Info''"
| "logLevelStrings Debug = ''Debug''"

definition valid_level :: "int \<Rightarrow> LogLevel" where
  "valid_level level =
     (if level < 0 \<or> level > 6 then Notice else [Fatal, Critical, Error, Warning, Notice, Info, Debug] ! nat level)"

definition PrintLogVarArgs :: "int \<Rightarrow> mem \<Rightarrow> u8 list \<Rightarrow> (nat \<Rightarrow> u32) \<Rightarrow> screen \<Rightarrow> screen" where
  "PrintLogVarArgs level m format args s =
     PrintLogEmitChar 0x0A
       (fold PrintLogEmitChar (ascii (logLevelStrings (valid_level level)) @ [0x3A, 0x20] @ DoStringFormat m format args) s)"

text \<open>
  The variadic wrappers of \<open>chaff.h\<close>. The arguments are the words of the stack behind the last named parameter, which
  lies at \<open>arg\<close>.
\<close>

definition va_start :: "(u32 \<Rightarrow> u32) \<Rightarrow> u32 \<Rightarrow> nat \<Rightarrow> u32" where
  "va_start stack arg i = stack (arg + 4 + 4 * of_nat i)"

definition PrintLog :: "int \<Rightarrow> mem \<Rightarrow> u8 list \<Rightarrow> (u32 \<Rightarrow> u32) \<Rightarrow> u32 \<Rightarrow> screen \<Rightarrow> screen" where
  "PrintLog level m format stack arg = PrintLogVarArgs level m format (va_start stack arg)"

definition SPrintF :: "u32 \<Rightarrow> int \<Rightarrow> u8 list \<Rightarrow> (u32 \<Rightarrow> u32) \<Rightarrow> u32 \<Rightarrow> sprint_state \<Rightarrow> sprint_state" where
  "SPrintF buffer bufSize format stack arg = SPrintFVarArgs buffer bufSize format (va_start stack arg)"

definition RawPrint :: "mem \<Rightarrow> u8 list \<Rightarrow> (nat \<Rightarrow> u32) \<Rightarrow> screen \<Rightarrow> screen" where
  "RawPrint m format args s = fold PrintLogEmitChar (DoStringFormat m format args) s"

text \<open>
  The stack trace. \<open>word\<close> gives the words of the stack, \<open>ebp\<close> is the frame pointer and \<open>kStackBase\<close> that of the
  current thread; without a stack of its own the thread uses the startup stack.
\<close>

definition stack_end :: "u32 \<Rightarrow> u32 \<Rightarrow> u32" where
  "stack_end kStackBase startupTop = (if kStackBase = 0 then startupTop else kStackBase + PROC_KSTACK_SIZE)"

partial_function (option) trace_loop :: "(u32 \<Rightarrow> u32) \<Rightarrow> mem \<Rightarrow> u32 \<Rightarrow> u32 \<Rightarrow> u32 \<Rightarrow> screen \<Rightarrow> screen option" where
  "trace_loop word m firstEbp stackBase ebp s =
     (if ebp < stackBase \<and> ebp \<ge> firstEbp
      then trace_loop word m firstEbp stackBase (word ebp) (RawPrint m (0x20 # 0x25 # 0x70 # [0x0A]) (\<lambda>_. word (ebp + 4)) s)
      else Some s)"

declare trace_loop.simps [simp del]

definition PrintStackTrace :: "(u32 \<Rightarrow> u32) \<Rightarrow> mem \<Rightarrow> u32 \<Rightarrow> u32 \<Rightarrow> u32 \<Rightarrow> screen \<Rightarrow> screen option" where
  "PrintStackTrace word m ebp kStackBase startupTop s =
     trace_loop word m ebp (stack_end kStackBase startupTop) ebp (RawPrint m (ascii ''Call Stack:'' @ [0x0A]) (\<lambda>_. 0) s)"

text \<open>\<open>Panic\<close> hangs at the end; the value is the screen it leaves, if the stack trace ends.\<close>

definition Panic :: "(u32 \<Rightarrow> u32) \<Rightarrow> mem \<Rightarrow> u8 list \<Rightarrow> (nat \<Rightarrow> u32) \<Rightarrow> u32 \<Rightarrow> u32 \<Rightarrow> u32 \<Rightarrow> screen \<Rightarrow> screen option" where
  "Panic word m format args ebp kStackBase startupTop s =
     PrintStackTrace word m ebp kStackBase startupTop (PrintLogVarArgs 0 m format args s)"

section \<open>Digits\<close>

lemma div_decreases: "v \<noteq> 0 \<Longrightarrow> \<not> b < (2 :: u32) \<Longrightarrow> unat (v div b) < unat v"
  by (simp add: unat_div word_less_nat_alt word_neq_0_conv)

lemma digits_append: "digits_loop up b v raw = digits_loop up b v [] @ raw"
proof (induction "unat v" arbitrary: v raw rule: less_induct)
  case less
  show ?case
  proof (cases "v = 0 \<or> b < 2")
    case False
    then have IH: "digits_loop up b (v div b) raw = digits_loop up b (v div b) [] @ raw" for raw
      using less div_decreases [of v b] by blast
    have "digits_loop up b v raw = digits_loop up b (v div b) (digit up (v mod b) # raw)" for raw
      using False by (subst digits_loop.simps) simp
    then show ?thesis using IH [of "digit up (v mod b) # raw"] IH [of "[digit up (v mod b)]"] by simp
  qed (simp add: digits_loop.simps)
qed

lemma digits_step:
  assumes "v \<noteq> 0" "\<not> b < 2"
  shows "digits_loop up b v [] = digits_loop up b (v div b) [] @ [digit up (v mod b)]"
  using assms by (subst digits_loop.simps) (simp add: digits_append [of up b "v div b" "[digit up (v mod b)]"])

lemma digits_zero [simp]: "digits_loop up b 0 raw = raw"
  by (simp add: digits_loop.simps)

lemma digits_length:
  assumes "\<not> b < 2"
  shows "unat v < unat b ^ n \<Longrightarrow> length (digits_loop up b v []) \<le> n"
proof (induction n arbitrary: v)
  case (Suc n)
  show ?case
  proof (cases "v = 0")
    case False
    have "unat (v div b) < unat b ^ n"
      using Suc.prems by (simp add: unat_div less_mult_imp_div_less mult.commute)
    then show ?thesis using Suc.IH False assms by (simp add: digits_step)
  qed simp
qed (simp add: unat_eq_0)

lemma digits_bound:
  assumes "base \<in> {8, 10, 16}"
  shows "length (digits_loop up base v []) \<le> 11"
proof -
  have "(2 :: nat) ^ 32 \<le> unat base ^ 11" using assms by (elim insertE) simp_all
  then have "unat v < unat base ^ 11" using unsigned_less [of v, where ?'a = nat] by simp
  moreover have "\<not> base < 2" using assms by auto
  ultimately show ?thesis by (intro digits_length)
qed

text \<open>
  Size of the buffer. The digits of every value in the bases that are used, octal included, fit into
  \<open>toStringResult\<close> before its last byte.
\<close>

theorem digits_fit:
  assumes "base \<in> {8, 10, 16}"
  shows "length (digits_loop up base v []) \<le> TO_STRING_LEN - 1"
  using digits_bound [OF assms, of up v] by (simp add: TO_STRING_LEN_def)

theorem digits_fit_witness: "length (digits_loop True 8 0xFFFFFFFF []) \<le> TO_STRING_LEN - 1"
  by (rule digits_fit) simp

section \<open>Numbers\<close>

lemma digit_range:
  assumes "r < (10 :: u32)"
  shows "0x30 \<le> digit up r" "digit up r \<le> 0x39" "(ucast (digit up r) :: u32) - 0x30 = r"
proof -
  have "r \<in> {0, 1, 2, 3, 4, 5, 6, 7, 8, 9}" using assms by (simp, unat_arith)
  moreover have "digit up r = 0x30 + ucast r" using assms by (simp add: digit_def)
  ultimately show "0x30 \<le> digit up r" "digit up r \<le> 0x39" "(ucast (digit up r) :: u32) - 0x30 = r"
    by auto
qed

definition is_digit :: "u8 \<Rightarrow> bool" where
  "is_digit c \<longleftrightarrow> 0x30 \<le> c \<and> c \<le> 0x39"

lemma times_ten: "push_bit 3 num + num * 2 = num * (10 :: u32)"
  using distrib_left [of num 8 2] by (simp add: push_bit_eq_mult)

lemma parse_digits:
  "\<forall>c \<in> set ds. is_digit c \<Longrightarrow>
     stringToNumber (ds @ rest) num = stringToNumber rest (foldl (\<lambda>n c. n * 10 + (ucast c - 0x30)) num ds)"
proof (induction ds arbitrary: num)
  case (Cons c ds)
  then show ?case by (simp add: is_digit_def times_ten add_diff_eq)
qed simp

lemma decimal_digits:
  "(\<forall>c \<in> set (digits_loop up 10 v []). is_digit c) \<and>
   foldl (\<lambda>n c. n * 10 + (ucast c - 0x30)) 0 (digits_loop up 10 v []) = v"
proof (induction "unat v" arbitrary: v rule: less_induct)
  case less
  show ?case
  proof (cases "v = 0")
    case False
    have lt: "v mod 10 < 10" by (rule word_mod_less_divisor) simp
    have "(v div 10) * 10 + v mod 10 = v" by (simp add: div_mult_mod_eq)
    then show ?thesis using less [of "v div 10"] div_decreases [of v 10] digit_range [OF lt] False
      by (simp add: digits_step is_digit_def)
  qed simp
qed

text \<open>The parser of the format strings reads the decimal digits of a value back.\<close>

lemma parse_decimal: "stringToNumber (digits_loop up 10 v []) 0 = (v, [])"
  using parse_digits [of "digits_loop up 10 v []" "[]" 0] decimal_digits [of up v] by simp

lemma sint_diff:
  fixes a b :: u32
  assumes "unat a < 2147483648" "unat b < 2147483648"
  shows "sint (a - b) = int (unat a) - int (unat b)"
proof -
  have "a - b = word_of_int (int (unat a) - int (unat b))" by simp
  also have "sint \<dots> = signed_take_bit 31 (int (unat a) - int (unat b))" by (simp only: sint_sbintrunc') simp
  also have "\<dots> = int (unat a) - int (unat b)"
  proof (rule signed_take_bit_int_eq_self)
    have "- 2147483648 \<le> int (unat a) - int (unat b)" using assms by linarith
    then show "- (2 ^ 31) \<le> int (unat a) - int (unat b)" by simp
    have "int (unat a) - int (unat b) < 2147483648" using assms by linarith
    then show "int (unat a) - int (unat b) < 2 ^ 31" by simp
  qed
  finally show ?thesis .
qed

lemma nat_sint_diff:
  fixes a b :: u32
  assumes "unat a < 2147483648" "unat b < 2147483648"
  shows "nat (sint (a - b)) = unat a - unat b"
proof -
  have "nat (int x - int y) = x - y" for x y by simp
  then show ?thesis unfolding sint_diff [OF assms] .
qed

lemma number_layout:
  fixes d :: directive and v base :: u32
  assumes base: "base \<in> {8, 10, 16}" and small: "unat (width d) < 2 ^ 30" "unat (precision d) < 2 ^ 30"
  defines "digits \<equiv> digits_loop (flags d AND HEX_UPPER \<noteq> 0) base v []"
  defines "zeros \<equiv> (if flags d AND ZERO_PAD \<noteq> 0 \<and> flags d AND LEFT_ALIGN = 0
      then unat (width d) - (length digits + length (prefix_of d)) else unat (precision d) - length digits)"
  defines "body \<equiv> prefix_of d @ replicate zeros 0x30 @ digits"
  shows "number_output d v base =
    (if flags d AND LEFT_ALIGN \<noteq> 0 then body @ replicate (unat (width d) - length body) 0x20
     else replicate (unat (width d) - length body) 0x20 @ body)"
proof -
  have len: "length digits \<le> 11" "length (prefix_of d) \<le> 2"
    using digits_bound [OF base, of "flags d AND HEX_UPPER \<noteq> 0" v] by (simp_all add: digits_def prefix_of_def)
  define L P :: u32 where "L = of_nat (length digits)" and "P = of_nat (length (prefix_of d))"
  have L: "unat L = length digits" "unat P = length (prefix_of d)" "unat (L + P) = length digits + length (prefix_of d)"
    using len by (simp_all add: L_def P_def unat_of_nat unat_word_ariths)
  define z where "z = (if flags d AND ZERO_PAD \<noteq> 0 \<and> flags d AND LEFT_ALIGN = 0 then sint (width d - L - P) else sint (precision d - L))"
  have "nat z = zeros"
    using nat_sint_diff [of "width d" "L + P"] nat_sint_diff [of "precision d" L] small len L
    by (simp add: z_def zeros_def diff_diff_eq)
  then have z: "(if z < 0 then 0 else z) = int zeros" by auto
  have small_zeros: "zeros < 2 ^ 30" using small by (simp add: zeros_def less_imp_diff_less)
  have "unat (L + of_int (int zeros) + P) = length body"
    using len small_zeros L by (simp add: body_def unat_word_ariths unat_of_nat)
  then have spaces: "nat (sint (width d - (L + of_int (int zeros) + P))) = unat (width d) - length body"
    using nat_sint_diff [of "width d" "L + of_int (int zeros) + P"] small(1) len small_zeros by (simp add: body_def)
  have "number_output d v base = field_output (d\<lparr>precision := L + of_int (int zeros) + P\<rparr>) zeros digits"
    unfolding number_output_def Let_def
    by (simp only: digits_def [symmetric] L_def [symmetric] P_def [symmetric] z_def [symmetric] z nat_int)
  then show ?thesis using spaces by (simp add: field_output_def Let_def body_def prefix_of_def)
qed

text \<open>
  Printing of numbers, as \<open>chaff.h\<close> describes it. The digits follow the prefix and enough zeros to reach the
  precision, or the whole width when zero padding is asked for and left alignment is not; spaces on the
  left, or on the right for left alignment, fill the width.
\<close>

theorem number_format:
  assumes "base \<in> {8, 10, 16}" "unat (width d) < 2 ^ 30" "unat (precision d) < 2 ^ 30"
  shows "number_output d v base =
    (let digits = digits_loop (flags d AND HEX_UPPER \<noteq> 0) base v [];
         zeros = (if flags d AND ZERO_PAD \<noteq> 0 \<and> flags d AND LEFT_ALIGN = 0
           then unat (width d) - (length digits + length (prefix_of d)) else unat (precision d) - length digits);
         body = prefix_of d @ replicate zeros 0x30 @ digits; spaces = replicate (unat (width d) - length body) 0x20
     in if flags d AND LEFT_ALIGN \<noteq> 0 then body @ spaces else spaces @ body)"
  unfolding Let_def by (rule number_layout [OF assms])

text \<open>The directive \<open>%08x\<close> of the value \<open>0xBEEF\<close>.\<close>

theorem number_format_witness:
  "number_output (no_directive\<lparr>flags := ZERO_PAD, width := 8, prefix0 := 0\<rparr>) 0xBEEF 16 = [0x30, 0x30, 0x30, 0x30, 0x62, 0x65, 0x65, 0x66]"
proof -
  have four: "replicate 4 x = [x, x, x, x]" for x :: u8 by (simp add: numeral_eq_Suc)
  have "digits_loop False 16 0xBEEF [] = [0x62, 0x65, 0x65, 0x66]" by (simp add: digits_step digit_def)
  then show ?thesis
    using number_format [of 16 "no_directive\<lparr>flags := ZERO_PAD, width := 8, prefix0 := 0\<rparr>" "0xBEEF"]
    by (simp add: no_directive_def ZERO_PAD_def LEFT_ALIGN_def HEX_UPPER_def prefix_of_def four)
qed

text \<open>A number without flags, width and precision.\<close>

lemma plain_number:
  assumes "base \<in> {8, 10, 16}" "flags d = 0" "width d = 0" "precision d = 1"
  shows "number_output d v base = prefix_of d @ (if v = 0 then [0x30] else digits_loop False base v [])"
proof -
  have "\<not> base < 2" using assms(1) by auto
  then have "v \<noteq> 0 \<Longrightarrow> 1 - length (digits_loop False base v []) = 0" by (simp add: digits_step)
  then show ?thesis using assms number_layout [of base d v] by simp
qed

text \<open>
  (C37) Printing and reading back. What \<open>%u\<close> prints is a number that the kernel's own number parser reads as the
  value; \<open>%d\<close> prints the absolute value in the same way, with a sign for negative values, the smallest
  integer included.
\<close>

theorem print_parse:
  "stringToNumber (DoStringFormat m [0x25, 0x75] (\<lambda>_. v)) 0 = (v, []) \<and>
   (\<exists>num. DoStringFormat m [0x25, 0x64] (\<lambda>_. v) = (if sint v < 0 then [0x2D] else []) @ num \<and>
      (\<exists>a. stringToNumber num 0 = (a, []) \<and> int (unat a) = \<bar>sint v\<bar>))"
proof -
  have parse: "stringToNumber (if w = 0 then [0x30] else digits_loop False 10 w []) 0 = (w, [])" for w
    by (simp add: parse_decimal)
  have plain: "number_output (no_directive\<lparr>prefix0 := p\<rparr>) w 10 = (if p = 0 then [] else [p]) @ (if w = 0 then [0x30] else digits_loop False 10 w [])"
    for w p
    by (subst plain_number) (simp_all add: no_directive_def prefix_of_def)
  have range: "- (2 ^ 31) \<le> sint v" "sint v < 2 ^ 31" using sint_ge [of v] sint_lt [of v] by simp_all
  have none: "no_directive\<lparr>prefix0 := 0\<rparr> = no_directive" by (simp add: no_directive_def)
  have u: "DoStringFormat m [0x25, 0x75] (\<lambda>_. v) = number_output no_directive v 10"
    by (simp add: control_step_def convert_def none)
  have d: "DoStringFormat m [0x25, 0x64] (\<lambda>_. v) = conversion_output (signed_conversion no_directive v)"
    by (simp add: control_step_def convert_def)
  show ?thesis
  proof
    show "stringToNumber (DoStringFormat m [0x25, 0x75] (\<lambda>_. v)) 0 = (v, [])"
      unfolding u using plain [of 0 v] parse [of v] by (simp add: none)
    define w where "w = (if sint v = - (2 ^ 31) then 0x7FFFFFFF + 1 else of_int (- sint v) :: u32)"
    show "\<exists>num. DoStringFormat m [0x25, 0x64] (\<lambda>_. v) = (if sint v < 0 then [0x2D] else []) @ num \<and>
        (\<exists>a. stringToNumber num 0 = (a, []) \<and> int (unat a) = \<bar>sint v\<bar>)"
    proof (cases "sint v < 0")
      case True
      then have "DoStringFormat m [0x25, 0x64] (\<lambda>_. v) = [0x2D] @ (if w = 0 then [0x30] else digits_loop False 10 w [])"
        unfolding d signed_conversion_def w_def [symmetric] using plain [of "0x2D" w] by simp
      moreover have "int (unat w) = \<bar>sint v\<bar>"
      proof (cases "sint v = - (2 ^ 31)")
        case False
        have "uint (word_of_int (- sint v) :: u32) = - sint v"
          using True range False by (subst uint_word_of_int) simp
        moreover have "w = word_of_int (- sint v)" using False by (simp add: w_def)
        ultimately have "uint w = - sint v" by (simp only:)
        then show ?thesis using True by simp
      qed (simp add: w_def)
      ultimately show ?thesis using parse [of w] True by auto
    next
      case False
      then have "DoStringFormat m [0x25, 0x64] (\<lambda>_. v) = (if v = 0 then [0x30] else digits_loop False 10 v [])"
        unfolding d signed_conversion_def using plain [of 0 v] by (simp add: none)
      moreover have "int (unat v) = \<bar>sint v\<bar>"
        using False range uint_sint [of v] by (simp add: take_bit_int_eq_self)
      ultimately show ?thesis using parse [of v] False by auto
    qed
  qed
qed

section \<open>Formatting into a buffer\<close>

lemma emit_one:
  "strBuffer (snd (SPrintEmitChar c s)) = strBuffer s + 1" "bufMem (snd (SPrintEmitChar c s)) = (bufMem s)(strBuffer s := c)"
  by (simp_all add: SPrintEmitChar_def Let_def)

lemma emit_all:
  assumes "length cs \<le> 4294967295"
  shows "strBuffer (fold (\<lambda>c s. snd (SPrintEmitChar c s)) cs s) = strBuffer s + of_nat (length cs) \<and>
    bufMem (fold (\<lambda>c s. snd (SPrintEmitChar c s)) cs s) a =
      (if unat (a - strBuffer s) < length cs then cs ! unat (a - strBuffer s) else bufMem s a)"
  using assms
proof (induction cs arbitrary: s)
  case (Cons c cs)
  note IH = Cons.IH [of "snd (SPrintEmitChar c s)"]
  show ?case
  proof (cases "a = strBuffer s")
    case True
    then have "unat (a - (strBuffer s + 1)) = 4294967295" by (simp add: unat_minus_one_wrap)
    then show ?thesis using IH Cons.prems True by (simp add: emit_one)
  next
    case False
    then have "unat (a - strBuffer s) = Suc (unat (a - (strBuffer s + 1)))" using unat_diff_Suc by force
    then show ?thesis using IH Cons.prems False by (simp add: emit_one)
  qed
qed simp

text \<open>
  The size of the buffer. For every size above 1, \<open>SPrintFVarArgs\<close> stores the whole output and the
  terminator, however long the output is, and changes nothing else: the size is not respected, because
  the value by which \<open>SPrintEmitChar\<close> asks to stop is ignored.
\<close>

theorem sprintf_ignores_size:
  assumes "bufSize > 1" "out = DoStringFormat (bufMem s) format args" "length out < 4294967295"
  shows "bytes (bufMem (SPrintFVarArgs buffer bufSize format args s)) buffer (length out + 1) = out @ [0] \<and>
    (\<forall>a. unat (a - buffer) > length out \<longrightarrow> bufMem (SPrintFVarArgs buffer bufSize format args s) a = bufMem s a)"
proof -
  let ?s = "fold (\<lambda>c s. snd (SPrintEmitChar c s)) out (s\<lparr>strBuffer := buffer, strBufferSize := of_int bufSize\<rparr>)"
  have eq: "bufMem (SPrintFVarArgs buffer bufSize format args s) = (bufMem ?s)(buffer + of_nat (length out) := 0)"
    using assms(1,2) emit_all [of out "s\<lparr>strBuffer := buffer, strBufferSize := of_int bufSize\<rparr>"] assms(3)
    by (simp add: SPrintFVarArgs_def Let_def)
  have mem: "bufMem ?s a = (if unat (a - buffer) < length out then out ! unat (a - buffer) else bufMem s a)" for a
    using emit_all [of out "s\<lparr>strBuffer := buffer, strBufferSize := of_int bufSize\<rparr>" a] assms(3) by simp
  have num: "unat (of_nat i :: u32) = i" if "i \<le> length out" for i using that assms(3) by (simp add: unat_of_nat)
  have "bytes (bufMem (SPrintFVarArgs buffer bufSize format args s)) buffer (length out + 1) = out @ [0]"
  proof (rule nth_equalityI)
    fix i assume "i < length (bytes (bufMem (SPrintFVarArgs buffer bufSize format args s)) buffer (length out + 1))"
    then have i: "i \<le> length out" by simp
    then have "(of_nat i :: u32) = of_nat (length out) \<longleftrightarrow> i = length out" using num num [of "length out"] by (metis order_refl)
    then show "bytes (bufMem (SPrintFVarArgs buffer bufSize format args s)) buffer (length out + 1) ! i = (out @ [0]) ! i"
      using i num [OF i] by (auto simp: eq mem nth_append)
  qed simp
  moreover have "bufMem (SPrintFVarArgs buffer bufSize format args s) a = bufMem s a" if "unat (a - buffer) > length out" for a
    using that num [of "length out"] by (auto simp: eq mem)
  ultimately show ?thesis by blast
qed

theorem sprintf_ignores_size_witness:
  "bytes (bufMem (SPrintFVarArgs 0x100 2 [0x61, 0x62, 0x63] (\<lambda>_. 0) \<lparr>strBuffer = 0, strBufferSize = 0, bufMem = \<lambda>_. 0xFF\<rparr>)) 0x100
       (length [0x61, 0x62, 0x63 :: u8] + 1) = [0x61, 0x62, 0x63, 0]"
  using sprintf_ignores_size [of 2 "[0x61, 0x62, 0x63]" "\<lparr>strBuffer = 0, strBufferSize = 0, bufMem = \<lambda>_. 0xFF\<rparr>" "[0x61, 0x62, 0x63]"
      "\<lambda>_. 0" "0x100"] by simp

section \<open>The screen and the stack trace\<close>

text \<open>The cursor is at one of the 2000 characters of the screen.\<close>

definition screen_ok :: "screen \<Rightarrow> bool" where
  "screen_ok s \<longleftrightarrow> (\<exists>n < 2000. nextPos s = 0xC00B8000 + of_nat (2 * n))"

definition off_screen :: "u32 \<Rightarrow> bool" where
  "off_screen a \<longleftrightarrow> a < 0xC00B8000 \<or> a \<ge> 0xC00B8FA0"

lemma screen_pos:
  "n \<le> 4000 \<Longrightarrow> unat (0xC00B8000 + of_nat n :: u32) = 0xC00B8000 + n"
  by (simp add: unat_word_ariths unat_of_nat)

lemma emit_on_screen:
  assumes "screen_ok s"
  shows "screen_ok (PrintLogEmitChar c s)" "off_screen a \<Longrightarrow> video (PrintLogEmitChar c s) a = video s a"
proof -
  obtain n where n: "n < 2000" "nextPos s = 0xC00B8000 + of_nat (2 * n)" using assms by (auto simp: screen_ok_def)
  define k where "k = (if c = 0x0A then n + 80 - n mod 80 else n + 1)"
  have k: "k \<le> 2000"
  proof -
    have "n div 80 < 25" using n(1) by (simp add: less_mult_imp_div_less)
    moreover have "n + 80 - n mod 80 = 80 * (n div 80) + 80" using mult_div_mod_eq [of 80 n] by linarith
    ultimately show ?thesis using n(1) by (simp add: k_def)
  qed
  have line: "(of_nat (2 * n) :: u32) mod 160 = of_nat (2 * (n mod 80))"
  proof (rule word_unat_eq_iff [THEN iffD2])
    have "unat (of_nat (2 * n) :: u32) = 2 * n" "unat (of_nat (2 * (n mod 80)) :: u32) = 2 * (n mod 80)"
      using n(1) mod_less_divisor [of 80 n] unfolding unat_of_nat by simp_all
    then show "unat ((of_nat (2 * n) :: u32) mod 160) = unat (of_nat (2 * (n mod 80)) :: u32)"
      by (simp only: unat_mod) (simp add: mult_mod_right)
  qed
  have "of_nat (2 * k) + of_nat (2 * (n mod 80)) = (of_nat (2 * n) + 160 :: u32)" if "c = 0x0A"
  proof -
    have "2 * k + 2 * (n mod 80) = 2 * n + 160" using that mod_le_divisor [of 80 n] by (simp add: k_def)
    then show ?thesis by (metis of_nat_add of_nat_numeral)
  qed
  then have move: "nextPos s + (160 - (nextPos s - 0xC00B8000) mod 160) = 0xC00B8000 + of_nat (2 * k)" if "c = 0x0A"
    using that n(2) line by (simp add: algebra_simps)
  define s1 where "s1 = (if c = 0x0A then s\<lparr>nextPos := nextPos s + (160 - (nextPos s - 0xC00B8000) mod 160)\<rparr>
    else s\<lparr>video := (video s)(nextPos s := c, nextPos s + 1 := 7), nextPos := nextPos s + 2\<rparr>)"
  have pos: "nextPos s1 = 0xC00B8000 + of_nat (2 * k)"
    using move n(2) by (simp add: s1_def k_def algebra_simps)
  have emit: "PrintLogEmitChar c s = (if nextPos s1 \<ge> 0xC00B8FA0 then s1\<lparr>nextPos := 0xC00B8000\<rparr> else s1)"
    by (simp add: PrintLogEmitChar_def s1_def Let_def)
  have "nextPos s1 \<ge> 0xC00B8FA0 \<longleftrightarrow> k = 2000"
    unfolding pos word_le_nat_alt using screen_pos [of "2 * k"] k by auto
  then show "screen_ok (PrintLogEmitChar c s)"
    using k pos unfolding emit screen_ok_def by (auto intro: exI [of _ 0] exI [of _ k])
  have "unat (nextPos s) = 0xC00B8000 + 2 * n" "unat (nextPos s + 1) = 0xC00B8000 + 2 * n + 1"
    using screen_pos [of "2 * n"] screen_pos [of "2 * n + 1"] n by (simp_all add: add.assoc)
  then have "a \<noteq> nextPos s" "a \<noteq> nextPos s + 1" if "off_screen a"
    using that n(1) by (auto simp: off_screen_def word_less_nat_alt word_le_nat_alt)
  then show "video (PrintLogEmitChar c s) a = video s a" if "off_screen a"
    using that by (simp add: emit s1_def)
qed

lemma emit_list_on_screen:
  "screen_ok s \<Longrightarrow> screen_ok (fold PrintLogEmitChar cs s) \<and> (\<forall>a. off_screen a \<longrightarrow> video (fold PrintLogEmitChar cs s) a = video s a)"
  by (induction cs arbitrary: s) (simp_all add: emit_on_screen)



text \<open>
  The stack trace ends when every frame on the stack points to a frame above it. A frame that points to
  itself makes it run forever.
\<close>

theorem stack_trace_ends:
  assumes "\<forall>e. ebp \<le> e \<and> e < stack_end kStackBase startupTop \<longrightarrow> e < word e"
  shows "\<exists>s'. PrintStackTrace word m ebp kStackBase startupTop s = Some s'"
proof -
  let ?stop = "stack_end kStackBase startupTop"
  have "\<exists>s'. trace_loop word m ebp ?stop e s = Some s'" if "ebp \<le> e" for e s
    using that
  proof (induction "unat ?stop - unat e" arbitrary: e s rule: less_induct)
    case less
    show ?case
    proof (cases "e < ?stop")
      case True
      then have up: "e < word e" using assms less.prems by simp
      then have "unat ?stop - unat (word e) < unat ?stop - unat e" using True by (simp add: word_less_nat_alt diff_less_mono2)
      then show ?thesis using less.hyps less.prems True up by (subst trace_loop.simps) simp
    next
      case False
      then show ?thesis by (subst trace_loop.simps) simp
    qed
  qed
  then show ?thesis by (simp add: PrintStackTrace_def)
qed

theorem stack_trace_ends_witness:
  "\<exists>s'. PrintStackTrace (\<lambda>e. if e = 0x1010 then 0x1020 else 0x2000) (\<lambda>_. 0) 0x1010 0x1000 0 \<lparr>nextPos = 0xC00B8000, video = \<lambda>_. 0\<rparr> = Some s'"
  by (rule stack_trace_ends) (auto simp: stack_end_def PROC_KSTACK_SIZE_def)

end
