(* ===== verification/Signal.thy ===== *)
theory Signal
  imports Scheduler
begin

text \<open>
  Signals: \<open>kernel/src/process/signal.c\<close> and \<open>kernel/include/signalNums.h\<close>.

  A signal set is a 32 bit word with signal \<open>n\<close> at bit \<open>n - 1\<close>. The loops that the code writes over a
  process's threads run over the list of its child processes, whose entries the C code then takes for
  threads; the two structures have their sibling links at the same offset, so the thread at a child's
  address is what is read and changed. The model keeps that: the loops run over \<open>p_children\<close> and use the
  thread record at that address.

  \<open>ProcExitProcess\<close> and \<open>ProcExitThread\<close> do not return and are the outcome \<open>Exits\<close>. What other threads
  do between the moment a thread blocks and the moment it runs again is the argument \<open>others\<close>. The user
  memory checks are the arguments \<open>canRead\<close> and \<open>canWrite\<close> (theory \<open>Region\<close>), user memory is a map of
  words. Loops that may run forever are \<open>partial_function\<close>s.
\<close>

section \<open>Signal sets\<close>

definition SIGKILL :: nat where "SIGKILL = 9"
definition SIGCLD :: nat where "SIGCLD = 17"
definition SIGCONT :: nat where "SIGCONT = 18"
definition SIGSTOP :: nat where "SIGSTOP = 19"
definition SIGTSTP :: nat where "SIGTSTP = 20"
definition SIGTTIN :: nat where "SIGTTIN = 21"
definition SIGTTOU :: nat where "SIGTTOU = 22"
definition SIGINT :: nat where "SIGINT = 2"
definition SIGSEGV :: nat where "SIGSEGV = 11"
definition SIGALRM :: nat where "SIGALRM = 14"
definition SIG_MAX :: int where "SIG_MAX = 32"

definition SIG_DFL :: u32 where "SIG_DFL = 0"
definition SIG_IGN :: u32 where "SIG_IGN = 1"

definition SIGNAL_INDEX :: "nat \<Rightarrow> nat" where "SIGNAL_INDEX n = n - 1"

definition sigbit :: "nat \<Rightarrow> ProcSigSet" where
  "sigbit n = push_bit (SIGNAL_INDEX n) 1"

datatype exit_kind = ExitProcess int | ExitThread int
datatype 'a flow = Goes 'a | Exits exit_kind

section \<open>Masks and actions\<close>

definition new_mask :: "int \<Rightarrow> ProcSigSet \<Rightarrow> ProcSigSet \<Rightarrow> ProcSigSet" where
  "new_mask how signalSet blocked =
     (if how = 0 then blocked OR signalSet else if how = 1 then blocked AND NOT signalSet
      else if how = 2 then signalSet else blocked)"

definition ProcSignalSetMask :: "u32 \<Rightarrow> int \<Rightarrow> ProcSigSet \<Rightarrow> 'a sched_state_scheme \<Rightarrow> 'a sched_state_scheme" where
  "ProcSignalSetMask thread how signalSet s =
     upd_thread thread (\<lambda>t. t\<lparr>t_sigBlocked := new_mask how signalSet (t_sigBlocked t) AND (sigbit SIGKILL OR sigbit SIGSTOP)\<rparr>) s"

definition SignalIsIgnored :: "u32 \<Rightarrow> nat \<Rightarrow> 'a sched_state_scheme \<Rightarrow> bool" where
  "SignalIsIgnored process sigNum s =
     (let h = sa_handler (p_sigHandlers (processAt s process) (SIGNAL_INDEX sigNum))
      in h = SIG_IGN \<or> (h = SIG_DFL \<and> (sigNum = SIGCONT \<or> sigNum = SIGCLD)))"

fun clear_pending :: "ProcSigSet \<Rightarrow> u32 list \<Rightarrow> 'a sched_state_scheme \<Rightarrow> 'a sched_state_scheme" where
  "clear_pending keep [] s = s"
| "clear_pending keep (t # rest) s =
     clear_pending keep rest (upd_thread t (t_sigPending_update (\<lambda>x. x AND keep)) s)"

definition ProcSignalSetAction :: "u32 \<Rightarrow> int \<Rightarrow> ProcSigaction \<Rightarrow> 'a sched_state_scheme \<Rightarrow> 'a sched_state_scheme" where
  "ProcSignalSetAction process sigNum newAction s =
     (if 0 < sigNum \<and> sigNum \<le> SIG_MAX then
        (let n = nat sigNum;
             action = newAction\<lparr>sa_mask := sa_mask newAction AND (sigbit SIGKILL OR sigbit SIGSTOP)\<rparr>;
             s1 = upd_process process (p_sigHandlers_update (\<lambda>h. h(SIGNAL_INDEX n := action))) s
         in if SignalIsIgnored process n s1 then
              (let keep = NOT (sigbit n);
                   s2 = upd_process process (p_sigPending_update (\<lambda>x. x AND keep)) s1
               in clear_pending keep (p_children (processAt s2 process)) s2)
            else s1)
      else s)"

section \<open>Sending\<close>

definition RemoteContinueThread :: "u32 \<Rightarrow> 'a sched_state_scheme \<Rightarrow> 'a sched_state_scheme" where
  "RemoteContinueThread thread s =
     (if t_state (threadAt s thread) \<noteq> PTS_INTR then s
      else ProcWakeUpSig thread True (upd_thread thread (t_sigPending_update (\<lambda>x. (x OR sigbit SIGCONT) AND
        NOT (sigbit SIGSTOP OR sigbit SIGTSTP OR sigbit SIGTTIN OR sigbit SIGTTOU))) s))"

definition ProcSignalSendThread :: "u32 \<Rightarrow> int \<Rightarrow> 'a sched_state_scheme \<Rightarrow> 'a sched_state_scheme" where
  "ProcSignalSendThread thread sigNum s =
     (if 0 < sigNum \<and> sigNum \<le> SIG_MAX then
        (let n = nat sigNum in
         if n = SIGCONT then RemoteContinueThread thread s
         else if \<not> SignalIsIgnored (t_parent (threadAt s thread)) n s \<or> n = SIGKILL \<or> n = SIGSTOP then
           (let s1 = upd_thread thread (t_sigPending_update (\<lambda>x. x OR sigbit n)) s;
                s2 = (if n = SIGSTOP then upd_thread thread (t_sigPending_update (\<lambda>x. x AND NOT (sigbit SIGCONT))) s1 else s1)
            in if t_state (threadAt s2 thread) = PTS_INTR \<and> ProcSignalIsPending thread s2
               then ProcWakeUpSig thread True s2 else s2)
         else s)
      else s)"

fun send_all :: "int \<Rightarrow> u32 list \<Rightarrow> 'a sched_state_scheme \<Rightarrow> 'a sched_state_scheme" where
  "send_all sigNum [] s = s"
| "send_all sigNum (t # rest) s = send_all sigNum rest (ProcSignalSendThread t sigNum s)"

fun continue_all :: "u32 list \<Rightarrow> 'a sched_state_scheme \<Rightarrow> 'a sched_state_scheme" where
  "continue_all [] s = s"
| "continue_all (t # rest) s = continue_all rest (RemoteContinueThread t s)"

text \<open>The search for a thread to wake. It stops at a running thread that does not block the signal, keeping
  an interruptible one found before. The mask is shifted by the signal number, not by its index.\<close>

fun find_eligible :: "nat \<Rightarrow> u32 list \<Rightarrow> u32 option \<Rightarrow> 'a sched_state_scheme \<Rightarrow> u32 option" where
  "find_eligible sigNum [] eligible s = eligible"
| "find_eligible sigNum (t # rest) eligible s =
     (if t_sigBlocked (threadAt s t) AND push_bit (sigNum mod 32) 1 = 0 then
        (if t_state (threadAt s t) = PTS_RUNNING then eligible
         else if eligible = None \<and> t_state (threadAt s t) = PTS_INTR then find_eligible sigNum rest (Some t) s
         else find_eligible sigNum rest eligible s)
      else find_eligible sigNum rest eligible s)"

definition ProcSignalSendProcess :: "u32 \<Rightarrow> int \<Rightarrow> 'a sched_state_scheme \<Rightarrow> 'a sched_state_scheme" where
  "ProcSignalSendProcess process sigNum s =
     (if 0 < sigNum \<and> sigNum \<le> SIG_MAX then
        (let n = nat sigNum;
             s1 = (if n = SIGKILL then upd_process process (p_exitCode_update (\<lambda>_. of_int (- int SIGKILL))) s else s);
             children = p_children (processAt s1 process)
         in if n = SIGKILL \<or> n = SIGSTOP then send_all sigNum children s1
            else let s2 = (if n = SIGCONT then continue_all children s1 else s1) in
              if \<not> SignalIsIgnored process n s2 then
                (let s3 = upd_process process (p_sigPending_update (\<lambda>x. x OR sigbit n)) s2
                 in case find_eligible n (p_children (processAt s3 process)) None s3 of
                      None \<Rightarrow> s3 | Some t \<Rightarrow> ProcWakeUpSig t True s3)
              else s2)
      else s)"

definition ProcSignalSendOrCrash :: "nat \<Rightarrow> 'a sched_state_scheme \<Rightarrow> 'a sched_state_scheme flow" where
  "ProcSignalSendOrCrash sigNum s =
     (if SignalIsIgnored (ProcCurrProcess s) sigNum s \<or>
         sigbit sigNum AND t_sigBlocked (threadAt s (ProcCurrThread s)) \<noteq> 0
      then Exits (ExitProcess (- int sigNum))
      else Goes (ProcSignalSendThread (ProcCurrThread s) (int sigNum) s))"

section \<open>Delivery\<close>

record IntrContext =
  edi :: u32
  esi :: u32
  ebp :: u32
  ebx :: u32
  edx :: u32
  ecx :: u32
  eax :: u32
  intrNum :: u32
  intrError :: u32
  eip :: u32
  cs :: u32
  eflags :: u32
  esp :: u32

type_synonym user_mem = "u32 \<Rightarrow> u32"

fun store_words :: "u32 \<Rightarrow> u32 list \<Rightarrow> user_mem \<Rightarrow> user_mem" where
  "store_words a [] m = m"
| "store_words a (v # vs) m = store_words (a + 4) vs (m(a := v))"

definition signal_frame :: "u32 \<Rightarrow> nat \<Rightarrow> IntrContext \<Rightarrow> u32 list" where
  "signal_frame stack sigNum c = [stack + 8, of_nat sigNum, 0x00EEB858, 0x42CD0000, esp c, eflags c, eip c,
     eax c, ecx c, edx c, ebx c, ebp c, esi c, edi c]"

definition HandleCustomSignal ::
  "(u32 \<Rightarrow> u32 \<Rightarrow> bool) \<Rightarrow> IntrContext \<Rightarrow> u32 \<Rightarrow> nat \<Rightarrow> user_mem \<Rightarrow> (IntrContext \<times> user_mem) flow" where
  "HandleCustomSignal canWrite c handler sigNum m =
     (let stack = esp c - 56 in
      if \<not> canWrite stack 56 then Exits (ExitProcess (- int SIGSEGV))
      else Goes (c\<lparr>esp := stack, eip := handler, eflags := eflags c AND NOT (push_bit 10 1)\<rparr>,
             store_words stack (signal_frame stack sigNum c) m))"

definition ProcSignalReturn ::
  "(u32 \<Rightarrow> u32 \<Rightarrow> bool) \<Rightarrow> IntrContext \<Rightarrow> user_mem \<Rightarrow> 'a sched_state_scheme \<Rightarrow> (IntrContext \<times> 'a sched_state_scheme) flow" where
  "ProcSignalReturn canRead c m s =
     (if cs c \<noteq> 0x1B then Goes (c, s)
      else let stack = esp c in
        if \<not> canRead stack 48 then
          (case ProcSignalSendOrCrash SIGSEGV s of Exits e \<Rightarrow> Exits e | Goes s' \<Rightarrow> Goes (c, s'))
        else Goes (c\<lparr>esp := m (stack + 8), eflags := (m (stack + 12) AND 0xCFF) OR 0x200, eip := m (stack + 16),
               eax := m (stack + 20), ecx := m (stack + 24), edx := m (stack + 28), ebx := m (stack + 32),
               ebp := m (stack + 36), esi := m (stack + 40), edi := m (stack + 44)\<rparr>, s))"

partial_function (option) suspend_loop ::
  "('a sched_state_scheme \<Rightarrow> 'a sched_state_scheme) \<Rightarrow> 'a sched_state_scheme \<Rightarrow> 'a sched_state_scheme option" where
  "suspend_loop others s =
     (let s1 = (case ProcYieldBlock True s of None \<Rightarrow> s | Some s' \<Rightarrow> others s');
          s2 = upd_thread (ProcCurrThread s1) (t_sigPending_update (\<lambda>x. x AND NOT (sigbit SIGSTOP))) s1
      in if t_sigPending (threadAt s2 (ProcCurrThread s2)) AND (sigbit SIGKILL OR sigbit SIGCONT) \<noteq> 0
         then Some s2 else suspend_loop others s2)"

definition SuspendSelf ::
  "('a sched_state_scheme \<Rightarrow> 'a sched_state_scheme) \<Rightarrow> 'a sched_state_scheme \<Rightarrow> 'a sched_state_scheme option" where
  "SuspendSelf others s =
     (let maskBefore = t_sigBlocked (threadAt s (ProcCurrThread s));
          s1 = ProcSignalSetMask (ProcCurrThread s) 2 (NOT (sigbit SIGCONT)) s
      in case suspend_loop others s1 of None \<Rightarrow> None
         | Some s2 \<Rightarrow> Some (ProcSignalSetMask (ProcCurrThread s2) 2 maskBefore s2))"

definition BitScanForward :: "u32 \<Rightarrow> nat" where
  "BitScanForward x = length (takeWhile (\<lambda>n. \<not> bit x n) [0..<32])"

definition pending_set :: "'a sched_state_scheme \<Rightarrow> ProcSigSet" where
  "pending_set s = (t_sigPending (threadAt s (ProcCurrThread s)) OR p_sigPending (processAt s (ProcCurrProcess s)))
     AND NOT (t_sigBlocked (threadAt s (ProcCurrThread s)))"

definition clear_signal :: "nat \<Rightarrow> 'a sched_state_scheme \<Rightarrow> 'a sched_state_scheme" where
  "clear_signal sigNum s =
     upd_process (ProcCurrProcess s) (p_sigPending_update (\<lambda>x. x AND NOT (sigbit sigNum)))
       (upd_thread (ProcCurrThread s) (t_sigPending_update (\<lambda>x. x AND NOT (sigbit sigNum))) s)"

text \<open>The delivery loop: with \<open>None\<close> it computes the set of signals again (the label \<open>refreshSigSet\<close>), with
  \<open>Some sigSet\<close> it handles the lowest signal of that set.\<close>

partial_function (option) deliver ::
  "('a sched_state_scheme \<Rightarrow> 'a sched_state_scheme) \<Rightarrow> (u32 \<Rightarrow> u32 \<Rightarrow> bool) \<Rightarrow> ProcSigSet option \<Rightarrow>
   IntrContext \<Rightarrow> user_mem \<Rightarrow> 'a sched_state_scheme \<Rightarrow> (IntrContext \<times> user_mem \<times> 'a sched_state_scheme) flow option" where
  "deliver others canWrite mode c m s =
     (case mode of
        None \<Rightarrow>
          (let sigSet = pending_set s in
           if sigSet = 0 then Some (Goes (c, m, s))
           else if sigSet AND of_nat (SIGNAL_INDEX SIGKILL) \<noteq> 0 then Some (Exits (ExitThread 0))
           else if sigSet AND of_nat (SIGNAL_INDEX SIGSTOP) \<noteq> 0 then
             (case SuspendSelf others s of None \<Rightarrow> None | Some s1 \<Rightarrow> deliver others canWrite None c m s1)
           else deliver others canWrite (Some sigSet) c m s)
      | Some sigSet \<Rightarrow>
          (let sigNum = BitScanForward sigSet + 1;
               rest = sigSet AND NOT (sigbit sigNum);
               s1 = clear_signal sigNum s;
               handler = sa_handler (p_sigHandlers (processAt s1 (ProcCurrProcess s1)) (SIGNAL_INDEX sigNum))
           in if handler = SIG_IGN \<or> (handler = SIG_DFL \<and> (sigNum = SIGCLD \<or> sigNum = SIGCONT)) then
                (if rest \<noteq> 0 then deliver others canWrite (Some rest) c m s1 else Some (Goes (c, m, s1)))
              else if handler = SIG_DFL then
                (if sigNum = SIGTSTP \<or> sigNum = SIGTTIN \<or> sigNum = SIGTTOU then
                   (let s2 = (if p_sigPending (processAt s1 (ProcCurrProcess s1)) AND sigbit sigNum \<noteq> 0
                              then ProcSignalSendProcess (ProcCurrProcess s1) (int sigNum) s1 else s1)
                    in case SuspendSelf others s2 of None \<Rightarrow> None | Some s3 \<Rightarrow> deliver others canWrite None c m s3)
                 else Some (Exits (ExitProcess (- int sigNum))))
              else (case HandleCustomSignal canWrite c handler sigNum m of
                      Exits e \<Rightarrow> Some (Exits e) | Goes (c', m') \<Rightarrow> Some (Goes (c', m', s1)))))"

definition ProcSignalHandler ::
  "('a sched_state_scheme \<Rightarrow> 'a sched_state_scheme) \<Rightarrow> (u32 \<Rightarrow> u32 \<Rightarrow> bool) \<Rightarrow>
   IntrContext \<Rightarrow> user_mem \<Rightarrow> 'a sched_state_scheme \<Rightarrow> (IntrContext \<times> user_mem \<times> 'a sched_state_scheme) flow option" where
  "ProcSignalHandler others canWrite c m s =
     (if cs c \<noteq> 0x1B then Some (Goes (c, m, s)) else deliver others canWrite None c m s)"

section \<open>Bits of signal sets\<close>

lemma sigbit_bit [simp]: "bit (sigbit n) k \<longleftrightarrow> k = SIGNAL_INDEX n \<and> k < 32"
  by (auto simp: sigbit_def bit_exp_iff)

lemmas signal_numbers = SIGKILL_def SIGCLD_def SIGCONT_def SIGSTOP_def SIGTSTP_def SIGTTIN_def SIGTTOU_def SIGINT_def
  SIGSEGV_def SIGALRM_def SIGNAL_INDEX_def

lemma eight_bit: "bit (8 :: int) n \<longleftrightarrow> n = 3"
  using bit_exp_iff [of 3 n, where ?'a = int] by auto

lemma set_bit_nonzero: "bit (x :: u32) n \<Longrightarrow> bit y n \<Longrightarrow> x AND y \<noteq> 0"
  by (metis bit_0_eq bit_and_iff bot_apply bot_bool_def)

lemma upd_process_simps [simp]:
  "threadAt (upd_process p f s) = threadAt s" "processAt (upd_process p f s) = (processAt s)(p := f (processAt s p))"
  "ProcCurrThread (upd_process p f s) = ProcCurrThread s" "ProcCurrProcess (upd_process p f s) = ProcCurrProcess s"
  "threadQueue (upd_process p f s) = threadQueue s"
  by (simp_all add: upd_process_def)

section \<open>Suspending\<close>

text \<open>A thread with a pending signal that the suspend mask does not block, and no reason to continue.\<close>

definition stuck :: "'a sched_state_scheme \<Rightarrow> bool" where
  "stuck s \<longleftrightarrow> bit (t_sigPending (threadAt s (ProcCurrThread s))) (SIGNAL_INDEX SIGINT) \<and>
     \<not> bit (t_sigPending (threadAt s (ProcCurrThread s))) (SIGNAL_INDEX SIGKILL) \<and>
     \<not> bit (t_sigPending (threadAt s (ProcCurrThread s))) (SIGNAL_INDEX SIGCONT) \<and>
     \<not> bit (t_sigBlocked (threadAt s (ProcCurrThread s))) (SIGNAL_INDEX SIGINT)"

lemma stuck_pending: "stuck s \<Longrightarrow> ProcYieldBlock True s = None"
proof -
  assume "stuck s"
  then have "bit ((t_sigPending (threadAt s (ProcCurrThread s)) OR
      p_sigPending (processAt s (t_parent (threadAt s (ProcCurrThread s))))) AND
      NOT (t_sigBlocked (threadAt s (ProcCurrThread s)))) 1"
    by (simp add: stuck_def bit_and_iff bit_or_iff bit_not_iff signal_numbers)
  then have "ProcSignalIsPending (ProcCurrThread s) s" unfolding ProcSignalIsPending_def by auto
  then show ?thesis by (simp add: ProcYieldBlock_def)
qed

lemma stuck_step:
  assumes "stuck s"
  defines "s' \<equiv> upd_thread (ProcCurrThread s) (t_sigPending_update (\<lambda>x. x AND NOT (sigbit SIGSTOP))) s"
  shows "stuck s' \<and> t_sigPending (threadAt s' (ProcCurrThread s')) AND (sigbit SIGKILL OR sigbit SIGCONT) = 0"
proof
  show "stuck s'" using assms by (simp add: stuck_def bit_and_iff bit_not_iff signal_numbers)
  show "t_sigPending (threadAt s' (ProcCurrThread s')) AND (sigbit SIGKILL OR sigbit SIGCONT) = 0"
    using assms by (intro bit_eqI) (auto simp: stuck_def bit_and_iff bit_or_iff bit_not_iff signal_numbers)
qed

lemma suspend_stuck: "stuck s \<Longrightarrow> suspend_loop others s = None"
proof (rule ccontr)
  assume stuck: "stuck s" and "suspend_loop others s \<noteq> None"
  then obtain r where ret: "suspend_loop others s = Some r" by blast
  let ?P = "\<lambda>(others :: 'a sched_state_scheme \<Rightarrow> 'a sched_state_scheme) (s :: 'a sched_state_scheme)
      (r :: 'a sched_state_scheme). stuck s \<longrightarrow> False"
  have "?P others s r"
  proof (rule suspend_loop.raw_induct [where P = ?P, OF _ ret])
    fix f and others :: "'a sched_state_scheme \<Rightarrow> 'a sched_state_scheme" and s r
    assume IH: "\<And>others s r. f others s = Some r \<Longrightarrow> ?P others s r"
      and eq: "(let s1 = (case ProcYieldBlock True s of None \<Rightarrow> s | Some s' \<Rightarrow> others s');
          s2 = upd_thread (ProcCurrThread s1) (t_sigPending_update (\<lambda>x. x AND NOT (sigbit SIGSTOP))) s1
        in if t_sigPending (threadAt s2 (ProcCurrThread s2)) AND (sigbit SIGKILL OR sigbit SIGCONT) \<noteq> 0
           then Some s2 else f others s2) = Some r"
    show "?P others s r"
    proof
      assume st: "stuck s"
      let ?s' = "upd_thread (ProcCurrThread s) (t_sigPending_update (\<lambda>x. x AND NOT (sigbit SIGSTOP))) s"
      have "f others ?s' = Some r"
        using eq stuck_pending [OF st] stuck_step [OF st] by (simp add: Let_def del: upd_thread_simps)
      then show False using IH stuck_step [OF st] by blast
    qed
  qed
  then show False using stuck by blast
qed

section \<open>Properties\<close>

text \<open>
  (C29) Signal frames. After \<open>HandleCustomSignal\<close> has diverted a thread to its handler, the handler returns
  into the code on the stack, which pops the return address and the argument and enters the kernel with
  whatever registers the handler left. If the frame is intact, \<open>ProcSignalReturn\<close> restores every general
  register, the stack pointer and the program counter to their values at the interruption, and the flags
  except that only user flags are taken and interrupts are on.
\<close>

theorem signal_frame_roundtrip:
  assumes "HandleCustomSignal canWrite c handler sigNum m = Goes (c1, m1)"
    and "cs d = 0x1B" "esp d = esp c1 + 8" "canRead (esp d) 48"
  shows "\<exists>e. ProcSignalReturn canRead d m1 s = Goes (e, s) \<and> eip c1 = handler \<and>
     esp e = esp c \<and> eip e = eip c \<and> eax e = eax c \<and> ecx e = ecx c \<and> edx e = edx c \<and> ebx e = ebx c \<and>
     ebp e = ebp c \<and> esi e = esi c \<and> edi e = edi c \<and> cs e = 0x1B \<and> eflags e = (eflags c AND 0xCFF) OR 0x200"
proof -
  let ?st = "esp c - 56"
  have c1: "esp c1 = ?st" "eip c1 = handler" "m1 = store_words ?st (signal_frame ?st sigNum c) m"
    using assms(1) by (auto simp: HandleCustomSignal_def Let_def split: if_splits)
  have d: "esp d = ?st + 8" using assms(3) c1(1) by simp
  have frame: "m1 (?st + 16) = esp c" "m1 (?st + 20) = eflags c" "m1 (?st + 24) = eip c" "m1 (?st + 28) = eax c"
    "m1 (?st + 32) = ecx c" "m1 (?st + 36) = edx c" "m1 (?st + 40) = ebx c" "m1 (?st + 44) = ebp c"
    "m1 (?st + 48) = esi c" "m1 (?st + 52) = edi c"
    unfolding c1(3) signal_frame_def by (simp_all add: add.assoc)
  show ?thesis using assms(2,4) c1(2) frame unfolding ProcSignalReturn_def d Let_def by simp
qed

definition demo_context :: IntrContext where
  "demo_context = \<lparr>edi = 1, esi = 2, ebp = 3, ebx = 4, edx = 5, ecx = 6, eax = 7, intrNum = 0, intrError = 0,
     eip = 0x400000, cs = 0x1B, eflags = 0x246, esp = 0xBFFFF000\<rparr>"

theorem signal_frame_roundtrip_witness:
  "\<exists>c1 m1. HandleCustomSignal (\<lambda>_ _. True) demo_context 0x500000 2 (\<lambda>_. 0) = Goes (c1, m1) \<and>
     (\<exists>e. ProcSignalReturn (\<lambda>_ _. True) (c1\<lparr>esp := esp c1 + 8, eax := 0xEE\<rparr>) m1 demo_sched = Goes (e, demo_sched) \<and>
        eip e = 0x400000 \<and> eax e = 7)"
proof -
  obtain c1 m1 where h: "HandleCustomSignal (\<lambda>_ _. True) demo_context 0x500000 2 (\<lambda>_. 0) = Goes (c1, m1)" "cs c1 = 0x1B"
    by (auto simp: HandleCustomSignal_def demo_context_def Let_def)
  have "\<exists>e. ProcSignalReturn (\<lambda>_ _. True) (c1\<lparr>esp := esp c1 + 8, eax := 0xEE\<rparr>) m1 demo_sched = Goes (e, demo_sched) \<and>
        eip e = 0x400000 \<and> eax e = 7"
    using signal_frame_roundtrip [OF h(1), of "c1\<lparr>esp := esp c1 + 8, eax := 0xEE\<rparr>" "\<lambda>_ _. True" demo_sched] h(2)
    by (auto simp: demo_context_def)
  then show ?thesis using h(1) by blast
qed

text \<open>
  Signal masks. Whatever mask a caller asks for, \<open>ProcSignalSetMask\<close> leaves at most \<open>SIGKILL\<close> and
  \<open>SIGSTOP\<close> blocked, and those exactly as requested: the line that is to force the two signals to be
  unblocked keeps only them. Blocking any other signal has no effect, and \<open>SIGKILL\<close> can be blocked.
\<close>

theorem signal_mask_inverted:
  "bit (t_sigBlocked (threadAt (ProcSignalSetMask t how signals s) t)) n \<longleftrightarrow>
     (n = SIGNAL_INDEX SIGKILL \<or> n = SIGNAL_INDEX SIGSTOP) \<and> bit (new_mask how signals (t_sigBlocked (threadAt s t))) n"
  by (auto simp: ProcSignalSetMask_def bit_and_iff bit_or_iff signal_numbers)

text \<open>
  An interrupt from the keyboard hangs the kernel. The test for \<open>SIGSTOP\<close> in \<open>ProcSignalHandler\<close> uses
  the number of the signal instead of its bit, and so holds for \<open>SIGINT\<close> (2) and \<open>SIGTRAP\<close> (5). With
  \<open>SIGINT\<close> pending and not blocked, and none of \<open>SIGILL\<close>, \<open>SIGKILL\<close> and \<open>SIGCONT\<close> pending, the handler
  suspends the thread; the suspend loop then asks to block, which returns at once because a signal is
  pending, without letting another thread run, for ever.
\<close>

theorem sigint_hangs:
  assumes "cs c = 0x1B" "bit (t_sigPending (threadAt s (ProcCurrThread s))) (SIGNAL_INDEX SIGINT)"
    and "\<not> bit (t_sigBlocked (threadAt s (ProcCurrThread s))) (SIGNAL_INDEX SIGINT)"
    and "\<not> bit (t_sigPending (threadAt s (ProcCurrThread s))) (SIGNAL_INDEX SIGKILL)"
    and "\<not> bit (t_sigPending (threadAt s (ProcCurrThread s))) (SIGNAL_INDEX SIGCONT)"
    and "\<not> bit (pending_set s) (SIGNAL_INDEX 4)"
  shows "ProcSignalHandler others canWrite c m s = None"
proof -
  let ?t = "ProcCurrThread s" and ?p = "pending_set s"
  have int: "bit ?p 1" using assms(2,3) by (simp add: pending_set_def bit_and_iff bit_or_iff bit_not_iff signal_numbers)
  have "?p AND 8 = 0"
    using assms(6) by (intro bit_eqI) (auto simp: bit_and_iff signal_numbers eight_bit)
  moreover have "?p AND 18 \<noteq> 0" using int by (intro set_bit_nonzero [of _ 1]) (auto simp: bit_iff_odd)
  moreover have "?p \<noteq> 0" using int by auto
  moreover have "SuspendSelf others s = None"
  proof -
    have "stuck (ProcSignalSetMask ?t 2 (NOT (sigbit SIGCONT)) s)"
      using assms(2-5) by (simp add: stuck_def ProcSignalSetMask_def new_mask_def bit_and_iff bit_or_iff signal_numbers)
    then show ?thesis by (simp add: SuspendSelf_def Let_def suspend_stuck)
  qed
  ultimately show ?thesis using assms(1)
    by (simp add: ProcSignalHandler_def deliver.simps [of others canWrite None] Let_def signal_numbers)
qed

theorem sigint_hangs_witness:
  "ProcSignalHandler (\<lambda>s. s) (\<lambda>_ _. True) demo_context (\<lambda>_. 0)
     (upd_thread 1 (t_sigPending_update (\<lambda>_. sigbit SIGINT)) demo_sched) = None"
  by (rule sigint_hangs)
    (auto simp: demo_context_def demo_sched_def signal_numbers pending_set_def bit_and_iff bit_or_iff)

text \<open>
  Signals to a process. The loops that are to reach the threads of a process run over its child
  processes instead. For a process without children, \<open>ProcSignalSendProcess\<close> changes no thread and wakes
  none: \<open>SIGKILL\<close> and \<open>SIGSTOP\<close> change nothing but the exit code, and any other signal only becomes pending
  for the process.
\<close>

theorem signal_process_misses_threads:
  assumes "p_children (processAt s p) = []"
  shows "threadAt (ProcSignalSendProcess p sigNum s) = threadAt s \<and>
     threadQueue (ProcSignalSendProcess p sigNum s) = threadQueue s \<and>
     (sigNum = int SIGKILL \<or> sigNum = int SIGSTOP \<longrightarrow>
        p_sigPending (processAt (ProcSignalSendProcess p sigNum s) p) = p_sigPending (processAt s p))"
  using assms by (auto simp: ProcSignalSendProcess_def Let_def signal_numbers split: if_splits)

theorem signal_process_misses_threads_witness:
  "threadAt (ProcSignalSendProcess 3 (int SIGKILL) demo_sched) = threadAt demo_sched"
  using signal_process_misses_threads [of demo_sched 3 "int SIGKILL"] by (simp add: demo_sched_def)

text \<open>
  Signals to a thread. A signal other than \<open>SIGCONT\<close> that the process does not ignore becomes pending
  for the thread; if the thread is in an interruptible wait and does not block it, the thread is woken,
  reports an interrupted wait, and is put on the run queue once. An uninterruptible wait is not ended.
\<close>

theorem signal_thread_delivered:
  assumes "0 < n" "n \<le> 32" "n \<noteq> SIGCONT" "\<not> SignalIsIgnored (t_parent (threadAt s t)) n s"
    and "\<not> bit (t_sigBlocked (threadAt s t)) (SIGNAL_INDEX n)"
  defines "s' \<equiv> ProcSignalSendThread t (int n) s"
  shows "bit (t_sigPending (threadAt s' t)) (SIGNAL_INDEX n) \<and>
     (t_state (threadAt s t) = PTS_INTR \<longrightarrow>
        t_state (threadAt s' t) = PTS_RUNNING \<and> t_schedInterrupted (threadAt s' t) \<and> threadQueue s' = threadQueue s @ [t]) \<and>
     (t_state (threadAt s t) \<noteq> PTS_INTR \<longrightarrow> t_state (threadAt s' t) = t_state (threadAt s t) \<and> threadQueue s' = threadQueue s)"
proof -
  define f where "f = (\<lambda>x. if n = SIGSTOP then (x OR sigbit n) AND NOT (sigbit SIGCONT) else x OR sigbit n)"
  let ?s2 = "upd_thread t (t_sigPending_update f) s"
  have idx: "SIGNAL_INDEX n < 32" "SIGNAL_INDEX n \<noteq> SIGNAL_INDEX SIGCONT"
    using assms(1-3) by (auto simp: signal_numbers)
  have f: "bit (f x) (SIGNAL_INDEX n)" for x
    using idx by (auto simp: f_def bit_and_iff bit_or_iff bit_not_iff)
  have "bit ((t_sigPending (threadAt ?s2 t) OR p_sigPending (processAt ?s2 (t_parent (threadAt ?s2 t)))) AND
      NOT (t_sigBlocked (threadAt ?s2 t))) (SIGNAL_INDEX n)"
    using f assms(5) idx by (simp add: bit_and_iff bit_or_iff bit_not_iff)
  then have pending: "ProcSignalIsPending t ?s2" unfolding ProcSignalIsPending_def by auto
  have "s' = (if t_state (threadAt s t) = PTS_INTR then ProcWakeUpSig t True ?s2 else ?s2)"
  proof -
    have "(if n = SIGSTOP then upd_thread t (t_sigPending_update (\<lambda>x. x AND NOT (sigbit SIGCONT)))
             (upd_thread t (t_sigPending_update (\<lambda>x. x OR sigbit n)) s)
           else upd_thread t (t_sigPending_update (\<lambda>x. x OR sigbit n)) s) = ?s2"
      by (simp add: upd_thread_def f_def comp_def)
    then show ?thesis using assms(1-4) pending
      by (simp add: s'_def ProcSignalSendThread_def Let_def SIG_MAX_def del: upd_thread_simps) (simp add: upd_thread_def)
  qed
  then show ?thesis using f by (simp add: ProcWakeUpSig_def Let_def)
qed

theorem signal_thread_delivered_witness:
  "threadQueue (ProcSignalSendThread 5 2 (upd_thread 5 (t_state_update (\<lambda>_. PTS_INTR)) demo_sched)) = [5]"
proof -
  let ?s = "upd_thread 5 (t_state_update (\<lambda>_. PTS_INTR)) demo_sched"
  have "\<not> SignalIsIgnored (t_parent (threadAt ?s 5)) 2 ?s"
    by (simp add: SignalIsIgnored_def demo_sched_def signal_numbers SIG_IGN_def)
  from signal_thread_delivered [OF _ _ _ this] show ?thesis by (simp add: demo_sched_def signal_numbers)
qed

text \<open>A thread in \<open>ProcSignalWait\<close> is queued again by any signal that it neither blocks nor ignores, and its wait reports the interruption.\<close>

lemma signal_ends_wait:
  assumes "ProcSignalWait s = Some s1" "t = ProcCurrThread s" "0 < n" "n \<le> 32" "n \<noteq> SIGCONT"
    and "\<not> SignalIsIgnored (t_parent (threadAt s t)) n s" "\<not> bit (t_sigBlocked (threadAt s t)) (SIGNAL_INDEX n)"
  shows "threadQueue (ProcSignalSendThread t (int n) s1) = threadQueue s1 @ [t] \<and>
    t_schedInterrupted (threadAt (ProcSignalSendThread t (int n) s1) t)"
proof -
  have s1: "threadAt s1 = (threadAt s)(t := (threadAt s t)\<lparr>t_schedInterrupted := False, t_state := PTS_INTR\<rparr>)" "processAt s1 = processAt s"
    using assms(1,2) by (auto simp: ProcSignalWait_def ProcYieldBlock_def ProcDoSchedule_def upd_thread_def split: if_splits list.splits)
  then show ?thesis using signal_thread_delivered [of n s1 t] assms(3-7) by (simp add: SignalIsIgnored_def)
qed

end
