(* ===== verification/Timer.thy ===== *)
theory Timer
  imports Signal
begin

text \<open>
  Time, sleeping and alarms: \<open>kernel/src/timer.c\<close>, \<open>kernel/include/timer.h\<close>.

  A time is the C \<open>TimerTime\<close>, a signed count of \<open>2\<^sup>-\<^sup>3\<^sup>2\<close> seconds, as an unbounded integer. The sleep and
  alarm queues are lists of entries at addresses (theory \<open>Linked_List\<close>); the addresses come from
  \<open>MemKAlloc\<close> and are arguments. \<open>TimerSleep\<close> is in two halves around the point where its thread blocks.
  The speaker is the flag that the ports are set to and the reload value written to the oscillator.
\<close>

section \<open>State\<close>

type_synonym TimerTime = int

record TimerQueue =
  tq_addr :: u32
  tq_owner :: u32
  endTime :: TimerTime

record timer_state = sched_state +
  currentTime :: TimerTime
  startupTime :: TimerTime
  beepEndTime :: TimerTime
  speakerOn :: bool
  speakerReload :: u16
  sleepQueueHead :: "TimerQueue list"
  alarmQueueHead :: "TimerQueue list"

definition PIT_TICKS_PER_INTERRUPT :: TimerTime where "PIT_TICKS_PER_INTERRUPT = 42950333"
definition PIT_OSCILLATOR_RATE :: u32 where "PIT_OSCILLATOR_RATE = 1193182"

section \<open>Operations\<close>

definition TimerGetTime :: "'a timer_state_scheme \<Rightarrow> TimerTime" where
  "TimerGetTime s = currentTime s"

definition TimerGetStartupTime :: "'a timer_state_scheme \<Rightarrow> TimerTime" where
  "TimerGetStartupTime s = startupTime s"

definition TimerSetTime :: "TimerTime \<Rightarrow> 'a timer_state_scheme \<Rightarrow> 'a timer_state_scheme" where
  "TimerSetTime newTime s = s\<lparr>currentTime := newTime\<rparr>"

fun AddTimerToQueue :: "TimerQueue \<Rightarrow> TimerQueue list \<Rightarrow> TimerQueue list" where
  "AddTimerToQueue newItem [] = [newItem]"
| "AddTimerToQueue newItem (currPos # rest) =
     (if endTime newItem > endTime currPos then newItem # currPos # rest
      else currPos # AddTimerToQueue newItem rest)"

definition TimerSleep :: "TimerTime \<Rightarrow> u32 \<Rightarrow> 'a timer_state_scheme \<Rightarrow> 'a timer_state_scheme option \<times> 'a timer_state_scheme" where
  "TimerSleep time entry s =
     (let item = \<lparr>tq_addr = entry, tq_owner = ProcCurrThread s, endTime = time + currentTime s\<rparr>;
          s1 = s\<lparr>sleepQueueHead := AddTimerToQueue item (sleepQueueHead s)\<rparr>
      in (ProcYieldBlock True s1, s1))"

text \<open>The rest of the call: \<open>wake\<close> is the time at which the sleep was to end.\<close>

definition sleep_finish :: "bool \<Rightarrow> TimerTime \<Rightarrow> u32 \<Rightarrow> 'a timer_state_scheme \<Rightarrow> TimerTime \<times> 'a timer_state_scheme" where
  "sleep_finish interrupted wake entry s =
     (if interrupted then
        (currentTime s - wake, s\<lparr>sleepQueueHead := filter (\<lambda>e. tq_addr e \<noteq> entry) (sleepQueueHead s)\<rparr>)
      else (0, s))"

definition TimerSetAlarm :: "TimerTime \<Rightarrow> u32 \<Rightarrow> 'a timer_state_scheme \<Rightarrow> TimerTime \<times> 'a timer_state_scheme" where
  "TimerSetAlarm time entry s =
     (let p = ProcCurrProcess s;
          (timeLeft, s1) =
            (case p_alarmPtr (processAt s p) of
               Some a \<Rightarrow>
                 ((case find (\<lambda>e. tq_addr e = a) (alarmQueueHead s) of None \<Rightarrow> 0 | Some e \<Rightarrow> endTime e - currentTime s),
                  upd_process p (p_alarmPtr_update (\<lambda>_. None))
                    (s\<lparr>alarmQueueHead := filter (\<lambda>e. tq_addr e \<noteq> a) (alarmQueueHead s)\<rparr>))
             | None \<Rightarrow> (0, s))
      in (timeLeft,
          if time \<noteq> 0 then
            upd_process p (p_alarmPtr_update (\<lambda>_. Some entry))
              (s1\<lparr>alarmQueueHead := AddTimerToQueue \<lparr>tq_addr = entry, tq_owner = p, endTime = time\<rparr> (alarmQueueHead s1)\<rparr>)
          else s1))"

definition TimerBeepStop :: "'a timer_state_scheme \<Rightarrow> 'a timer_state_scheme" where
  "TimerBeepStop s = s\<lparr>beepEndTime := 0, speakerOn := False\<rparr>"

definition beep_reload :: "u32 \<Rightarrow> u16" where
  "beep_reload freq = ucast (PIT_OSCILLATOR_RATE div (if freq < 18 then 18 else if freq > 596591 then 596591 else freq))"

definition TimerBeepAdv :: "u32 \<Rightarrow> TimerTime \<Rightarrow> 'a timer_state_scheme \<Rightarrow> 'a timer_state_scheme" where
  "TimerBeepAdv freq time s = s\<lparr>beepEndTime := currentTime s + time, speakerReload := beep_reload freq, speakerOn := True\<rparr>"

definition TimerBeep :: "'a timer_state_scheme \<Rightarrow> 'a timer_state_scheme" where
  "TimerBeep s = TimerBeepAdv 1000 (2 ^ 32) s"

fun wake_sleepers :: "TimerTime \<Rightarrow> TimerQueue list \<Rightarrow> 'a timer_state_scheme \<Rightarrow> 'a timer_state_scheme" where
  "wake_sleepers now [] s = s"
| "wake_sleepers now (h # rest) s =
     (if now \<ge> endTime h then wake_sleepers now rest ((ProcWakeUp (tq_owner h) s)\<lparr>sleepQueueHead := rest\<rparr>) else s)"

fun ring_alarms :: "TimerTime \<Rightarrow> TimerQueue list \<Rightarrow> 'a timer_state_scheme \<Rightarrow> 'a timer_state_scheme" where
  "ring_alarms now [] s = s"
| "ring_alarms now (h # rest) s =
     (if now \<ge> endTime h then
        ring_alarms now rest ((upd_process (tq_owner h) (p_alarmPtr_update (\<lambda>_. None))
          (ProcSignalSendProcess (tq_owner h) (int SIGALRM) s))\<lparr>alarmQueueHead := rest\<rparr>)
      else s)"

definition TimerInterrupt :: "'a timer_state_scheme \<Rightarrow> 'a timer_state_scheme" where
  "TimerInterrupt s =
     (let s1 = s\<lparr>currentTime := currentTime s + PIT_TICKS_PER_INTERRUPT\<rparr>;
          s2 = (if TimerQuantum s1 > 0 then s1\<lparr>TimerQuantum := TimerQuantum s1 - 1\<rparr> else s1);
          s3 = (if beepEndTime s2 \<noteq> 0 \<and> currentTime s2 \<ge> beepEndTime s2 then TimerBeepStop s2 else s2);
          s4 = wake_sleepers (currentTime s3) (sleepQueueHead s3) s3
      in ring_alarms (currentTime s3) (alarmQueueHead s4) s4)"

section \<open>The order of the queues\<close>

definition latest_first :: "TimerQueue list \<Rightarrow> bool" where
  "latest_first q \<longleftrightarrow> sorted_wrt (\<lambda>a b. endTime a \<ge> endTime b) q"

lemma add_timer_set: "set (AddTimerToQueue x q) = insert x (set q)"
  by (induction q) auto

lemma add_timer_sorted: "latest_first q \<Longrightarrow> latest_first (AddTimerToQueue x q)"
  unfolding latest_first_def by (induction q) (auto simp: add_timer_set)

section \<open>What the other components leave alone\<close>

lemma wake_timer_frame [simp]:
  "sleepQueueHead (ProcWakeUpSig t b s) = sleepQueueHead s" "alarmQueueHead (ProcWakeUpSig t b s) = alarmQueueHead s"
  by (cases "t_state (threadAt s t)"; simp add: ProcWakeUpSig_def Let_def upd_thread_def)+

lemma upd_timer_frame [simp]:
  "sleepQueueHead (upd_thread t f s) = sleepQueueHead s" "sleepQueueHead (upd_process p g s) = sleepQueueHead s"
  by (simp_all add: upd_thread_def upd_process_def)

lemma send_timer_frame [simp]:
  "sleepQueueHead (RemoteContinueThread t s) = sleepQueueHead s" "sleepQueueHead (ProcSignalSendThread t n s) = sleepQueueHead s"
  by (simp_all add: RemoteContinueThread_def ProcSignalSendThread_def Let_def)

lemma send_all_frame [simp]: "sleepQueueHead (send_all n l s) = sleepQueueHead s"
  by (induction l arbitrary: s) auto

lemma continue_all_frame [simp]: "sleepQueueHead (continue_all l s) = sleepQueueHead s"
  by (induction l arbitrary: s) auto

lemma send_process_frame [simp]: "sleepQueueHead (ProcSignalSendProcess p n s) = sleepQueueHead s"
  by (simp add: ProcSignalSendProcess_def Let_def split: option.split)

lemma ring_alarms_frame [simp]: "sleepQueueHead (ring_alarms now q s) = sleepQueueHead s"
  by (induction now q s rule: ring_alarms.induct) auto

lemma wake_sleepers_queue:
  "sleepQueueHead s = q \<Longrightarrow> sleepQueueHead (wake_sleepers now q s) = dropWhile (\<lambda>e. endTime e \<le> now) q"
  by (induction now q s rule: wake_sleepers.induct) auto

section \<open>Properties\<close>

text \<open>
  Sleeping threads oversleep. Entries are inserted so that the latest deadline comes first, but the
  timer interrupt looks at the first entry and stops when its deadline has not passed: starting from a
  queue in that order, which every insertion keeps, an interrupt empties the sleep queue if all
  deadlines have passed and otherwise wakes nobody, however late the others are.
\<close>

theorem timer_sleepers_all_or_none:
  assumes "latest_first (sleepQueueHead s)"
  defines "now \<equiv> currentTime s + PIT_TICKS_PER_INTERRUPT"
  shows "latest_first (AddTimerToQueue item (sleepQueueHead s)) \<and>
     sleepQueueHead (TimerInterrupt s) = (if \<forall>e \<in> set (sleepQueueHead s). endTime e \<le> now then [] else sleepQueueHead s)"
proof -
  let ?q = "sleepQueueHead s"
  have drop: "dropWhile (\<lambda>e. endTime e \<le> now) ?q = (if \<forall>e \<in> set ?q. endTime e \<le> now then [] else ?q)"
  proof (cases ?q)
    case (Cons h t)
    then have top: "\<forall>e \<in> set ?q. endTime e \<le> endTime h" using assms(1) by (auto simp: latest_first_def)
    show ?thesis
    proof (cases "endTime h \<le> now")
      case True
      then have "\<forall>e \<in> set ?q. endTime e \<le> now" using top by (meson order_trans)
      then show ?thesis by simp
    next
      case False
      then show ?thesis using Cons by simp
    qed
  qed simp
  have "sleepQueueHead (TimerInterrupt s) = dropWhile (\<lambda>e. endTime e \<le> now) ?q"
    unfolding TimerInterrupt_def Let_def now_def
    by (simp add: wake_sleepers_queue TimerBeepStop_def)
  then show ?thesis using drop add_timer_sorted [OF assms(1)] by simp
qed

text \<open>Two sleepers: the one with the deadline that has passed stays asleep behind the other.\<close>

definition two_sleepers :: timer_state where
  "two_sleepers = sched_state.extend (sched_state.truncate demo_sched) \<lparr>currentTime = 1000, startupTime = 0, beepEndTime = 0,
     speakerOn = False, speakerReload = 0,
     sleepQueueHead = [\<lparr>tq_addr = 20, tq_owner = 3, endTime = 100000000000\<rparr>, \<lparr>tq_addr = 21, tq_owner = 4, endTime = 5\<rparr>],
     alarmQueueHead = []\<rparr>"

theorem timer_sleepers_all_or_none_witness:
  "length (sleepQueueHead (TimerInterrupt two_sleepers)) = 2"
  using timer_sleepers_all_or_none [of two_sleepers]
  by (simp add: two_sleepers_def latest_first_def sched_state.defs PIT_TICKS_PER_INTERRUPT_def)

text \<open>
  The speaker. For frequencies from 19 to 596591 Hz the value that \<open>TimerBeepAdv\<close> loads into the
  oscillator is the exact quotient and at least 2; for anything lower, including the 18 Hz that the code
  takes for the least the oscillator can do, the quotient does not fit into 16 bits and 751 is loaded,
  which sounds at 1588 Hz.
\<close>

theorem beep_reload_range:
  "beep_reload freq = (if unat freq \<le> 18 then 751 else of_nat (1193182 div min (unat freq) 596591)) \<and>
   (unat freq \<le> 18 \<or> 1193182 div min (unat freq) 596591 \<in> {2..65535})"
proof -
  let ?f = "if unat freq < 18 then 18 else if unat freq > 596591 then 596591 else unat freq"
  have cast: "beep_reload freq = of_nat (1193182 div ?f)"
  proof -
    let ?w = "PIT_OSCILLATOR_RATE div (if freq < 18 then 18 else if freq > 596591 then 596591 else freq)"
    have "unat ?w = 1193182 div ?f" by (simp add: PIT_OSCILLATOR_RATE_def word_less_nat_alt unat_div)
    moreover have "beep_reload freq = of_nat (unat ?w)" by (simp add: beep_reload_def)
    ultimately show ?thesis by simp
  qed
  show ?thesis
  proof (cases "unat freq \<le> 18")
    case True
    then have "?f = 18" by auto
    then show ?thesis using True cast by simp
  next
    case False
    then have "?f = min (unat freq) 596591" by auto
    moreover have "1193182 div min (unat freq) 596591 \<le> 1193182 div 19" using False by (intro div_le_mono2) auto
    moreover have "1193182 div 596591 \<le> 1193182 div min (unat freq) 596591" using False by (intro div_le_mono2) auto
    ultimately show ?thesis using False cast by simp
  qed
qed

end
