(* ===== verification/Physical.thy ===== *)
theory Physical
  imports Prelude "HOL-Library.Signed_Division"
begin

text \<open>
  The physical page allocator of \<open>kernel/src/mm/physical.c\<close> and \<open>kernel/include/mm/physical.h\<close>.

  A page is the C \<open>MemPhysPage\<close>, an \<open>int\<close>. The page state table is a function from page numbers to
  reference counts and slab pointers: like the C array it can be indexed out of range, which is
  what a faulty caller does. A zone's pointers into the table are kept as page numbers; a zone that
  was never set up is all zeros, as the static array is.

  \<open>MemPhysicalAlloc\<close> scans a zone with a \<open>do ... while\<close> loop that has no bound of its own, so the
  scan is a \<open>partial_function\<close>: the result \<open>None\<close> is a call that never returns. The state is a record
  that the paging, virtual allocator and region theories extend.
\<close>

type_synonym MemPhysPage = int

abbreviation (input) INVALID_PAGE :: MemPhysPage where "INVALID_PAGE \<equiv> -1"

definition PAGE_SIZE :: u32 where "PAGE_SIZE = 4096"
definition KERNEL_VIRTUAL_BASE :: u32 where "KERNEL_VIRTUAL_BASE = 0xC0000000"
definition MEM_KFIXED_MAX :: u32 where "MEM_KFIXED_MAX = 0xF0000000"

definition MEM_KFIXED_MAX_PAGE :: MemPhysPage where
  "MEM_KFIXED_MAX_PAGE = uint ((MEM_KFIXED_MAX - KERNEL_VIRTUAL_BASE) div PAGE_SIZE)"

definition MemPhys2Virt :: "MemPhysPage \<Rightarrow> u32" where
  "MemPhys2Virt page = KERNEL_VIRTUAL_BASE + of_int page * PAGE_SIZE"

text \<open>A pointer difference is signed, and so is the division.\<close>

definition MemVirt2Phys :: "u32 \<Rightarrow> MemPhysPage" where
  "MemVirt2Phys addr = sint (addr - KERNEL_VIRTUAL_BASE) sdiv 4096"

abbreviation (input) MEM_DMA :: int where "MEM_DMA \<equiv> 0"
abbreviation (input) MEM_KERNEL :: int where "MEM_KERNEL \<equiv> 1"
abbreviation (input) MEM_HIGHMEM :: int where "MEM_HIGHMEM \<equiv> 2"

section \<open>State\<close>

record MemPhysicalZone =
  headPtr :: MemPhysPage
  zstart :: MemPhysPage
  zend :: MemPhysPage

record MemPage =
  refCount :: u32
  slabPtr :: u32

record phys_state =
  MemPageStateTable :: "MemPhysPage \<Rightarrow> MemPage"
  highestPage :: MemPhysPage
  zones :: "int \<Rightarrow> MemPhysicalZone"
  MemPhysicalTotalPages :: u32
  MemPhysicalFreePages :: u32

definition no_zone :: MemPhysicalZone where
  "no_zone = \<lparr>headPtr = 0, zstart = 0, zend = 0\<rparr>"

definition set_ref :: "MemPhysPage \<Rightarrow> u32 \<Rightarrow> 'a phys_state_scheme \<Rightarrow> 'a phys_state_scheme" where
  "set_ref p r s = s\<lparr>MemPageStateTable := (MemPageStateTable s)
     (p := (MemPageStateTable s p)\<lparr>refCount := r\<rparr>)\<rparr>"

section \<open>Operations\<close>

definition MemPhysicalInit :: "'a phys_state_scheme \<Rightarrow> 'a phys_state_scheme" where
  "MemPhysicalInit s =
     (let hp = highestPage s; z = zones s in
      if hp \<le> 0x1000 then
        s\<lparr>zones := z(MEM_DMA := \<lparr>headPtr = 0, zstart = 0, zend = hp\<rparr>)\<rparr>
      else if hp \<le> MEM_KFIXED_MAX_PAGE then
        s\<lparr>zones := z(MEM_DMA := \<lparr>headPtr = 0, zstart = 0, zend = 0x1000\<rparr>,
                     MEM_KERNEL := \<lparr>headPtr = 0x1000, zstart = 0x1000, zend = hp\<rparr>)\<rparr>
      else
        s\<lparr>zones := z(MEM_DMA := \<lparr>headPtr = 0, zstart = 0, zend = 0x1000\<rparr>,
                     MEM_KERNEL := \<lparr>headPtr = 0x1000, zstart = 0x1000, zend = MEM_KFIXED_MAX_PAGE\<rparr>,
                     MEM_HIGHMEM := \<lparr>headPtr = MEM_KFIXED_MAX_PAGE, zstart = MEM_KFIXED_MAX_PAGE,
                                     zend = hp\<rparr>)\<rparr>)"

text \<open>
  The scan of one zone. It returns the first page of the run it found and the page it stopped at, or
  \<open>Some None\<close> when it came back to the zone's head pointer.
\<close>

partial_function (option) alloc_scan ::
  "MemPhysicalZone \<Rightarrow> u32 \<Rightarrow> (MemPhysPage \<Rightarrow> u32) \<Rightarrow> MemPhysPage \<Rightarrow> MemPhysPage option \<Rightarrow> u32
     \<Rightarrow> (MemPhysPage \<times> MemPhysPage) option option" where
  "alloc_scan z number refs head0 firstFree freeLength =
     (let head = (if head0 \<ge> zend z then zstart z else head0) in
      if refs head = 0 then
        (let first = (case firstFree of None \<Rightarrow> head | Some f \<Rightarrow> f);
             len = (case firstFree of None \<Rightarrow> 1 | Some _ \<Rightarrow> freeLength + 1)
         in if len = number then Some (Some (first, head))
            else if head + 1 \<noteq> headPtr z then alloc_scan z number refs (head + 1) (Some first) len
            else Some None)
      else if head + 1 \<noteq> headPtr z then alloc_scan z number refs (head + 1) None freeLength
      else Some None)"

text \<open>The loop that marks the pages of a run, also the loops of the reference count functions.\<close>

fun mark_pages :: "nat \<Rightarrow> MemPhysPage \<Rightarrow> 'a phys_state_scheme \<Rightarrow> 'a phys_state_scheme" where
  "mark_pages 0 page s = s"
| "mark_pages (Suc n) page s = mark_pages n (page + 1) (set_ref page 1 s)"

fun alloc_zones :: "u32 \<Rightarrow> nat \<Rightarrow> 'a phys_state_scheme \<Rightarrow> (MemPhysPage \<times> 'a phys_state_scheme) outcome option"
where
  "alloc_zones number zone s =
     (let z = zones s (int zone);
          lower = (case zone of 0 \<Rightarrow> Some Panics | Suc zone' \<Rightarrow> alloc_zones number zone' s)
      in if zend z > zstart z then
           (case alloc_scan z number (\<lambda>p. refCount (MemPageStateTable s p)) (headPtr z) None 0 of
              None \<Rightarrow> None
            | Some None \<Rightarrow> lower
            | Some (Some (first, head)) \<Rightarrow>
                (let s1 = s\<lparr>MemPhysicalFreePages := MemPhysicalFreePages s - number\<rparr>;
                     s2 = mark_pages (unat number) first s1
                 in Some (Returns (first, s2\<lparr>zones := (zones s2)(int zone := z\<lparr>headPtr := head\<rparr>)\<rparr>))))
         else lower)"

declare alloc_zones.simps [simp del]

definition MemPhysicalAlloc ::
  "u32 \<Rightarrow> int \<Rightarrow> 'a phys_state_scheme \<Rightarrow> (MemPhysPage \<times> 'a phys_state_scheme) outcome option" where
  "MemPhysicalAlloc number zone s =
     (if number = 0 then Some (Returns (INVALID_PAGE, s))
      else if zone < MEM_DMA \<or> zone > MEM_HIGHMEM then Some (Returns (INVALID_PAGE, s))
      else alloc_zones number (nat zone) s)"

fun add_refs :: "nat \<Rightarrow> MemPhysPage \<Rightarrow> 'a phys_state_scheme \<Rightarrow> 'a phys_state_scheme" where
  "add_refs 0 page s = s"
| "add_refs (Suc n) page s =
     add_refs n (page + 1) (set_ref page (refCount (MemPageStateTable s page) + 1) s)"

definition MemPhysicalAddRef :: "MemPhysPage \<Rightarrow> u32 \<Rightarrow> 'a phys_state_scheme \<Rightarrow> 'a phys_state_scheme" where
  "MemPhysicalAddRef page number s = add_refs (unat number) page s"

definition delete_ref :: "MemPhysPage \<Rightarrow> 'a phys_state_scheme \<Rightarrow> 'a phys_state_scheme" where
  "delete_ref page s =
     (let r = refCount (MemPageStateTable s page) in
      if r > 0 then
        (let s1 = set_ref page (r - 1) s
         in if r - 1 = 0 then s1\<lparr>MemPhysicalFreePages := MemPhysicalFreePages s1 + 1\<rparr> else s1)
      else s)"

fun delete_refs :: "nat \<Rightarrow> MemPhysPage \<Rightarrow> 'a phys_state_scheme \<Rightarrow> 'a phys_state_scheme" where
  "delete_refs 0 page s = s"
| "delete_refs (Suc n) page s = delete_refs n (page + 1) (delete_ref page s)"

definition MemPhysicalDeleteRef :: "MemPhysPage \<Rightarrow> u32 \<Rightarrow> 'a phys_state_scheme \<Rightarrow> 'a phys_state_scheme" where
  "MemPhysicalDeleteRef page number s = delete_refs (unat number) page s"

fun free_pages :: "nat \<Rightarrow> MemPhysPage \<Rightarrow> 'a phys_state_scheme \<Rightarrow> 'a phys_state_scheme" where
  "free_pages 0 page s = s"
| "free_pages (Suc n) page s =
     free_pages n (page + 1)
       ((set_ref page 0 s)\<lparr>MemPhysicalFreePages := MemPhysicalFreePages s + 1\<rparr>)"

definition MemPhysicalFree :: "MemPhysPage \<Rightarrow> u32 \<Rightarrow> 'a phys_state_scheme \<Rightarrow> 'a phys_state_scheme" where
  "MemPhysicalFree page number s = free_pages (unat number) page s"

definition MemPhysicalRefCount :: "MemPhysPage \<Rightarrow> 'a phys_state_scheme \<Rightarrow> u32" where
  "MemPhysicalRefCount page s = refCount (MemPageStateTable s page)"

section \<open>Invariants\<close>

definition zone_ok :: "MemPhysicalZone \<Rightarrow> bool" where
  "zone_ok z \<longleftrightarrow> zend z \<le> zstart z \<or> (zstart z \<le> headPtr z \<and> headPtr z < zend z)"

definition zone_free :: "MemPhysicalZone \<Rightarrow> (MemPhysPage \<Rightarrow> u32) \<Rightarrow> MemPhysPage set" where
  "zone_free z refs = {p. zstart z \<le> p \<and> p < zend z \<and> refs p = 0}"

definition page_refs :: "'a phys_state_scheme \<Rightarrow> MemPhysPage \<Rightarrow> u32" where
  "page_refs s p = refCount (MemPageStateTable s p)"

definition free_set :: "'a phys_state_scheme \<Rightarrow> MemPhysPage set" where
  "free_set s = {p. 0 \<le> p \<and> p < highestPage s \<and> page_refs s p = 0}"

text \<open>The free page counter moves together with the number of free pages in the table.\<close>

definition accounted :: "'a phys_state_scheme \<Rightarrow> 'a phys_state_scheme \<Rightarrow> bool" where
  "accounted s s' \<longleftrightarrow> highestPage s' = highestPage s \<and>
     MemPhysicalFreePages s' - MemPhysicalFreePages s =
     (of_nat (card (free_set s')) :: u32) - of_nat (card (free_set s))"

section \<open>The scan for one page\<close>

lemma alloc_scan_step:
  "alloc_scan z 1 refs h None l =
     (let head = (if h \<ge> zend z then zstart z else h) in
      if refs head = 0 then Some (Some (head, head))
      else if head + 1 \<noteq> headPtr z then alloc_scan z 1 refs (head + 1) None l else Some None)"
  by (subst alloc_scan.simps) (simp add: Let_def)

text \<open>A stretch of the zone that does not end at the head pointer: either a free page is found in it,
  or it holds none and the scan is at its end.\<close>

lemma alloc_scan_stretch:
  assumes "zstart z \<le> h" "h \<le> b" "b \<le> zend z" "headPtr z \<le> h \<or> b < headPtr z"
  shows "(\<exists>p. alloc_scan z 1 refs h None l = Some (Some (p, p)) \<and> p \<in> zone_free z refs)
     \<or> (alloc_scan z 1 refs h None l = alloc_scan z 1 refs b None l \<and> (\<forall>p. h \<le> p \<and> p < b \<longrightarrow> refs p \<noteq> 0))"
  using assms
proof (induction "nat (b - h)" arbitrary: h rule: less_induct)
  case less
  show ?case
  proof (cases "h = b \<or> refs h = 0")
    case True
    then show ?thesis using less.prems
      by (cases "h = b") (auto simp: alloc_scan_step [of z refs h l] Let_def zone_free_def)
  next
    case False
    then have "alloc_scan z 1 refs h None l = alloc_scan z 1 refs (h + 1) None l"
      using less.prems by (subst alloc_scan_step) (auto simp: Let_def)
    moreover have "refs p \<noteq> 0" if "\<forall>p. h + 1 \<le> p \<and> p < b \<longrightarrow> refs p \<noteq> 0" "h \<le> p" "p < b" for p
      using that False by (cases "p = h") auto
    ultimately show ?thesis using less.hyps [of "h + 1"] less.prems False by auto
  qed
qed

lemma alloc_scan_wrap: "h \<ge> zend z \<Longrightarrow> alloc_scan z 1 refs h None l = alloc_scan z 1 refs (zstart z) None l"
  by (subst (1 2) alloc_scan_step) auto

lemma alloc_scan_last:
  assumes "zstart z < headPtr z" "headPtr z < zend z"
  shows "alloc_scan z 1 refs (headPtr z - 1) None l =
     (if refs (headPtr z - 1) = 0 then Some (Some (headPtr z - 1, headPtr z - 1)) else Some None)"
  using assms by (subst alloc_scan_step) (simp add: Let_def)

text \<open>With the head pointer at the start of the zone, the loop's exit test never succeeds.\<close>

lemma alloc_scan_diverges:
  assumes head: "headPtr z = zstart z" and full: "\<forall>p. zstart z \<le> p \<and> p < zend z \<longrightarrow> refs p \<noteq> 0"
    and zone: "zstart z < zend z" and h: "zstart z \<le> h"
  shows "alloc_scan z n refs h None l = None"
proof (rule ccontr)
  assume "alloc_scan z n refs h None l \<noteq> None"
  then obtain r where ret: "alloc_scan z n refs h None l = Some r" by blast
  let ?P = "\<lambda>z' (n' :: u32) refs' h' (ff :: MemPhysPage option) (l' :: u32)
      (r :: (MemPhysPage \<times> MemPhysPage) option). z' = z \<and> refs' = refs \<and> ff = None \<and> zstart z \<le> h' \<longrightarrow> False"
  have "?P z n refs h None l r"
  proof (rule alloc_scan.raw_induct [where P = ?P, OF _ ret])
    fix f and z' and n' and refs' and h' and ff and l' and r
    assume IH: "\<And>z' n' refs' h' ff l' r. f z' n' refs' h' ff l' = Some r \<Longrightarrow> ?P z' n' refs' h' ff l' r"
      and eq: "(let head = (if h' \<ge> zend z' then zstart z' else h') in
        if refs' head = 0 then
          (let first = (case ff of None \<Rightarrow> head | Some f \<Rightarrow> f);
               len = (case ff of None \<Rightarrow> 1 | Some _ \<Rightarrow> l' + 1)
           in if len = n' then Some (Some (first, head))
              else if head + 1 \<noteq> headPtr z' then f z' n' refs' (head + 1) (Some first) len
              else Some None)
        else if head + 1 \<noteq> headPtr z' then f z' n' refs' (head + 1) None l' else Some None) = Some r"
    show "?P z' n' refs' h' ff l' r"
    proof
      assume a: "z' = z \<and> refs' = refs \<and> ff = None \<and> zstart z \<le> h'"
      define head where "head = (if h' \<ge> zend z then zstart z else h')"
      have in_zone: "zstart z \<le> head" "head < zend z" using a zone by (auto simp: head_def)
      then have "refs head \<noteq> 0" "head + 1 \<noteq> headPtr z" using full assms(1) by auto
      moreover have eqs: "z' = z" "refs' = refs" "ff = None" using a by auto
      ultimately have "f z n' refs (head + 1) None l' = Some r"
        using eq [unfolded eqs Let_def, folded head_def] by simp
      from IH [OF this] show False using in_zone(1) by simp
    qed
  qed
  then show False using h by simp
qed

lemma alloc_scan_one:
  assumes ok: "zstart z \<le> headPtr z" "headPtr z < zend z"
  shows "zone_free z refs \<noteq> {} \<Longrightarrow>
      \<exists>p. alloc_scan z 1 refs (headPtr z) None l = Some (Some (p, p)) \<and> p \<in> zone_free z refs"
    and "zone_free z refs = {} \<Longrightarrow>
      alloc_scan z 1 refs (headPtr z) None l = (if headPtr z = zstart z then None else Some None)"
proof -
  let ?scan = "\<lambda>h. alloc_scan z 1 refs h None l"
  have lower: "(\<exists>p. ?scan (headPtr z) = Some (Some (p, p)) \<and> p \<in> zone_free z refs)
      \<or> (?scan (headPtr z) = ?scan (zstart z) \<and> (\<forall>p. headPtr z \<le> p \<and> p < zend z \<longrightarrow> refs p \<noteq> 0))"
    using alloc_scan_stretch [of z "headPtr z" "zend z" refs l] ok alloc_scan_wrap [of z "zend z" refs l]
    by auto
  have upper: "(\<exists>p. ?scan (zstart z) = Some (Some (p, p)) \<and> p \<in> zone_free z refs)
      \<or> (?scan (zstart z) = Some None \<and> (\<forall>p. zstart z \<le> p \<and> p < headPtr z \<longrightarrow> refs p \<noteq> 0))"
    if above: "zstart z < headPtr z"
  proof -
    consider p where "?scan (zstart z) = Some (Some (p, p))" "p \<in> zone_free z refs"
      | "?scan (zstart z) = ?scan (headPtr z - 1)" "\<forall>p. zstart z \<le> p \<and> p < headPtr z - 1 \<longrightarrow> refs p \<noteq> 0"
      using alloc_scan_stretch [of z "zstart z" "headPtr z - 1" refs l] above ok by auto
    then show ?thesis
    proof cases
      case 2
      have "\<forall>p. zstart z \<le> p \<and> p < headPtr z \<longrightarrow> refs p \<noteq> 0" if "refs (headPtr z - 1) \<noteq> 0"
        using 2(2) that by (metis zle_diff1_eq order_le_less)
      then show ?thesis using 2(1) above ok alloc_scan_last [of z refs l] by (auto simp: zone_free_def)
    qed blast
  qed
  show "\<exists>p. ?scan (headPtr z) = Some (Some (p, p)) \<and> p \<in> zone_free z refs" if some: "zone_free z refs \<noteq> {}"
  proof (rule ccontr)
    assume no: "\<not> ?thesis"
    then have eq: "?scan (headPtr z) = ?scan (zstart z)"
      and high: "\<forall>p. headPtr z \<le> p \<and> p < zend z \<longrightarrow> refs p \<noteq> 0" using lower by blast+
    have "\<forall>p. zstart z \<le> p \<and> p < headPtr z \<longrightarrow> refs p \<noteq> 0"
      using upper no eq by (cases "zstart z < headPtr z") (metis, force)
    then show False using high some by (auto simp: zone_free_def) (metis linorder_not_less)
  qed
  show "?scan (headPtr z) = (if headPtr z = zstart z then None else Some None)" if none: "zone_free z refs = {}"
  proof (cases "headPtr z = zstart z")
    case True
    then show ?thesis using alloc_scan_diverges [of z refs "headPtr z" 1 l] none ok
      by (auto simp: zone_free_def)
  next
    case False
    then show ?thesis using lower upper none ok by auto
  qed
qed

section \<open>The scan for a run of pages\<close>

text \<open>The page \<open>i\<close> places after \<open>f\<close> in the cyclic order in which the scan visits a zone.\<close>

definition cyc :: "MemPhysicalZone \<Rightarrow> MemPhysPage \<Rightarrow> int \<Rightarrow> MemPhysPage" where
  "cyc z f i = zstart z + (f - zstart z + i) mod (zend z - zstart z)"

lemma cyc_fits: "zstart z \<le> f \<Longrightarrow> 0 \<le> i \<Longrightarrow> f + i < zend z \<Longrightarrow> cyc z f i = f + i"
  by (simp add: cyc_def)

lemma cyc_Suc: "cyc z f (i + 1) = (if cyc z f i + 1 \<ge> zend z then zstart z else cyc z f i + 1)"
  if "zstart z < zend z"
proof -
  let ?n = "zend z - zstart z" and ?k = "f - zstart z + i"
  have r: "0 \<le> ?k mod ?n" "?k mod ?n < ?n" using that by simp_all
  have "(?k + 1) mod ?n = (?k mod ?n + 1) mod ?n" by (simp add: mod_add_left_eq)
  also have "\<dots> = (if ?k mod ?n + 1 = ?n then 0 else ?k mod ?n + 1)"
    using r by (cases "?k mod ?n + 1 = ?n") simp_all
  finally have "(f - zstart z + (i + 1)) mod ?n = (if ?k mod ?n + 1 = ?n then 0 else ?k mod ?n + 1)"
    by (simp add: add.assoc)
  then show ?thesis using r by (auto simp: cyc_def)
qed

definition run_so_far ::
  "MemPhysicalZone \<Rightarrow> (MemPhysPage \<Rightarrow> u32) \<Rightarrow> MemPhysPage \<Rightarrow> MemPhysPage option \<Rightarrow> u32 \<Rightarrow> bool" where
  "run_so_far z refs h ff l \<longleftrightarrow> zstart z \<le> h \<and> (case ff of None \<Rightarrow> True | Some f \<Rightarrow>
     zstart z \<le> f \<and> f < zend z \<and> (if h \<ge> zend z then zstart z else h) = cyc z f (uint l) \<and>
     (\<forall>i. 0 \<le> i \<and> i < uint l \<longrightarrow> refs (cyc z f i) = 0))"

definition run_found ::
  "MemPhysicalZone \<Rightarrow> (MemPhysPage \<Rightarrow> u32) \<Rightarrow> u32 \<Rightarrow> MemPhysPage \<times> MemPhysPage \<Rightarrow> bool" where
  "run_found z refs n r \<longleftrightarrow> zstart z \<le> fst r \<and> fst r < zend z \<and> zstart z \<le> snd r \<and> snd r < zend z \<and>
     snd r = cyc z (fst r) (uint n - 1) \<and> (\<forall>i. 0 \<le> i \<and> i < uint n \<longrightarrow> refs (cyc z (fst r) i) = 0)"

lemma run_step:
  assumes hd: "head = (if h \<ge> zend z then zstart z else h)"
    and first: "first = (case ff of None \<Rightarrow> head | Some f \<Rightarrow> f)"
    and len: "len = (case ff of None \<Rightarrow> (1 :: u32) | Some _ \<Rightarrow> l + 1)"
    and run: "run_so_far z refs h ff l" and zone: "zstart z < zend z" and free: "refs (head) = 0"
    and l: "ff \<noteq> None \<longrightarrow> l < n"
  shows "zstart z \<le> first" "first < zend z" "head = cyc z (first) (uint (len) - 1)"
    and "\<forall>i. 0 \<le> i \<and> i < uint (len) \<longrightarrow> refs (cyc z (first) i) = 0"
    and "run_so_far z refs (head + 1) (Some (first)) (len)"
proof -
  have head: "zstart z \<le> head" "head < zend z" using run zone by (auto simp: hd run_so_far_def)
  show f: "zstart z \<le> first" "first < zend z"
    using run head by (auto simp: first run_so_far_def split: option.splits)
  have len_Some: "uint (len) = uint l + 1" if "ff = Some f" for f
    using that l by (simp add: len uint_inc)
  show c: "head = cyc z (first) (uint (len) - 1)"
    using run head len_Some
    by (cases ff) (auto simp: first len cyc_fits run_so_far_def hd split: if_splits)
  show fr: "\<forall>i. 0 \<le> i \<and> i < uint (len) \<longrightarrow> refs (cyc z (first) i) = 0"
  proof (intro allI impI)
    fix i assume i: "0 \<le> i \<and> i < uint (len)"
    show "refs (cyc z (first) i) = 0"
    proof (cases "i = uint (len) - 1")
      case True
      then show ?thesis using c free by simp
    next
      case False
      then show ?thesis using i run len_Some
        by (cases ff) (auto simp: len first run_so_far_def)
    qed
  qed
  show "run_so_far z refs (head + 1) (Some (first)) (len)"
    using f fr head cyc_Suc [OF zone, of "first" "uint (len) - 1"] c
    by (auto simp: run_so_far_def)
qed

lemma run_length:
  fixes l n :: u32
  assumes "ff \<noteq> None \<longrightarrow> l < n" "n \<noteq> 0" "len = (case ff of None \<Rightarrow> 1 | Some _ \<Rightarrow> l + 1)" "len \<noteq> n"
  shows "len < n"
proof -
  have "uint len \<le> uint n" using assms(1-3) by (cases ff) (auto simp: uint_inc word_less_def word_neq_0_conv)
  then show ?thesis using assms(4) by (metis word_le_def order_le_less)
qed

lemma alloc_scan_run:
  assumes ret: "alloc_scan z n refs h ff l = Some (Some r)"
    and zone: "zstart z < zend z" and run: "run_so_far z refs h ff l" and l: "ff \<noteq> None \<longrightarrow> l < n" and n: "n \<noteq> 0"
  shows "run_found z refs n r"
proof -
  let ?P = "\<lambda>z' (n' :: u32) refs' h' (ff :: MemPhysPage option) (l' :: u32)
      (r :: (MemPhysPage \<times> MemPhysPage) option). z' = z \<and> n' = n \<and> refs' = refs \<and> run_so_far z refs h' ff l' \<and>
      (ff \<noteq> None \<longrightarrow> l' < n) \<longrightarrow> (case r of None \<Rightarrow> True | Some q \<Rightarrow> run_found z refs n q)"
  have "?P z n refs h ff l (Some r)"
  proof (rule alloc_scan.raw_induct [where P = ?P, OF _ ret])
    fix f and z' and n' and refs' and h' and ff and l' and r
    assume IH: "\<And>z' n' refs' h' ff l' r. f z' n' refs' h' ff l' = Some r \<Longrightarrow> ?P z' n' refs' h' ff l' r"
      and eq: "(let head = (if h' \<ge> zend z' then zstart z' else h') in
        if refs' head = 0 then
          (let first = (case ff of None \<Rightarrow> head | Some f \<Rightarrow> f);
               len = (case ff of None \<Rightarrow> 1 | Some _ \<Rightarrow> l' + 1)
           in if len = n' then Some (Some (first, head))
              else if head + 1 \<noteq> headPtr z' then f z' n' refs' (head + 1) (Some first) len
              else Some None)
        else if head + 1 \<noteq> headPtr z' then f z' n' refs' (head + 1) None l' else Some None) = Some r"
    show "?P z' n' refs' h' ff l' r"
    proof
      assume a: "z' = z \<and> n' = n \<and> refs' = refs \<and> run_so_far z refs h' ff l' \<and> (ff \<noteq> None \<longrightarrow> l' < n)"
      define head where "head = (if h' \<ge> zend z then zstart z else h')"
      define first where "first = (case ff of None \<Rightarrow> head | Some f \<Rightarrow> f)"
      define len where "len = (case ff of None \<Rightarrow> 1 | Some _ \<Rightarrow> l' + 1)"
      have in_zone: "zstart z \<le> head" "head < zend z" using a zone by (auto simp: head_def run_so_far_def)
      have eqs: "z' = z" "n' = n" "refs' = refs" using a by auto
      note eq' = eq [unfolded eqs Let_def, folded head_def, folded first_def len_def]
      show "case r of None \<Rightarrow> True | Some q \<Rightarrow> run_found z refs n q"
      proof (cases "refs head = 0")
        case False
        have "run_so_far z refs (head + 1) None l'" using in_zone by (simp add: run_so_far_def)
        then show ?thesis using IH [of z n refs "head + 1" None l' r] eq' False
          by (cases "head + 1 = headPtr z") auto
      next
        case True
        have rs: "run_so_far z refs h' ff l'" and lb: "ff \<noteq> None \<longrightarrow> l' < n" using a by auto
        note st = run_step [OF head_def first_def len_def rs zone True lb]
        have "len \<noteq> n \<Longrightarrow> len < n" by (rule run_length [OF lb n len_def])
        moreover have "len = n \<Longrightarrow> run_found z refs n (first, head)"
          using st in_zone by (simp add: run_found_def)
        ultimately show ?thesis using IH [of z n refs "head + 1" "Some first" len r] eq' True st(5)
          by (cases "len = n"; cases "head + 1 = headPtr z") auto
      qed
    qed
  qed
  then show ?thesis using run l by simp
qed

section \<open>Reference counts and the free page counter\<close>

lemma page_refs_set_ref [simp]: "page_refs (set_ref p r s) = (page_refs s)(p := r)"
  by (auto simp: page_refs_def set_ref_def)

lemma set_ref_frame [simp]:
  "zones (set_ref p r s) = zones s" "highestPage (set_ref p r s) = highestPage s"
  "MemPhysicalFreePages (set_ref p r s) = MemPhysicalFreePages s"
  "MemPhysicalTotalPages (set_ref p r s) = MemPhysicalTotalPages s"
  "phys_state.more (set_ref p r s) = phys_state.more s"
  by (simp_all add: set_ref_def)

lemma page_refs_upd [simp]:
  "page_refs (s\<lparr>MemPhysicalFreePages := v\<rparr>) = page_refs s" "page_refs (s\<lparr>zones := zs\<rparr>) = page_refs s"
  by (auto simp: page_refs_def)

lemma set_ref_same: "set_ref p r (set_ref p q s) = set_ref p r s"
  by (simp add: set_ref_def)

lemma set_ref_self [simp]: "set_ref p (refCount (MemPageStateTable s p)) s = s"
  by (simp add: set_ref_def)

lemma set_ref_comm: "p \<noteq> q \<Longrightarrow> set_ref p r (set_ref q t s) = set_ref q t (set_ref p r s)"
  by (simp add: set_ref_def fun_upd_twist)

lemma mark_pages_refs: "page_refs (mark_pages n p s) = (\<lambda>q. if p \<le> q \<and> q < p + int n then 1 else page_refs s q)"
  by (induction n p s rule: mark_pages.induct) (auto simp: fun_eq_iff)

lemma mark_pages_frame [simp]:
  "zones (mark_pages n p s) = zones s" "highestPage (mark_pages n p s) = highestPage s"
  "MemPhysicalFreePages (mark_pages n p s) = MemPhysicalFreePages s"
  "MemPhysicalTotalPages (mark_pages n p s) = MemPhysicalTotalPages s"
  "phys_state.more (mark_pages n p s) = phys_state.more s"
  by (induction n p s rule: mark_pages.induct) simp_all

lemma free_pages_refs: "page_refs (free_pages n p s) = (\<lambda>q. if p \<le> q \<and> q < p + int n then 0 else page_refs s q)"
  by (induction n p s rule: free_pages.induct) (auto simp: fun_eq_iff)

lemma finite_free_set [simp]: "finite (free_set s)"
  by (rule finite_subset [of _ "{0..highestPage s}"]) (auto simp: free_set_def)

lemma accounted_refl [simp]: "accounted s s"
  by (simp add: accounted_def)

lemma accounted_trans:
  assumes "accounted s t" "accounted t u"
  shows "accounted s u"
proof -
  have "MemPhysicalFreePages u - MemPhysicalFreePages s =
      (MemPhysicalFreePages u - MemPhysicalFreePages t) + (MemPhysicalFreePages t - MemPhysicalFreePages s)"
    by simp
  also have "\<dots> = of_nat (card (free_set u)) - of_nat (card (free_set s))"
    using assms by (simp add: accounted_def)
  finally show ?thesis using assms by (simp add: accounted_def)
qed

lemma accounted_alloc:
  assumes free: "\<forall>q. p \<le> q \<and> q < p + int n \<longrightarrow> page_refs s q = 0" and range: "0 \<le> p" "p + int n \<le> highestPage s"
    and s': "page_refs s' = (\<lambda>q. if p \<le> q \<and> q < p + int n then 1 else page_refs s q)"
    and frame: "highestPage s' = highestPage s" "MemPhysicalFreePages s' = MemPhysicalFreePages s - of_nat n"
  shows "accounted s s'"
proof -
  have sub: "{p..<p + int n} \<subseteq> free_set s" using free range by (auto simp: free_set_def)
  have "free_set s' = free_set s - {p..<p + int n}" using s' frame by (auto simp: free_set_def)
  then have "card (free_set s') = card (free_set s) - n" using sub by (simp add: card_Diff_subset)
  moreover have "n \<le> card (free_set s)" using card_mono [OF _ sub] by simp
  ultimately show ?thesis using frame by (simp add: accounted_def)
qed

lemma accounted_release:
  assumes "page_refs s p \<noteq> 0" "0 \<le> p" "p < highestPage s" "page_refs s' = (page_refs s)(p := 0)"
    "highestPage s' = highestPage s" "MemPhysicalFreePages s' = MemPhysicalFreePages s + 1"
  shows "accounted s s'"
proof -
  have "free_set s' = insert p (free_set s)" "p \<notin> free_set s" using assms by (auto simp: free_set_def)
  then show ?thesis using assms by (simp add: accounted_def)
qed

lemma accounted_same_free:
  assumes "free_set s' = free_set s" "highestPage s' = highestPage s" "MemPhysicalFreePages s' = MemPhysicalFreePages s"
  shows "accounted s s'"
  using assms by (simp add: accounted_def)

lemma delete_ref_refs: "page_refs (delete_ref p s) = (page_refs s)(p := (if page_refs s p = 0 then 0 else page_refs s p - 1))"
  by (auto simp: delete_ref_def Let_def page_refs_def [symmetric] word_neq_0_conv)

lemma delete_ref_frame [simp]:
  "zones (delete_ref p s) = zones s" "highestPage (delete_ref p s) = highestPage s"
  "MemPhysicalTotalPages (delete_ref p s) = MemPhysicalTotalPages s"
  "phys_state.more (delete_ref p s) = phys_state.more s"
  by (simp_all add: delete_ref_def Let_def)

lemma delete_ref_accounted:
  assumes "0 \<le> p" "p < highestPage s"
  shows "accounted s (delete_ref p s)"
proof (cases "page_refs s p = 1")
  case True
  then have "MemPhysicalFreePages (delete_ref p s) = MemPhysicalFreePages s + 1"
    by (simp add: delete_ref_def Let_def page_refs_def)
  then show ?thesis using True assms
    by (intro accounted_release [of s p]) (auto simp: delete_ref_refs)
next
  case False
  then have "MemPhysicalFreePages (delete_ref p s) = MemPhysicalFreePages s"
    by (simp add: delete_ref_def Let_def page_refs_def)
  moreover have "free_set (delete_ref p s) = free_set s" using False
    by (auto simp: free_set_def delete_ref_refs split: if_splits)
  ultimately show ?thesis by (intro accounted_same_free) auto
qed

lemma delete_refs_accounted:
  "0 \<le> p \<Longrightarrow> p + int n \<le> highestPage s \<Longrightarrow> accounted s (delete_refs n p s)"
proof (induction n p s rule: delete_refs.induct)
  case (2 n p s)
  then have "accounted s (delete_ref p s)" "accounted (delete_ref p s) (delete_refs n (p + 1) (delete_ref p s))"
    by (auto intro: delete_ref_accounted)
  then show ?case by (simp add: accounted_trans)
qed simp

lemma delete_ref_set_ref_comm: "p \<noteq> q \<Longrightarrow> delete_ref p (set_ref q r s) = set_ref q r (delete_ref p s)"
  by (auto simp: delete_ref_def Let_def set_ref_def fun_upd_twist)

lemma delete_refs_set_ref_comm: "q < p \<Longrightarrow> delete_refs n p (set_ref q r s) = set_ref q r (delete_refs n p s)"
  by (induction n p s rule: delete_refs.induct) (auto simp: delete_ref_set_ref_comm)

lemma add_refs_set_ref_comm: "q < p \<Longrightarrow> add_refs n p (set_ref q r s) = set_ref q r (add_refs n p s)"
  by (induction n p s rule: add_refs.induct) (auto simp: set_ref_comm, auto simp: set_ref_def)

lemma add_refs_below: "q < p \<Longrightarrow> MemPageStateTable (add_refs n p s) q = MemPageStateTable s q"
  by (induction n p s rule: add_refs.induct) (auto simp: set_ref_def)

lemma delete_add_ref:
  assumes "page_refs s p \<noteq> 0" "page_refs s p \<noteq> - 1"
  shows "delete_ref p (set_ref p (refCount (MemPageStateTable s p) + 1) s) = s"
proof -
  let ?r = "refCount (MemPageStateTable s p)"
  have "?r + 1 \<noteq> 0" using assms by (metis page_refs_def eq_neg_iff_add_eq_0)
  then show ?thesis using assms
    by (simp add: delete_ref_def Let_def page_refs_def word_neq_0_conv set_ref_same) (simp add: set_ref_def)
qed

lemma delete_add_refs:
  "\<forall>q. p \<le> q \<and> q < p + int n \<longrightarrow> page_refs s q \<noteq> 0 \<and> page_refs s q \<noteq> - 1 \<Longrightarrow>
   delete_refs n p (add_refs n p s) = s"
proof (induction n arbitrary: p s)
  case (Suc n)
  let ?up = "set_ref p (refCount (MemPageStateTable s p) + 1)"
  have "delete_refs (Suc n) p (add_refs (Suc n) p s) = delete_refs n (p + 1) (delete_ref p (?up (add_refs n (p + 1) s)))"
    by (simp add: add_refs_set_ref_comm)
  also have "\<dots> = delete_refs n (p + 1) (add_refs n (p + 1) s)"
    using delete_add_ref [of "add_refs n (p + 1) s" p] Suc.prems by (simp add: add_refs_below page_refs_def)
  also have "\<dots> = s" using Suc.IH [of "p + 1" s] Suc.prems by auto
  finally show ?case .
qed simp

section \<open>Properties\<close>

text \<open>The zones lie inside the page state table and their head pointers inside them.\<close>

definition zones_ok :: "'a phys_state_scheme \<Rightarrow> bool" where
  "zones_ok s \<longleftrightarrow> (\<forall>i \<in> {MEM_DMA, MEM_KERNEL, MEM_HIGHMEM}.
     zone_ok (zones s i) \<and> 0 \<le> zstart (zones s i) \<and> zend (zones s i) \<le> highestPage s)"

definition live_zone :: "'a phys_state_scheme \<Rightarrow> int \<Rightarrow> bool" where
  "live_zone s i \<longleftrightarrow> MEM_DMA \<le> i \<and> i \<le> MEM_HIGHMEM \<and> zstart (zones s i) < zend (zones s i)"

text \<open>What an allocation of \<open>n\<close> pages from zone \<open>i\<close> at page \<open>p\<close> does to the state.\<close>

definition allocated :: "u32 \<Rightarrow> int \<Rightarrow> MemPhysPage \<Rightarrow> 'a phys_state_scheme \<Rightarrow> 'a phys_state_scheme \<Rightarrow> bool" where
  "allocated n i p s s' \<longleftrightarrow>
     page_refs s' = (\<lambda>q. if p \<le> q \<and> q < p + uint n then 1 else page_refs s q) \<and>
     MemPhysicalFreePages s' = MemPhysicalFreePages s - n \<and> highestPage s' = highestPage s \<and>
     zones_ok s' \<and> (\<forall>j. j \<noteq> i \<longrightarrow> zones s' j = zones s j)"

lemma live_zone_cases: "zones_ok s \<Longrightarrow> live_zone s i \<Longrightarrow>
    zstart (zones s i) \<le> headPtr (zones s i) \<and> headPtr (zones s i) < zend (zones s i) \<and>
    0 \<le> zstart (zones s i) \<and> zend (zones s i) \<le> highestPage s"
proof -
  assume ok: "zones_ok s" and live: "live_zone s i"
  from live have "i \<in> {0, 1, 2}" by (auto simp: live_zone_def)
  with ok have "zone_ok (zones s i) \<and> 0 \<le> zstart (zones s i) \<and> zend (zones s i) \<le> highestPage s"
    unfolding zones_ok_def by blast
  then show ?thesis using live by (auto simp: zone_ok_def live_zone_def)
qed

lemma zones_ok_upd:
  assumes "zones_ok s" "zones s' = (zones s)(i := z)" "highestPage s' = highestPage s"
    "zone_ok z" "0 \<le> zstart z" "zend z \<le> highestPage s"
  shows "zones_ok s'"
  using assms by (simp add: zones_ok_def)

lemma alloc_in_zone:
  assumes "alloc_scan (zones s (int i)) n (page_refs s) (headPtr (zones s (int i))) None 0 = Some (Some (p, h))"
    and "live_zone s (int i)" "zones_ok s" "zstart (zones s (int i)) \<le> h" "h < zend (zones s (int i))"
  shows "\<exists>s'. alloc_zones n i s = Some (Returns (p, s')) \<and> allocated n (int i) p s s'"
proof -
  let ?z = "zones s (int i)"
  define s' where "s' = (mark_pages (unat n) p (s\<lparr>MemPhysicalFreePages := MemPhysicalFreePages s - n\<rparr>))
      \<lparr>zones := (zones s)(int i := ?z\<lparr>headPtr := h\<rparr>)\<rparr>"
  have eta: "page_refs s = (\<lambda>p. refCount (MemPageStateTable s p))" by (simp add: fun_eq_iff page_refs_def)
  have "alloc_zones n i s = Some (Returns (p, s'))"
    using assms(1,2) unfolding eta by (subst alloc_zones.simps) (simp add: Let_def live_zone_def s'_def)
  moreover have "zones_ok s'"
    using live_zone_cases [OF assms(3,2)] assms(4,5)
    by (intro zones_ok_upd [OF assms(3), of s' "int i" "?z\<lparr>headPtr := h\<rparr>"]) (simp_all add: s'_def zone_ok_def)
  ultimately show ?thesis by (auto simp: allocated_def s'_def mark_pages_refs)
qed

lemma alloc_next_zone:
  assumes "\<not> live_zone s (int (Suc i)) \<or>
      alloc_scan (zones s (int (Suc i))) n (page_refs s) (headPtr (zones s (int (Suc i)))) None 0 = Some None"
    and "int (Suc i) \<le> 2"
  shows "alloc_zones n (Suc i) s = alloc_zones n i s"
proof -
  have eta: "page_refs s = (\<lambda>p. refCount (MemPageStateTable s p))" by (simp add: fun_eq_iff page_refs_def)
  show ?thesis using assms unfolding eta
    by (subst alloc_zones.simps) (auto simp: Let_def live_zone_def)
qed

lemma alloc_zones_found:
  "alloc_zones n i s = Some (Returns (p, s')) \<Longrightarrow> i \<le> 2 \<Longrightarrow>
   \<exists>j h. j \<le> i \<and> live_zone s (int j) \<and> alloc_zones n j s = Some (Returns (p, s')) \<and>
     alloc_scan (zones s (int j)) n (page_refs s) (headPtr (zones s (int j))) None 0 = Some (Some (p, h))"
proof (induction i)
  case 0
  have eta: "page_refs s = (\<lambda>p. refCount (MemPageStateTable s p))" by (simp add: fun_eq_iff page_refs_def)
  from 0 show ?case unfolding eta
    by (subst (asm) alloc_zones.simps)
      (auto simp: Let_def live_zone_def alloc_zones.simps split: if_splits option.splits)
next
  case (Suc i)
  have eta: "page_refs s = (\<lambda>p. refCount (MemPageStateTable s p))" by (simp add: fun_eq_iff page_refs_def)
  let ?scan = "alloc_scan (zones s (int (Suc i))) n (page_refs s) (headPtr (zones s (int (Suc i)))) None 0"
  show ?case
  proof (cases "\<not> live_zone s (int (Suc i)) \<or> ?scan = Some None")
    case True
    then have "alloc_zones n (Suc i) s = alloc_zones n i s" using alloc_next_zone [of s i n] Suc.prems by simp
    then show ?thesis using Suc by (metis le_SucI Suc_leD)
  next
    case False
    then have "live_zone s (int (Suc i))" "?scan \<noteq> Some None" by blast+
    moreover have "\<exists>h. ?scan = Some (Some (p, h))" using Suc.prems(1) calculation unfolding eta
      by (subst (asm) alloc_zones.simps) (auto simp: Let_def live_zone_def split: option.splits)
    ultimately show ?thesis using Suc.prems by blast
  qed
qed

lemma alloc_zones_more: "alloc_zones n i s = ret (p, s') \<Longrightarrow> phys_state.more s' = phys_state.more s"
  by (induction i) (auto simp: alloc_zones.simps Let_def split: if_splits option.splits)

lemma alloc_more: "MemPhysicalAlloc n z s = ret (p, s') \<Longrightarrow> phys_state.more s' = phys_state.more s"
  by (auto simp: MemPhysicalAlloc_def dest: alloc_zones_more split: if_splits)

lemma alloc_zones_bounds:
  "alloc_zones n i s = ret (p, s') \<Longrightarrow> zstart (zones s' j) = zstart (zones s j) \<and> zend (zones s' j) = zend (zones s j)"
  by (induction i) (auto simp: alloc_zones.simps Let_def split: if_splits option.splits)

lemma alloc_bounds:
  "MemPhysicalAlloc n z s = ret (p, s') \<Longrightarrow> zstart (zones s' j) = zstart (zones s j) \<and> zend (zones s' j) = zend (zones s j)"
  by (auto simp: MemPhysicalAlloc_def dest: alloc_zones_bounds split: if_splits)

lemma alloc_found:
  assumes "MemPhysicalAlloc n i s = Some (Returns (p, s'))" "zones_ok s" "n \<noteq> 0" "0 \<le> i" "i \<le> 2"
  shows "\<exists>j h. j \<le> i \<and> live_zone s j \<and> allocated n j p s s' \<and> run_found (zones s j) (page_refs s) n (p, h)"
proof -
  have "alloc_zones n (nat i) s = Some (Returns (p, s'))" "nat i \<le> 2"
    using assms by (auto simp: MemPhysicalAlloc_def)
  then obtain j h where j: "j \<le> nat i" "live_zone s (int j)" "alloc_zones n j s = Some (Returns (p, s'))"
    and scan: "alloc_scan (zones s (int j)) n (page_refs s) (headPtr (zones s (int j))) None 0 = Some (Some (p, h))"
    using alloc_zones_found by blast
  have run: "run_found (zones s (int j)) (page_refs s) n (p, h)"
    using alloc_scan_run [OF scan] live_zone_cases [OF assms(2) j(2)] assms(3) by (auto simp: run_so_far_def)
  then have "allocated n (int j) p s s'"
    using alloc_in_zone [OF scan j(2) assms(2)] j(3) by (auto simp: run_found_def)
  then show ?thesis using j(1,2) run assms(4) by (intro exI [of _ "int j"] exI [of _ h]) auto
qed

lemma alloc_one_zone:
  assumes "zones_ok s" "live_zone s i" "zone_free (zones s i) (page_refs s) \<noteq> {}"
  shows "\<exists>p s'. MemPhysicalAlloc 1 i s = Some (Returns (p, s')) \<and>
     p \<in> zone_free (zones s i) (page_refs s) \<and> allocated 1 i p s s'"
proof -
  have i: "int (nat i) = i" using assms(2) by (simp add: live_zone_def)
  note z = live_zone_cases [OF assms(1,2)]
  obtain p where p: "alloc_scan (zones s i) 1 (page_refs s) (headPtr (zones s i)) None 0 = Some (Some (p, p))"
      "p \<in> zone_free (zones s i) (page_refs s)"
    using alloc_scan_one(1) [of "zones s i" "page_refs s" 0] z assms(3) by auto
  then obtain s' where "alloc_zones 1 (nat i) s = Some (Returns (p, s'))" "allocated 1 i p s s'"
    using alloc_in_zone [of s "nat i" 1 p p] assms(1,2) i by (auto simp: zone_free_def)
  then show ?thesis using p assms(2) by (auto simp: MemPhysicalAlloc_def live_zone_def)
qed

lemma alloc_one_fresh:
  assumes "MemPhysicalAlloc 1 i s = Some (Returns (p, s'))" "zones_ok s" "0 \<le> i" "i \<le> 2"
  shows "page_refs s p = 0 \<and> page_refs s' = (page_refs s)(p := 1) \<and> zones_ok s' \<and> 0 \<le> p \<and> p < highestPage s"
proof -
  obtain j h where j: "live_zone s j" "allocated 1 j p s s'" "run_found (zones s j) (page_refs s) 1 (p, h)"
    using alloc_found [OF assms(1,2) _ assms(3,4)] by auto
  have "page_refs s' = (page_refs s)(p := 1)" using j(2) by (auto simp: allocated_def fun_eq_iff)
  moreover have "page_refs s p = 0" using j(3) by (auto simp: run_found_def cyc_def dest: spec [of _ 0])
  ultimately show ?thesis using j live_zone_cases [OF assms(2) j(1)] by (auto simp: allocated_def run_found_def)
qed

section \<open>The interface of the allocator\<close>

text \<open>
  What the clients of the allocator rely on when they ask for one page at a time: while the zone has a
  free page the request succeeds; the page had no reference, now has one, and no other count changed.
\<close>

locale page_source =
  fixes alloc :: "'s \<Rightarrow> (MemPhysPage \<times> 's) run" and refs :: "'s \<Rightarrow> MemPhysPage \<Rightarrow> u32"
    and wf :: "'s \<Rightarrow> bool" and ready :: "'s \<Rightarrow> bool"
  assumes alloc_ready: "wf s \<Longrightarrow> ready s \<Longrightarrow> \<exists>p s'. alloc s = ret (p, s')"
    and alloc_count: "wf s \<Longrightarrow> alloc s = ret (p, s') \<Longrightarrow> refs s p = 0 \<and> refs s' = (refs s)(p := 1) \<and> wf s'"
begin

lemma in_use_kept: "wf s \<Longrightarrow> alloc s = ret (p, s') \<Longrightarrow> refs s q \<noteq> 0 \<Longrightarrow> q \<noteq> p \<and> refs s' q = refs s q"
  using alloc_count by fastforce

lemma pages_differ: "wf s \<Longrightarrow> alloc s = ret (p, s1) \<Longrightarrow> alloc s1 = ret (q, s2) \<Longrightarrow> p \<noteq> q \<and> refs s2 p = 1"
  using alloc_count [of s p s1] in_use_kept [of s1 q s2 p] by auto

end

lemma zone_page_source:
  "0 \<le> i \<Longrightarrow> i \<le> 2 \<Longrightarrow> page_source (MemPhysicalAlloc 1 i) page_refs zones_ok
     (\<lambda>s. live_zone s i \<and> zone_free (zones s i) (page_refs s) \<noteq> {})"
  by unfold_locales (use alloc_one_zone alloc_one_fresh in \<open>blast+\<close>)

interpretation kernel_pages: page_source "MemPhysicalAlloc 1 MEM_KERNEL" page_refs zones_ok
    "\<lambda>s. live_zone s MEM_KERNEL \<and> zone_free (zones s MEM_KERNEL) (page_refs s) \<noteq> {}"
  by (rule zone_page_source) simp_all

interpretation user_pages: page_source "MemPhysicalAlloc 1 MEM_HIGHMEM" page_refs zones_ok
    "\<lambda>s. live_zone s MEM_HIGHMEM \<and> zone_free (zones s MEM_HIGHMEM) (page_refs s) \<noteq> {}"
  by (rule zone_page_source) simp_all

text \<open>
  A single page. Whenever the requested zone has a free page, \<open>MemPhysicalAlloc(1, zone)\<close>
  returns, the page was free and lies in that zone, its reference count becomes 1 and no other count
  changes, the free page counter drops by one in step with the table, and the zones stay well formed.
\<close>

theorem phys_alloc_one:
  assumes "zones_ok s" "live_zone s i" "zone_free (zones s i) (page_refs s) \<noteq> {}"
  shows "\<exists>p s'. MemPhysicalAlloc 1 i s = Some (Returns (p, s')) \<and>
     p \<in> zone_free (zones s i) (page_refs s) \<and> allocated 1 i p s s' \<and> accounted s s'"
proof -
  obtain p s' where p: "MemPhysicalAlloc 1 i s = Some (Returns (p, s'))"
      "p \<in> zone_free (zones s i) (page_refs s)" "allocated 1 i p s s'"
    using alloc_one_zone [OF assms] by blast
  moreover have "accounted s s'"
    using p(2,3) live_zone_cases [OF assms(1,2)]
    by (intro accounted_alloc [of p 1]) (auto simp: allocated_def zone_free_def dest: le_imp_less_or_eq)
  ultimately show ?thesis by blast
qed

text \<open>Two pages of memory, the first one in use: the setting of the examples below.\<close>

definition demo_phys :: "MemPhysPage set \<Rightarrow> phys_state" where
  "demo_phys used = \<lparr>
     MemPageStateTable = (\<lambda>p. \<lparr>refCount = (if p \<in> used then 1 else 0), slabPtr = 0\<rparr>), highestPage = 4,
     zones = (\<lambda>i. if i = MEM_DMA then \<lparr>headPtr = 0, zstart = 0, zend = 2\<rparr>
        else if i = MEM_KERNEL then \<lparr>headPtr = 2, zstart = 2, zend = 4\<rparr> else no_zone),
     MemPhysicalTotalPages = 4, MemPhysicalFreePages = 0\<rparr>"

theorem phys_alloc_one_witness:
  "\<exists>p s'. MemPhysicalAlloc 1 0 (demo_phys {0}) = Some (Returns (p, s')) \<and>
     p \<in> zone_free (zones (demo_phys {0}) 0) (page_refs (demo_phys {0})) \<and>
     allocated 1 0 p (demo_phys {0}) s' \<and> accounted (demo_phys {0}) s'"
proof (rule phys_alloc_one)
  have "1 \<in> zone_free (zones (demo_phys {0}) 0) (page_refs (demo_phys {0}))"
    by (simp add: demo_phys_def zone_free_def page_refs_def)
  then show "zone_free (zones (demo_phys {0}) 0) (page_refs (demo_phys {0})) \<noteq> {}" by blast
qed (simp_all add: demo_phys_def zones_ok_def zone_ok_def no_zone_def live_zone_def)

text \<open>
  (C3) Runs of pages. When \<open>MemPhysicalAlloc(number, zone)\<close> returns a page, there is a zone, the
  requested one or a lower one, in whose cyclic order the \<open>number\<close> pages from it on were all free. If
  the run does not cross the end of that zone, these are the pages it marks: the pages handed out
  were free, lie in the zone, and the counters account for them.
\<close>

theorem phys_alloc_run:
  assumes "MemPhysicalAlloc n i s = Some (Returns (p, s'))" "zones_ok s" "n \<noteq> 0" "0 \<le> i" "i \<le> 2"
  shows "\<exists>j \<le> i. live_zone s j \<and> allocated n j p s s' \<and>
     zstart (zones s j) \<le> p \<and> p < zend (zones s j) \<and>
     (\<forall>k. 0 \<le> k \<and> k < uint n \<longrightarrow> page_refs s (cyc (zones s j) p k) = 0) \<and>
     (p + uint n \<le> zend (zones s j) \<longrightarrow>
        (\<forall>q. p \<le> q \<and> q < p + uint n \<longrightarrow> page_refs s q = 0) \<and> accounted s s')"
proof -
  obtain j h where j: "j \<le> i" "live_zone s j" "allocated n j p s s'" "run_found (zones s j) (page_refs s) n (p, h)"
    using alloc_found [OF assms] by blast
  let ?z = "zones s j"
  note z = live_zone_cases [OF assms(2) j(2)]
  have free: "page_refs s q = 0" if "p + uint n \<le> zend ?z" "p \<le> q" "q < p + uint n" for q
    using j(4) that cyc_fits [of ?z p "q - p"] by (auto simp: run_found_def dest: spec [of _ "q - p"])
  have "accounted s s'" if fit: "p + uint n \<le> zend ?z"
    using free [OF fit] j(3,4) z fit
    by (intro accounted_alloc [of p "unat n"]) (auto simp: allocated_def run_found_def)
  then show ?thesis using j free by (intro exI [of _ j]) (auto simp: run_found_def)
qed

lemma demo_two: "MemPhysicalAlloc 2 1 (demo_phys {0}) =
    Some (Returns (2, (mark_pages 2 2 ((demo_phys {0})\<lparr>MemPhysicalFreePages := - 2\<rparr>))
      \<lparr>zones := (zones (demo_phys {0}))(1 := \<lparr>headPtr = 3, zstart = 2, zend = 4\<rparr>)\<rparr>))"
proof -
  have "alloc_scan \<lparr>headPtr = 2, zstart = 2, zend = 4\<rparr> 2 refs 2 None 0 = Some (Some (2, 3))"
    if "refs 2 = 0" "refs 3 = 0" for refs
    using that by (simp add: alloc_scan.simps)
  then show ?thesis by (simp add: MemPhysicalAlloc_def alloc_zones.simps Let_def demo_phys_def)
qed

theorem phys_alloc_run_witness:
  "\<exists>s'. MemPhysicalAlloc 2 1 (demo_phys {0}) = Some (Returns (2, s')) \<and> 
     (\<exists>j \<le> 1. live_zone (demo_phys {0}) j \<and> allocated 2 j 2 (demo_phys {0}) s')"
proof -
  have "zones_ok (demo_phys {0})" by (simp add: demo_phys_def zones_ok_def zone_ok_def no_zone_def)
  from phys_alloc_run [OF demo_two this] show ?thesis using demo_two by auto
qed

definition wrap_phys :: phys_state where
  "wrap_phys = \<lparr>
     MemPageStateTable = (\<lambda>p. \<lparr>refCount = (if p = 1 then 1 else if p = 3 then 2 else 0), slabPtr = 0\<rparr>),
     highestPage = 6,
     zones = (\<lambda>i. if i = MEM_DMA then \<lparr>headPtr = 2, zstart = 0, zend = 3\<rparr>
        else if i = MEM_KERNEL then \<lparr>headPtr = 3, zstart = 3, zend = 6\<rparr> else no_zone),
     MemPhysicalTotalPages = 6, MemPhysicalFreePages = 4\<rparr>"

text \<open>
  A run that crosses the end of its zone. With pages 1 and 2 of a three page zone free and the
  scan starting at page 2, a request for two pages counts page 2 and, after the wrap-around, page 0;
  it then returns page 2 and marks pages 2 and 3. Page 3 is the first page of the next zone and was
  in use with two references; page 0, which was counted, is still free.
\<close>

theorem phys_alloc_wraps:
  "zones_ok wrap_phys \<and> page_refs wrap_phys 3 = 2 \<and>
   (\<exists>s'. MemPhysicalAlloc 2 0 wrap_phys = Some (Returns (2, s')) \<and>
     page_refs s' 2 = 1 \<and> page_refs s' 3 = 1 \<and> page_refs s' 0 = 0)"
proof -
  have init: "zones_ok wrap_phys" "page_refs wrap_phys 3 = 2" "page_refs wrap_phys 0 = 0"
    by (simp_all add: zones_ok_def zone_ok_def wrap_phys_def no_zone_def page_refs_def)
  have "MemPhysicalAlloc 2 0 wrap_phys = Some (Returns (2, (mark_pages 2 2 (wrap_phys\<lparr>MemPhysicalFreePages := 2\<rparr>))
      \<lparr>zones := (zones wrap_phys)(0 := \<lparr>headPtr = 0, zstart = 0, zend = 3\<rparr>)\<rparr>))"
    by (simp add: wrap_phys_def MemPhysicalAlloc_def alloc_zones.simps alloc_scan.simps Let_def)
  then show ?thesis using init by (simp add: mark_pages_refs)
qed

text \<open>
  Exhaustion. When every page of a zone is in use and the zone's head pointer is at its start,
  as \<open>MemPhysicalInit\<close> leaves it, \<open>MemPhysicalAlloc\<close> never returns: its loop ends only when the scan
  pointer, after an increment, equals the head pointer, and the wrap-around is applied after that
  test. With the head pointer elsewhere, the scan of a full zone ends and the next lower zone is tried.
\<close>

theorem phys_alloc_exhausted:
  assumes "zones_ok s" "live_zone s i" "zone_free (zones s i) (page_refs s) = {}"
  shows "(headPtr (zones s i) = zstart (zones s i) \<and> n \<noteq> 0 \<longrightarrow> MemPhysicalAlloc n i s = None) \<and>
     (headPtr (zones s i) \<noteq> zstart (zones s i) \<longrightarrow>
        MemPhysicalAlloc 1 i s = (if i = MEM_DMA then Some Panics else MemPhysicalAlloc 1 (i - 1) s))"
proof -
  have eta: "page_refs s = (\<lambda>p. refCount (MemPageStateTable s p))" by (simp add: fun_eq_iff page_refs_def)
  note z = live_zone_cases [OF assms(1,2)]
  have i: "int (nat i) = i" "0 \<le> i" "i \<le> 2" using assms(2) by (simp_all add: live_zone_def)
  show ?thesis
  proof (intro conjI impI)
    assume a: "headPtr (zones s i) = zstart (zones s i) \<and> n \<noteq> 0"
    then have head: "headPtr (zones s i) = zstart (zones s i)" "n \<noteq> 0" by auto
    have "alloc_scan (zones s i) n (page_refs s) (headPtr (zones s i)) None 0 = None"
      using alloc_scan_diverges [OF head(1)] assms(3) z by (auto simp: zone_free_def)
    then show "MemPhysicalAlloc n i s = None" using head i z unfolding eta
      by (simp add: MemPhysicalAlloc_def alloc_zones.simps [of n "nat i"] Let_def)
  next
    assume head: "headPtr (zones s i) \<noteq> zstart (zones s i)"
    then have scan: "alloc_scan (zones s i) 1 (page_refs s) (headPtr (zones s i)) None 0 = Some None"
      using alloc_scan_one(2) [of "zones s i" "page_refs s" 0] z assms(3) by auto
    show "MemPhysicalAlloc 1 i s = (if i = MEM_DMA then Some Panics else MemPhysicalAlloc 1 (i - 1) s)"
    proof (cases "nat i")
      case 0
      then show ?thesis using scan i z unfolding eta
        by (simp add: MemPhysicalAlloc_def alloc_zones.simps [of 1 0] Let_def)
    next
      case (Suc j)
      then have "alloc_zones 1 (Suc j) s = alloc_zones 1 j s" "i = int (Suc j)" "nat (i - 1) = j"
        using alloc_next_zone [of s j 1] scan i by auto
      then show ?thesis using i Suc by (simp add: MemPhysicalAlloc_def)
    qed
  qed
qed

lemma full_zone: "zone_free (zones (demo_phys {0..<4}) i) (page_refs (demo_phys {0..<4})) = {}" if "i \<in> {0, 1}"
  using that by (auto simp: zone_free_def demo_phys_def page_refs_def)

text \<open>The kernel zone of a machine whose memory is all in use: the allocation hangs.\<close>

theorem phys_alloc_exhausted_witness: "MemPhysicalAlloc 1 1 (demo_phys {0..<4}) = None"
proof -
  have "zones_ok (demo_phys {0..<4})" "live_zone (demo_phys {0..<4}) 1"
    by (simp_all add: demo_phys_def zones_ok_def zone_ok_def no_zone_def live_zone_def)
  from phys_alloc_exhausted [OF this full_zone, of 1] show ?thesis by (simp add: demo_phys_def)
qed

text \<open>
  Reference counting. Dropping references keeps the free page counter in step with the table
  for every range of pages inside the table; dropping the references that were just added restores
  the state exactly, provided the pages are in use and no count is at its maximum.
\<close>

theorem phys_refcount:
  assumes "0 \<le> p" "p + uint n \<le> highestPage s"
  shows "accounted s (MemPhysicalDeleteRef p n s) \<and>
     ((\<forall>q. p \<le> q \<and> q < p + uint n \<longrightarrow> page_refs s q \<noteq> 0 \<and> page_refs s q \<noteq> - 1) \<longrightarrow>
      MemPhysicalDeleteRef p n (MemPhysicalAddRef p n s) = s)"
  using assms delete_refs_accounted [of p "unat n" s] delete_add_refs [of p "unat n" s]
  by (simp_all add: MemPhysicalDeleteRef_def MemPhysicalAddRef_def)

theorem phys_refcount_witness:
  "MemPhysicalDeleteRef 0 2 (MemPhysicalAddRef 0 2 (demo_phys {0..<4})) = demo_phys {0..<4}"
  using phys_refcount [of 0 2 "demo_phys {0..<4}"] by (auto simp: demo_phys_def page_refs_def)

definition page_zone :: "MemPhysPage \<Rightarrow> int" where
  "page_zone p = (if p < 0x1000 then MEM_DMA else if p < MEM_KFIXED_MAX_PAGE then MEM_KERNEL else MEM_HIGHMEM)"

lemma kfixed_max: "MEM_KFIXED_MAX_PAGE = 196608"
  by (simp add: MEM_KFIXED_MAX_PAGE_def MEM_KFIXED_MAX_def KERNEL_VIRTUAL_BASE_def PAGE_SIZE_def)

lemma sdiv_pos: "0 \<le> a \<Longrightarrow> 0 < b \<Longrightarrow> a sdiv b = a div b" for a b :: int
  by (cases "a = 0") (simp_all add: signed_divide_int_def sgn_if)

text \<open>
  Zone setup. On every memory size the zones that \<open>MemPhysicalInit\<close> sets up in the cleared
  static array are well formed, every page of memory lies in exactly one of them, and the pages the
  kernel maps directly are exactly those below the high memory zone.
\<close>

theorem phys_init_zones:
  assumes "0 < highestPage s" "zones s = (\<lambda>_. no_zone)"
  shows "zones_ok (MemPhysicalInit s) \<and>
     (\<forall>p. 0 \<le> p \<and> p < highestPage s \<longrightarrow>
        (\<exists>!i. live_zone (MemPhysicalInit s) i \<and> zstart (zones (MemPhysicalInit s) i) \<le> p \<and>
           p < zend (zones (MemPhysicalInit s) i)) \<and>
        (zstart (zones (MemPhysicalInit s) MEM_HIGHMEM) \<le> p \<and> p < zend (zones (MemPhysicalInit s) MEM_HIGHMEM)
           \<longleftrightarrow> p \<ge> MEM_KFIXED_MAX_PAGE))"
proof -
  let ?t = "MemPhysicalInit s"
  have hp: "highestPage ?t = highestPage s" by (simp add: MemPhysicalInit_def Let_def)
  have ok: "zones_ok ?t" using assms
    by (auto simp: zones_ok_def zone_ok_def MemPhysicalInit_def Let_def no_zone_def kfixed_max)
  have owner: "live_zone ?t i \<and> zstart (zones ?t i) \<le> p \<and> p < zend (zones ?t i) \<longleftrightarrow> i = page_zone p"
    if "0 \<le> p" "p < highestPage s" for i p
    using that assms by (auto simp: live_zone_def MemPhysicalInit_def Let_def no_zone_def kfixed_max page_zone_def)
  have "zstart (zones ?t 2) \<le> p \<and> p < zend (zones ?t 2) \<longleftrightarrow> p \<ge> MEM_KFIXED_MAX_PAGE"
    if "0 \<le> p" "p < highestPage s" for p
    using that assms by (auto simp: MemPhysicalInit_def Let_def no_zone_def kfixed_max)
  then show ?thesis using ok owner by simp
qed

theorem phys_init_zones_witness:
  "\<exists>!i. live_zone (MemPhysicalInit ((demo_phys {})\<lparr>highestPage := 0x40000, zones := (\<lambda>_. no_zone)\<rparr>)) i \<and>
     zstart (zones (MemPhysicalInit ((demo_phys {})\<lparr>highestPage := 0x40000, zones := (\<lambda>_. no_zone)\<rparr>)) i) \<le> 0x2000 \<and>
     0x2000 < zend (zones (MemPhysicalInit ((demo_phys {})\<lparr>highestPage := 0x40000, zones := (\<lambda>_. no_zone)\<rparr>)) i)"
  using phys_init_zones [of "(demo_phys {})\<lparr>highestPage := 0x40000, zones := (\<lambda>_. no_zone)\<rparr>"] by simp

text \<open>
  The direct mapping. For every physical page the kernel's fixed window can reach, the virtual
  address lies at or above the kernel base, and \<open>MemVirt2Phys\<close> inverts \<open>MemPhys2Virt\<close>, also for
  addresses inside the page.
\<close>

theorem phys_virt_roundtrip:
  assumes "0 \<le> p" "p < MEM_KFIXED_MAX_PAGE" "off < PAGE_SIZE"
  shows "KERNEL_VIRTUAL_BASE \<le> MemPhys2Virt p \<and> MemPhys2Virt p + off < MEM_KFIXED_MAX \<and>
     MemVirt2Phys (MemPhys2Virt p + off) = p"
proof -
  have p: "0 \<le> p" "p < 196608" using assms by (simp_all add: kfixed_max)
  have off: "uint off < 4096" "0 \<le> uint off" using assms(3) by (simp_all add: PAGE_SIZE_def word_less_def)
  have base: "uint (of_int p * 4096 :: u32) = p * 4096"
    using p by (simp add: uint_word_ariths uint_word_of_int mod_mult_left_eq mod_pos_pos_trivial)
  have low: "uint (of_int p * 4096 + off) = p * 4096 + uint off"
    using base p off by (simp add: uint_word_ariths(1) mod_pos_pos_trivial)
  have high: "uint (0xC0000000 + of_int p * 4096 :: u32) = 0xC0000000 + p * 4096"
    using base p by (simp add: uint_word_ariths(1) mod_pos_pos_trivial)
  have highoff: "uint (0xC0000000 + of_int p * 4096 + off) = 0xC0000000 + p * 4096 + uint off"
    using high p off by (simp add: uint_word_ariths(1) [of "0xC0000000 + of_int p * 4096"] mod_pos_pos_trivial)
  have nonneg: "0 \<le> p * 4096 + uint off" using p by simp
  have "- (2 ^ 31) \<le> (0 :: int)" by simp
  then have "- (2 ^ 31) \<le> p * 4096 + uint off" using nonneg by (rule order_trans)
  moreover have "p * 4096 + uint off < 2 ^ 31" using p off by simp
  ultimately have "sint (of_int p * 4096 + off) = p * 4096 + uint off"
    by (simp only: sint_uint low) (simp add: signed_take_bit_int_eq_self)
  moreover have "(p * 4096 + uint off) sdiv 4096 = p"
    using nonneg off p sdiv_pos [of "p * 4096 + uint off" 4096] by simp
  ultimately show ?thesis using p off high highoff
    by (simp add: MemPhys2Virt_def MemVirt2Phys_def KERNEL_VIRTUAL_BASE_def PAGE_SIZE_def MEM_KFIXED_MAX_def
        word_le_def word_less_def)
qed

theorem phys_virt_roundtrip_witness: "MemVirt2Phys (MemPhys2Virt 0x2FFFF + 0xABC) = 0x2FFFF"
  using phys_virt_roundtrip [of "0x2FFFF" "0xABC"]
  by (simp add: MEM_KFIXED_MAX_PAGE_def MEM_KFIXED_MAX_def KERNEL_VIRTUAL_BASE_def PAGE_SIZE_def)

end
