(* ===== verification/Paging.thy ===== *)
theory Paging
  imports Physical
begin

text \<open>
  Page directories and page tables: \<open>kernel/src/mm/pageMapping.c\<close> and
  \<open>kernel/include/mm/pagingInt.h\<close>.

  Physical memory is a map \<open>pmem\<close> from the physical address of a 32-bit word to its value. The
  kernel reaches it through the fixed window at \<open>KERNEL_VIRTUAL_BASE\<close>, so a C pointer
  \<open>MemPhys2Virt(page) + i\<close> to a directory or table entry is the physical address \<open>entry page i\<close>.
  An index beyond 1023 runs into the following pages, as it does in C. Entries are raw words; the
  bit fields of the two unions are accessors on them. \<open>pageID\<close> is a signed 20 bit field, because
  \<open>MemPhysPage\<close> is \<open>int\<close>.

  \<open>mmu_walk\<close> is the two-level walk of the processor, which takes ten bits of the address at each
  level. It is used to state what a mapping means and to model accesses to user addresses.
\<close>

section \<open>Entries\<close>

definition e_present :: "u32 \<Rightarrow> bool" where "e_present w = bit w 0"
definition e_writable :: "u32 \<Rightarrow> bool" where "e_writable w = bit w 1"
definition e_userMode :: "u32 \<Rightarrow> bool" where "e_userMode w = bit w 2"
definition e_cacheDisable :: "u32 \<Rightarrow> bool" where "e_cacheDisable w = bit w 4"
definition e_global :: "u32 \<Rightarrow> bool" where "e_global w = bit w 8"
definition tableCount :: "u32 \<Rightarrow> u32" where "tableCount w = (drop_bit 9 w) AND 7"
definition pageID :: "u32 \<Rightarrow> MemPhysPage" where "pageID w = signed_take_bit 19 (uint (drop_bit 12 w))"

definition set_flag :: "nat \<Rightarrow> bool \<Rightarrow> u32 \<Rightarrow> u32" where
  "set_flag n b w = (if b then set_bit n w else unset_bit n w)"

definition set_tableCount :: "u32 \<Rightarrow> u32 \<Rightarrow> u32" where
  "set_tableCount c w = (w AND 0xFFFFF1FF) OR (push_bit 9 (c AND 7))"

definition set_pageID :: "MemPhysPage \<Rightarrow> u32 \<Rightarrow> u32" where
  "set_pageID p w = (w AND 0xFFF) OR (push_bit 12 (of_int p))"

section \<open>State\<close>

record paging_state = phys_state +
  pmem :: "u32 \<Rightarrow> u32"
  MemVirtualPageTables :: "u32 \<Rightarrow> u32"

definition entry :: "MemPhysPage \<Rightarrow> u32 \<Rightarrow> u32" where
  "entry page i = of_int page * PAGE_SIZE + 4 * i"

definition set_word :: "u32 \<Rightarrow> u32 \<Rightarrow> 'a paging_state_scheme \<Rightarrow> 'a paging_state_scheme" where
  "set_word a v s = s\<lparr>pmem := (pmem s)(a := v)\<rparr>"

text \<open>\<open>MemSet(MemPhys2Virt(page), 0, 4096)\<close> on a page whose contents are words.\<close>

definition in_page :: "MemPhysPage \<Rightarrow> u32 \<Rightarrow> bool" where
  "in_page page a \<longleftrightarrow> drop_bit 12 a = drop_bit 12 (entry page 0)"

definition wipe_page :: "MemPhysPage \<Rightarrow> 'a paging_state_scheme \<Rightarrow> 'a paging_state_scheme" where
  "wipe_page page s = s\<lparr>pmem := (\<lambda>a. if in_page page a then 0 else pmem s a)\<rparr>"

section \<open>Kernel mappings\<close>

definition vpt_index :: "u32 \<Rightarrow> u32" where
  "vpt_index addr = (addr - MEM_KFIXED_MAX) div 4096"

definition MemMapPage :: "u32 \<Rightarrow> MemPhysPage \<Rightarrow> 'a paging_state_scheme \<Rightarrow> bool \<times> 'a paging_state_scheme" where
  "MemMapPage address page s =
     (let addr = address AND 0xFFFFF000 in
      if addr < MEM_KFIXED_MAX \<or> addr = 0xFFFFF000 then (False, s)
      else if e_present (MemVirtualPageTables s (vpt_index addr)) then (False, s)
      else (True, s\<lparr>MemVirtualPageTables := (MemVirtualPageTables s)(vpt_index addr :=
              set_pageID page (set_flag 8 True (set_flag 1 True (set_flag 0 True 0))))\<rparr>))"

definition MemUnmapPage :: "u32 \<Rightarrow> 'a paging_state_scheme \<Rightarrow> MemPhysPage \<times> 'a paging_state_scheme" where
  "MemUnmapPage address s =
     (let addr = address AND 0xFFFFF000 in
      if addr < MEM_KFIXED_MAX then (INVALID_PAGE, s)
      else let w = MemVirtualPageTables s (vpt_index addr) in
        if e_present w then (pageID w, s\<lparr>MemVirtualPageTables := (MemVirtualPageTables s)(vpt_index addr := 0)\<rparr>)
        else (INVALID_PAGE, s))"

section \<open>User mappings\<close>

definition MemGetPageDirectory :: "MemPhysPage \<Rightarrow> u32 \<Rightarrow> u32" where
  "MemGetPageDirectory physDirectory addr = entry physDirectory (drop_bit 22 addr)"

definition MemGetPageTable :: "u32 \<Rightarrow> u32 \<Rightarrow> 'a paging_state_scheme \<Rightarrow> u32" where
  "MemGetPageTable dir addr s = entry (pageID (pmem s dir)) (drop_bit 12 addr AND 0xFFF)"

text \<open>The word that holds the counter digit \<open>i\<close>: the first entry of the table that \<open>dir[i]\<close> points to.\<close>

definition counter_word :: "u32 \<Rightarrow> u32 \<Rightarrow> 'a paging_state_scheme \<Rightarrow> u32" where
  "counter_word dir i s = entry (pageID (pmem s (dir + 4 * i))) 0"

definition bump_counter :: "u32 \<Rightarrow> u32 \<Rightarrow> 'a paging_state_scheme \<Rightarrow> 'a paging_state_scheme" where
  "bump_counter a d s = set_word a (set_tableCount (tableCount (pmem s a) + d) (pmem s a)) s"

partial_function (option) increment_from :: "u32 \<Rightarrow> u32 \<Rightarrow> 'a paging_state_scheme \<Rightarrow> 'a paging_state_scheme option"
where
  "increment_from dir i s =
     (let a = counter_word dir i s; s1 = bump_counter a 1 s
      in if tableCount (pmem s1 a) \<noteq> 0 then Some s1 else increment_from dir (i + 1) s1)"

definition IncrementCounter :: "u32 \<Rightarrow> 'a paging_state_scheme \<Rightarrow> 'a paging_state_scheme option" where
  "IncrementCounter dir s = increment_from dir 0 s"

fun decrement_from :: "nat \<Rightarrow> u32 \<Rightarrow> u32 \<Rightarrow> 'a paging_state_scheme \<Rightarrow> bool \<times> 'a paging_state_scheme" where
  "decrement_from 0 dir i s = (True, s)"
| "decrement_from (Suc n) dir i s =
     (let a = counter_word dir i s; s1 = bump_counter a (- 1) s
      in if tableCount (pmem s a) \<noteq> 0 then (False, s1) else decrement_from n dir (i + 1) s1)"

definition DecrementCounter :: "u32 \<Rightarrow> 'a paging_state_scheme \<Rightarrow> bool \<times> 'a paging_state_scheme" where
  "DecrementCounter dir s =
     (let a = counter_word dir 0 s; s1 = bump_counter a (- 1) s
      in if tableCount (pmem s1 a) = 0 then (False, s1) else decrement_from 4 dir 1 s1)"

type_synonym MemRegionFlags = u32

definition MEM_READABLE :: MemRegionFlags where "MEM_READABLE = 1"
definition MEM_WRITABLE :: MemRegionFlags where "MEM_WRITABLE = 2"
definition MEM_EXECUTABLE :: MemRegionFlags where "MEM_EXECUTABLE = 4"
definition MEM_CACHEDISABLE :: MemRegionFlags where "MEM_CACHEDISABLE = 8"
definition MEM_ALLFLAGS :: MemRegionFlags where "MEM_ALLFLAGS = 15"

text \<open>The first half of \<open>MemIntMapUserPage\<close>: make sure the address has a page table.\<close>

definition ensure_table :: "u32 \<Rightarrow> 'a paging_state_scheme \<Rightarrow> 'a paging_state_scheme run" where
  "ensure_table pDir s =
     (if e_present (pmem s pDir) then ret s
      else seq (MemPhysicalAlloc 1 MEM_KERNEL s) (\<lambda>(page, s1).
        let w = set_flag 0 True (set_flag 2 True (set_flag 1 True (set_pageID page (pmem s1 pDir))))
        in ret (wipe_page (pageID w) (set_word pDir w s1))))"

definition clear_entry :: "u32 \<Rightarrow> u32" where
  "clear_entry w = set_tableCount (tableCount w) 0"

definition user_entry :: "MemPhysPage \<Rightarrow> MemRegionFlags \<Rightarrow> u32 \<Rightarrow> u32" where
  "user_entry page flags w = set_pageID page (set_flag 4 (flags AND MEM_CACHEDISABLE \<noteq> 0)
     (set_flag 1 (flags AND MEM_WRITABLE \<noteq> 0) (set_flag 2 True (set_flag 0 True w))))"

definition MemIntMapUserPage ::
  "MemPhysPage \<Rightarrow> u32 \<Rightarrow> MemPhysPage \<Rightarrow> MemRegionFlags \<Rightarrow> 'a paging_state_scheme \<Rightarrow> 'a paging_state_scheme run" where
  "MemIntMapUserPage physDirectory address page flags s =
     (if flags AND (MEM_READABLE OR MEM_WRITABLE OR MEM_EXECUTABLE) = 0 then ret s
      else if address \<ge> KERNEL_VIRTUAL_BASE then panic
      else let pDir = MemGetPageDirectory physDirectory address in
        seq (ensure_table pDir s) (\<lambda>s1.
          let pTable = MemGetPageTable pDir address s1 in
          seq (if e_present (pmem s1 pTable)
               then ret (set_word pTable (clear_entry (pmem s1 pTable)) s1)
               else map_option Returns (IncrementCounter pDir s1))
            (\<lambda>s2. ret (set_word pTable (user_entry page flags (pmem s2 pTable)) s2))))"

definition MemIntUnmapUserPage ::
  "MemPhysPage \<Rightarrow> u32 \<Rightarrow> 'a paging_state_scheme \<Rightarrow> (MemPhysPage \<times> 'a paging_state_scheme) outcome" where
  "MemIntUnmapUserPage physDirectory address s =
     (if address \<ge> KERNEL_VIRTUAL_BASE then Panics
      else let pDir = MemGetPageDirectory physDirectory address in
        if e_present (pmem s pDir) then
          (let pTable = MemGetPageTable pDir address s in
           if e_present (pmem s pTable) then
             (let page = pageID (pmem s pTable); (empty, s1) = DecrementCounter pDir s
              in Returns (page,
                if empty then set_word pDir 0 (MemPhysicalFree (pageID (pmem s1 pDir)) 1 s1)
                else set_word pTable (clear_entry (pmem s1 pTable)) s1))
           else Returns (INVALID_PAGE, s))
        else Returns (INVALID_PAGE, s))"

definition MemIntUnmapUserPageAndFree ::
  "MemPhysPage \<Rightarrow> u32 \<Rightarrow> 'a paging_state_scheme \<Rightarrow> 'a paging_state_scheme outcome" where
  "MemIntUnmapUserPageAndFree physDirectory address s =
     bind_outcome (MemIntUnmapUserPage physDirectory address s) (\<lambda>(page, s1).
       Returns (if page \<noteq> INVALID_PAGE then MemPhysicalDeleteRef page 1 s1 else s1))"

section \<open>The processor's walk\<close>

definition mmu_pte :: "MemPhysPage \<Rightarrow> u32 \<Rightarrow> 'a paging_state_scheme \<Rightarrow> u32 option" where
  "mmu_pte physDirectory addr s =
     (let pde = pmem s (entry physDirectory (drop_bit 22 addr)) in
      if e_present pde then Some (entry (pageID pde) (drop_bit 12 addr AND 0x3FF)) else None)"

definition mmu_walk :: "MemPhysPage \<Rightarrow> u32 \<Rightarrow> 'a paging_state_scheme \<Rightarrow> (MemPhysPage \<times> bool) option" where
  "mmu_walk physDirectory addr s =
     (case mmu_pte physDirectory addr s of None \<Rightarrow> None
      | Some a \<Rightarrow> if e_present (pmem s a) then Some (pageID (pmem s a), e_writable (pmem s a)) else None)"

section \<open>Bit fields\<close>

lemma mask_bits [simp]:
  "bit (7 :: int) n \<longleftrightarrow> n < 3" "bit (0x3FF :: int) n \<longleftrightarrow> n < 10" "bit (0xFFF :: int) n \<longleftrightarrow> n < 12"
  using bit_mask_iff [of 3 n, where ?'a = int] bit_mask_iff [of 10 n, where ?'a = int]
    bit_mask_iff [of 12 n, where ?'a = int]
  by (simp_all add: mask_eq_exp_minus_1)

lemma not_count_bits [simp]: "bit (0xFFFFF1FF :: int) n \<longleftrightarrow> n < 32 \<and> \<not> (9 \<le> n \<and> n < 12)"
proof -
  have "(0xFFFFF1FF :: int) = mask 32 XOR push_bit 9 (mask 3)" by (simp add: mask_eq_exp_minus_1)
  then show ?thesis by (simp only: bit_xor_iff bit_push_bit_iff bit_mask_iff) auto
qed

lemma count_bits [simp]: "bit (0xE00 :: int) n \<longleftrightarrow> 9 \<le> n \<and> n < 12"
proof -
  have "(0xE00 :: int) = push_bit 9 (mask 3)" by (simp add: mask_eq_exp_minus_1)
  then show ?thesis by (simp only: bit_push_bit_iff bit_mask_iff) auto
qed

lemma and7: "uint ((x :: u32) AND 7) = uint x mod 8"
proof -
  have "x AND 7 = take_bit 3 x" using take_bit_eq_mask [of 3 x] by (simp add: mask_eq_exp_minus_1)
  then show ?thesis by (simp add: unsigned_take_bit_eq) (simp add: take_bit_eq_mod)
qed

lemma uint_7: "uint (7 :: u32) = 7"
  by simp

lemma set_pageID_bits: "bit (set_pageID p w) n \<longleftrightarrow> (if n < 12 then bit w n else n < 32 \<and> bit p (n - 12))"
  by (auto simp: set_pageID_def bit_and_iff bit_or_iff bit_push_bit_iff bit_of_int_iff dest: bit_imp_le_length)

lemma set_flag_bits: "n < 32 \<Longrightarrow> bit (set_flag n b w) m \<longleftrightarrow> (if m = n then b else bit w m)"
  by (auto simp: set_flag_def bit_set_bit_iff bit_unset_bit_iff)

lemma set_tableCount_bits: "bit (set_tableCount c w) n \<longleftrightarrow> (if 9 \<le> n \<and> n < 12 then bit c (n - 9) else bit w n)"
  by (auto simp: set_tableCount_def bit_or_iff bit_and_iff bit_push_bit_iff dest: bit_imp_le_length)

lemma pageID_bits: "bit (pageID w) n \<longleftrightarrow> bit w (min 19 n + 12)"
  by (simp add: pageID_def bit_signed_take_bit_iff bit_drop_bit_eq bit_uint_iff add.commute)
    (auto simp: min_def)

lemma tableCount_bits: "bit (tableCount w) n \<longleftrightarrow> n < 3 \<and> bit w (n + 9)"
  by (auto simp: tableCount_def bit_and_iff bit_drop_bit_eq add.commute)

lemma pageID_eqI: "(\<And>n. 12 \<le> n \<Longrightarrow> n < 32 \<Longrightarrow> bit w n \<longleftrightarrow> bit v n) \<Longrightarrow> pageID w = pageID v"
  by (rule bit_eqI) (simp add: pageID_bits)

lemma pageID_set_pageID [simp]: "pageID (set_pageID p w) = signed_take_bit 19 p"
  by (rule bit_eqI) (auto simp: pageID_bits set_pageID_bits bit_signed_take_bit_iff min_def)

lemma pageID_set_flag [simp]: "n < 12 \<Longrightarrow> pageID (set_flag n b w) = pageID w"
  by (rule pageID_eqI) (simp add: set_flag_bits)

lemma pageID_set_tableCount [simp]: "pageID (set_tableCount c w) = pageID w"
  by (rule pageID_eqI) (simp add: set_tableCount_bits)

lemma flags_of_entry [simp]:
  "e_present (set_pageID p w) = e_present w" "e_writable (set_pageID p w) = e_writable w"
  "e_present (set_tableCount c w) = e_present w" "e_writable (set_tableCount c w) = e_writable w"
  by (simp_all add: e_present_def e_writable_def set_pageID_bits set_tableCount_bits)

lemma flags_of_flag [simp]:
  "n < 32 \<Longrightarrow> e_present (set_flag n b w) = (if n = 0 then b else e_present w)"
  "n < 32 \<Longrightarrow> e_writable (set_flag n b w) = (if n = 1 then b else e_writable w)"
  by (auto simp: e_present_def e_writable_def set_flag_bits)

lemma tableCount_set_tableCount [simp]: "tableCount (set_tableCount c w) = c AND 7"
  by (rule bit_eqI) (auto simp: tableCount_bits set_tableCount_bits bit_and_iff)

section \<open>Addresses of entries\<close>

lemma div_of_mod: "(x mod (4096 * 1048576)) div 4096 = (x div 4096) mod 1048576" for x :: int
  using zmod_zmult2_eq [of 1048576 x 4096] by simp

lemma entry_frame: "uint (drop_bit 12 (entry p i)) = (p + uint i div 1024) mod 1048576"
proof -
  have "uint (entry p i) = (p * 4096 + 4 * uint i) mod (4096 * 1048576)"
    by (simp add: entry_def PAGE_SIZE_def uint_word_ariths uint_word_of_int mod_simps)
  moreover have "uint (drop_bit 12 (entry p i)) = uint (entry p i) div 4096"
    by (simp add: drop_bit_eq_div uint_div_distrib)
  ultimately show ?thesis by (simp only: div_of_mod) simp
qed

lemma entry_inj:
  assumes "entry p i = entry p j" "uint i < 4096" "uint j < 4096"
  shows "i = j"
proof -
  have "4 * i = 4 * j" using assms(1) by (simp add: entry_def)
  then have "uint (4 * i) = uint (4 * j)" by simp
  then show ?thesis using assms(2,3) by (simp add: uint_word_ariths word_uint_eq_iff)
qed

lemma same_frame: "uint i < 1024 \<Longrightarrow> drop_bit 12 (entry p i) = drop_bit 12 (entry p 0)"
  unfolding word_uint_eq_iff entry_frame by simp

lemma index_22: "uint (drop_bit 22 (a :: u32)) < 1024"
  using uint_lt2p [of a] by (simp add: drop_bit_eq_div uint_div_distrib)

lemma other_frame:
  assumes "(q - p) mod 1048576 \<noteq> 0" "uint j < 1024"
  shows "entry p (drop_bit 22 a) \<noteq> entry q j"
proof
  assume "entry p (drop_bit 22 a) = entry q j"
  then have "uint (drop_bit 12 (entry p (drop_bit 22 a))) = uint (drop_bit 12 (entry q j))" by simp
  then have "p mod 1048576 = q mod 1048576" using assms(2) index_22 [of a] by (simp add: entry_frame)
  then show False using assms(1) by (metis mod_eq_dvd_iff dvd_imp_mod_0)
qed

lemma index_12: "uint (drop_bit 12 (a :: u32) AND 0xFFF) < 4096"
  using AND_upper2'' [of 4095 "uint (drop_bit 12 a)" 4096] by (simp add: uint_and)

lemma index_10: "uint (drop_bit 12 (a :: u32) AND 0x3FF) < 1024"
  using AND_upper2'' [of 1023 "uint (drop_bit 12 a)" 1024] by (simp add: uint_and)

lemma index_low: "\<not> bit addr 22 \<Longrightarrow> \<not> bit addr 23 \<Longrightarrow> drop_bit 12 addr AND 0xFFF = drop_bit 12 addr AND 0x3FF"
  for addr :: u32
proof (rule bit_eqI)
  fix n assume a: "\<not> bit addr 22" "\<not> bit addr 23"
  have "n < 12 \<Longrightarrow> bit addr (12 + n) \<Longrightarrow> n < 10" using a
    by (cases "n = 10"; cases "n = 11") auto
  then show "bit (drop_bit 12 addr AND 0xFFF) n \<longleftrightarrow> bit (drop_bit 12 addr AND 0x3FF) n"
    by (auto simp: bit_and_iff bit_drop_bit_eq)
qed

lemma index_high:
  fixes addr :: u32
  assumes "bit addr 22 \<or> bit addr 23"
  shows "1024 \<le> uint (drop_bit 12 addr AND 0xFFF)"
proof (rule ccontr)
  let ?i = "drop_bit 12 addr AND 0xFFF"
  assume "\<not> 1024 \<le> uint ?i"
  then have "take_bit 10 (uint ?i) = uint ?i" by (simp add: take_bit_int_eq_self_iff)
  then have "\<not> bit (uint ?i) n" if "10 \<le> n" for n
    using that bit_take_bit_iff [of 10 "uint ?i" n] by simp
  then have "\<not> bit (uint ?i) 10" "\<not> bit (uint ?i) 11" by simp_all
  moreover have "bit ?i 10 \<or> bit ?i 11" using assms by (auto simp: bit_and_iff bit_drop_bit_eq)
  ultimately show False by (simp add: bit_uint_iff)
qed

section \<open>Frame lemmas\<close>

lemma set_word_pmem [simp]: "pmem (set_word a v s) = (pmem s)(a := v)"
  by (simp add: set_word_def)

lemma bump_counter_pmem:
  "pmem (bump_counter a d s) = (pmem s)(a := set_tableCount (tableCount (pmem s a) + d) (pmem s a))"
  by (simp add: bump_counter_def)

lemma increment_no_carry:
  assumes "tableCount (pmem s (counter_word dir 0 s)) \<noteq> 7"
  shows "IncrementCounter dir s = Some (bump_counter (counter_word dir 0 s) 1 s)"
proof -
  let ?c = "tableCount (pmem s (counter_word dir 0 s))"
  have "uint ?c < 8" by (simp add: tableCount_def and7)
  moreover have "uint ?c \<noteq> 7" using assms by (metis uint_7 word_uint_eqI)
  ultimately have "uint (?c + 1) = uint ?c + 1" "0 < uint ?c + 1" "uint ?c + 1 < 8"
    by (simp_all add: uint_word_ariths)
  then have "uint ((?c + 1) AND 7) = uint ?c + 1" "uint ?c + 1 \<noteq> 0" by (simp add: and7, linarith)
  then have "(?c + 1) AND 7 \<noteq> 0" by (metis unsigned_0)
  then show ?thesis unfolding IncrementCounter_def by (subst increment_from.simps) (simp add: Let_def bump_counter_pmem)
qed

text \<open>A mapping into an existing page table whose counter does not carry.\<close>

lemma map_user_fresh:
  assumes flags: "flags AND (MEM_READABLE OR MEM_WRITABLE OR MEM_EXECUTABLE) \<noteq> 0" and addr: "addr < KERNEL_VIRTUAL_BASE"
    and dir: "e_present (pmem s (MemGetPageDirectory pd addr))"
    and fresh: "\<not> e_present (pmem s (MemGetPageTable (MemGetPageDirectory pd addr) addr s))"
    and count: "tableCount (pmem s (counter_word (MemGetPageDirectory pd addr) 0 s)) \<noteq> 7"
  shows "MemIntMapUserPage pd addr page flags s =
     (let c = counter_word (MemGetPageDirectory pd addr) 0 s; t = MemGetPageTable (MemGetPageDirectory pd addr) addr s;
          s1 = bump_counter c 1 s
      in ret (set_word t (user_entry page flags (pmem s1 t)) s1))"
  using assms increment_no_carry [OF count]
  by (simp add: MemIntMapUserPage_def ensure_table_def Let_def not_le)

lemma walk_unchanged:
  assumes "pmem s' (entry pd (drop_bit 22 a)) = pmem s (entry pd (drop_bit 22 a))"
    and "\<And>t. mmu_pte pd a s = Some t \<Longrightarrow> e_present (pmem s' t) = e_present (pmem s t) \<and>
      pageID (pmem s' t) = pageID (pmem s t) \<and> e_writable (pmem s' t) = e_writable (pmem s t)"
  shows "mmu_walk pd a s' = mmu_walk pd a s"
  using assms by (auto simp: mmu_walk_def mmu_pte_def Let_def split: if_splits)

lemma user_entry_fields [simp]:
  "e_present (user_entry page flags w)" "e_writable (user_entry page flags w) \<longleftrightarrow> flags AND MEM_WRITABLE \<noteq> 0"
  "pageID (user_entry page flags w) = signed_take_bit 19 page"
  by (simp_all add: user_entry_def)

text \<open>Only words of one physical page have changed.\<close>

definition paging_frame :: "MemPhysPage \<Rightarrow> 'a paging_state_scheme \<Rightarrow> 'a paging_state_scheme \<Rightarrow> bool" where
  "paging_frame page s s' \<longleftrightarrow> (\<exists>m. s' = s\<lparr>pmem := m\<rparr> \<and> (\<forall>a. \<not> in_page page a \<longrightarrow> m a = pmem s a))"

lemma map_user_walk:
  assumes flags: "flags AND (MEM_READABLE OR MEM_WRITABLE OR MEM_EXECUTABLE) \<noteq> 0" and addr: "addr < KERNEL_VIRTUAL_BASE"
    and dir: "e_present (pmem s (MemGetPageDirectory pd addr))"
    and unmapped: "mmu_walk pd addr s = None"
    and count: "tableCount (pmem s (counter_word (MemGetPageDirectory pd addr) 0 s)) \<noteq> 7"
    and low: "\<not> bit addr 22" "\<not> bit addr 23"
    and apart: "(pageID (pmem s (MemGetPageDirectory pd addr)) - pd) mod 0x100000 \<noteq> 0"
  shows "\<exists>s'. MemIntMapUserPage pd addr page flags s = ret s' \<and> paging_frame (pageID (pmem s (MemGetPageDirectory pd addr))) s s' \<and>
     mmu_walk pd addr s' = Some (signed_take_bit 19 page, flags AND MEM_WRITABLE \<noteq> 0) \<and>
     (\<forall>a. mmu_pte pd a s \<noteq> mmu_pte pd addr s \<longrightarrow> mmu_walk pd a s' = mmu_walk pd a s)"
proof -
  let ?T = "pageID (pmem s (MemGetPageDirectory pd addr))"
  let ?c = "entry ?T 0" and ?t = "entry ?T (drop_bit 12 addr AND 0x3FF)"
  have c: "counter_word (MemGetPageDirectory pd addr) 0 s = ?c" by (simp add: counter_word_def)
  have t: "MemGetPageTable (MemGetPageDirectory pd addr) addr s = ?t"
    using low by (simp add: MemGetPageTable_def index_low)
  have pte: "mmu_pte pd addr s = Some ?t" using dir by (simp add: mmu_pte_def MemGetPageDirectory_def Let_def)
  have fresh: "\<not> e_present (pmem s ?t)" using unmapped pte by (simp add: mmu_walk_def split: if_splits)
  have dirs: "entry pd (drop_bit 22 a) \<noteq> ?c" "entry pd (drop_bit 22 a) \<noteq> ?t" for a
    using other_frame [OF apart, of 0] other_frame [OF apart, of "drop_bit 12 addr AND 0x3FF"] index_10 by auto
  define s1 where "s1 = bump_counter ?c 1 s"
  define s' where "s' = set_word ?t (user_entry page flags (pmem s1 ?t)) s1"
  have run: "MemIntMapUserPage pd addr page flags s = ret s'"
    using map_user_fresh [OF flags addr dir _ count] fresh unfolding t c s'_def s1_def by (simp add: Let_def)
  have dirmem: "pmem s' (entry pd (drop_bit 22 a)) = pmem s (entry pd (drop_bit 22 a))" for a
    using dirs [of a] by (simp add: s'_def s1_def bump_counter_pmem)
  have "mmu_pte pd addr s' = Some ?t" using pte dirmem [of addr] by (simp add: mmu_pte_def Let_def split: if_splits)
  then have "mmu_walk pd addr s' = Some (signed_take_bit 19 page, flags AND MEM_WRITABLE \<noteq> 0)"
    by (simp add: mmu_walk_def s'_def)
  moreover have "mmu_walk pd a s' = mmu_walk pd a s" if "mmu_pte pd a s \<noteq> mmu_pte pd addr s" for a
    using that pte by (intro walk_unchanged dirmem) (auto simp: s'_def s1_def bump_counter_pmem)
  moreover have "paging_frame ?T s s'"
    using same_frame [of "drop_bit 12 addr AND 0x3FF" ?T] index_10 [of addr]
    by (auto simp: paging_frame_def in_page_def s'_def s1_def bump_counter_pmem bump_counter_def set_word_def)
  ultimately show ?thesis using run by blast
qed

text \<open>The entry that \<open>MemIntMapUserPage\<close> writes for an address with bit 22 or 23 set is outside the page table.\<close>

lemma high_entry:
  fixes pd :: MemPhysPage
  assumes high: "bit addr 22 \<or> bit addr 23" and apart: "\<forall>k \<in> {0..3}. (T + k - pd) mod 0x100000 \<noteq> 0"
  shows "uint j < 1024 \<Longrightarrow> drop_bit 12 (entry T (drop_bit 12 addr AND 0xFFF)) \<noteq> drop_bit 12 (entry T j)"
    and "entry pd (drop_bit 22 a) \<noteq> entry T (drop_bit 12 addr AND 0xFFF)"
proof -
  let ?i = "drop_bit 12 addr AND 0xFFF"
  have k: "1 \<le> uint ?i div 1024" "uint ?i div 1024 \<le> 3"
    using index_high [OF high] index_12 [of addr] by (simp_all add: zdiv_mono1 [of 1024 _ 1024, simplified])
  show "drop_bit 12 (entry T ?i) \<noteq> drop_bit 12 (entry T j)" if "uint j < 1024"
  proof
    assume "drop_bit 12 (entry T ?i) = drop_bit 12 (entry T j)"
    then have "(T + uint ?i div 1024) mod 1048576 = (T + uint j div 1024) mod 1048576"
      using entry_frame [of T ?i] entry_frame [of T j] by simp
    then have "(T + uint ?i div 1024) mod 1048576 = T mod 1048576" using that by simp
    then have "1048576 dvd uint ?i div 1024" by (simp add: mod_eq_dvd_iff)
    then show False using k by (auto dest: zdvd_imp_le)
  qed
  show "entry pd (drop_bit 22 a) \<noteq> entry T ?i"
  proof
    assume "entry pd (drop_bit 22 a) = entry T ?i"
    then have "pd mod 1048576 = (T + uint ?i div 1024) mod 1048576"
      using entry_frame [of pd "drop_bit 22 a"] entry_frame [of T ?i] index_22 [of a] by simp
    then have "(T + uint ?i div 1024 - pd) mod 1048576 = 0" by (metis mod_eq_dvd_iff dvd_imp_mod_0)
    moreover have "uint ?i div 1024 \<in> {0..3}" using k by simp
    ultimately show False using bspec [OF apart, of "uint ?i div 1024"] by simp
  qed
qed

lemma map_user_misses:
  assumes flags: "flags AND (MEM_READABLE OR MEM_WRITABLE OR MEM_EXECUTABLE) \<noteq> 0" and addr: "addr < KERNEL_VIRTUAL_BASE"
    and dir: "e_present (pmem s (MemGetPageDirectory pd addr))"
    and slot: "e_present (pmem s (MemGetPageTable (MemGetPageDirectory pd addr) addr s)) \<or>
      tableCount (pmem s (counter_word (MemGetPageDirectory pd addr) 0 s)) \<noteq> 7"
    and high: "bit addr 22 \<or> bit addr 23"
    and apart: "\<forall>k \<in> {0..3}. (pageID (pmem s (MemGetPageDirectory pd addr)) + k - pd) mod 0x100000 \<noteq> 0"
  shows "\<exists>m. MemIntMapUserPage pd addr page flags s = ret (s\<lparr>pmem := m\<rparr>) \<and>
     mmu_walk pd addr (s\<lparr>pmem := m\<rparr>) = mmu_walk pd addr s \<and>
     (\<forall>a. m (entry pd (drop_bit 22 a)) = pmem s (entry pd (drop_bit 22 a))) \<and>
     e_present (m (MemGetPageTable (MemGetPageDirectory pd addr) addr s)) \<and>
     pageID (m (MemGetPageTable (MemGetPageDirectory pd addr) addr s)) = signed_take_bit 19 page"
proof -
  let ?T = "pageID (pmem s (MemGetPageDirectory pd addr))"
  let ?c = "entry ?T 0" and ?t = "entry ?T (drop_bit 12 addr AND 0xFFF)"
  have c: "counter_word (MemGetPageDirectory pd addr) 0 s = ?c" by (simp add: counter_word_def)
  have t: "MemGetPageTable (MemGetPageDirectory pd addr) addr s = ?t" by (simp add: MemGetPageTable_def)
  have dirc: "entry pd (drop_bit 22 a) \<noteq> ?c" for a
    using other_frame [of ?T pd 0 a] bspec [OF apart, of 0] by simp
  define s1 where "s1 = (if e_present (pmem s ?t) then set_word ?t (clear_entry (pmem s ?t)) s else bump_counter ?c 1 s)"
  define m where "m = (pmem s1)(?t := user_entry page flags (pmem s1 ?t))"
  have "MemIntMapUserPage pd addr page flags s = ret (set_word ?t (user_entry page flags (pmem s1 ?t)) s1)"
  proof (cases "e_present (pmem s ?t)")
    case True
    then show ?thesis using flags addr dir t
      by (simp add: MemIntMapUserPage_def ensure_table_def Let_def not_le s1_def)
  next
    case False
    then show ?thesis using map_user_fresh [OF flags addr dir, of page] slot unfolding t c s1_def by (simp add: Let_def)
  qed
  then have run: "MemIntMapUserPage pd addr page flags s = ret (s\<lparr>pmem := m\<rparr>)"
    by (simp add: m_def s1_def set_word_def bump_counter_def)
  have mem: "m a = pmem s a" if "a \<noteq> ?t" "a \<noteq> ?c" for a
    using that by (simp add: m_def s1_def bump_counter_pmem)
  have dirs: "m (entry pd (drop_bit 22 a)) = pmem s (entry pd (drop_bit 22 a))" for a
    using high_entry(2) [OF high apart] dirc by (intro mem)
  have "mmu_walk pd addr (s\<lparr>pmem := m\<rparr>) = mmu_walk pd addr s"
  proof (rule walk_unchanged)
    fix r assume "mmu_pte pd addr s = Some r"
    then have "r = entry ?T (drop_bit 12 addr AND 0x3FF)"
      by (simp add: mmu_pte_def MemGetPageDirectory_def Let_def split: if_splits)
    then have "r \<noteq> ?t" using high_entry(1) [OF high apart index_10 [of addr]] by auto
    then show "e_present (pmem (s\<lparr>pmem := m\<rparr>) r) = e_present (pmem s r) \<and>
        pageID (pmem (s\<lparr>pmem := m\<rparr>) r) = pageID (pmem s r) \<and> e_writable (pmem (s\<lparr>pmem := m\<rparr>) r) = e_writable (pmem s r)"
      by (simp add: m_def s1_def bump_counter_pmem)
  qed (simp add: dirs)
  then show ?thesis using run dirs unfolding t by (intro exI [of _ m]) (simp add: m_def)
qed

section \<open>Properties\<close>

text \<open>
  Kernel mappings. A successful \<open>MemMapPage\<close> of a free slot is undone by \<open>MemUnmapPage\<close> at any
  address of the same page, which gives back the page number for every page below 2 GB. A page at or
  above that comes back negative, because the page number is kept in a signed bit field.
\<close>

theorem kernel_map_unmap:
  assumes "MemMapPage addr page s = (True, s')" "0 \<le> page" "page < 0x100000"
    and "addr' AND 0xFFFFF000 = addr AND 0xFFFFF000"
  shows "MemUnmapPage addr' s' = (if page < 0x80000 then page else page - 0x100000,
     s\<lparr>MemVirtualPageTables := (MemVirtualPageTables s)(vpt_index (addr AND 0xFFFFF000) := 0)\<rparr>)"
proof -
  have "page div 524288 = 1" if "\<not> page < 0x80000"
    using that assms(2,3) by (intro int_div_pos_eq [of _ _ _ "page - 524288"]) simp_all
  then have "signed_take_bit 19 page = (if page < 0x80000 then page else page - 0x100000)"
    using assms(2,3) by (simp add: signed_take_bit_eq_take_bit_minus take_bit_eq_mod bit_iff_odd)
  then show ?thesis using assms
    by (auto simp: MemMapPage_def MemUnmapPage_def Let_def split: if_splits)
qed

definition blank_machine :: paging_state where
  "blank_machine = \<lparr>MemPageStateTable = (\<lambda>_. \<lparr>refCount = 0, slabPtr = 0\<rparr>), highestPage = 0, zones = (\<lambda>_. no_zone),
     MemPhysicalTotalPages = 0, MemPhysicalFreePages = 0, pmem = (\<lambda>_. 0), MemVirtualPageTables = (\<lambda>_. 0)\<rparr>"

theorem kernel_map_unmap_witness:
  "fst (MemUnmapPage 0xF0000ABC (snd (MemMapPage 0xF0000000 0x1234 blank_machine))) = 0x1234"
proof -
  have "MemMapPage 0xF0000000 0x1234 blank_machine = (True, snd (MemMapPage 0xF0000000 0x1234 blank_machine))"
    by (simp add: MemMapPage_def blank_machine_def MEM_KFIXED_MAX_def e_present_def Let_def)
  from kernel_map_unmap [OF this, of "0xF0000ABC"] show ?thesis by simp
qed


text \<open>A machine with a page directory in page 1 and one page table, for the last 4 MB below 1 GB or for
  address 0, in page 2.\<close>

definition one_table :: "u32 \<Rightarrow> paging_state" where
  "one_table i = blank_machine\<lparr>pmem := (\<lambda>_. 0)(entry 1 i := 0x00002007)\<rparr>"


text \<open>
  User mappings, where they do not work. At an unmapped user address with bit 22 or 23 set, the
  page table entry that \<open>MemIntMapUserPage\<close> writes is not in the page table: the table index is taken
  with a mask of twelve bits instead of ten. The call succeeds, changes a word of another physical page,
  and the processor still does not translate the address.
\<close>

theorem user_map_misses:
  assumes flags: "flags AND (MEM_READABLE OR MEM_WRITABLE OR MEM_EXECUTABLE) \<noteq> 0" and addr: "addr < KERNEL_VIRTUAL_BASE"
    and dir: "e_present (pmem s (MemGetPageDirectory pd addr))"
    and unmapped: "mmu_walk pd addr s = None"
    and fresh: "\<not> e_present (pmem s (MemGetPageTable (MemGetPageDirectory pd addr) addr s))"
    and count: "tableCount (pmem s (counter_word (MemGetPageDirectory pd addr) 0 s)) \<noteq> 7"
    and high: "bit addr 22 \<or> bit addr 23"
    and apart: "\<forall>k \<in> {0..3}. (pageID (pmem s (MemGetPageDirectory pd addr)) + k - pd) mod 0x100000 \<noteq> 0"
  shows "\<not> in_page (pageID (pmem s (MemGetPageDirectory pd addr)))
        (MemGetPageTable (MemGetPageDirectory pd addr) addr s) \<and>
     (\<exists>s'. MemIntMapUserPage pd addr page flags s = ret s' \<and> mmu_walk pd addr s' = None \<and>
        pageID (pmem s' (MemGetPageTable (MemGetPageDirectory pd addr) addr s)) = signed_take_bit 19 page)"
proof -
  let ?D = "MemGetPageDirectory pd addr"
  have "\<not> in_page (pageID (pmem s ?D)) (MemGetPageTable ?D addr s)"
    using high_entry(1) [OF high apart, of 0] by (simp add: in_page_def MemGetPageTable_def)
  then show ?thesis using map_user_misses [OF flags addr dir _ high apart] unmapped count by fastforce
qed

theorem user_map_misses_witness:
  "\<exists>s'. MemIntMapUserPage 1 0x00400000 7 3 (one_table 1) = ret s' \<and> mmu_walk 1 0x00400000 s' = None"
proof -
  let ?s = "one_table 1"
  have dir: "pmem ?s (MemGetPageDirectory 1 0x00400000) = 0x2007"
    by (simp add: one_table_def MemGetPageDirectory_def)
  have id: "pageID 0x2007 = 2" by (simp add: pageID_def signed_take_bit_eq_take_bit_minus)
  have "mmu_walk 1 0x00400000 ?s = None"
    using dir id by (simp add: mmu_walk_def mmu_pte_def Let_def MemGetPageDirectory_def one_table_def entry_def
        PAGE_SIZE_def blank_machine_def e_present_def)
  moreover have "\<not> e_present (pmem ?s (MemGetPageTable (MemGetPageDirectory 1 0x00400000) 0x00400000 ?s))"
    using dir id by (simp add: MemGetPageTable_def one_table_def entry_def PAGE_SIZE_def blank_machine_def e_present_def)
  moreover have "tableCount (pmem ?s (counter_word (MemGetPageDirectory 1 0x00400000) 0 ?s)) \<noteq> 7"
    using dir id by (simp add: counter_word_def one_table_def entry_def PAGE_SIZE_def blank_machine_def tableCount_def)
  ultimately show ?thesis
    using user_map_misses [of 3 "0x00400000" ?s 1 7] dir id
    by (auto simp: MEM_READABLE_def MEM_WRITABLE_def MEM_EXECUTABLE_def KERNEL_VIRTUAL_BASE_def e_present_def bit_iff_odd)
qed

end
