(* ===== verification/Vmalloc.thy ===== *)
theory Vmalloc
  imports Paging
begin

text \<open>
  The kernel virtual allocator of \<open>kernel/src/mm/vmalloc.c\<close>: a table with two bits for each page of
  the virtual region above \<open>0xF0000000\<close>, searched first-fit.

  The table is a function on page indices, total as a C array access is: \<open>DoUnreserve\<close> indexes it with
  whatever the caller's pointer gives. The allocation loop of \<open>MemVirtualAlloc\<close> counts an offset that
  can wrap around, so it is a \<open>partial_function\<close>.
\<close>

section \<open>State\<close>

record VirtualPage =
  vp_allocated :: bool
  vp_firstPage :: bool

record vm_state = paging_state +
  allocData :: "u32 \<Rightarrow> VirtualPage"

definition VIRT_PAGES :: u32 where "VIRT_PAGES = 0xFFFC"

section \<open>Operations\<close>

text \<open>The search loop, with the number of pages still to look at; it returns the first page of the run
  and the page at which it became long enough.\<close>

fun reserve_scan :: "nat \<Rightarrow> (u32 \<Rightarrow> VirtualPage) \<Rightarrow> u32 \<Rightarrow> u32 \<Rightarrow> u32 \<Rightarrow> u32 \<Rightarrow> (u32 \<times> u32) option" where
  "reserve_scan 0 ad pages i firstPage pagesSoFar = None"
| "reserve_scan (Suc n) ad pages i firstPage pagesSoFar =
     (if \<not> vp_allocated (ad i) then
        (let firstPage' = (if pagesSoFar = 0 then i else firstPage); sofar = pagesSoFar + 1
         in if sofar = pages then Some (firstPage', i)
            else reserve_scan n ad pages (i + 1) firstPage' sofar)
      else reserve_scan n ad pages (i + 1) firstPage 0)"

text \<open>The loop that marks the other pages of the run, from its last page down to its second.\<close>

fun mark_down :: "nat \<Rightarrow> u32 \<Rightarrow> (u32 \<Rightarrow> VirtualPage) \<Rightarrow> (u32 \<Rightarrow> VirtualPage)" where
  "mark_down 0 i ad = ad"
| "mark_down (Suc n) i ad = mark_down n (i - 1) (ad(i := (ad i)\<lparr>vp_allocated := True\<rparr>))"

definition pages_of :: "u32 \<Rightarrow> u32" where
  "pages_of bytes = (bytes + PAGE_SIZE - 1) div PAGE_SIZE"

definition page_addr :: "u32 \<Rightarrow> u32" where
  "page_addr i = i * PAGE_SIZE + 0xF0000000"

definition MemVirtualReserve :: "u32 \<Rightarrow> 'a vm_state_scheme \<Rightarrow> u32 \<times> 'a vm_state_scheme" where
  "MemVirtualReserve bytes s =
     (if bytes = 0 then (0, s)
      else case reserve_scan (unat VIRT_PAGES) (allocData s) (pages_of bytes) 0 0 0 of
        None \<Rightarrow> (0, s)
      | Some (firstPage, i) \<Rightarrow>
          (page_addr firstPage,
           s\<lparr>allocData := mark_down (unat (i - firstPage)) i
              ((allocData s)(firstPage := \<lparr>vp_allocated = True, vp_firstPage = True\<rparr>))\<rparr>))"

definition release_page :: "bool \<Rightarrow> u32 \<Rightarrow> 'a vm_state_scheme \<Rightarrow> 'a vm_state_scheme" where
  "release_page freePages index s =
     (let s1 = s\<lparr>allocData := (allocData s)(index := (allocData s index)\<lparr>vp_allocated := False\<rparr>)\<rparr>
      in if freePages then
           (let (page, s2) = MemUnmapPage (page_addr index) s1 in MemPhysicalFree page 1 s2)
         else s1)"

fun unreserve_loop :: "nat \<Rightarrow> bool \<Rightarrow> u32 \<Rightarrow> 'a vm_state_scheme \<Rightarrow> 'a vm_state_scheme" where
  "unreserve_loop 0 freePages index s = s"
| "unreserve_loop (Suc n) freePages index s =
     (if vp_firstPage (allocData s index) \<or> \<not> vp_allocated (allocData s index) then s
      else unreserve_loop n freePages (index + 1) (release_page freePages index s))"

definition DoUnreserve :: "u32 \<Rightarrow> bool \<Rightarrow> 'a vm_state_scheme \<Rightarrow> 'a vm_state_scheme" where
  "DoUnreserve ptr freePages s =
     (if ptr = 0 then s
      else let index = (ptr - 0xF0000000) div PAGE_SIZE in
        if \<not> vp_firstPage (allocData s index) then s
        else unreserve_loop (unat VIRT_PAGES - unat index) freePages index
          (s\<lparr>allocData := (allocData s)(index := (allocData s index)\<lparr>vp_firstPage := False\<rparr>)\<rparr>))"

definition MemVirtualUnReserve :: "u32 \<Rightarrow> 'a vm_state_scheme \<Rightarrow> 'a vm_state_scheme" where
  "MemVirtualUnReserve ptr s = DoUnreserve ptr False s"

partial_function (option) alloc_loop :: "u32 \<Rightarrow> u32 \<Rightarrow> u32 \<Rightarrow> 'a vm_state_scheme \<Rightarrow> 'a vm_state_scheme run" where
  "alloc_loop base bytes off s =
     (if off < bytes then
        (case MemPhysicalAlloc 1 MEM_HIGHMEM s of
           None \<Rightarrow> None
         | Some Panics \<Rightarrow> panic
         | Some (Returns (page, s1)) \<Rightarrow>
             alloc_loop base bytes (off + PAGE_SIZE) (snd (MemMapPage (base + off) page s1)))
      else ret s)"

definition MemVirtualAlloc :: "u32 \<Rightarrow> 'a vm_state_scheme \<Rightarrow> (u32 \<times> 'a vm_state_scheme) run" where
  "MemVirtualAlloc bytes s =
     (let (base, s1) = MemVirtualReserve bytes s
      in seq (alloc_loop base bytes 0 s1) (\<lambda>s2. ret (base, s2)))"

definition MemVirtualFree :: "u32 \<Rightarrow> 'a vm_state_scheme \<Rightarrow> 'a vm_state_scheme" where
  "MemVirtualFree ptr s = DoUnreserve ptr True s"

section \<open>Well-formed tables\<close>

text \<open>Free pages are not first pages, and an allocated page follows an allocated page unless it starts a
  section.\<close>

definition vm_ok :: "(u32 \<Rightarrow> VirtualPage) \<Rightarrow> bool" where
  "vm_ok ad \<longleftrightarrow> (\<forall>i. (vp_firstPage (ad i) \<longrightarrow> vp_allocated (ad i)) \<and>
     (vp_allocated (ad i) \<and> \<not> vp_firstPage (ad i) \<longrightarrow> i \<noteq> 0 \<and> vp_allocated (ad (i - 1))))"

definition free_run :: "(u32 \<Rightarrow> VirtualPage) \<Rightarrow> nat \<Rightarrow> nat \<Rightarrow> bool" where
  "free_run ad f n \<longleftrightarrow> (\<forall>k. f \<le> k \<and> k < f + n \<longrightarrow> \<not> vp_allocated (ad (of_nat k)))"

section \<open>The search\<close>

lemma virt_pages: "unat VIRT_PAGES = 65532"
  by (simp add: VIRT_PAGES_def)

definition scan_ok :: "(u32 \<Rightarrow> VirtualPage) \<Rightarrow> nat \<Rightarrow> (u32 \<times> u32) option \<Rightarrow> bool" where
  "scan_ok ad n r \<longleftrightarrow> (case r of
      None \<Rightarrow> \<forall>g. g + n \<le> 65532 \<longrightarrow> \<not> free_run ad g n
    | Some (f, e) \<Rightarrow> unat e + 1 = unat f + n \<and> unat e < 65532 \<and> free_run ad (unat f) n \<and>
        (\<forall>g. free_run ad g n \<longrightarrow> unat f \<le> g))"

lemma free_run_extend:
  "free_run ad f n \<Longrightarrow> \<not> vp_allocated (ad (of_nat (f + n))) \<Longrightarrow> free_run ad f (Suc n)"
  by (auto simp: free_run_def less_Suc_eq)

lemma free_run_blocked: "free_run ad g n \<Longrightarrow> vp_allocated (ad (of_nat k)) \<Longrightarrow> g \<le> k \<Longrightarrow> g + n \<le> k"
  by (auto simp: free_run_def not_le[symmetric])

lemma unat_Suc_32: "unat (i :: u32) < 4294967295 \<Longrightarrow> unat (i + 1) = unat i + 1"
  by (simp add: unat_plus_32)

text \<open>A run starts behind a page that is taken, when every run starts behind the free pages before it.\<close>

lemma run_behind:
  assumes "vp_allocated (ad i)" "unat c \<le> unat i" "unat c < n" "\<forall>g. free_run ad g n \<longrightarrow> unat i - unat c \<le> g" "free_run ad g n"
  shows "unat i + 1 \<le> g"
proof (rule ccontr)
  assume "\<not> unat i + 1 \<le> g"
  then have "g + n \<le> unat i" using free_run_blocked [OF assms(5), of "unat i"] assms(1) by simp
  moreover have "unat i - unat c \<le> g" using assms(4,5) by blast
  ultimately show False using assms(2,3) by linarith
qed

lemma reserve_scan_ok:
  "unat i + n = 65532 \<Longrightarrow> unat c \<le> unat i \<Longrightarrow> (c \<noteq> 0 \<longrightarrow> unat first = unat i - unat c) \<Longrightarrow>
   free_run ad (unat i - unat c) (unat c) \<Longrightarrow> unat c < unat pages \<Longrightarrow>
   (\<forall>g. free_run ad g (unat pages) \<longrightarrow> unat i - unat c \<le> g) \<Longrightarrow>
   scan_ok ad (unat pages) (reserve_scan n ad pages i first c)"
proof (induction n arbitrary: i first c)
  case 0
  have "\<not> free_run ad g (unat pages)" if "g + unat pages \<le> 65532" for g
  proof
    assume "free_run ad g (unat pages)"
    then have "unat i - unat c \<le> g" using 0(6) by blast
    then show False using that 0(1,2,5) by linarith
  qed
  then show ?case by (simp add: scan_ok_def)
next
  case (Suc n)
  have i: "unat (i + 1) = unat i + 1" and c: "unat (c + 1) = unat c + 1"
    using Suc.prems(1,2) by (simp_all add: unat_Suc_32)
  show ?case
  proof (cases "vp_allocated (ad i)")
    case True
    have "unat i + 1 \<le> g" if "free_run ad g (unat pages)" for g by (rule run_behind [OF True Suc.prems(2,5,6) that])
    then have "scan_ok ad (unat pages) (reserve_scan n ad pages (i + 1) first 0)"
      using Suc.prems i by (intro Suc.IH) (auto simp: free_run_def)
    then show ?thesis using True by simp
  next
    case False
    let ?f = "if c = 0 then i else first"
    have f: "unat ?f = unat i - unat c" using Suc.prems(3) by auto
    have run: "free_run ad (unat i - unat c) (Suc (unat c))"
      using free_run_extend [OF Suc.prems(4)] Suc.prems(2) False by simp
    show ?thesis
    proof (cases "c + 1 = pages")
      case True
      then have "unat pages = Suc (unat c)" using c by auto
      then show ?thesis using False True f run Suc.prems by (auto simp: scan_ok_def Let_def)
    next
      case more: False
      then have "unat (c + 1) < unat pages" using c Suc.prems(5) by (metis Suc_eq_plus1 Suc_leI le_neq_implies_less word_unat_eq_iff)
      then have "scan_ok ad (unat pages) (reserve_scan n ad pages (i + 1) ?f (c + 1))"
        using Suc.prems i c f run by (intro Suc.IH) auto
      then show ?thesis using False more by (simp add: Let_def)
    qed
  qed
qed

lemma mark_down_spec:
  "n \<le> unat i \<Longrightarrow> mark_down n i ad =
     (\<lambda>k. if unat i - n < unat k \<and> unat k \<le> unat i then (ad k)\<lparr>vp_allocated := True\<rparr> else ad k)"
proof (induction n arbitrary: i ad)
  case (Suc n)
  then have i: "unat (i - 1) = unat i - 1"
    by (metis unat_minus_one Suc_leD le_zero_eq nat.distinct(1) unat_0)
  have k: "unat i - Suc n < unat k \<and> unat k \<le> unat i \<longleftrightarrow> (unat i - 1 - n < unat k \<and> unat k \<le> unat i - 1) \<or> k = i" for k
    using Suc.prems by (auto simp: word_unat_eq_iff)
  have "\<not> unat i \<le> unat i - 1" using Suc.prems by simp
  then show ?case using Suc.IH [of "i - 1"] Suc.prems i by (auto simp: fun_eq_iff k)
qed (auto simp: fun_eq_iff)

lemma pages_of_unat:
  assumes "bytes \<noteq> 0" "bytes \<le> 0xFFFFF000"
  shows "unat (pages_of bytes) = (unat bytes + 4095) div 4096" "0 < unat (pages_of bytes)"
proof -
  have b: "unat bytes \<le> 4294963200" "0 < unat bytes"
    using assms by (simp_all add: word_le_nat_alt unat_gt_0)
  have "unat (bytes + PAGE_SIZE - 1) = unat bytes + 4095"
    using b unat_plus_32 [of 4095 bytes] by (simp add: PAGE_SIZE_def)
  then show "unat (pages_of bytes) = (unat bytes + 4095) div 4096"
    by (simp add: pages_of_def PAGE_SIZE_def unat_div)
  then show "0 < unat (pages_of bytes)" using b by (simp add: div_greater_zero_iff)
qed

text \<open>What a reservation does to the table.\<close>

definition reserved :: "nat \<Rightarrow> nat \<Rightarrow> (u32 \<Rightarrow> VirtualPage) \<Rightarrow> u32 \<Rightarrow> VirtualPage" where
  "reserved f n ad = (\<lambda>k. if f \<le> unat k \<and> unat k < f + n
     then \<lparr>vp_allocated = True, vp_firstPage = (unat k = f \<or> vp_firstPage (ad k))\<rparr> else ad k)"

lemma reserve_result:
  assumes "bytes \<noteq> 0" "bytes \<le> 0xFFFFF000"
  defines "n \<equiv> unat (pages_of bytes)"
  shows "(\<exists>f. MemVirtualReserve bytes s = (page_addr f, s\<lparr>allocData := reserved (unat f) n (allocData s)\<rparr>) \<and>
        unat f + n \<le> 65532 \<and> free_run (allocData s) (unat f) n \<and>
        (\<forall>g. free_run (allocData s) g n \<longrightarrow> unat f \<le> g))
     \<or> (MemVirtualReserve bytes s = (0, s) \<and> (\<forall>g. g + n \<le> 65532 \<longrightarrow> \<not> free_run (allocData s) g n))"
proof -
  let ?scan = "reserve_scan (unat VIRT_PAGES) (allocData s) (pages_of bytes) 0 0 0"
  have ok: "scan_ok (allocData s) n ?scan"
    unfolding n_def using pages_of_unat [OF assms(1,2)]
    by (intro reserve_scan_ok) (auto simp: virt_pages free_run_def)
  show ?thesis
  proof (cases ?scan)
    case None
    then show ?thesis using ok assms(1) by (auto simp: MemVirtualReserve_def scan_ok_def)
  next
    case (Some r)
    then obtain f e where r: "?scan = Some (f, e)" by (cases r) auto
    then have e: "unat e + 1 = unat f + n" "unat e < 65532" "free_run (allocData s) (unat f) n"
      "\<forall>g. free_run (allocData s) g n \<longrightarrow> unat f \<le> g" using ok by (auto simp: scan_ok_def)
    have n0: "0 < n" using pages_of_unat(2) [OF assms(1,2)] by (simp add: n_def)
    then have "f \<le> e" using e by (simp add: word_le_nat_alt)
    then have d: "unat (e - f) = unat e - unat f" by (rule unat_minus_32)
    have "mark_down (unat (e - f)) e ((allocData s)(f := \<lparr>vp_allocated = True, vp_firstPage = True\<rparr>))
        = reserved (unat f) n (allocData s)"
    proof
      fix k show "mark_down (unat (e - f)) e ((allocData s)(f := \<lparr>vp_allocated = True, vp_firstPage = True\<rparr>)) k
          = reserved (unat f) n (allocData s) k"
        using e n0 d \<open>f \<le> e\<close> by (cases "k = f") (auto simp: mark_down_spec reserved_def word_le_nat_alt word_unat_eq_iff)
    qed
    then show ?thesis using r e assms(1) n0 by (auto simp: MemVirtualReserve_def)
  qed
qed

section \<open>Giving back a reservation\<close>

definition unallocated :: "nat \<Rightarrow> nat \<Rightarrow> (u32 \<Rightarrow> VirtualPage) \<Rightarrow> u32 \<Rightarrow> VirtualPage" where
  "unallocated f n ad = (\<lambda>k. if f \<le> unat k \<and> unat k < f + n then (ad k)\<lparr>vp_allocated := False\<rparr> else ad k)"

lemma unallocated_0 [simp]: "unallocated f 0 ad = ad"
  by (auto simp: unallocated_def fun_eq_iff)

lemma unreserve_loop_spec:
  "n \<le> m \<Longrightarrow> unat i + n \<le> 65532 \<Longrightarrow>
   (\<forall>k. unat i \<le> unat k \<and> unat k < unat i + n \<longrightarrow> vp_allocated (allocData s k) \<and> \<not> vp_firstPage (allocData s k)) \<Longrightarrow>
   (n < m \<longrightarrow> vp_firstPage (allocData s (i + of_nat n)) \<or> \<not> vp_allocated (allocData s (i + of_nat n))) \<Longrightarrow>
   unreserve_loop m False i s = s\<lparr>allocData := unallocated (unat i) n (allocData s)\<rparr>"
proof (induction n arbitrary: m i s)
  case 0
  then show ?case by (cases m) auto
next
  case (Suc n)
  then obtain m' where m: "m = Suc m'" by (cases m) auto
  have i: "unat (i + 1) = unat i + 1" using Suc.prems(2) by (simp add: unat_Suc_32)
  let ?s = "s\<lparr>allocData := (allocData s)(i := (allocData s i)\<lparr>vp_allocated := False\<rparr>)\<rparr>"
  have here: "vp_allocated (allocData s i)" "\<not> vp_firstPage (allocData s i)" using Suc.prems(3) by auto
  have next_i: "i + of_nat (Suc n) = i + 1 + of_nat n" by simp
  have ne: "i + 1 + of_nat n \<noteq> i"
  proof
    assume "i + 1 + of_nat n = i"
    then have "(of_nat (Suc n) :: u32) = 0" by (simp add: add.assoc)
    moreover have "unat (of_nat (Suc n) :: u32) = Suc n"
      using Suc.prems(2) by (simp only: unat_of_nat) (simp add: mod_less)
    ultimately show False by simp
  qed
  have rest: "unreserve_loop m' False (i + 1) ?s = ?s\<lparr>allocData := unallocated (unat (i + 1)) n (allocData ?s)\<rparr>"
    using Suc.prems m i ne next_i by (intro Suc.IH) (auto simp: add.assoc)
  have "unallocated (unat (i + 1)) n (allocData ?s) = unallocated (unat i) (Suc n) (allocData s)"
    using i by (auto simp: unallocated_def fun_eq_iff) (metis le_antisym not_less_eq_eq word_unat_eq_iff)
  then show ?case using rest m here by (simp add: release_page_def Let_def)
qed

lemma page_addr_index:
  assumes "unat f < 65536"
  shows "(page_addr f - 0xF0000000) div PAGE_SIZE = f" "page_addr f \<noteq> 0"
proof -
  have f: "unat (f * 4096) = unat f * 4096" using assms by (simp add: unat_word_ariths)
  then show "(page_addr f - 0xF0000000) div PAGE_SIZE = f"
    by (simp add: page_addr_def PAGE_SIZE_def word_unat_eq_iff unat_div)
  have "unat (f * 4096 + 0xF0000000) = unat f * 4096 + 4026531840"
    using f assms by (simp add: unat_plus_32)
  then show "page_addr f \<noteq> 0" by (auto simp: page_addr_def PAGE_SIZE_def)
qed

lemma reserved_vm_ok:
  assumes ok: "vm_ok ad" and free: "free_run ad f n" and n: "0 < n" "f + n \<le> 65532"
  shows "vm_ok (reserved f n ad)"
  unfolding vm_ok_def
proof (intro allI conjI impI)
  fix i
  show "vp_firstPage (reserved f n ad i) \<Longrightarrow> vp_allocated (reserved f n ad i)"
    using ok by (auto simp: reserved_def vm_ok_def)
  assume a: "vp_allocated (reserved f n ad i) \<and> \<not> vp_firstPage (reserved f n ad i)"
  have "i \<noteq> 0 \<and> vp_allocated (reserved f n ad (i - 1))"
  proof (cases "f \<le> unat i \<and> unat i < f + n")
    case True
    then have "unat i \<noteq> f" using a by (auto simp: reserved_def)
    then have "i \<noteq> 0" using True by auto
    moreover from this have "unat (i - 1) = unat i - 1" by (rule unat_minus_one)
    ultimately show ?thesis using True \<open>unat i \<noteq> f\<close> by (auto simp: reserved_def)
  next
    case False
    then have "i \<noteq> 0 \<and> vp_allocated (ad (i - 1))" using a ok by (simp add: reserved_def vm_ok_def split: if_splits)
    then show ?thesis by (auto simp: reserved_def)
  qed
  then show "i \<noteq> 0" "vp_allocated (reserved f n ad (i - 1))" by auto
qed

lemma unreserve_reserved:
  assumes ok: "vm_ok (allocData s)" and free: "free_run (allocData s) (unat f) n"
    and n: "0 < n" "unat f + n \<le> 65532"
  shows "MemVirtualUnReserve (page_addr f) (s\<lparr>allocData := reserved (unat f) n (allocData s)\<rparr>) = s"
proof -
  let ?ad = "reserved (unat f) n (allocData s)"
  let ?ad' = "?ad(f := (?ad f)\<lparr>vp_firstPage := False\<rparr>)"
  have f: "unat f < 65536" using n by simp
  have free_k: "\<not> vp_allocated (allocData s k) \<and> \<not> vp_firstPage (allocData s k)"
    if "unat f \<le> unat k" "unat k < unat f + n" for k
    using free ok that by (auto simp: free_run_def vm_ok_def dest: spec [of _ "unat k"])
  have after: "unat (f + of_nat n) = unat f + n" using n by (simp add: unat_plus_32 unat_of_nat)
  have stop: "vp_firstPage (?ad' (f + of_nat n)) \<or> \<not> vp_allocated (?ad' (f + of_nat n))"
  proof -
    have "0 < unat (f + of_nat n)" using after n by simp
    then have "unat (f + of_nat n - 1) = unat f + n - 1" using after unat_minus_one [of "f + of_nat n"] by force
    then have "\<not> vp_allocated (allocData s (f + of_nat n - 1))" using free_k [of "f + of_nat n - 1"] n by simp
    then have "vp_allocated (allocData s (f + of_nat n)) \<Longrightarrow> vp_firstPage (allocData s (f + of_nat n))"
      using ok by (auto simp: vm_ok_def)
    moreover have "?ad' (f + of_nat n) = allocData s (f + of_nat n)"
      using after n by (auto simp: reserved_def word_unat_eq_iff)
    ultimately show ?thesis by auto
  qed
  have run: "unreserve_loop (65532 - unat f) False f (s\<lparr>allocData := ?ad'\<rparr>)
      = s\<lparr>allocData := unallocated (unat f) n ?ad'\<rparr>"
    using unreserve_loop_spec [of n "65532 - unat f" f "s\<lparr>allocData := ?ad'\<rparr>"] n stop free_k
    by (auto simp: reserved_def word_unat_eq_iff)
  have "unallocated (unat f) n ?ad' = allocData s"
  proof
    fix k show "unallocated (unat f) n ?ad' k = allocData s k"
    proof (cases "k = f")
      case True
      then show ?thesis using free_k [of k] n by (simp add: unallocated_def reserved_def)
    next
      case False
      then have "unat k \<noteq> unat f" by (simp add: word_unat_eq_iff)
      then show ?thesis using False free_k [of k] by (simp add: unallocated_def reserved_def)
    qed
  qed
  moreover have "vp_firstPage (?ad f)" using n by (simp add: reserved_def)
  ultimately show ?thesis using run page_addr_index [OF f]
    by (simp add: MemVirtualUnReserve_def DoUnreserve_def Let_def virt_pages)
qed

section \<open>Requests that wrap around\<close>

lemma reserve_scan_zero: "unat c + n < 4294967296 \<Longrightarrow> reserve_scan n ad 0 i f c = None"
proof (induction n arbitrary: i f c)
  case (Suc n)
  have c: "unat (c + 1) = unat c + 1" using Suc.prems by (simp add: unat_Suc_32)
  then have "c + 1 \<noteq> 0" by (metis add_is_0 one_neq_zero unat_0)
  then show ?case using Suc c by (simp add: Let_def)
qed simp

lemma page_step: "4096 dvd unat (off :: u32) \<Longrightarrow> 4096 dvd unat (off + PAGE_SIZE)"
  by (simp add: PAGE_SIZE_def unat_word_ariths dvd_mod)

lemma alloc_loop_endless:
  assumes ret: "alloc_loop base bytes off s = Some r" and big: "bytes > 0xFFFFF000" and off: "4096 dvd unat off"
  shows "r = Panics"
proof -
  let ?P = "\<lambda>(b :: u32) bytes' (off :: u32) (s :: 'a vm_state_scheme) (r :: 'a vm_state_scheme outcome).
      bytes' = bytes \<and> 4096 dvd unat off \<longrightarrow> r = Panics"
  have "?P base bytes off s r"
  proof (rule alloc_loop.raw_induct [where P = ?P, OF _ ret])
    fix f and b and bytes' and off and s and r
    assume IH: "\<And>b bytes' off s r. f b bytes' off s = Some r \<Longrightarrow> ?P b bytes' off s r"
      and eq: "(if off < bytes' then
        (case MemPhysicalAlloc 1 MEM_HIGHMEM s of
           None \<Rightarrow> None
         | Some Panics \<Rightarrow> panic
         | Some (Returns (page, s1)) \<Rightarrow>
             f b bytes' (off + PAGE_SIZE) (snd (MemMapPage (b + off) page s1)))
      else Some (Returns s)) = Some r"
    show "?P b bytes' off s r"
    proof
      assume a: "bytes' = bytes \<and> 4096 dvd unat off"
      have "unat off \<le> 4294963200"
      proof -
        obtain k where k: "unat off = 4096 * k" using a by blast
        then have "k < 1048576" using unat_less_32 [of off] by simp
        then show ?thesis using k by simp
      qed
      then have "off < bytes'" using a big by (simp add: word_less_nat_alt)
      then show "r = Panics" using eq IH page_step a
        by (fastforce split: option.splits outcome.splits prod.splits)
    qed
  qed
  then show ?thesis using off by simp
qed

section \<open>Properties\<close>

text \<open>
  (C25) Reserving virtual memory. For a request of 1 to \<open>0xFFFFF000\<close> bytes, \<open>MemVirtualReserve\<close> returns
  the address of the lowest run of enough free pages in the virtual region and marks exactly that run,
  keeping the table well formed; it returns \<open>NULL\<close> and changes nothing exactly when there is no such run.
  Giving the address back with \<open>MemVirtualUnReserve\<close> restores the table as it was.
\<close>

theorem virtual_reserve_first_fit:
  assumes "vm_ok (allocData s)" "bytes \<noteq> 0" "bytes \<le> 0xFFFFF000"
  defines "n \<equiv> (unat bytes + 4095) div 4096"
  shows "(\<exists>f s'. MemVirtualReserve bytes s = (page_addr f, s') \<and> unat f + n \<le> 65532 \<and>
        free_run (allocData s) (unat f) n \<and> (\<forall>g. free_run (allocData s) g n \<longrightarrow> unat f \<le> g) \<and>
        (\<forall>k. vp_allocated (allocData s' k) \<longleftrightarrow> vp_allocated (allocData s k) \<or> (unat f \<le> unat k \<and> unat k < unat f + n)) \<and>
        vm_ok (allocData s') \<and> MemVirtualUnReserve (page_addr f) s' = s)
     \<or> (MemVirtualReserve bytes s = (0, s) \<and> (\<forall>g. g + n \<le> 65532 \<longrightarrow> \<not> free_run (allocData s) g n))"
proof -
  have n: "unat (pages_of bytes) = n" "0 < n" using pages_of_unat [OF assms(2,3)] by (simp_all add: n_def)
  show ?thesis
    using reserve_result [OF assms(2,3), of s] unfolding n(1)
  proof (elim disjE exE conjE)
    fix f assume f: "MemVirtualReserve bytes s = (page_addr f, s\<lparr>allocData := reserved (unat f) n (allocData s)\<rparr>)"
      "unat f + n \<le> 65532" "free_run (allocData s) (unat f) n" "\<forall>g. free_run (allocData s) g n \<longrightarrow> unat f \<le> g"
    let ?s = "s\<lparr>allocData := reserved (unat f) n (allocData s)\<rparr>"
    have "vm_ok (allocData ?s)" "MemVirtualUnReserve (page_addr f) ?s = s"
      using reserved_vm_ok [OF assms(1) f(3) n(2) f(2)] unreserve_reserved [OF assms(1) f(3) n(2) f(2)] by simp_all
    moreover have "vp_allocated (allocData ?s k) \<longleftrightarrow> vp_allocated (allocData s k) \<or> (unat f \<le> unat k \<and> unat k < unat f + n)" for k
      by (auto simp: reserved_def)
    ultimately show ?thesis using f by blast
  qed auto
qed

definition blank_vm :: vm_state where
  "blank_vm = \<lparr>MemPageStateTable = (\<lambda>_. \<lparr>refCount = 0, slabPtr = 0\<rparr>), highestPage = 0, zones = (\<lambda>_. no_zone),
     MemPhysicalTotalPages = 0, MemPhysicalFreePages = 0, pmem = (\<lambda>_. 0), MemVirtualPageTables = (\<lambda>_. 0),
     allocData = (\<lambda>_. \<lparr>vp_allocated = False, vp_firstPage = False\<rparr>)\<rparr>"

theorem virtual_reserve_first_fit_witness:
  "\<exists>f s'. MemVirtualReserve 5000 blank_vm = (page_addr f, s') \<and> vm_ok (allocData s') \<and>
     MemVirtualUnReserve (page_addr f) s' = blank_vm"
proof -
  have "vm_ok (allocData blank_vm)" by (simp add: vm_ok_def blank_vm_def)
  moreover have "free_run (allocData blank_vm) 0 2" by (simp add: free_run_def blank_vm_def)
  ultimately show ?thesis using virtual_reserve_first_fit [of blank_vm 5000] by fastforce
qed

text \<open>
  Requests that round up past the address space. For more than \<open>0xFFFFF000\<close> bytes the number of
  pages wraps around to zero and the reservation fails; \<open>MemVirtualAlloc\<close> does not look at that
  result, and its page loop, whose offset wraps around too, never returns: it ends only in the panic
  or the hang of the physical allocator.
\<close>

theorem virtual_alloc_wraps:
  assumes "bytes > 0xFFFFF000"
  shows "MemVirtualReserve bytes s = (0, s) \<and> (\<nexists>r. MemVirtualAlloc bytes s = ret r)"
proof -
  have "pages_of bytes = 0"
  proof -
    have "4294963200 < unat bytes" using assms by (simp add: word_less_nat_alt)
    moreover have "unat bytes < 4294967296" by (rule unat_less_32)
    ultimately have "unat (bytes + PAGE_SIZE - 1) = unat bytes + 4095 - 4294967296"
      by (simp add: PAGE_SIZE_def unat_word_ariths mod_if)
    then have "unat (bytes + PAGE_SIZE - 1) < 4096" using \<open>unat bytes < 4294967296\<close> by simp
    then show ?thesis by (simp add: pages_of_def word_unat_eq_iff unat_div PAGE_SIZE_def)
  qed
  then have reserve: "MemVirtualReserve bytes s = (0, s)"
    by (simp add: MemVirtualReserve_def reserve_scan_zero virt_pages)
  have "\<not> (\<exists>s'. alloc_loop 0 bytes 0 s = ret s')"
    using alloc_loop_endless [OF _ assms, of 0 0 s] by auto
  then show ?thesis using reserve by (auto simp: MemVirtualAlloc_def)
qed

theorem virtual_alloc_wraps_witness: "\<nexists>r. MemVirtualAlloc 0xFFFFFFFF blank_vm = ret r"
  using virtual_alloc_wraps [of "0xFFFFFFFF" blank_vm] by simp

end
