(* ===== verification/Region.thy ===== *)
theory Region
  imports Vmalloc
begin

text \<open>
  Memory contexts and regions: \<open>kernel/src/mm/region.c\<close>, \<open>kernel/include/mm/region.h\<close>, and the user
  memory checks of \<open>kernel/src/mm/check.c\<close> and \<open>kernel/include/mm/check.h\<close>.

  Contexts and regions live at addresses. A context's ring of regions is the list of their addresses
  (theory \<open>Linked_List\<close> shows that the ring operations implement the list operations used here). The
  addresses that \<open>MemKAlloc\<close> returns are arguments; the addresses passed to \<open>MemKFree\<close> are recorded in
  \<open>kfreed\<close>. The word that follows a context in memory is an argument too: \<open>MemRegionCreate\<close> reads it
  when the new region goes to the end of the list, because its loop variable is then the context itself
  seen as a region, whose \<open>start\<close> field lies just past the end of the context.
\<close>

section \<open>State\<close>

record MemRegion =
  myContext :: u32
  rflags :: MemRegionFlags
  rstart :: u32
  rlength :: u32

record MemContext =
  ctx_regions :: "u32 list"
  physDirectory :: MemPhysPage
  ctx_refCount :: u32

record mm_state = vm_state +
  regionAt :: "u32 \<Rightarrow> MemRegion"
  contextAt :: "u32 \<Rightarrow> MemContext"
  MemCurrentContext :: u32
  MemKernelContext :: u32
  MemKernelPageDirectory :: "u32 \<Rightarrow> u32"
  cr3 :: u32
  kfreed :: "u32 list"

definition rend :: "MemRegion \<Rightarrow> u32" where
  "rend r = rstart r + rlength r"

section \<open>Contexts\<close>

text \<open>Writing directory entries \<open>0 \<dots> n - 1\<close> and copying the kernel's 256 entries.\<close>

fun write_entries :: "nat \<Rightarrow> u32 \<Rightarrow> MemPhysPage \<Rightarrow> (u32 \<Rightarrow> u32) \<Rightarrow> 'a paging_state_scheme \<Rightarrow> 'a paging_state_scheme" where
  "write_entries 0 i page v s = s"
| "write_entries (Suc n) i page v s = write_entries n (i + 1) page v (set_word (entry page i) (v i) s)"

definition MemContextInit :: "u32 \<Rightarrow> 'a mm_state_scheme \<Rightarrow> (u32 \<times> 'a mm_state_scheme) run" where
  "MemContextInit newContext s =
     seq (MemPhysicalAlloc 1 MEM_KERNEL s) (\<lambda>(page, s1).
       let s2 = s1\<lparr>contextAt := (contextAt s1)(newContext :=
                     \<lparr>ctx_regions = [], physDirectory = page, ctx_refCount = 0\<rparr>)\<rparr>;
           s3 = write_entries 768 0 page (\<lambda>_. 0) s2;
           s4 = write_entries 256 0x300 page (MemKernelPageDirectory s3) s3
       in ret (newContext, s4))"

text \<open>The region copies of \<open>MemContextClone\<close>; \<open>kalloc i\<close> is the address of the \<open>i\<close>-th copy.\<close>

fun clone_regions :: "(nat \<Rightarrow> u32) \<Rightarrow> nat \<Rightarrow> u32 \<Rightarrow> u32 list \<Rightarrow> (u32 \<Rightarrow> MemRegion) \<Rightarrow> u32 list \<times> (u32 \<Rightarrow> MemRegion)" where
  "clone_regions kalloc i newContext [] rs = ([], rs)"
| "clone_regions kalloc i newContext (r # rest) rs =
     (let (ptrs, rs') = clone_regions kalloc (Suc i) newContext rest
            (rs(kalloc i := (rs r)\<lparr>myContext := newContext\<rparr>))
      in (kalloc i # ptrs, rs'))"

text \<open>The inner loop of the clone: share every present page of a table, read-only.\<close>

fun share_table :: "nat \<Rightarrow> u32 \<Rightarrow> MemPhysPage \<Rightarrow> 'a paging_state_scheme \<Rightarrow> 'a paging_state_scheme" where
  "share_table 0 j table s = s"
| "share_table (Suc n) j table s =
     (let w = pmem s (entry table j) in
      share_table n (j + 1) table
        (if e_present w
         then set_word (entry table j) (set_flag 1 False w) (MemPhysicalAddRef (pageID w) 1 s)
         else s))"

fun clone_tables :: "nat \<Rightarrow> u32 \<Rightarrow> MemPhysPage \<Rightarrow> MemPhysPage \<Rightarrow> 'a paging_state_scheme \<Rightarrow> 'a paging_state_scheme run" where
  "clone_tables 0 i dir currDir s = ret s"
| "clone_tables (Suc n) i dir currDir s =
     (let w = pmem s (entry currDir i); s1 = set_word (entry dir i) w s in
      if e_present (pmem s1 (entry currDir i)) then
        (let table = pageID (pmem s1 (entry currDir i)); s2 = share_table 1024 0 table s1 in
         seq (MemPhysicalAlloc 1 MEM_KERNEL s2) (\<lambda>(newTable, s3).
           let s4 = write_entries 1024 0 newTable (\<lambda>j. pmem s3 (entry table j)) s3;
               s5 = set_word (entry dir i) (set_pageID newTable (pmem s4 (entry dir i))) s4
           in clone_tables n (i + 1) dir currDir s5))
      else clone_tables n (i + 1) dir currDir s1)"

definition MemContextClone :: "u32 \<Rightarrow> (nat \<Rightarrow> u32) \<Rightarrow> 'a mm_state_scheme \<Rightarrow> (u32 \<times> 'a mm_state_scheme) run" where
  "MemContextClone newContext kalloc s =
     (let (ptrs, rs) = clone_regions kalloc 0 newContext
            (ctx_regions (contextAt s (MemCurrentContext s))) (regionAt s);
          s1 = s\<lparr>regionAt := rs\<rparr> in
      seq (MemPhysicalAlloc 1 MEM_KERNEL s1) (\<lambda>(page, s2).
        let s3 = s2\<lparr>contextAt := (contextAt s2)(newContext :=
                     \<lparr>ctx_regions = ptrs, physDirectory = page, ctx_refCount = 0\<rparr>)\<rparr>;
            s4 = write_entries 256 0x300 page (MemKernelPageDirectory s3) s3
        in seq (clone_tables 768 0 page (physDirectory (contextAt s4 (MemCurrentContext s4))) s4)
             (\<lambda>s5. ret (newContext, s5))))"

definition MemContextSwitchTo :: "u32 \<Rightarrow> 'a mm_state_scheme \<Rightarrow> 'a mm_state_scheme" where
  "MemContextSwitchTo context s =
     (let pd = physDirectory (contextAt s context) in
      if pd = INVALID_PAGE then s
      else s\<lparr>cr3 := of_int pd * 4096, MemCurrentContext := context\<rparr>)"

fun free_table :: "nat \<Rightarrow> u32 \<Rightarrow> MemPhysPage \<Rightarrow> 'a paging_state_scheme \<Rightarrow> 'a paging_state_scheme" where
  "free_table 0 j table s = s"
| "free_table (Suc n) j table s =
     (let w = pmem s (entry table j) in
      free_table n (j + 1) table (if e_present w then MemPhysicalDeleteRef (pageID w) 1 s else s))"

fun free_tables :: "nat \<Rightarrow> u32 \<Rightarrow> MemPhysPage \<Rightarrow> 'a paging_state_scheme \<Rightarrow> 'a paging_state_scheme" where
  "free_tables 0 i dir s = s"
| "free_tables (Suc n) i dir s =
     (let w = pmem s (entry dir i) in
      free_tables n (i + 1) dir
        (if e_present w then MemPhysicalFree (pageID w) 1 (free_table 1024 0 (pageID w) s) else s))"

definition MemContextDelete :: "u32 \<Rightarrow> 'a mm_state_scheme \<Rightarrow> 'a mm_state_scheme" where
  "MemContextDelete context s =
     (let pd = physDirectory (contextAt s context) in
      if of_int pd = cr3 s div 4096 then s
      else if pd = INVALID_PAGE then s
      else if context = MemKernelContext s then s
      else let s1 = free_tables 768 0 pd s; s2 = MemPhysicalFree pd 1 s1
        in s2\<lparr>kfreed := kfreed s2 @ ctx_regions (contextAt s2 context) @ [context]\<rparr>)"

definition MemContextAddReference :: "u32 \<Rightarrow> 'a mm_state_scheme \<Rightarrow> 'a mm_state_scheme" where
  "MemContextAddReference context s = s\<lparr>contextAt := (contextAt s)(context :=
     (contextAt s context)\<lparr>ctx_refCount := ctx_refCount (contextAt s context) + 1\<rparr>)\<rparr>"

definition MemContextDeleteReference :: "u32 \<Rightarrow> 'a mm_state_scheme \<Rightarrow> 'a mm_state_scheme" where
  "MemContextDeleteReference context s =
     (if ctx_refCount (contextAt s context) \<le> 1 then MemContextDelete context s
      else s\<lparr>contextAt := (contextAt s)(context :=
        (contextAt s context)\<lparr>ctx_refCount := ctx_refCount (contextAt s context) - 1\<rparr>)\<rparr>)"

section \<open>Regions\<close>

text \<open>The loops that unmap a range: the counter wraps as in C, so the loop is bounded by its range only
  when the end is not in the last page of the address space.\<close>

partial_function (option) unmap_range ::
  "MemPhysPage \<Rightarrow> u32 \<Rightarrow> u32 \<Rightarrow> 'a paging_state_scheme \<Rightarrow> 'a paging_state_scheme run" where
  "unmap_range pd start end s =
     (if start < end then
        (case MemIntUnmapUserPageAndFree pd start s of
           Panics \<Rightarrow> panic
         | Returns s1 \<Rightarrow> unmap_range pd (start + 4096) end s1)
      else ret s)"

definition MemRegionFreePages :: "u32 \<Rightarrow> u32 \<Rightarrow> u32 \<Rightarrow> 'a mm_state_scheme \<Rightarrow> 'a mm_state_scheme run" where
  "MemRegionFreePages region address len s =
     (let r = regionAt s region in
      if address < rstart r \<or> address \<ge> rend r then ret s
      else let endAddr = (address + len) div 4096; startAddr = (address + 4095) div 4096
        in unmap_range (physDirectory (contextAt s (myContext r))) startAddr endAddr s)"

fun find_region :: "(u32 \<Rightarrow> MemRegion) \<Rightarrow> u32 \<Rightarrow> u32 list \<Rightarrow> u32 option" where
  "find_region rs addr [] = None"
| "find_region rs addr (r # rest) =
     (if rstart (rs r) > addr then None
      else if addr < rend (rs r) then Some r
      else find_region rs addr rest)"

definition MemRegionFind :: "u32 \<Rightarrow> u32 \<Rightarrow> 'a mm_state_scheme \<Rightarrow> u32 option" where
  "MemRegionFind context addr s =
     (if context = MemKernelContext s then None
      else find_region (regionAt s) addr (ctx_regions (contextAt s context)))"

definition MemRegionIsCollision :: "MemRegion \<Rightarrow> u32 \<Rightarrow> bool" where
  "MemRegionIsCollision prev next_start \<longleftrightarrow> \<not> (next_start > rend prev \<and> rend prev \<ge> rstart prev)"

definition MemRegionCreate ::
  "u32 \<Rightarrow> u32 \<Rightarrow> u32 \<Rightarrow> MemRegionFlags \<Rightarrow> u32 \<Rightarrow> u32 \<Rightarrow> 'a mm_state_scheme \<Rightarrow> u32 option \<times> 'a mm_state_scheme" where
  "MemRegionCreate context startAddr len flags0 newRegion after s =
     (let flags = flags0 AND MEM_ALLFLAGS in
      if context = MemKernelContext s then (None, s)
      else if startAddr mod 4096 \<noteq> 0 \<or> len mod 4096 \<noteq> 0 then (None, s)
      else if startAddr + len < startAddr then (None, s)
      else if startAddr = 0 \<or> startAddr + len \<ge> 0xC0000000 then (None, s)
      else let new = \<lparr>myContext = context, rflags = flags, rstart = startAddr, rlength = len\<rparr>;
          regions = ctx_regions (contextAt s context);
          before = takeWhile (\<lambda>r. rstart (regionAt s r) \<le> startAddr) regions;
          rest = dropWhile (\<lambda>r. rstart (regionAt s r) \<le> startAddr) regions;
          nextStart = (case rest of [] \<Rightarrow> after | r # _ \<Rightarrow> rstart (regionAt s r));
          prevOverlap = (before \<noteq> [] \<and> MemRegionIsCollision (regionAt s (last before)) startAddr)
        in if regions \<noteq> [] \<and> (prevOverlap \<or> MemRegionIsCollision new nextStart)
           then (None, s\<lparr>kfreed := kfreed s @ [newRegion]\<rparr>)
           else (Some newRegion, s\<lparr>regionAt := (regionAt s)(newRegion := new),
             contextAt := (contextAt s)(context :=
               (contextAt s context)\<lparr>ctx_regions := before @ newRegion # rest\<rparr>)\<rparr>))"

fun region_after :: "u32 \<Rightarrow> u32 list \<Rightarrow> u32 option" where
  "region_after r [] = None"
| "region_after r (x # xs) = (if x = r then (case xs of [] \<Rightarrow> None | y # _ \<Rightarrow> Some y) else region_after r xs)"

definition MemRegionResize :: "u32 \<Rightarrow> u32 \<Rightarrow> 'a mm_state_scheme \<Rightarrow> 'a mm_state_scheme run" where
  "MemRegionResize region newLength s =
     (let r = regionAt s region; c = contextAt s (myContext r);
          set_length = (\<lambda>s. ret (s\<lparr>regionAt := (regionAt s)(region := (regionAt s region)\<lparr>rlength := newLength\<rparr>)\<rparr>))
      in if newLength mod 4096 \<noteq> 0 then ret s
         else if newLength < rlength r then
           seq (unmap_range (physDirectory c) (rstart r + newLength) (rend r) s) set_length
         else if rstart r + newLength < rstart r then ret s
         else if rstart r + newLength > 0xC0000000 then ret s
         else case region_after region (ctx_regions c) of
             Some n \<Rightarrow> if MemRegionIsCollision r (rstart (regionAt s n)) then ret s else set_length s
           | None \<Rightarrow> set_length s)"

definition MemRegionDelete :: "u32 \<Rightarrow> 'a mm_state_scheme \<Rightarrow> 'a mm_state_scheme run" where
  "MemRegionDelete region s =
     seq (MemRegionResize region 0 s) (\<lambda>s1.
       let c = myContext (regionAt s1 region)
       in ret (s1\<lparr>contextAt := (contextAt s1)(c := (contextAt s1 c)\<lparr>
                ctx_regions := remove1 region (ctx_regions (contextAt s1 c))\<rparr>),
              kfreed := kfreed s1 @ [region]\<rparr>))"

section \<open>Checks on user memory\<close>

text \<open>The loop of \<open>MemChecks\<close>, on the region it found and those after it.\<close>

fun check_regions :: "(u32 \<Rightarrow> MemRegion) \<Rightarrow> u32 list \<Rightarrow> u32 \<Rightarrow> u32 \<Rightarrow> MemRegionFlags \<Rightarrow> bool" where
  "check_regions rs [] addr len flagsReqd = False"
| "check_regions rs (r # rest) addr len flagsReqd =
     (if rflags (rs r) AND flagsReqd \<noteq> flagsReqd then False
      else let end = rend (rs r); lengthLeft = end - addr in
        if lengthLeft \<ge> len then True
        else case rest of [] \<Rightarrow> False
          | n # _ \<Rightarrow> if rstart (rs n) = end then False
                     else check_regions rs rest (rstart (rs n)) (len - lengthLeft) flagsReqd)"

definition MemChecks :: "u32 \<Rightarrow> u32 \<Rightarrow> u32 \<Rightarrow> MemRegionFlags \<Rightarrow> 'a mm_state_scheme \<Rightarrow> bool" where
  "MemChecks context addr len flagsReqd s =
     (if addr \<ge> 0xC0000000 then addr + len \<ge> addr
      else case MemRegionFind context addr s of
        None \<Rightarrow> False
      | Some r \<Rightarrow> check_regions (regionAt s) (dropWhile (\<lambda>x. x \<noteq> r) (ctx_regions (contextAt s context)))
          addr len flagsReqd)"

definition MemCanRead :: "u32 \<Rightarrow> u32 \<Rightarrow> u32 \<Rightarrow> 'a mm_state_scheme \<Rightarrow> bool" where
  "MemCanRead context addr len s = MemChecks context addr len MEM_READABLE s"

definition MemCanWrite :: "u32 \<Rightarrow> u32 \<Rightarrow> u32 \<Rightarrow> 'a mm_state_scheme \<Rightarrow> bool" where
  "MemCanWrite context addr len s = MemChecks context addr len MEM_WRITABLE s"

definition MemCheckUserArea :: "u32 \<Rightarrow> u32 \<Rightarrow> bool" where
  "MemCheckUserArea addr len \<longleftrightarrow> addr + len < KERNEL_VIRTUAL_BASE \<and> addr < addr + len"

definition MemCommitUserForRead :: "u32 \<Rightarrow> u32 \<Rightarrow> u32 \<Rightarrow> 'a mm_state_scheme \<Rightarrow> bool" where
  "MemCommitUserForRead context addr len s \<longleftrightarrow> MemCheckUserArea addr len \<and> MemCanRead context addr len s"

definition MemCommitUserForWrite :: "u32 \<Rightarrow> u32 \<Rightarrow> u32 \<Rightarrow> 'a mm_state_scheme \<Rightarrow> bool" where
  "MemCommitUserForWrite context addr len s \<longleftrightarrow> MemCheckUserArea addr len \<and> MemCanWrite context addr len s"

section \<open>Well-formed region lists\<close>

definition region_ok :: "MemRegion \<Rightarrow> bool" where
  "region_ok r \<longleftrightarrow> rstart r \<noteq> 0 \<and> rstart r \<le> rend r \<and> rend r \<le> 0xC0000000"

definition regions_ok :: "(u32 \<Rightarrow> MemRegion) \<Rightarrow> u32 list \<Rightarrow> bool" where
  "regions_ok rs l \<longleftrightarrow> distinct l \<and> (\<forall>r \<in> set l. region_ok (rs r)) \<and>
     sorted_wrt (\<lambda>a b. rend (rs a) < rstart (rs b)) l"

definition covers :: "MemRegion \<Rightarrow> u32 \<Rightarrow> bool" where
  "covers r addr \<longleftrightarrow> rstart r \<le> addr \<and> addr < rend r"

lemma regions_ok_Cons [inv_elims]:
  "regions_ok rs (r # l) \<longleftrightarrow> r \<notin> set l \<and> region_ok (rs r) \<and> (\<forall>x \<in> set l. rend (rs r) < rstart (rs x)) \<and> regions_ok rs l"
  by (auto simp: regions_ok_def)

lemma find_region_iff:
  "regions_ok rs l \<Longrightarrow> find_region rs addr l = Some r \<longleftrightarrow> r \<in> set l \<and> covers (rs r) addr"
proof (induction l)
  case (Cons x l)
  then have later: "\<And>y. y \<in> set l \<Longrightarrow> rend (rs x) < rstart (rs y)" and x: "region_ok (rs x)"
    and IH: "find_region rs addr l = Some r \<longleftrightarrow> r \<in> set l \<and> covers (rs r) addr" and xr: "x \<notin> set l"
    by (auto simp: regions_ok_Cons)
  have far: "\<not> covers (rs r) addr" if "r \<in> set l" "addr < rend (rs x)"
    using later [OF that(1)] that(2) by (auto simp: covers_def)
  have first: "addr < rend (rs x)" if "addr < rstart (rs x)" using that x by (auto simp: region_ok_def)
  show ?case
    using IH far first xr by (auto simp: covers_def not_less)
qed simp

lemma regions_ok_insert:
  assumes ok: "regions_ok rs (before @ rest)" and new: "region_ok (rs n)" "n \<notin> set (before @ rest)"
    and below: "before \<noteq> [] \<Longrightarrow> rend (rs (last before)) < rstart (rs n)"
    and above: "rest \<noteq> [] \<Longrightarrow> rend (rs n) < rstart (rs (hd rest))"
  shows "regions_ok rs (before @ n # rest)"
proof -
  have "rend (rs b) < rstart (rs n)" if b: "b \<in> set before" for b
  proof -
    obtain bs y where snoc: "before = bs @ [y]" using b by (cases before rule: rev_cases) auto
    show ?thesis
    proof (cases "b = y")
      case False
      then have "rend (rs b) < rstart (rs y)" using ok b snoc by (auto simp: regions_ok_def sorted_wrt_append)
      moreover have "rstart (rs y) \<le> rend (rs y)" using ok snoc by (auto simp: regions_ok_def region_ok_def)
      ultimately show ?thesis using below snoc by (auto intro: order_less_trans order_less_le_trans)
    qed (use below snoc in auto)
  qed
  moreover have "rend (rs n) < rstart (rs a)" if a: "a \<in> set rest" for a
  proof -
    obtain h t where rest: "rest = h # t" using a by (cases rest) auto
    show ?thesis
    proof (cases "a = h")
      case False
      then have "rend (rs h) < rstart (rs a)" using ok a rest by (auto simp: regions_ok_def sorted_wrt_append)
      moreover have "rstart (rs h) \<le> rend (rs h)" using ok rest by (auto simp: regions_ok_def region_ok_def)
      ultimately show ?thesis using above rest by (auto intro: order_less_trans order_less_le_trans)
    qed (use above rest in auto)
  qed
  ultimately show ?thesis using ok new by (auto simp: regions_ok_def sorted_wrt_append)
qed

lemma regions_ok_cong: "(\<And>r. r \<in> set l \<Longrightarrow> rs' r = rs r) \<Longrightarrow> regions_ok rs' l = regions_ok rs l"
  unfolding regions_ok_def by (auto simp: sorted_wrt_iff_nth_less)

section \<open>Properties\<close>

definition context_ok :: "'a mm_state_scheme \<Rightarrow> u32 \<Rightarrow> bool" where
  "context_ok s c \<longleftrightarrow> regions_ok (regionAt s) (ctx_regions (contextAt s c))"

text \<open>A context at address 5 with a region of two pages and, when its second argument allows, one behind it.\<close>

definition two_regions :: "MemRegionFlags \<Rightarrow> mm_state" where
  "two_regions flags = \<lparr>MemPageStateTable = (\<lambda>_. \<lparr>refCount = 0, slabPtr = 0\<rparr>), highestPage = 0, zones = (\<lambda>_. no_zone),
     MemPhysicalTotalPages = 0, MemPhysicalFreePages = 0, pmem = (\<lambda>_. 0), MemVirtualPageTables = (\<lambda>_. 0),
     allocData = (\<lambda>_. \<lparr>vp_allocated = False, vp_firstPage = False\<rparr>),
     regionAt = (\<lambda>r. if r = 100 then \<lparr>myContext = 5, rflags = flags, rstart = 0x2000, rlength = 0x1000\<rparr>
       else \<lparr>myContext = 5, rflags = flags, rstart = 0x5000, rlength = 0x1000\<rparr>),
     contextAt = (\<lambda>_. \<lparr>ctx_regions = [100, 101], physDirectory = 1, ctx_refCount = 1\<rparr>),
     MemCurrentContext = 5, MemKernelContext = 1, MemKernelPageDirectory = (\<lambda>_. 0), cr3 = 0, kfreed = []\<rparr>"

lemma two_regions_ok: "context_ok (two_regions flags) 5" "5 \<noteq> MemKernelContext (two_regions flags)"
  by (simp_all add: context_ok_def two_regions_def regions_ok_def region_ok_def rend_def)

text \<open>
  (C21) Lookup. In a well-formed context other than the kernel's, \<open>MemRegionFind\<close> returns a region exactly
  when one covers the address, and that region is the only one that does.
\<close>

theorem region_find_correct:
  assumes "context_ok s c" "c \<noteq> MemKernelContext s"
  shows "(MemRegionFind c addr s = Some r \<longleftrightarrow> r \<in> set (ctx_regions (contextAt s c)) \<and> covers (regionAt s r) addr) \<and>
     (MemRegionFind c addr s = None \<longleftrightarrow> (\<forall>r \<in> set (ctx_regions (contextAt s c)). \<not> covers (regionAt s r) addr))"
proof -
  let ?l = "ctx_regions (contextAt s c)"
  have find: "MemRegionFind c addr s = Some x \<longleftrightarrow> x \<in> set ?l \<and> covers (regionAt s x) addr" for x
    using assms find_region_iff [of "regionAt s" ?l addr x] by (simp add: MemRegionFind_def context_ok_def)
  then show ?thesis by (metis option.exhaust option.distinct(1))
qed

theorem region_find_correct_witness:
  "MemRegionFind 5 0x2800 (two_regions 0) = Some 100 \<and> MemRegionFind 5 0x3800 (two_regions 0) = None"
  using region_find_correct [of "two_regions 0" 5 "0x2800" 100] region_find_correct [of "two_regions 0" 5 "0x3800" 100]
    two_regions_ok [of 0]
  by (simp add: two_regions_def covers_def rend_def)

lemma find_after_insert:
  assumes "context_ok s c" "context_ok s' c" "c \<noteq> MemKernelContext s" "MemKernelContext s' = MemKernelContext s"
    and sets: "set (ctx_regions (contextAt s' c)) = insert n (set (ctx_regions (contextAt s c)))"
    and same: "\<And>x. x \<in> set (ctx_regions (contextAt s c)) \<Longrightarrow> regionAt s' x = regionAt s x"
  shows "MemRegionFind c addr s' = (if covers (regionAt s' n) addr then Some n else MemRegionFind c addr s)"
proof -
  let ?l = "ctx_regions (contextAt s c)"
  have new: "MemRegionFind c addr s' = Some x \<longleftrightarrow> x \<in> insert n (set ?l) \<and> covers (regionAt s' x) addr" for x
    using assms(2-4) find_region_iff [of "regionAt s'" _ addr x] by (simp add: MemRegionFind_def context_ok_def flip: sets)
  have old: "MemRegionFind c addr s = Some x \<longleftrightarrow> x \<in> set ?l \<and> covers (regionAt s x) addr" for x
    using assms(1,3) find_region_iff [of "regionAt s" ?l addr x] by (simp add: MemRegionFind_def context_ok_def)
  show ?thesis
  proof (cases "covers (regionAt s' n) addr")
    case False
    then have "MemRegionFind c addr s' = Some x \<longleftrightarrow> MemRegionFind c addr s = Some x" for x using old new same by auto
    then show ?thesis using False by (metis option.exhaust)
  qed (use new in auto)
qed

lemma regions_ok_place:
  assumes old: "regions_ok rs l" and new: "region_ok (rs n)" "n \<notin> set l"
    and clear: "l = [] \<or> \<not> ((takeWhile P l \<noteq> [] \<and> MemRegionIsCollision (rs (last (takeWhile P l))) (rstart (rs n))) \<or>
       MemRegionIsCollision (rs n) (case dropWhile P l of [] \<Rightarrow> after | r # _ \<Rightarrow> rstart (rs r)))"
  shows "regions_ok rs (takeWhile P l @ n # dropWhile P l)"
proof (rule regions_ok_insert)
  show "rend (rs (last (takeWhile P l))) < rstart (rs n)" if "takeWhile P l \<noteq> []"
    using that clear by (auto simp: MemRegionIsCollision_def)
  show "rend (rs n) < rstart (rs (hd (dropWhile P l)))" if "dropWhile P l \<noteq> []"
    using that clear by (auto simp: MemRegionIsCollision_def split: list.splits)
qed (use old new in simp_all)

text \<open>
  (C20) Creation keeps the address space well formed. A successful \<open>MemRegionCreate\<close> adds exactly the new
  region, page aligned, inside user space and apart from every other region of the context, and the
  list stays sorted; lookups then find the new region at its addresses and the old ones as before.
\<close>

theorem region_create_ok:
  assumes "context_ok s c" "n \<notin> set (ctx_regions (contextAt s c))"
    and "MemRegionCreate c start len flags n after s = (Some r, s')"
  shows "r = n \<and> context_ok s' c \<and> start mod 4096 = 0 \<and> len mod 4096 = 0 \<and>
     set (ctx_regions (contextAt s' c)) = insert n (set (ctx_regions (contextAt s c))) \<and>
     regionAt s' n = \<lparr>myContext = c, rflags = flags AND MEM_ALLFLAGS, rstart = start, rlength = len\<rparr> \<and>
     (\<forall>addr. MemRegionFind c addr s' =
        (if covers (regionAt s' n) addr then Some n else MemRegionFind c addr s))"
proof -
  let ?l = "ctx_regions (contextAt s c)" and ?P = "\<lambda>r. rstart (regionAt s r) \<le> start"
  let ?new = "\<lparr>myContext = c, rflags = flags AND MEM_ALLFLAGS, rstart = start, rlength = len\<rparr>"
  have s': "r = n" "s' = s\<lparr>regionAt := (regionAt s)(n := ?new), contextAt := (contextAt s)(c :=
        (contextAt s c)\<lparr>ctx_regions := takeWhile ?P ?l @ n # dropWhile ?P ?l\<rparr>)\<rparr>"
    and kernel: "c \<noteq> MemKernelContext s" and aligned: "start mod 4096 = 0" "len mod 4096 = 0"
    and range: "start \<noteq> 0" "start \<le> start + len" "start + len < 0xC0000000"
    and clear: "?l = [] \<or> \<not> ((takeWhile ?P ?l \<noteq> [] \<and> MemRegionIsCollision (regionAt s (last (takeWhile ?P ?l))) start) \<or>
       MemRegionIsCollision ?new (case dropWhile ?P ?l of [] \<Rightarrow> after | r # _ \<Rightarrow> rstart (regionAt s r)))"
    using assms(3) by (auto simp: MemRegionCreate_def Let_def not_less not_le split: if_splits)
  let ?rs = "regionAt s'"
  have rs: "?rs n = ?new" "\<And>x. x \<in> set ?l \<Longrightarrow> ?rs x = regionAt s x" using assms(2) s'(2) by auto
  have seen: "?rs x = regionAt s x" if "x \<in> set (takeWhile ?P ?l) \<union> set (dropWhile ?P ?l)" for x
    using that by (intro rs(2)) (auto dest: set_takeWhileD set_dropWhileD)
  have old: "regions_ok ?rs ?l" using assms(1) regions_ok_cong [of ?l ?rs "regionAt s"] rs(2) by (simp add: context_ok_def)
  have "regions_ok ?rs (takeWhile ?P ?l @ n # dropWhile ?P ?l)"
  proof (rule regions_ok_place [OF old _ assms(2), where after = after])
    show "region_ok (?rs n)" using range rs(1) by (simp add: region_ok_def rend_def)
    have "takeWhile ?P ?l \<noteq> [] \<Longrightarrow> ?rs (last (takeWhile ?P ?l)) = regionAt s (last (takeWhile ?P ?l))"
      by (rule seen) simp
    moreover have "(case dropWhile ?P ?l of [] \<Rightarrow> after | r # _ \<Rightarrow> rstart (?rs r)) = (case dropWhile ?P ?l of [] \<Rightarrow> after | r # _ \<Rightarrow> rstart (regionAt s r))"
      by (cases "dropWhile ?P ?l") (simp_all add: seen del: dropWhile_eq_Nil_conv)
    ultimately show "?l = [] \<or> \<not> ((takeWhile ?P ?l \<noteq> [] \<and> MemRegionIsCollision (?rs (last (takeWhile ?P ?l))) (rstart (?rs n))) \<or>
       MemRegionIsCollision (?rs n) (case dropWhile ?P ?l of [] \<Rightarrow> after | r # _ \<Rightarrow> rstart (?rs r)))"
      using clear rs(1) by auto
  qed
  moreover have l': "ctx_regions (contextAt s' c) = takeWhile ?P ?l @ n # dropWhile ?P ?l" using s'(2) by simp
  ultimately have ok': "context_ok s' c" by (simp add: context_ok_def)
  have set': "set (ctx_regions (contextAt s' c)) = insert n (set ?l)"
    unfolding l' by (metis (no_types) Un_insert_right list.simps(15) set_append takeWhile_dropWhile_id)
  have "MemRegionFind c addr s' = (if covers (?rs n) addr then Some n else MemRegionFind c addr s)" for addr
    by (rule find_after_insert [OF assms(1) ok' kernel _ set' rs(2)]) (simp add: s'(2))
  then show ?thesis using s'(1) ok' aligned set' rs(1) by simp
qed

theorem region_create_ok_witness:
  "\<exists>s'. MemRegionCreate 5 0x8000 0x1000 3 102 0xFFFF0000 (two_regions 3) = (Some 102, s') \<and> context_ok s' 5"
proof -
  let ?r = "MemRegionCreate 5 0x8000 0x1000 3 102 0xFFFF0000 (two_regions 3)"
  have "fst ?r = Some 102"
    by (simp add: MemRegionCreate_def two_regions_def Let_def MemRegionIsCollision_def rend_def)
  then have r: "?r = (Some 102, snd ?r)" by (simp add: prod_eq_iff)
  have "102 \<notin> set (ctx_regions (contextAt (two_regions 3) 5))" by (simp add: two_regions_def)
  from region_create_ok [OF two_regions_ok(1) this r] r show ?thesis by blast
qed

text \<open>
  Appending a region. When the new region lies behind all the others, \<open>MemRegionCreate\<close> compares it
  with a region that does not exist, whose start is the word after the context in memory: the request
  succeeds or is refused as overlapping according to that word alone.
\<close>

theorem region_append_depends:
  assumes "c \<noteq> MemKernelContext s" "start mod 4096 = 0" "len mod 4096 = 0" "start \<noteq> 0"
    and "start \<le> start + len" "start + len < 0xC0000000" "ctx_regions (contextAt s c) \<noteq> []"
    and "\<forall>r \<in> set (ctx_regions (contextAt s c)). region_ok (regionAt s r) \<and> rend (regionAt s r) < start"
  shows "fst (MemRegionCreate c start len flags n after s) = (if after > start + len then Some n else None)"
proof -
  let ?l = "ctx_regions (contextAt s c)"
  have le: "\<forall>r \<in> set ?l. rstart (regionAt s r) \<le> start"
    using assms(8) by (auto simp: region_ok_def intro: order_trans [OF _ less_imp_le])
  then have t: "takeWhile (\<lambda>r. rstart (regionAt s r) \<le> start) ?l = ?l" by (simp add: takeWhile_eq_all_conv)
  have d: "dropWhile (\<lambda>r. rstart (regionAt s r) \<le> start) ?l = []" using le by (simp add: dropWhile_eq_Nil_conv)
  have "last ?l \<in> set ?l" using assms(7) by simp
  then have "\<not> MemRegionIsCollision (regionAt s (last ?l)) start"
    using assms(8) by (simp add: MemRegionIsCollision_def region_ok_def)
  then show ?thesis using assms(1-7) unfolding MemRegionCreate_def Let_def t d
    by (auto simp: MemRegionIsCollision_def rend_def)
qed

theorem region_append_depends_witness:
  "fst (MemRegionCreate 5 0x8000 0x1000 3 102 0x100 (two_regions 3)) = None"
  using region_append_depends [of 5 "two_regions 3" "0x8000" "0x1000" 3 102 "0x100"]
  by (simp add: two_regions_def region_ok_def rend_def)

text \<open>
  Growing a region. \<open>MemRegionResize\<close> tests the collision with the next region before the length is
  changed, with the old length: growing the first region of a well-formed context by four pages over
  its neighbour is accepted, and the context is no longer well formed.
\<close>

theorem region_resize_overlaps:
  "context_ok (two_regions 3) 5 \<and>
   (\<exists>s'. MemRegionResize 100 0x5000 (two_regions 3) = ret s' \<and> rlength (regionAt s' 100) = 0x5000 \<and>
      covers (regionAt s' 100) 0x5800 \<and> covers (regionAt s' 101) 0x5800 \<and> \<not> context_ok s' 5)"
proof -
  let ?s' = "(two_regions 3)\<lparr>regionAt := (regionAt (two_regions 3))(100 := (regionAt (two_regions 3) 100)\<lparr>rlength := 0x5000\<rparr>)\<rparr>"
  have "MemRegionResize 100 0x5000 (two_regions 3) = ret ?s'"
    by (simp add: MemRegionResize_def two_regions_def MemRegionIsCollision_def rend_def Let_def)
  moreover have "rlength (regionAt ?s' 100) = 0x5000 \<and> covers (regionAt ?s' 100) 0x5800 \<and>
      covers (regionAt ?s' 101) 0x5800 \<and> \<not> context_ok ?s' 5"
    by (simp add: two_regions_def covers_def rend_def context_ok_def regions_ok_def)
  ultimately show ?thesis using two_regions_ok(1) by blast
qed

text \<open>
  Access checks inside one region. For an address and length that a region of a well-formed user
  context covers completely, \<open>MemChecks\<close> answers whether the region has the required flags.
\<close>

theorem mem_checks_in_region:
  assumes "context_ok s c" "c \<noteq> MemKernelContext s" "r \<in> set (ctx_regions (contextAt s c))"
    and "covers (regionAt s r) addr" "len \<le> rend (regionAt s r) - addr" "addr < 0xC0000000"
  shows "MemChecks c addr len flags s \<longleftrightarrow> rflags (regionAt s r) AND flags = flags"
proof -
  let ?l = "ctx_regions (contextAt s c)"
  have "MemRegionFind c addr s = Some r"
    using assms(1-4) find_region_iff [of "regionAt s" ?l addr r] by (simp add: MemRegionFind_def context_ok_def)
  moreover have "\<exists>rest. dropWhile (\<lambda>x. x \<noteq> r) ?l = r # rest"
    using assms(3) by (metis (mono_tags, lifting) dropWhile_eq_Nil_conv hd_dropWhile list.exhaust_sel)
  ultimately show ?thesis using assms(5,6) by (auto simp: MemChecks_def Let_def not_le split: if_splits)
qed

theorem mem_checks_in_region_witness: "MemChecks 5 0x2100 0x200 MEM_WRITABLE (two_regions 3) = True"
  using mem_checks_in_region [OF two_regions_ok(1), of 3 100 "0x2100" "0x200" MEM_WRITABLE]
  by (simp add: two_regions_def covers_def rend_def MEM_WRITABLE_def)

text \<open>
  Access checks across regions. The test for continuous regions in \<open>MemChecks\<close> is the wrong way
  round: a buffer that starts in one region and ends in the next is accepted exactly when there is a
  hole between the two. Here the three pages from \<open>0x3000\<close> to \<open>0x5000\<close> are covered by no region, and
  a write of \<open>0x1100\<close> bytes that runs into them is allowed.
\<close>

theorem mem_checks_accepts_hole:
  "context_ok (two_regions 3) 5 \<and> MemCommitUserForWrite 5 0x2800 0x1100 (two_regions 3) \<and>
   MemRegionFind 5 0x3000 (two_regions 3) = None"
proof -
  have "MemCommitUserForWrite 5 0x2800 0x1100 (two_regions 3) \<and> MemRegionFind 5 0x3000 (two_regions 3) = None"
    by (simp add: MemCommitUserForWrite_def MemCheckUserArea_def KERNEL_VIRTUAL_BASE_def MemCanWrite_def
        MemChecks_def MemRegionFind_def two_regions_def rend_def MEM_WRITABLE_def Let_def)
  then show ?thesis using two_regions_ok(1) by blast
qed

end
