(* ===== verification/Io_Mode.thy ===== *)
theory Io_Mode
  imports Prelude
begin

text \<open>
  File modes and access checks: \<open>kernel/src/io/mode.c\<close>, \<open>kernel/include/io/mode.h\<close> and
  \<open>kernel/include/secContext.h\<close>.

  A mode is an \<open>unsigned short\<close>. The C function returns \<open>mode & ...\<close> as a \<open>bool\<close>, that is, whether any of
  the tested bits is set.
\<close>

section \<open>Modes and security contexts\<close>

type_synonym IoMode = u16

definition IO_DIR :: IoMode where "IO_DIR = 0x4000"
definition IO_REGULAR :: IoMode where "IO_REGULAR = 0x8000"
definition IO_DEV_CHAR :: IoMode where "IO_DEV_CHAR = 0x2000"
definition IO_DEV_BLOCK :: IoMode where "IO_DEV_BLOCK = 0x6000"
definition IO_FIFO :: IoMode where "IO_FIFO = 0x1000"
definition IO_SYMLINK :: IoMode where "IO_SYMLINK = 0xA000"
definition IO_SOCKET :: IoMode where "IO_SOCKET = 0xC000"
definition IO_ALL_TYPES :: IoMode where "IO_ALL_TYPES = 0xF000"

definition IO_ISDIR :: "IoMode \<Rightarrow> bool" where "IO_ISDIR mode \<longleftrightarrow> mode AND IO_ALL_TYPES = IO_DIR"
definition IO_ISREGULAR :: "IoMode \<Rightarrow> bool" where "IO_ISREGULAR mode \<longleftrightarrow> mode AND IO_ALL_TYPES = IO_REGULAR"
definition IO_ISCHAR :: "IoMode \<Rightarrow> bool" where "IO_ISCHAR mode \<longleftrightarrow> mode AND IO_ALL_TYPES = IO_DEV_CHAR"
definition IO_ISBLOCK :: "IoMode \<Rightarrow> bool" where "IO_ISBLOCK mode \<longleftrightarrow> mode AND IO_ALL_TYPES = IO_DEV_BLOCK"
definition IO_ISFIFO :: "IoMode \<Rightarrow> bool" where "IO_ISFIFO mode \<longleftrightarrow> mode AND IO_ALL_TYPES = IO_FIFO"
definition IO_ISSYMLINK :: "IoMode \<Rightarrow> bool" where "IO_ISSYMLINK mode \<longleftrightarrow> mode AND IO_ALL_TYPES = IO_SYMLINK"
definition IO_ISSOCKET :: "IoMode \<Rightarrow> bool" where "IO_ISSOCKET mode \<longleftrightarrow> mode AND IO_ALL_TYPES = IO_SOCKET"

definition IO_OWNER_ALL :: IoMode where "IO_OWNER_ALL = 0x1C0"
definition IO_GROUP_ALL :: IoMode where "IO_GROUP_ALL = 0x38"
definition IO_WORLD_ALL :: IoMode where "IO_WORLD_ALL = 7"
definition IO_WORLD_READ :: IoMode where "IO_WORLD_READ = 4"
definition IO_WORLD_WRITE :: IoMode where "IO_WORLD_WRITE = 2"
definition IO_WORLD_EXEC :: IoMode where "IO_WORLD_EXEC = 1"

record SecContext =
  ruid :: u32
  euid :: u32
  suid :: u32
  rgid :: u32
  egid :: u32
  sgid :: u32

definition SecContextIsRoot :: "SecContext \<Rightarrow> bool" where
  "SecContextIsRoot c \<longleftrightarrow> euid c = 0"

definition IoModeCanAccess :: "IoMode \<Rightarrow> IoMode \<Rightarrow> u32 \<Rightarrow> u32 \<Rightarrow> SecContext \<Rightarrow> bool" where
  "IoModeCanAccess accessMode mode uid gid sc =
     (if euid sc = 0 then True
      else if euid sc = uid then mode AND accessMode \<noteq> 0
      else if egid sc = gid then mode AND push_bit 3 accessMode \<noteq> 0
      else mode AND push_bit 6 accessMode \<noteq> 0)"

record IoINode =
  in_number :: u32
  in_fs :: u32
  in_ops :: u32
  in_mode :: IoMode
  in_uid :: u32
  in_gid :: u32
  in_size :: u64

definition IoModeCanAccessINode :: "IoMode \<Rightarrow> IoINode \<Rightarrow> SecContext \<Rightarrow> bool" where
  "IoModeCanAccessINode accessMode iNode sc = IoModeCanAccess accessMode (in_mode iNode) (in_uid iNode) (in_gid iNode) sc"

section \<open>Properties\<close>

text \<open>
  The nine permission bits as \<open>mode.h\<close> names them: owner at bits 8 to 6, group at 5 to 3, world at 2 to 0,
  each read, write, execute from the top.
\<close>

datatype permission = MayRead | MayWrite | MayExec

fun world_bit :: "permission \<Rightarrow> nat" where
  "world_bit MayRead = 2"
| "world_bit MayWrite = 1"
| "world_bit MayExec = 0"

definition world_may :: "permission \<Rightarrow> IoMode \<Rightarrow> bool" where "world_may p mode \<longleftrightarrow> bit mode (world_bit p)"
definition group_may :: "permission \<Rightarrow> IoMode \<Rightarrow> bool" where "group_may p mode \<longleftrightarrow> bit mode (world_bit p + 3)"
definition owner_may :: "permission \<Rightarrow> IoMode \<Rightarrow> bool" where "owner_may p mode \<longleftrightarrow> bit mode (world_bit p + 6)"

text \<open>The access mode that asks for a set of permissions, with the \<open>IO_WORLD_\<close> bits as \<open>mode.h\<close> requires.\<close>

definition access_mode :: "permission set \<Rightarrow> IoMode" where
  "access_mode P = (if MayRead \<in> P then IO_WORLD_READ else 0) OR (if MayWrite \<in> P then IO_WORLD_WRITE else 0)
     OR (if MayExec \<in> P then IO_WORLD_EXEC else 0)"

lemma and_push_bit_iff:
  fixes a m :: u16
  shows "m AND push_bit n a \<noteq> 0 \<longleftrightarrow> (\<exists>k < 16. n \<le> k \<and> bit m k \<and> bit a (k - n))"
  by (auto simp: bit_eq_iff bit_and_iff bit_push_bit_iff)

lemma bit_world_bits [simp]:
  "bit IO_WORLD_READ k \<longleftrightarrow> k = 2" "bit IO_WORLD_WRITE k \<longleftrightarrow> k = 1" "bit IO_WORLD_EXEC k \<longleftrightarrow> k = 0"
  using bit_exp_iff [of 2 k, where ?'a = u16] bit_exp_iff [of 1 k, where ?'a = u16] bit_exp_iff [of 0 k, where ?'a = u16]
  by (auto simp: IO_WORLD_READ_def IO_WORLD_WRITE_def IO_WORLD_EXEC_def possible_bit_def)

lemma bit_access_mode: "bit (access_mode P) k \<longleftrightarrow> (\<exists>p \<in> P. k = world_bit p)"
proof -
  have "(\<exists>p \<in> P. k = world_bit p) \<longleftrightarrow> MayRead \<in> P \<and> k = 2 \<or> MayWrite \<in> P \<and> k = 1 \<or> MayExec \<in> P \<and> k = 0"
  proof
    assume "\<exists>p \<in> P. k = world_bit p"
    then obtain p where "p \<in> P" "k = world_bit p" ..
    then show "MayRead \<in> P \<and> k = 2 \<or> MayWrite \<in> P \<and> k = 1 \<or> MayExec \<in> P \<and> k = 0" by (cases p) auto
  qed (auto intro: bexI [of _ MayRead] bexI [of _ MayWrite] bexI [of _ MayExec])
  then show ?thesis by (auto simp: access_mode_def bit_or_iff)
qed

lemma access_bits:
  assumes "n \<le> 6"
  shows "mode AND push_bit n (access_mode P) \<noteq> 0 \<longleftrightarrow> (\<exists>p \<in> P. bit mode (world_bit p + n))"
proof -
  have lt: "world_bit p + n < 16" for p using assms by (cases p) auto
  have "(\<exists>k < 16. n \<le> k \<and> bit mode k \<and> (\<exists>p \<in> P. k - n = world_bit p)) \<longleftrightarrow> (\<exists>p \<in> P. bit mode (world_bit p + n))"
  proof
    assume "\<exists>p \<in> P. bit mode (world_bit p + n)"
    then obtain p where "p \<in> P" "bit mode (world_bit p + n)" ..
    then show "\<exists>k < 16. n \<le> k \<and> bit mode k \<and> (\<exists>p \<in> P. k - n = world_bit p)"
      using lt [of p] by (intro exI [of _ "world_bit p + n"]) auto
  qed (metis le_add_diff_inverse2)
  then show ?thesis by (simp add: and_push_bit_iff bit_access_mode)
qed

text \<open>
  Access checks. Asked for a set of permissions, \<open>IoModeCanAccess\<close> grants root everything; it tests
  the permissions of the file's owner against the bits of the rest of the world, and everyone else's
  against the bits of the owner, and one granted permission of the set is enough. A private file (mode
  0700) is closed to its owner and open to strangers.
\<close>

theorem mode_access_reversed:
  "IoModeCanAccess (access_mode P) mode uid gid sc \<longleftrightarrow>
     euid sc = 0 \<or>
     (if euid sc = uid then \<exists>p \<in> P. world_may p mode
      else if egid sc = gid then \<exists>p \<in> P. group_may p mode
      else \<exists>p \<in> P. owner_may p mode)"
  using access_bits [of 0 mode P] access_bits [of 3 mode P] access_bits [of 6 mode P]
  by (simp add: IoModeCanAccess_def world_may_def group_may_def owner_may_def)

end
