(* ===== verification/Io_Context.thy ===== *)
theory Io_Context
  imports Io_Mode Mem_Utils
begin

text \<open>
  I/O contexts, file descriptors and the operations on open files: \<open>kernel/src/io/iocontext.c\<close> and
  \<open>kernel/include/io/iocontext.h\<close>.

  Open files and contexts are records at addresses, with 0 for \<open>NULL\<close>; new addresses come from \<open>MemKAlloc\<close>
  and are arguments, and what is given to \<open>MemKFree\<close> is recorded in \<open>io_kfreed\<close>. A file's operations are
  function pointers of its file system: \<open>ops\<close> gives the operation table at an address, each entry either
  absent or a function that may change the state. The user memory checks are the arguments \<open>canRead\<close> and
  \<open>canWrite\<close>, which theory \<open>Region\<close> provides.
\<close>

section \<open>State\<close>

definition IO_MAX_OPEN_FILES :: nat where "IO_MAX_OPEN_FILES = 1024"

definition IO_O_RDONLY :: u32 where "IO_O_RDONLY = 0x01"
definition IO_O_WRONLY :: u32 where "IO_O_WRONLY = 0x02"
definition IO_O_RDWR :: u32 where "IO_O_RDWR = IO_O_RDONLY OR IO_O_WRONLY"
definition IO_O_CREAT :: u32 where "IO_O_CREAT = 0x04"
definition IO_O_TRUNC :: u32 where "IO_O_TRUNC = 0x08"
definition IO_O_APPEND :: u32 where "IO_O_APPEND = 0x10"
definition IO_O_EXCL :: u32 where "IO_O_EXCL = 0x20"
definition IO_O_CLOEXEC :: u32 where "IO_O_CLOEXEC = 0x40"
definition IO_O_DIRECTORY :: u32 where "IO_O_DIRECTORY = 0x80"
definition IO_O_ALLFLAGS :: u32 where "IO_O_ALLFLAGS = 0xFF"
definition IO_O_FDRESERVED :: u8 where "IO_O_FDRESERVED = 0x01"
definition IO_DUP_AT_LEAST :: u32 where "IO_DUP_AT_LEAST = 1"
definition IO_DUP_IGNORE_SAME :: u32 where "IO_DUP_IGNORE_SAME = 2"

record IoFile =
  f_refCount :: u32
  f_off :: u32
  f_flags :: u32
  f_fs :: u32
  f_iNode :: u32
  f_fsData :: u32
  f_ops :: u32

record IoContext =
  c_files :: "nat \<Rightarrow> u32"
  c_descriptorFlags :: "nat \<Rightarrow> u8"
  c_nextFreeFile :: int
  c_cdirFs :: u32
  c_cdirINode :: u32
  c_refCount :: u32

record io_state =
  fileAt :: "u32 \<Rightarrow> IoFile"
  ioContextAt :: "u32 \<Rightarrow> IoContext"
  io_kfreed :: "u32 list"

text \<open>The argument \<open>buf\<close> of \<open>readdir\<close>, with the memory that the entries are written to.\<close>

record ReadDirFillerBuf =
  rd_nextEntry :: u32
  rd_count :: u32
  rd_mem :: mem

type_synonym IoDirectoryFiller = "ReadDirFillerBuf \<Rightarrow> u32 \<Rightarrow> u32 \<Rightarrow> int \<Rightarrow> int \<times> ReadDirFillerBuf"

record 's IoFileOps =
  op_open :: "(IoINode \<Rightarrow> u32 \<Rightarrow> 's \<Rightarrow> int \<times> 's) option"
  op_close :: "(u32 \<Rightarrow> 's \<Rightarrow> int \<times> 's) option"
  op_read :: "(u32 \<Rightarrow> u32 \<Rightarrow> u32 \<Rightarrow> 's \<Rightarrow> int \<times> 's) option"
  op_write :: "(u32 \<Rightarrow> u32 \<Rightarrow> u32 \<Rightarrow> 's \<Rightarrow> int \<times> 's) option"
  op_truncate :: "(u32 \<Rightarrow> u64 \<Rightarrow> 's \<Rightarrow> int \<times> 's) option"
  op_ioctl :: "(u32 \<Rightarrow> int \<Rightarrow> u32 \<Rightarrow> 's \<Rightarrow> int \<times> 's) option"
  op_readdir :: "(u32 \<Rightarrow> IoDirectoryFiller \<Rightarrow> int \<Rightarrow> ReadDirFillerBuf \<Rightarrow> 's \<Rightarrow> int \<times> ReadDirFillerBuf \<times> 's) option"

definition upd_file :: "u32 \<Rightarrow> (IoFile \<Rightarrow> IoFile) \<Rightarrow> 'a io_state_scheme \<Rightarrow> 'a io_state_scheme" where
  "upd_file f g s = s\<lparr>fileAt := (fileAt s)(f := g (fileAt s f))\<rparr>"

definition upd_ctx :: "u32 \<Rightarrow> (IoContext \<Rightarrow> IoContext) \<Rightarrow> 'a io_state_scheme \<Rightarrow> 'a io_state_scheme" where
  "upd_ctx c g s = s\<lparr>ioContextAt := (ioContextAt s)(c := g (ioContextAt s c))\<rparr>"

section \<open>Descriptors\<close>

definition IoGetFileWithContext :: "u32 \<Rightarrow> int \<Rightarrow> 'a io_state_scheme \<Rightarrow> u32" where
  "IoGetFileWithContext context fd s =
     (if 0 \<le> fd \<and> fd < int IO_MAX_OPEN_FILES then c_files (ioContextAt s context) (nat fd) else 0)"

text \<open>\<open>current\<close> is \<open>ProcCurrProcess->ioContext\<close>.\<close>

definition IoGetFile :: "u32 \<Rightarrow> int \<Rightarrow> 'a io_state_scheme \<Rightarrow> u32" where
  "IoGetFile current fd s =
     (if 0 \<le> fd \<and> fd < int IO_MAX_OPEN_FILES \<and> current \<noteq> 0 then c_files (ioContextAt s current) (nat fd) else 0)"

text \<open>The macro \<open>IO_GET_FILE\<close> takes a reference when the file exists; its early return is the caller's.\<close>

definition IO_GET_FILE :: "u32 \<Rightarrow> int \<Rightarrow> 'a io_state_scheme \<Rightarrow> (u32 \<times> 'a io_state_scheme) option" where
  "IO_GET_FILE context fd s =
     (let file = IoGetFileWithContext context fd s in
      if file = 0 then None else Some (file, upd_file file (f_refCount_update (\<lambda>n. n + 1)) s))"

definition IoReleaseFile ::
  "(u32 \<Rightarrow> 'a io_state_scheme IoFileOps) \<Rightarrow> u32 \<Rightarrow> u32 \<Rightarrow> int \<Rightarrow> 'a io_state_scheme \<Rightarrow> int \<times> 'a io_state_scheme" where
  "IoReleaseFile ops file context fd s =
     (if f_refCount (fileAt s file) \<le> 1 then
        (let (res, s1) = (case op_close (ops (f_ops (fileAt s file))) of None \<Rightarrow> (0, s) | Some close \<Rightarrow> close file s) in
         if res \<noteq> 0 then (res, s1)
         else if c_files (ioContextAt s1 context) (nat fd) = file then
           (0, upd_ctx context (\<lambda>c. c\<lparr>c_files := (c_files c)(nat fd := 0),
                 c_nextFreeFile := (if c_nextFreeFile c < fd then fd else c_nextFreeFile c)\<rparr>)
               (s1\<lparr>io_kfreed := io_kfreed s1 @ [file]\<rparr>))
         else (0, s1))
      else (0, upd_file file (f_refCount_update (\<lambda>n. n - 1)) s))"

function find_descriptor :: "IoContext \<Rightarrow> int \<Rightarrow> int" where
  "find_descriptor c i =
     (if i \<ge> int IO_MAX_OPEN_FILES then -1
      else if c_files c (nat i) = 0 \<and> c_descriptorFlags c (nat i) AND IO_O_FDRESERVED = 0 then i
      else find_descriptor c (i + 1))"
  by auto
termination by (relation "measure (\<lambda>(c, i). nat (int IO_MAX_OPEN_FILES - i))") auto

declare find_descriptor.simps [simp del]

definition IoFindNextDescriptor :: "u32 \<Rightarrow> int \<Rightarrow> 'a io_state_scheme \<Rightarrow> int" where
  "IoFindNextDescriptor context fd s =
     (let c = ioContextAt s context; start = (if fd > c_nextFreeFile c then fd else c_nextFreeFile c)
      in find_descriptor c start)"

section \<open>Contexts\<close>

text \<open>\<open>root\<close> is \<open>IoFilesystemRoot\<close> and \<open>rootINode\<close> its field.\<close>

definition IoContextCreate :: "u32 \<Rightarrow> u32 \<Rightarrow> u32 \<Rightarrow> 'a io_state_scheme \<Rightarrow> u32 \<times> 'a io_state_scheme" where
  "IoContextCreate root rootINode context s =
     (if root = 0 then (0, s)
      else (context, s\<lparr>ioContextAt := (ioContextAt s)(context :=
             \<lparr>c_files = (\<lambda>_. 0), c_descriptorFlags = (\<lambda>_. 0), c_nextFreeFile = 0, c_cdirFs = root,
              c_cdirINode = rootINode, c_refCount = 1\<rparr>)\<rparr>))"

fun add_file_refs :: "u32 \<Rightarrow> nat list \<Rightarrow> 'a io_state_scheme \<Rightarrow> 'a io_state_scheme" where
  "add_file_refs context [] s = s"
| "add_file_refs context (i # rest) s =
     (let file = c_files (ioContextAt s context) i in
      add_file_refs context rest (if file \<noteq> 0 then upd_file file (f_refCount_update (\<lambda>n. n + 1)) s else s))"

definition IoContextClone :: "u32 \<Rightarrow> u32 \<Rightarrow> 'a io_state_scheme \<Rightarrow> u32 \<times> 'a io_state_scheme" where
  "IoContextClone context newContext s =
     (newContext, add_file_refs newContext [0..<IO_MAX_OPEN_FILES]
        (s\<lparr>ioContextAt := (ioContextAt s)(newContext := (ioContextAt s context)\<lparr>c_refCount := 1\<rparr>)\<rparr>))"

definition IoContextAddReference :: "u32 \<Rightarrow> 'a io_state_scheme \<Rightarrow> 'a io_state_scheme" where
  "IoContextAddReference context s = upd_ctx context (c_refCount_update (\<lambda>n. n + 1)) s"

fun release_files ::
  "(u32 \<Rightarrow> 'a io_state_scheme IoFileOps) \<Rightarrow> u32 \<Rightarrow> nat list \<Rightarrow> 'a io_state_scheme \<Rightarrow> 'a io_state_scheme" where
  "release_files ops context [] s = s"
| "release_files ops context (i # rest) s =
     (let file = c_files (ioContextAt s context) i in
      release_files ops context rest
        (if file \<noteq> 0 then snd (IoReleaseFile ops file context (int i) s) else s))"

definition IoContextDeleteReference ::
  "(u32 \<Rightarrow> 'a io_state_scheme IoFileOps) \<Rightarrow> u32 \<Rightarrow> 'a io_state_scheme \<Rightarrow> 'a io_state_scheme" where
  "IoContextDeleteReference ops context s =
     (if c_refCount (ioContextAt s context) \<le> 1 then
        (let s1 = release_files ops context [0..<IO_MAX_OPEN_FILES] s
         in s1\<lparr>io_kfreed := io_kfreed s1 @ [context]\<rparr>)
      else upd_ctx context (c_refCount_update (\<lambda>n. n - 1)) s)"

section \<open>Operations on descriptors\<close>

definition IoClose ::
  "(u32 \<Rightarrow> 'a io_state_scheme IoFileOps) \<Rightarrow> u32 \<Rightarrow> int \<Rightarrow> 'a io_state_scheme \<Rightarrow> int \<times> 'a io_state_scheme" where
  "IoClose ops context fd s =
     (case IO_GET_FILE context fd s of None \<Rightarrow> (- EBADF, s)
      | Some (file, s1) \<Rightarrow> IoReleaseFile ops file context fd (upd_file file (f_refCount_update (\<lambda>n. n - 1)) s1))"

fun close_for_exec ::
  "(u32 \<Rightarrow> 'a io_state_scheme IoFileOps) \<Rightarrow> u32 \<Rightarrow> nat list \<Rightarrow> 'a io_state_scheme \<Rightarrow> 'a io_state_scheme" where
  "close_for_exec ops context [] s = s"
| "close_for_exec ops context (i # rest) s =
     (let c = ioContextAt s context in
      close_for_exec ops context rest
        (if c_files c i \<noteq> 0 \<and> ucast (c_descriptorFlags c i) AND IO_O_CLOEXEC \<noteq> 0
         then snd (IoClose ops context (int i) s) else s))"

definition IoCloseForExec ::
  "(u32 \<Rightarrow> 'a io_state_scheme IoFileOps) \<Rightarrow> u32 \<Rightarrow> 'a io_state_scheme \<Rightarrow> 'a io_state_scheme" where
  "IoCloseForExec ops context s = close_for_exec ops context [0..<IO_MAX_OPEN_FILES] s"

definition IoRead ::
  "(u32 \<Rightarrow> 'a io_state_scheme IoFileOps) \<Rightarrow> (u32 \<Rightarrow> u32 \<Rightarrow> bool) \<Rightarrow> u32 \<Rightarrow> int \<Rightarrow> u32 \<Rightarrow> u32 \<Rightarrow> 'a io_state_scheme
     \<Rightarrow> int \<times> 'a io_state_scheme" where
  "IoRead ops canRead context fd buffer cnt s =
     (case IO_GET_FILE context fd s of None \<Rightarrow> (- EBADF, s)
      | Some (file, s1) \<Rightarrow>
         (let f = fileAt s1 file;
              (res, s2) =
                (if f_flags f AND IO_O_RDONLY = 0 then (- EBADF, s1)
                 else if f_flags f AND IO_O_DIRECTORY \<noteq> 0 then (- EISDIR, s1)
                 else if \<not> canRead buffer cnt then (- EFAULT, s1)
                 else case op_read (ops (f_ops f)) of None \<Rightarrow> (- ENOSYS, s1)
                   | Some rd \<Rightarrow> (let (r, s') = rd file buffer cnt s1
                                 in (r, if r > 0 then upd_file file (f_off_update (\<lambda>n. n + of_int r)) s' else s')))
          in (res, snd (IoReleaseFile ops file context fd s2))))"

definition IoWrite ::
  "(u32 \<Rightarrow> 'a io_state_scheme IoFileOps) \<Rightarrow> (u32 \<Rightarrow> u32 \<Rightarrow> bool) \<Rightarrow> u32 \<Rightarrow> int \<Rightarrow> u32 \<Rightarrow> u32 \<Rightarrow> 'a io_state_scheme
     \<Rightarrow> int \<times> 'a io_state_scheme" where
  "IoWrite ops canWrite context fd buffer cnt s =
     (case IO_GET_FILE context fd s of None \<Rightarrow> (- EBADF, s)
      | Some (file, s1) \<Rightarrow>
         (let f = fileAt s1 file;
              (res, s2) =
                (if f_flags f AND IO_O_WRONLY = 0 then (- EBADF, s1)
                 else if f_flags f AND IO_O_DIRECTORY \<noteq> 0 then (- EISDIR, s1)
                 else if \<not> canWrite buffer cnt then (- EFAULT, s1)
                 else case op_write (ops (f_ops f)) of None \<Rightarrow> (- ENOSYS, s1)
                   | Some wr \<Rightarrow> (let (r, s') = wr file buffer cnt s1
                                 in (r, if r > 0 then upd_file file (f_off_update (\<lambda>n. n + of_int r)) s' else s')))
          in (res, snd (IoReleaseFile ops file context fd s2))))"

definition IoIoctl ::
  "(u32 \<Rightarrow> 'a io_state_scheme IoFileOps) \<Rightarrow> u32 \<Rightarrow> int \<Rightarrow> int \<Rightarrow> u32 \<Rightarrow> 'a io_state_scheme \<Rightarrow> int \<times> 'a io_state_scheme" where
  "IoIoctl ops context fd request data s =
     (case IO_GET_FILE context fd s of None \<Rightarrow> (- EBADF, s)
      | Some (file, s1) \<Rightarrow>
         (let (res, s2) = (case op_ioctl (ops (f_ops (fileAt s1 file))) of None \<Rightarrow> (- ENOTTY, s1)
                           | Some ioctl \<Rightarrow> ioctl file request data s1)
          in (res, snd (IoReleaseFile ops file context fd s2))))"

definition IoTruncate ::
  "(u32 \<Rightarrow> 'a io_state_scheme IoFileOps) \<Rightarrow> u32 \<Rightarrow> int \<Rightarrow> u64 \<Rightarrow> 'a io_state_scheme \<Rightarrow> int \<times> 'a io_state_scheme" where
  "IoTruncate ops context fd len s =
     (case IO_GET_FILE context fd s of None \<Rightarrow> (- EBADF, s)
      | Some (file, s1) \<Rightarrow>
         (let (res, s2) = (case op_truncate (ops (f_ops (fileAt s1 file))) of None \<Rightarrow> (- ENOSYS, s1)
                           | Some trunc \<Rightarrow> trunc file len s1)
          in (res, snd (IoReleaseFile ops file context fd s2))))"

definition IoDup ::
  "(u32 \<Rightarrow> 'a io_state_scheme IoFileOps) \<Rightarrow> u32 \<Rightarrow> int \<Rightarrow> int \<Rightarrow> u32 \<Rightarrow> 'a io_state_scheme \<Rightarrow> int \<times> 'a io_state_scheme" where
  "IoDup ops context fd newFd0 flags s =
     (case IO_GET_FILE context fd s of None \<Rightarrow> (- EBADF, s)
      | Some (file, s1) \<Rightarrow>
         (let c = ioContextAt s1 context;
              (res, newFd, s2) =
                (if flags AND IO_DUP_AT_LEAST \<noteq> 0 then
                   (let n = IoFindNextDescriptor context newFd0 s1 in (if n = -1 then - EMFILE else 1, n, s1))
                 else if fd = newFd0 then (if flags AND IO_DUP_IGNORE_SAME \<noteq> 0 then 0 else - EINVAL, newFd0, s1)
                 else if newFd0 < 0 \<or> newFd0 \<ge> int IO_MAX_OPEN_FILES then (- EBADF, newFd0, s1)
                 else if c_descriptorFlags c (nat newFd0) AND IO_O_FDRESERVED \<noteq> 0 then (- EBUSY, newFd0, s1)
                 else if c_files c (nat newFd0) \<noteq> 0 then
                   (let (closeRes, s') = IoClose ops context newFd0 s1
                    in (if closeRes \<noteq> 0 then closeRes else 1, newFd0, s'))
                 else (1, newFd0, s1));
              (res', s3) =
                (if res = 1 then
                   (0, upd_file file (f_refCount_update (\<lambda>n. n + 1))
                         (upd_ctx context (\<lambda>c. c\<lparr>c_files := (c_files c)(nat newFd := file),
                            c_descriptorFlags := (c_descriptorFlags c)(nat newFd := ucast (flags AND IO_O_CLOEXEC))\<rparr>) s2))
                 else (res, s2))
          in (res', snd (IoReleaseFile ops file context fd s3))))"

definition readDirFiller :: "(u32 \<Rightarrow> u32 \<Rightarrow> bool) \<Rightarrow> IoDirectoryFiller" where
  "readDirFiller commitWrite buf iNode name len0 =
     (let entry = rd_nextEntry buf in
      if rd_count buf = 0 then (- EINVAL, buf)
      else if \<not> commitWrite entry 260 then (- EFAULT, buf)
      else let len = (if len0 > 255 then 255 else len0);
               m1 = store32 entry iNode (rd_mem buf);
               m2 = memcpy (entry + 4) name (nat len) m1;
               m3 = m2(entry + 4 + of_int len := 0)
           in (0, \<lparr>rd_nextEntry = entry + 260, rd_count = rd_count buf - 1, rd_mem = m3\<rparr>))"

definition IoReadDir ::
  "(u32 \<Rightarrow> 'a io_state_scheme IoFileOps) \<Rightarrow> (u32 \<Rightarrow> u32 \<Rightarrow> bool) \<Rightarrow> (u32 \<Rightarrow> u32 \<Rightarrow> bool) \<Rightarrow> u32 \<Rightarrow> int \<Rightarrow> u32 \<Rightarrow> int \<Rightarrow> mem
     \<Rightarrow> 'a io_state_scheme \<Rightarrow> int \<times> mem \<times> 'a io_state_scheme" where
  "IoReadDir ops canWrite commitWrite context fd buffer cnt m s =
     (case IO_GET_FILE context fd s of None \<Rightarrow> (- EBADF, m, s)
      | Some (file, s1) \<Rightarrow>
         (let f = fileAt s1 file;
              (res, m', s2) =
                (if f_flags f AND IO_O_DIRECTORY = 0 then (- ENOTDIR, m, s1)
                 else if \<not> canWrite buffer (of_int cnt * 260) then (- EFAULT, m, s1)
                 else if cnt \<noteq> 0 then
                   (case op_readdir (ops (f_ops f)) of None \<Rightarrow> (- ENOSYS, m, s1)
                    | Some readdir \<Rightarrow>
                       (let (r, buf, s') = readdir file (readDirFiller commitWrite) cnt
                              \<lparr>rd_nextEntry = buffer, rd_count = of_int cnt, rd_mem = m\<rparr> s1
                        in (if r = 0 then sint (of_int cnt - rd_count buf) else r, rd_mem buf, s')))
                 else (0, m, s1))
          in (res, m', snd (IoReleaseFile ops file context fd s2))))"

section \<open>Reference counts\<close>

lemma upd_simps [simp]:
  "fileAt (upd_file f g s) = (fileAt s)(f := g (fileAt s f))" "ioContextAt (upd_file f g s) = ioContextAt s"
  "ioContextAt (upd_ctx c h s) = (ioContextAt s)(c := h (ioContextAt s c))" "fileAt (upd_ctx c h s) = fileAt s"
  "io_kfreed (upd_file f g s) = io_kfreed s" "io_kfreed (upd_ctx c h s) = io_kfreed s"
  by (simp_all add: upd_file_def upd_ctx_def)

lemma upd_file_id: "g (fileAt s f) = fileAt s f \<Longrightarrow> upd_file f g s = s"
  by (simp add: upd_file_def fun_upd_idem)

lemma upd_file_upd_file [simp]: "upd_file f g (upd_file f h s) = upd_file f (g \<circ> h) s"
  by (simp add: upd_file_def)

lemma refCount_update_id [simp]: "f_refCount_update (\<lambda>x. x) r = r"
  by (cases r) simp

text \<open>The descriptors of a context, and of a list of contexts, that refer to a file.\<close>

definition ctx_refs :: "IoContext \<Rightarrow> u32 \<Rightarrow> nat" where
  "ctx_refs c f = length (filter (\<lambda>fd. c_files c fd = f) [0..<IO_MAX_OPEN_FILES])"

definition file_refs :: "u32 list \<Rightarrow> 'a io_state_scheme \<Rightarrow> u32 \<Rightarrow> nat" where
  "file_refs ctxs s f = sum_list (map (\<lambda>c. ctx_refs (ioContextAt s c) f) ctxs)"

text \<open>
  In the contexts \<open>ctxs\<close>, every file that a descriptor refers to counts exactly the descriptors that refer
  to it, between operations.
\<close>

definition counts_ok :: "u32 list \<Rightarrow> 'a io_state_scheme \<Rightarrow> bool" where
  "counts_ok ctxs s \<longleftrightarrow> distinct ctxs \<and> length ctxs < 4000000 \<and>
     (\<forall>f. f \<noteq> 0 \<and> file_refs ctxs s f > 0 \<longrightarrow> unat (f_refCount (fileAt s f)) = file_refs ctxs s f)"

lemma ctx_refs_le: "ctx_refs c f \<le> 1024"
  by (simp add: ctx_refs_def IO_MAX_OPEN_FILES_def) (metis length_filter_le length_upt diff_zero)

lemma file_refs_le: "file_refs ctxs s f \<le> 1024 * length ctxs"
  by (induction ctxs) (use ctx_refs_le in \<open>auto simp: file_refs_def intro: add_mono\<close>)

lemma ctx_refs_upd:
  assumes "n < IO_MAX_OPEN_FILES"
  shows "ctx_refs (c\<lparr>c_files := (c_files c)(n := g)\<rparr>) f + (if c_files c n = f then 1 else 0) =
         ctx_refs c f + (if g = f then 1 else 0)"
proof -
  have split: "[0..<IO_MAX_OPEN_FILES] = [0..<n] @ n # [Suc n..<IO_MAX_OPEN_FILES]"
    using assms by (metis le_add1 le_add_same_cancel1 less_imp_add_positive upt_add_eq_append upt_conv_Cons add_0)
  have "filter (\<lambda>fd. ((c_files c)(n := g)) fd = f) [0..<n] = filter (\<lambda>fd. c_files c fd = f) [0..<n]"
    "filter (\<lambda>fd. ((c_files c)(n := g)) fd = f) [Suc n..<IO_MAX_OPEN_FILES] =
     filter (\<lambda>fd. c_files c fd = f) [Suc n..<IO_MAX_OPEN_FILES]"
    by (auto intro!: filter_cong)
  then show ?thesis unfolding ctx_refs_def split by simp
qed

lemma ctx_refs_pos: "n < IO_MAX_OPEN_FILES \<Longrightarrow> c_files c n = f \<Longrightarrow> ctx_refs c f > 0"
  by (auto simp: ctx_refs_def filter_empty_conv)

lemma file_refs_ctx_ge: "c \<in> set ctxs \<Longrightarrow> ctx_refs (ioContextAt s c) f \<le> file_refs ctxs s f"
  unfolding file_refs_def by (simp add: member_le_sum_list)

lemma file_refs_pos:
  "c \<in> set ctxs \<Longrightarrow> n < IO_MAX_OPEN_FILES \<Longrightarrow> c_files (ioContextAt s c) n = f \<Longrightarrow> file_refs ctxs s f > 0"
  using file_refs_ctx_ge ctx_refs_pos by (metis less_le_trans)

lemma file_refs_upd:
  assumes "distinct ctxs" "c \<in> set ctxs" "n < IO_MAX_OPEN_FILES"
    and "c_files (ioContextAt s' c) = (c_files (ioContextAt s c))(n := g)"
    and "\<And>d. d \<noteq> c \<Longrightarrow> c_files (ioContextAt s' d) = c_files (ioContextAt s d)"
  shows "file_refs ctxs s' f + (if c_files (ioContextAt s c) n = f then 1 else 0) =
         file_refs ctxs s f + (if g = f then 1 else 0)"
proof -
  obtain xs ys where split: "ctxs = xs @ c # ys" using assms(2) by (meson split_list)
  have "ctx_refs (ioContextAt s' c) f = ctx_refs ((ioContextAt s c)\<lparr>c_files := (c_files (ioContextAt s c))(n := g)\<rparr>) f"
    using assms(4) by (simp add: ctx_refs_def)
  then have c: "ctx_refs (ioContextAt s' c) f + (if c_files (ioContextAt s c) n = f then 1 else 0) =
      ctx_refs (ioContextAt s c) f + (if g = f then 1 else 0)"
    using ctx_refs_upd [OF assms(3), of "ioContextAt s c" g f] by simp
  have eq: "ctx_refs (ioContextAt s' d) f = ctx_refs (ioContextAt s d) f" if "d \<noteq> c" for d
    using assms(5) [OF that] by (simp add: ctx_refs_def)
  have "sum_list (map (\<lambda>d. ctx_refs (ioContextAt s' d) f) zs) = sum_list (map (\<lambda>d. ctx_refs (ioContextAt s d) f) zs)"
    if "c \<notin> set zs" for zs
    using that by (intro arg_cong [of _ _ sum_list] map_cong refl eq) auto
  from this [of xs] this [of ys] show ?thesis using c assms(1) by (simp add: file_refs_def split)
qed

lemma counts_okD:
  assumes "counts_ok ctxs s" "f \<noteq> 0" "file_refs ctxs s f > 0"
  shows "unat (f_refCount (fileAt s f)) = file_refs ctxs s f" "file_refs ctxs s f < 4294967000"
proof -
  show "unat (f_refCount (fileAt s f)) = file_refs ctxs s f" using assms by (simp add: counts_ok_def)
  have "file_refs ctxs s f \<le> 1024 * length ctxs" by (rule file_refs_le)
  then show "file_refs ctxs s f < 4294967000" using assms(1) by (simp add: counts_ok_def)
qed

lemma unat_inc_dec:
  fixes x :: u32
  shows "unat x < 4294967295 \<Longrightarrow> unat (x + 1) = unat x + 1" "unat x > 0 \<Longrightarrow> unat (x - 1) = unat x - 1"
proof -
  show "unat x < 4294967295 \<Longrightarrow> unat (x + 1) = unat x + 1" using unat_plus_32 [of x 1] by simp
  assume "unat x > 0"
  then have "1 \<le> x" by (simp add: word_le_nat_alt)
  then show "unat (x - 1) = unat x - 1" using unat_minus_32 [of 1 x] by simp
qed

text \<open>Descriptor \<open>n\<close> of a context is redirected to a file that is already open.\<close>

lemma counts_move:
  assumes ok: "counts_ok ctxs s" and c: "c \<in> set ctxs" and n: "n < IO_MAX_OPEN_FILES"
    and f: "f \<noteq> 0" "file_refs ctxs s f > 0"
    and files: "c_files (ioContextAt s' c) = (c_files (ioContextAt s c))(n := f)"
      "\<And>d. d \<noteq> c \<Longrightarrow> c_files (ioContextAt s' d) = c_files (ioContextAt s d)"
    and same: "\<And>h. h \<noteq> f \<Longrightarrow> h \<noteq> c_files (ioContextAt s c) n \<Longrightarrow> f_refCount (fileAt s' h) = f_refCount (fileAt s h)"
    and inc: "f_refCount (fileAt s' f) = f_refCount (fileAt s f) + (if c_files (ioContextAt s c) n = f then 0 else 1)"
    and dec: "\<And>g. g = c_files (ioContextAt s c) n \<Longrightarrow> g \<noteq> 0 \<Longrightarrow> g \<noteq> f \<Longrightarrow> file_refs ctxs s g > 1
      \<Longrightarrow> f_refCount (fileAt s' g) = f_refCount (fileAt s g) - 1"
  shows "counts_ok ctxs s'"
proof -
  let ?g = "c_files (ioContextAt s c) n"
  have d: "distinct ctxs" "length ctxs < 4000000" using ok by (simp_all add: counts_ok_def)
  note upd = file_refs_upd [where f = h for h, OF d(1) c n files(1) files(2)]
  have "unat (f_refCount (fileAt s' h)) = file_refs ctxs s' h" if h: "h \<noteq> 0" "file_refs ctxs s' h > 0" for h
  proof (cases "h = f")
    case True
    then show ?thesis using counts_okD [OF ok f] inc upd [of h] unat_inc_dec(1) [of "f_refCount (fileAt s f)"]
      by (auto split: if_splits)
  next
    case False
    show ?thesis
    proof (cases "h = ?g")
      case True
      then have "file_refs ctxs s h = file_refs ctxs s' h + 1" using upd [of h] False by simp
      moreover from this have "file_refs ctxs s h > 1" using h(2) by simp
      ultimately show ?thesis using dec [OF True h(1) False] counts_okD(1) [OF ok h(1)] 
          unat_inc_dec(2) [of "f_refCount (fileAt s h)"] by simp
    next
      case g: False
      then have "file_refs ctxs s' h = file_refs ctxs s h" using upd [of h] False by simp
      then show ?thesis using same [OF False g] counts_okD(1) [OF ok h(1)] h(2) by simp
    qed
  qed
  then show ?thesis using d by (simp add: counts_ok_def)
qed

section \<open>Operations whose file system leaves the descriptors alone\<close>

text \<open>
  The operations of a file system work on its own data (\<open>kernel/include/io/fs.h\<close>). This is the hypothesis
  that one runs without another thread using the tables while it blocks: the state is as before.
\<close>

definition quiet :: "('a \<Rightarrow> int \<times> 'a) option \<Rightarrow> bool" where
  "quiet op \<longleftrightarrow> (case op of None \<Rightarrow> True | Some k \<Rightarrow> \<forall>s. snd (k s) = s)"

definition ops_quiet :: "'a IoFileOps \<Rightarrow> bool" where
  "ops_quiet os \<longleftrightarrow>
     (\<forall>f. quiet (map_option (\<lambda>k. k f) (op_close os))) \<and>
     (\<forall>f b n. quiet (map_option (\<lambda>k. k f b n) (op_read os))) \<and>
     (\<forall>f b n. quiet (map_option (\<lambda>k. k f b n) (op_write os)))"

lemma quiet_close:
  assumes "ops_quiet os" "op_close os = Some k"
  obtains r where "k f s = (r, s)"
proof -
  have "snd (k f s) = s" using assms by (simp add: ops_quiet_def quiet_def)
  then show thesis using that by (metis prod.collapse)
qed

lemma quiet_read:
  assumes "ops_quiet os" "op_read os = Some k"
  obtains r where "k f b n s = (r, s)"
proof -
  have "snd (k f b n s) = s" using assms by (simp add: ops_quiet_def quiet_def)
  then show thesis using that by (metis prod.collapse)
qed

lemma quiet_write:
  assumes "ops_quiet os" "op_write os = Some k"
  obtains r where "k f b n s = (r, s)"
proof -
  have "snd (k f b n s) = s" using assms by (simp add: ops_quiet_def quiet_def)
  then show thesis using that by (metis prod.collapse)
qed

lemma get_file_eq:
  assumes "0 \<le> fd" "fd < int IO_MAX_OPEN_FILES" "c_files (ioContextAt s c) (nat fd) = f" "f \<noteq> 0"
  shows "IO_GET_FILE c fd s = Some (f, upd_file f (f_refCount_update (\<lambda>n. n + 1)) s)"
  using assms by (simp add: IO_GET_FILE_def IoGetFileWithContext_def)

lemma get_file_cases:
  obtains "IO_GET_FILE c fd s = None" "IoGetFileWithContext c fd s = 0"
  | f where "0 \<le> fd" "fd < int IO_MAX_OPEN_FILES" "c_files (ioContextAt s c) (nat fd) = f" "f \<noteq> 0"
      "IO_GET_FILE c fd s = Some (f, upd_file f (f_refCount_update (\<lambda>n. n + 1)) s)"
  by (cases "IoGetFileWithContext c fd s = 0")
    (auto simp: IO_GET_FILE_def IoGetFileWithContext_def Let_def split: if_splits)

lemma release_shared:
  "f_refCount (fileAt s f) > 1 \<Longrightarrow> IoReleaseFile ops f c fd s = (0, upd_file f (f_refCount_update (\<lambda>n. n - 1)) s)"
  by (auto simp: IoReleaseFile_def)

text \<open>Giving back the reference that \<open>IO_GET_FILE\<close> took.\<close>

lemma get_release:
  assumes "0 < unat (f_refCount (fileAt s f))" "unat (f_refCount (fileAt s f)) < 4294967295"
    and "f_refCount (g (fileAt s f)) = f_refCount (fileAt s f) + 1"
  shows "IoReleaseFile ops f c fd (upd_file f g s) = (0, upd_file f (f_refCount_update (\<lambda>n. n - 1) \<circ> g) s)"
proof -
  have "f_refCount (fileAt s f) + 1 > 1" using assms(1) unat_inc_dec(1) [OF assms(2)] by (simp add: word_less_nat_alt)
  then show ?thesis using assms(3) by (simp add: release_shared)
qed

lemma get_release_id:
  assumes "0 < unat (f_refCount (fileAt s f))" "unat (f_refCount (fileAt s f)) < 4294967295"
  shows "IoReleaseFile ops f c fd (upd_file f (f_refCount_update (\<lambda>n. n + 1)) s) = (0, s)"
    "IoReleaseFile ops f c fd (upd_file f (f_off_update h \<circ> f_refCount_update (\<lambda>n. n + 1)) s) =
     (0, upd_file f (f_off_update h) s)"
  by (simp_all add: get_release assms upd_file_id comp_def)

text \<open>
  Reading from a descriptor. \<open>IoRead\<close> on an open file checks, in this order, that the file is open for
  reading, that it is not a directory and that the buffer passes the check, and otherwise reports what
  the file system reports; the only lasting change is that a positive count advances the file offset. The
  reference it holds during the call is given back on every path.
\<close>

theorem io_read_behaviour:
  assumes "0 \<le> fd" "fd < int IO_MAX_OPEN_FILES" "c_files (ioContextAt s c) (nat fd) = f" "f \<noteq> 0"
    and "0 < unat (f_refCount (fileAt s f))" "unat (f_refCount (fileAt s f)) < 4294967295"
    and "ops_quiet (ops (f_ops (fileAt s f)))"
  shows "IoRead ops canRead c fd buffer n s =
    (let held = upd_file f (f_refCount_update (\<lambda>n. n + 1)) s;
         r = (if f_flags (fileAt s f) AND IO_O_RDONLY = 0 then - EBADF
              else if f_flags (fileAt s f) AND IO_O_DIRECTORY \<noteq> 0 then - EISDIR
              else if \<not> canRead buffer n then - EFAULT
              else case op_read (ops (f_ops (fileAt s f))) of None \<Rightarrow> - ENOSYS | Some rd \<Rightarrow> fst (rd f buffer n held))
     in (r, if r > 0 then upd_file f (f_off_update (\<lambda>off. off + of_int r)) s else s))"
proof -
  let ?held = "upd_file f (f_refCount_update (\<lambda>n. n + 1)) s"
  note eqs = IoRead_def get_file_eq [OF assms(1-4)] Let_def get_release_id [OF assms(5,6)]
  show ?thesis
  proof (cases "op_read (ops (f_ops (fileAt s f)))")
    case None
    then show ?thesis by (simp add: eqs)
  next
    case (Some rd)
    obtain r where "rd f buffer n ?held = (r, ?held)" by (rule quiet_read [OF assms(7) Some])
    then show ?thesis using Some by (simp add: eqs)
  qed
qed

text \<open>Two descriptors of context 100, to different files; the file system at 7 reads three bytes.\<close>

definition demo_ops :: "u32 \<Rightarrow> io_state IoFileOps" where
  "demo_ops a = \<lparr>op_open = None, op_close = (if a = 7 then Some (\<lambda>f s. (0, s)) else None), op_read = Some (\<lambda>f b n s. (3, s)),
     op_write = None, op_truncate = None, op_ioctl = None, op_readdir = None\<rparr>"

definition demo_io :: io_state where
  "demo_io = \<lparr>fileAt = (\<lambda>f. \<lparr>f_refCount = 1, f_off = 10, f_flags = 1, f_fs = 0, f_iNode = 0, f_fsData = 0, f_ops = 7\<rparr>),
     ioContextAt = (\<lambda>c. \<lparr>c_files = (\<lambda>fd. if fd = 2 then 500 else if fd = 4 then 600 else 0), c_descriptorFlags = (\<lambda>_. 0),
       c_nextFreeFile = 0, c_cdirFs = 0, c_cdirINode = 0, c_refCount = 1\<rparr>), io_kfreed = []\<rparr>"

lemma demo_ops_quiet: "ops_quiet (demo_ops a)"
  by (simp add: demo_ops_def ops_quiet_def quiet_def)

theorem io_read_behaviour_witness:
  "fst (IoRead demo_ops (\<lambda>b n. True) 100 2 0x5000 3 demo_io) = 3 \<and>
   f_off (fileAt (snd (IoRead demo_ops (\<lambda>b n. True) 100 2 0x5000 3 demo_io)) 500) = 13"
  using io_read_behaviour [where fd = 2 and s = demo_io and c = 100 and f = 500 and ops = demo_ops
    and canRead = "\<lambda>b n. True" and buffer = "0x5000" and n = 3]
  by (simp add: demo_io_def demo_ops_quiet IO_MAX_OPEN_FILES_def IO_O_RDONLY_def IO_O_DIRECTORY_def Let_def)
    (simp add: demo_ops_def)

section \<open>Duplicating, cloning and closing\<close>

text \<open>What \<open>IoClose\<close> does to a descriptor that is open.\<close>

lemma close_shared:
  assumes "0 \<le> fd" "fd < int IO_MAX_OPEN_FILES" "c_files (ioContextAt s c) (nat fd) = f" "f \<noteq> 0"
    and "f_refCount (fileAt s f) > 1"
  shows "IoClose ops c fd s = (0, upd_file f (f_refCount_update (\<lambda>n. n - 1)) s)"
  using assms(5) by (simp add: IoClose_def get_file_eq [OF assms(1-4)] comp_def upd_file_id release_shared)

lemma close_last:
  assumes "0 \<le> fd" "fd < int IO_MAX_OPEN_FILES" "c_files (ioContextAt s c) (nat fd) = f" "f \<noteq> 0"
    and "f_refCount (fileAt s f) \<le> 1" "ops_quiet (ops (f_ops (fileAt s f)))"
  obtains r where "r \<noteq> 0" "IoClose ops c fd s = (r, s)"
  | "IoClose ops c fd s = (0, upd_ctx c (\<lambda>c. c\<lparr>c_files := (c_files c)(nat fd := 0),
       c_nextFreeFile := max (c_nextFreeFile c) fd\<rparr>) (s\<lparr>io_kfreed := io_kfreed s @ [f]\<rparr>))"
proof (cases "op_close (ops (f_ops (fileAt s f)))")
  case None
  then have "IoClose ops c fd s = (0, upd_ctx c (\<lambda>c. c\<lparr>c_files := (c_files c)(nat fd := 0),
       c_nextFreeFile := max (c_nextFreeFile c) fd\<rparr>) (s\<lparr>io_kfreed := io_kfreed s @ [f]\<rparr>))"
    using assms(3,5) by (simp add: IoClose_def get_file_eq [OF assms(1-4)] comp_def upd_file_id IoReleaseFile_def upd_ctx_def max_def)
  then show thesis by (rule that(2))
next
  case (Some k)
  obtain r where r: "k f s = (r, s)" by (rule quiet_close [OF assms(6) Some])
  show thesis
  proof (cases "r = 0")
    case True
    then have "IoClose ops c fd s = (0, upd_ctx c (\<lambda>c. c\<lparr>c_files := (c_files c)(nat fd := 0),
       c_nextFreeFile := max (c_nextFreeFile c) fd\<rparr>) (s\<lparr>io_kfreed := io_kfreed s @ [f]\<rparr>))"
      using r Some assms(3,5) by (simp add: IoClose_def get_file_eq [OF assms(1-4)] comp_def upd_file_id IoReleaseFile_def upd_ctx_def max_def)
    then show thesis by (rule that(2))
  next
    case False
    then have "IoClose ops c fd s = (r, s)"
      using r Some assms(5) by (simp add: IoClose_def get_file_eq [OF assms(1-4)] comp_def upd_file_id IoReleaseFile_def)
    with False show thesis by (rule that(1))
  qed
qed

lemma add_file_refs_ctx [simp]: "ioContextAt (add_file_refs c is s) = ioContextAt s"
  by (induction "is" arbitrary: s) (simp_all add: Let_def)

lemma add_file_refs_count:
  "f \<noteq> 0 \<Longrightarrow> f_refCount (fileAt (add_file_refs c is s) f) =
     f_refCount (fileAt s f) + of_nat (length (filter (\<lambda>i. c_files (ioContextAt s c) i = f) is))"
  by (induction "is" arbitrary: s) (auto simp: Let_def)

lemma clone_counts:
  assumes ok: "counts_ok ctxs s" and c: "c \<in> set ctxs" and new: "new \<notin> set ctxs" "length ctxs < 3999999"
  shows "counts_ok (new # ctxs) (snd (IoContextClone c new s))"
proof -
  let ?s' = "snd (IoContextClone c new s)"
  have ctx: "ioContextAt ?s' = (ioContextAt s)(new := (ioContextAt s c)\<lparr>c_refCount := 1\<rparr>)" by (simp add: IoContextClone_def)
  have "map (\<lambda>d. ctx_refs (ioContextAt ?s' d) f) ctxs = map (\<lambda>d. ctx_refs (ioContextAt s d) f) ctxs" for f
    using new(1) unfolding ctx by (intro map_cong) auto
  then have refs: "file_refs (new # ctxs) ?s' f = ctx_refs (ioContextAt s c) f + file_refs ctxs s f" for f
    by (simp only: file_refs_def list.map sum_list.Cons ctx) (simp add: ctx_refs_def)
  have "unat (f_refCount (fileAt ?s' f)) = file_refs (new # ctxs) ?s' f" if f: "f \<noteq> 0" "file_refs (new # ctxs) ?s' f > 0" for f
  proof -
    have cnt: "f_refCount (fileAt ?s' f) = f_refCount (fileAt s f) + of_nat (ctx_refs (ioContextAt s c) f)"
      using f(1) by (simp add: IoContextClone_def add_file_refs_count ctx_refs_def)
    have le: "ctx_refs (ioContextAt s c) f \<le> file_refs ctxs s f" by (rule file_refs_ctx_ge [OF c])
    then have "file_refs ctxs s f > 0" using f(2) refs [of f] by linarith
    from counts_okD [OF ok f(1) this] have "unat (f_refCount (fileAt s f)) = file_refs ctxs s f" by simp
    moreover have "file_refs (new # ctxs) ?s' f < 4294967296"
      using file_refs_le [of "new # ctxs" ?s' f] new(2) by simp
    moreover have "unat (of_nat (ctx_refs (ioContextAt s c) f) :: u32) = ctx_refs (ioContextAt s c) f"
      using ctx_refs_le [of "ioContextAt s c" f] by (simp add: unat_of_nat)
    ultimately show ?thesis unfolding cnt refs
      by (subst unat_plus_32) (use refs [of f] in auto)
  qed
  then show ?thesis using ok new by (simp add: counts_ok_def)
qed

text \<open>The end of \<open>IoDup\<close>, from the state \<open>s2\<close> in which descriptor \<open>n\<close> has been closed if it was open.\<close>

lemma dup_finish:
  assumes ok: "counts_ok ctxs s" and c: "c \<in> set ctxs" and n: "n < IO_MAX_OPEN_FILES"
    and f: "f \<noteq> 0" "file_refs ctxs s f > 0"
    and files: "(c_files (ioContextAt s2 c))(n := f) = (c_files (ioContextAt s c))(n := f)"
      "\<And>d. d \<noteq> c \<Longrightarrow> c_files (ioContextAt s2 d) = c_files (ioContextAt s d)"
    and same: "\<And>h. h \<noteq> f \<Longrightarrow> h \<noteq> c_files (ioContextAt s c) n \<Longrightarrow> f_refCount (fileAt s2 h) = f_refCount (fileAt s h)"
    and inc: "f_refCount (fileAt s2 f) = f_refCount (fileAt s f) + (if c_files (ioContextAt s c) n = f then 0 else 1)"
    and dec: "\<And>g. g = c_files (ioContextAt s c) n \<Longrightarrow> g \<noteq> 0 \<Longrightarrow> g \<noteq> f \<Longrightarrow> file_refs ctxs s g > 1
      \<Longrightarrow> f_refCount (fileAt s2 g) = f_refCount (fileAt s g) - 1"
  shows "counts_ok ctxs (snd (IoReleaseFile ops f c fd (upd_file f (f_refCount_update (\<lambda>n. n + 1))
     (upd_ctx c (\<lambda>c. c\<lparr>c_files := (c_files c)(n := f), c_descriptorFlags := h c\<rparr>) s2))))"
proof -
  let ?s3 = "upd_ctx c (\<lambda>c. c\<lparr>c_files := (c_files c)(n := f), c_descriptorFlags := h c\<rparr>) s2"
  have "0 < unat (f_refCount (fileAt ?s3 f))" "unat (f_refCount (fileAt ?s3 f)) < 4294967295"
    using counts_okD [OF ok f] f(2) inc unat_inc_dec(1) [of "f_refCount (fileAt s f)"] by auto
  then have "snd (IoReleaseFile ops f c fd (upd_file f (f_refCount_update (\<lambda>n. n + 1)) ?s3)) = ?s3"
    by (simp add: get_release_id)
  moreover have "counts_ok ctxs ?s3"
    by (rule counts_move [OF ok c n f]) (use files same inc dec in auto)
  ultimately show ?thesis by simp
qed

lemma find_descriptor_free:
  "find_descriptor c i = r \<Longrightarrow> r \<noteq> -1 \<Longrightarrow>
     i \<le> r \<and> r < int IO_MAX_OPEN_FILES \<and> c_files c (nat r) = 0 \<and> c_descriptorFlags c (nat r) AND IO_O_FDRESERVED = 0"
proof (induction c i rule: find_descriptor.induct)
  case (1 c i)
  then show ?case by (subst (asm) find_descriptor.simps) (auto split: if_splits)
qed

text \<open>The outcome of choosing and closing the target descriptor: an error, or a state fit for \<open>dup_finish\<close>.\<close>

lemma dup_close_target:
  assumes ok: "counts_ok ctxs s" and c: "c \<in> set ctxs" and quiet: "\<And>a. ops_quiet (ops a)"
    and f: "f \<noteq> 0" "file_refs ctxs s f > 0"
    and n: "0 \<le> newFd" "newFd < int IO_MAX_OPEN_FILES" "c_files (ioContextAt s c) (nat newFd) = g" "g \<noteq> 0"
    and close: "IoClose ops c newFd (upd_file f (f_refCount_update (\<lambda>n. n + 1)) s) = (r, s2)"
  shows "(r \<noteq> 0 \<longrightarrow> s2 = upd_file f (f_refCount_update (\<lambda>n. n + 1)) s) \<and>
    counts_ok ctxs (snd (IoReleaseFile ops f c fd (upd_file f (f_refCount_update (\<lambda>n. n + 1))
     (upd_ctx c (\<lambda>c. c\<lparr>c_files := (c_files c)(nat newFd := f), c_descriptorFlags := h c\<rparr>) s2))))"
proof -
  let ?s1 = "upd_file f (f_refCount_update (\<lambda>n. n + 1)) s"
  have n': "nat newFd < IO_MAX_OPEN_FILES" using n(1,2) by simp
  note cnt = counts_okD [OF ok f]
  note finish = dup_finish [OF ok c n' f, where fd = fd and ops = ops and h = h and ?s2.0 = s2]
  have s1: "c_files (ioContextAt ?s1 c) (nat newFd) = g" using n(3) by simp
  show ?thesis
  proof (cases "g = f")
    case True
    have "f_refCount (fileAt ?s1 g) > 1"
      using True cnt f(2) unat_inc_dec(1) [of "f_refCount (fileAt s f)"] by (simp add: word_less_nat_alt)
    then have "s2 = s" "r = 0" using close_shared [OF n(1,2) s1 n(4)] close True by (simp_all add: comp_def upd_file_id)
    then show ?thesis using True n(3) finish by simp
  next
    case False
    have g: "file_refs ctxs s g > 0" using file_refs_pos [OF c n' n(3)] .
    note cg = counts_okD(1) [OF ok n(4) g]
    show ?thesis
    proof (cases "f_refCount (fileAt ?s1 g) > 1")
      case True
      then have "s2 = upd_file g (f_refCount_update (\<lambda>n. n - 1)) ?s1" "r = 0"
        using close_shared [OF n(1,2) s1 n(4) True] close by simp_all
      then show ?thesis using False n(3) finish by simp
    next
      case last: False
      then have one: "\<not> file_refs ctxs s g > 1" using cg False by (simp add: word_less_nat_alt)
      from last have "f_refCount (fileAt ?s1 g) \<le> 1" by simp
      from close_last [where ops = ops, OF n(1,2) s1 n(4) this quiet] show ?thesis
      proof cases
        case (1 r')
        then have "s2 = ?s1" "r = r'" using close by simp_all
        then show ?thesis using one False n(3) finish by simp
      next
        case 2
        then have "s2 = upd_ctx c (\<lambda>c. c\<lparr>c_files := (c_files c)(nat newFd := 0),
            c_nextFreeFile := max (c_nextFreeFile c) newFd\<rparr>) (?s1\<lparr>io_kfreed := io_kfreed ?s1 @ [g]\<rparr>)" "r = 0"
          using close by simp_all
        then show ?thesis using one False n(3) finish by simp
      qed
    qed
  qed
qed

text \<open>Putting a file that is in use into a free slot.\<close>

lemma dup_free_slot:
  assumes "counts_ok ctxs s" "c \<in> set ctxs" "f \<noteq> 0" "file_refs ctxs s f > 0" "n < IO_MAX_OPEN_FILES" "c_files (ioContextAt s c) n = 0"
  shows "counts_ok ctxs (snd (IoReleaseFile ops f c fd (upd_file f (f_refCount_update (\<lambda>n. n + 1))
     (upd_ctx c (\<lambda>c. c\<lparr>c_files := (c_files c)(n := f), c_descriptorFlags := h c\<rparr>) (upd_file f (f_refCount_update (\<lambda>n. n + 1)) s)))))"
  using assms(3,6) by (intro dup_finish [OF assms(1,2,5,3,4)]) auto

lemma dup_at_least_counts:
  assumes ok: "counts_ok ctxs s" and c: "c \<in> set ctxs" and get: "IO_GET_FILE c fd s = Some (f, upd_file f (f_refCount_update (\<lambda>n. n + 1)) s)"
    and f: "f \<noteq> 0" "file_refs ctxs s f > 0" and noop: "snd (IoReleaseFile ops f c fd (upd_file f (f_refCount_update (\<lambda>n. n + 1)) s)) = s"
    and flag: "flags AND IO_DUP_AT_LEAST \<noteq> 0"
  shows "counts_ok ctxs (snd (IoDup ops c fd newFd flags s))"
proof -
  define n where "n = IoFindNextDescriptor c newFd (upd_file f (f_refCount_update (\<lambda>n. n + 1)) s)"
  show ?thesis
  proof (cases "n = -1")
    case True
    then show ?thesis using flag noop ok get by (simp add: IoDup_def n_def Let_def)
  next
    case False
    then have n: "n < int IO_MAX_OPEN_FILES" "c_files (ioContextAt s c) (nat n) = 0"
      using find_descriptor_free [of "ioContextAt s c" _ n] by (auto simp: n_def IoFindNextDescriptor_def Let_def)
    then have "nat n < IO_MAX_OPEN_FILES" by (simp add: IO_MAX_OPEN_FILES_def)
    with dup_free_slot [OF ok c f this n(2)] show ?thesis using flag get False by (simp add: IoDup_def n_def [symmetric] Let_def)
  qed
qed

lemma dup_named_counts:
  assumes ok: "counts_ok ctxs s" and c: "c \<in> set ctxs" and quiet: "\<And>a. ops_quiet (ops a)"
    and get: "IO_GET_FILE c fd s = Some (f, upd_file f (f_refCount_update (\<lambda>n. n + 1)) s)"
    and f: "f \<noteq> 0" "file_refs ctxs s f > 0" and noop: "snd (IoReleaseFile ops f c fd (upd_file f (f_refCount_update (\<lambda>n. n + 1)) s)) = s"
    and flag: "flags AND IO_DUP_AT_LEAST = 0"
  shows "counts_ok ctxs (snd (IoDup ops c fd newFd flags s))"
proof -
  let ?s1 = "upd_file f (f_refCount_update (\<lambda>n. n + 1)) s"
  consider "fd = newFd \<or> newFd < 0 \<or> newFd \<ge> int IO_MAX_OPEN_FILES \<or> c_descriptorFlags (ioContextAt s c) (nat newFd) AND IO_O_FDRESERVED \<noteq> 0"
    | "fd \<noteq> newFd" "0 \<le> newFd" "newFd < int IO_MAX_OPEN_FILES"
      "c_descriptorFlags (ioContextAt s c) (nat newFd) AND IO_O_FDRESERVED = 0" "c_files (ioContextAt s c) (nat newFd) = 0"
    | "fd \<noteq> newFd" "0 \<le> newFd" "newFd < int IO_MAX_OPEN_FILES"
      "c_descriptorFlags (ioContextAt s c) (nat newFd) AND IO_O_FDRESERVED = 0" "c_files (ioContextAt s c) (nat newFd) \<noteq> 0"
    by linarith
  then show ?thesis
  proof cases
    case 1
    then show ?thesis using flag noop ok get by (auto simp: IoDup_def Let_def)
  next
    case 2
    then show ?thesis using flag dup_free_slot [OF ok c f, of "nat newFd"] get by (simp add: IoDup_def Let_def)
  next
    case 3
    obtain r s2 where r: "IoClose ops c newFd ?s1 = (r, s2)" by (cases "IoClose ops c newFd ?s1")
    from dup_close_target [OF ok c quiet f 3(2,3) refl 3(5) r, where fd = fd] show ?thesis
      using flag noop ok get 3 r by (auto simp: IoDup_def Let_def)
  qed
qed

lemma dup_counts:
  assumes ok: "counts_ok ctxs s" and c: "c \<in> set ctxs" and quiet: "\<And>a. ops_quiet (ops a)"
  shows "counts_ok ctxs (snd (IoDup ops c fd newFd flags s))"
proof (cases rule: get_file_cases [of c fd s])
  case 1
  then show ?thesis using ok by (simp add: IoDup_def)
next
  case (2 f)
  have f: "f \<noteq> 0" "file_refs ctxs s f > 0" using file_refs_pos [OF c _ 2(3)] 2(1,2,4) by simp_all
  then have noop: "snd (IoReleaseFile ops f c fd (upd_file f (f_refCount_update (\<lambda>n. n + 1)) s)) = s"
    using counts_okD [OF ok f] by (simp add: get_release_id)
  show ?thesis using dup_at_least_counts [OF ok c 2(5) f noop] dup_named_counts [OF ok c quiet 2(5) f noop] by blast
qed


lemma demo_refs: "f \<noteq> 0 \<Longrightarrow> file_refs [100] demo_io f = (if f = 500 \<or> f = 600 then 1 else 0)"
proof -
  let ?c = "ioContextAt demo_io 100" and ?none = "(ioContextAt demo_io 100)\<lparr>c_files := \<lambda>_. 0\<rparr>"
  have "ctx_refs ?c f = (if f = 500 \<or> f = 600 then 1 else 0)" if "f \<noteq> 0" for f
  proof -
    have "ctx_refs ?none f = 0" using that by (simp add: ctx_refs_def)
    then have "ctx_refs (?none\<lparr>c_files := (\<lambda>_. 0)(2 := 500)\<rparr>) f = (if f = 500 then 1 else 0)"
      using ctx_refs_upd [of 2 ?none 500 f] that by (simp add: IO_MAX_OPEN_FILES_def)
    moreover have "?c = ?none\<lparr>c_files := (\<lambda>_. 0)(2 := 500, 4 := 600)\<rparr>" by (auto simp: demo_io_def)
    ultimately show ?thesis
      using ctx_refs_upd [of 4 "?none\<lparr>c_files := (\<lambda>_. 0)(2 := 500)\<rparr>" 600 f] that by (simp add: IO_MAX_OPEN_FILES_def)
  qed
  then show "f \<noteq> 0 \<Longrightarrow> ?thesis" by (simp add: file_refs_def)
qed

lemma demo_counts: "counts_ok [100] demo_io"
proof -
  have "f_refCount (fileAt demo_io f) = 1" for f by (simp add: demo_io_def)
  moreover have "file_refs [100] demo_io f = 1" if "f \<noteq> 0" "file_refs [100] demo_io f > 0" for f
    using demo_refs [OF that(1)] that(2) by (simp split: if_splits)
  ultimately show ?thesis by (auto simp: counts_ok_def)
qed


text \<open>
  Closing a descriptor. With correct counts, \<open>IoClose\<close> of the only descriptor of a file either reports
  the error of the file system and changes nothing, or clears the descriptor, frees the file and keeps
  the counts. When the file has other descriptors, in this context or another, \<open>IoClose\<close> reports success
  and lowers the count but leaves the descriptor open: the count is now too low, and the file will be
  freed while a descriptor still refers to it.
\<close>

theorem io_close_only_last:
  assumes "counts_ok ctxs s" "c \<in> set ctxs" "\<And>a. ops_quiet (ops a)"
    and "0 \<le> fd" "fd < int IO_MAX_OPEN_FILES" "c_files (ioContextAt s c) (nat fd) = f" "f \<noteq> 0"
  defines "r \<equiv> fst (IoClose ops c fd s)" and "s' \<equiv> snd (IoClose ops c fd s)"
  shows "if file_refs ctxs s f = 1
     then r \<noteq> 0 \<and> s' = s \<or> r = 0 \<and> c_files (ioContextAt s' c) (nat fd) = 0 \<and> f \<in> set (io_kfreed s') \<and> counts_ok ctxs s'
     else r = 0 \<and> c_files (ioContextAt s' c) (nat fd) = f \<and> \<not> counts_ok ctxs s'"
proof -
  have n: "nat fd < IO_MAX_OPEN_FILES" using assms(4,5) by simp
  have pos: "file_refs ctxs s f > 0" by (rule file_refs_pos [OF assms(2) n assms(6)])
  note cnt = counts_okD [OF assms(1,7) pos]
  show ?thesis
  proof (cases "file_refs ctxs s f = 1")
    case True
    then have "f_refCount (fileAt s f) \<le> 1" using cnt by (simp add: word_le_nat_alt)
    from close_last [where ops = ops, OF assms(4-7) this assms(3)] show ?thesis
    proof cases
      case (1 q)
      then show ?thesis using True by (simp add: r_def s'_def)
    next
      case 2
      have "counts_ok ctxs s'"
        unfolding counts_ok_def
      proof (intro conjI allI impI)
        fix h assume h: "h \<noteq> 0 \<and> file_refs ctxs s' h > 0"
        have d: "distinct ctxs" using assms(1) by (simp add: counts_ok_def)
        have "file_refs ctxs s' h + (if c_files (ioContextAt s c) (nat fd) = h then 1 else 0) =
            file_refs ctxs s h + (if 0 = h then 1 else 0)"
          by (rule file_refs_upd [OF d assms(2) n]) (simp_all add: s'_def 2)
        then have "h \<noteq> f" "file_refs ctxs s h = file_refs ctxs s' h" using h True assms(6) by (auto split: if_splits)
        then show "unat (f_refCount (fileAt s' h)) = file_refs ctxs s' h"
          using counts_okD(1) [OF assms(1), of h] h by (simp add: s'_def 2)
      qed (use assms(1) in \<open>simp_all add: counts_ok_def\<close>)
      then show ?thesis using True 2 by (simp add: r_def s'_def)
    qed
  next
    case False
    then have "f_refCount (fileAt s f) > 1" using cnt pos by (simp add: word_less_nat_alt)
    from close_shared [OF assms(4-7) this, of ops]
    have eq: "r = 0" "s' = upd_file f (f_refCount_update (\<lambda>n. n - 1)) s" by (simp_all add: r_def s'_def)
    then have "file_refs ctxs s' f = file_refs ctxs s f" by (simp add: file_refs_def)
    moreover have "unat (f_refCount (fileAt s' f)) = file_refs ctxs s f - 1"
      using eq(2) cnt pos unat_inc_dec(2) [of "f_refCount (fileAt s f)"] by simp
    ultimately have "\<not> counts_ok ctxs s'" using pos assms(7) by (auto simp: counts_ok_def)
    then show ?thesis using False eq assms(6) by simp
  qed
qed

lemma demo_close: "fd = 2 \<or> fd = 4 \<Longrightarrow> fst (IoClose demo_ops 100 fd demo_io) = 0"
  by (auto simp: IoClose_def IO_GET_FILE_def IoGetFileWithContext_def IoReleaseFile_def demo_io_def demo_ops_def
      IO_MAX_OPEN_FILES_def)

theorem io_close_only_last_witness:
  "c_files (ioContextAt (snd (IoClose demo_ops 100 2 demo_io)) 100) 2 = 0 \<and> counts_ok [100] (snd (IoClose demo_ops 100 2 demo_io))"
proof -
  have "c_files (ioContextAt demo_io 100) (nat 2) = 500" by (simp add: demo_io_def)
  from io_close_only_last [where ops = demo_ops, OF demo_counts _ demo_ops_quiet _ _ this] show ?thesis
    using demo_refs [of 500] demo_close [of 2] by (simp add: IO_MAX_OPEN_FILES_def)
qed

section \<open>Finding a descriptor\<close>

definition fd_free :: "IoContext \<Rightarrow> int \<Rightarrow> bool" where
  "fd_free c i \<longleftrightarrow> c_files c (nat i) = 0 \<and> c_descriptorFlags c (nat i) AND IO_O_FDRESERVED = 0"

lemma find_descriptor_skips:
  "0 \<le> i \<Longrightarrow> i \<le> j \<Longrightarrow> j < (if find_descriptor c i = -1 then int IO_MAX_OPEN_FILES else find_descriptor c i) \<Longrightarrow> \<not> fd_free c j"
proof (induction c i rule: find_descriptor.induct)
  case (1 c i)
  show ?case
  proof (cases "i \<ge> int IO_MAX_OPEN_FILES \<or> fd_free c i")
    case True
    then have "find_descriptor c i = (if i \<ge> int IO_MAX_OPEN_FILES then -1 else i)"
      by (subst find_descriptor.simps) (auto simp: fd_free_def)
    then show ?thesis using 1(2-4) by (auto split: if_splits)
  next
    case False
    then have eq: "find_descriptor c i = find_descriptor c (i + 1)"
      by (subst find_descriptor.simps) (auto simp: fd_free_def)
    show ?thesis
    proof (cases "j = i")
      case True
      then show ?thesis using False by simp
    next
      case ji: False
      have "\<not> i \<ge> int IO_MAX_OPEN_FILES" "\<not> (c_files c (nat i) = 0 \<and> c_descriptorFlags c (nat i) AND IO_O_FDRESERVED = 0)"
        using False by (auto simp: fd_free_def)
      from 1(1) [OF this] show ?thesis using 1(2-4) ji unfolding eq by simp
    qed
  qed
qed

text \<open>
  The search for a free descriptor. \<open>IoFindNextDescriptor\<close> returns the least descriptor that is neither
  open nor reserved among those from the requested one and the context's \<open>nextFreeFile\<close> on, and -1 if there
  is none. Closing the only descriptor of a file moves \<open>nextFreeFile\<close> up to that descriptor if it was
  below: no descriptor under the highest one ever closed is found again, however many of them are free.
\<close>

theorem io_descriptor_search:
  fixes lo :: int
  assumes "0 \<le> c_nextFreeFile (ioContextAt s c)"
    and "0 \<le> fd" "fd < int IO_MAX_OPEN_FILES" "c_files (ioContextAt s c) (nat fd) = f" "f \<noteq> 0"
    and "f_refCount (fileAt s f) = 1" "ops_quiet (ops (f_ops (fileAt s f)))"
  defines "from \<equiv> max lo (c_nextFreeFile (ioContextAt s c))" and "r \<equiv> IoFindNextDescriptor c lo s"
    and "r' \<equiv> IoFindNextDescriptor c lo (snd (IoClose ops c fd s))"
  shows "(r = -1 \<or> from \<le> r \<and> r < int IO_MAX_OPEN_FILES \<and> fd_free (ioContextAt s c) r) \<and>
    (\<forall>j. from \<le> j \<and> j < (if r = -1 then int IO_MAX_OPEN_FILES else r) \<longrightarrow> \<not> fd_free (ioContextAt s c) j) \<and>
    (fst (IoClose ops c fd s) = 0 \<longrightarrow> r' = -1 \<or> r' \<ge> fd)"
proof -
  have r: "r = find_descriptor (ioContextAt s c) from"
    by (simp add: r_def from_def IoFindNextDescriptor_def Let_def max_def)
  have "r' = -1 \<or> r' \<ge> fd" if ok: "fst (IoClose ops c fd s) = 0"
  proof -
    have "f_refCount (fileAt s f) \<le> 1" using assms(6) by simp
    from close_last [where ops = ops, OF assms(2-5) this assms(7)] ok
    have "c_nextFreeFile (ioContextAt (snd (IoClose ops c fd s)) c) \<ge> fd" by cases auto
    moreover have "r' = find_descriptor (ioContextAt (snd (IoClose ops c fd s)) c)
        (max lo (c_nextFreeFile (ioContextAt (snd (IoClose ops c fd s)) c)))"
      by (simp add: r'_def IoFindNextDescriptor_def Let_def max_def)
    ultimately show ?thesis using find_descriptor_free by fastforce
  qed
  moreover have "r = -1 \<or> from \<le> r \<and> r < int IO_MAX_OPEN_FILES \<and> fd_free (ioContextAt s c) r"
    using find_descriptor_free [of "ioContextAt s c" "from" r] r by (auto simp: fd_free_def)
  moreover have "\<forall>j. from \<le> j \<and> j < (if r = -1 then int IO_MAX_OPEN_FILES else r) \<longrightarrow> \<not> fd_free (ioContextAt s c) j"
    using find_descriptor_skips [of "from" _ "ioContextAt s c"] r assms(1) by (auto simp: from_def)
  ultimately show ?thesis by blast
qed

theorem io_descriptor_search_witness:
  "IoFindNextDescriptor 100 0 (snd (IoClose demo_ops 100 4 demo_io)) = -1 \<or>
   IoFindNextDescriptor 100 0 (snd (IoClose demo_ops 100 4 demo_io)) \<ge> 4"
proof -
  have "c_files (ioContextAt demo_io 100) (nat 4) = 600" "0 \<le> c_nextFreeFile (ioContextAt demo_io 100)"
    "f_refCount (fileAt demo_io 600) = 1" by (simp_all add: demo_io_def)
  from io_descriptor_search [OF this(2) _ _ this(1) _ this(3) demo_ops_quiet, of 0] show ?thesis
    using demo_close [of 4] by (simp add: IO_MAX_OPEN_FILES_def)
qed

end
