(* ===== verification/Process.thy ===== *)
theory Process
  imports Timer Region Io_Context
begin

text \<open>
  The life of processes and threads: \<open>kernel/src/process/process.c\<close>, the reaper loop of
  \<open>kernel/src/process/reaper.c\<close> and the thread entry code of \<open>kernel/src/process/schedulerAsm.s\<close>.

  The state puts the scheduler, signal and timer state (theory \<open>Timer\<close>), the memory state (\<open>pmm\<close>, theory
  \<open>Region\<close>) and the I/O state (\<open>pio\<close>, theory \<open>Io_Context\<close>) side by side, as the kernel's static variables
  do. The two hash tables of identifiers are the maps that theory \<open>Hash_Table\<close> shows them to implement.
  Kernel stacks are words of \<open>kstack\<close>, and \<open>kStackPointer t\<close> is the field of the thread at \<open>t\<close>. Addresses of
  new structures are arguments; structures given back to their caches are recorded in \<open>slabFreed\<close>. Process
  and thread names are not kept.

  Exits do not return: they end in the state in which another thread runs, or in a panic. What other
  threads do while a waiting thread is blocked is the argument \<open>others\<close>.
\<close>

section \<open>State\<close>

record proc_state = timer_state +
  procTable :: "u32 \<rightharpoonup> u32"
  threadTable :: "u32 \<rightharpoonup> u32"
  processNextID :: u32
  threadNextID :: u32
  kstack :: "u32 \<Rightarrow> u32"
  kStackPointer :: "u32 \<Rightarrow> u32"
  pmm :: mm_state
  pio :: io_state
  slabFreed :: "u32 list"

text \<open>The structures as \<open>MemSlabZAlloc\<close> returns them.\<close>

definition zero_process :: ProcProcess where
  "zero_process = \<lparr>p_pid = 0, p_parent = 0, p_children = [], p_threads = [], p_zombie = False, p_exitCode = 0,
     p_memContext = 0, p_ioContext = 0, p_sigHandlers = (\<lambda>_. \<lparr>sa_handler = 0, sa_mask = 0, sa_flags = 0\<rparr>),
     p_sigPending = 0, p_alarmPtr = None\<rparr>"

definition zero_thread :: ProcThread where
  "zero_thread = \<lparr>t_tid = 0, t_parent = 0, t_exitCode = 0, t_state = PTS_STARTUP, t_waitMode = PWM_NONE,
     t_schedInterrupted = False, t_kStackBase = 0, t_tlsDescriptor = 0, t_sigPending = 0, t_sigBlocked = 0\<rparr>"

section \<open>Creation\<close>

definition ProcGetProcessByID :: "u32 \<Rightarrow> 'a proc_state_scheme \<Rightarrow> u32 option" where
  "ProcGetProcessByID pid s = procTable s pid"

definition ProcGetThreadByID :: "u32 \<Rightarrow> 'a proc_state_scheme \<Rightarrow> u32 option" where
  "ProcGetThreadByID tid s = threadTable s tid"

text \<open>The loops that take the next identifier until the insertion succeeds.\<close>

partial_function (option) alloc_id :: "(u32 \<rightharpoonup> u32) \<Rightarrow> u32 \<Rightarrow> u32 option" where
  "alloc_id table nextID = (if table nextID = None then Some nextID else alloc_id table (nextID + 1))"

definition ProcCreateProcess :: "u32 \<Rightarrow> u32 \<Rightarrow> 'a proc_state_scheme \<Rightarrow> 'a proc_state_scheme run" where
  "ProcCreateProcess process parent s =
     (case alloc_id (procTable s) (processNextID s) of
        None \<Rightarrow> None
      | Some pid \<Rightarrow>
          (let s1 = s\<lparr>processNextID := pid + 1, procTable := (procTable s)(pid \<mapsto> process)\<rparr>;
               s2 = upd_process process (\<lambda>_. zero_process\<lparr>p_pid := pid, p_parent := parent\<rparr>) s1
           in ret (if parent = 0 then s2
                   else upd_process parent (p_children_update (\<lambda>cs. cs @ [process])) s2)))"

text \<open>\<open>onMemory f\<close> runs an operation of the memory manager.\<close>

definition onMemory :: "(mm_state \<Rightarrow> ('b \<times> mm_state) run) \<Rightarrow> ('b \<Rightarrow> 'a proc_state_scheme \<Rightarrow> 'c run)
    \<Rightarrow> 'a proc_state_scheme \<Rightarrow> 'c run" where
  "onMemory f k s = seq (f (pmm s)) (\<lambda>(x, m). k x (s\<lparr>pmm := m\<rparr>))"

definition ProcCreateRawThread :: "u32 \<Rightarrow> u32 \<Rightarrow> bool \<Rightarrow> 'a proc_state_scheme \<Rightarrow> 'a proc_state_scheme run" where
  "ProcCreateRawThread thread parent withStack s =
     (case alloc_id (threadTable s) (threadNextID s) of
        None \<Rightarrow> None
      | Some tid \<Rightarrow>
          (let s1 = s\<lparr>threadNextID := tid + 1, threadTable := (threadTable s)(tid \<mapsto> thread)\<rparr>;
               s2 = upd_thread thread (\<lambda>_. zero_thread\<lparr>t_tid := tid, t_parent := parent, t_state := PTS_STARTUP,
                      t_tlsDescriptor := PROC_NULL_TLS_DESCRIPTOR\<rparr>) s1;
               s3 = upd_process parent (p_threads_update (\<lambda>ts. ts @ [thread])) s2
           in if withStack then
                onMemory (MemPhysicalAlloc 1 MEM_KERNEL) (\<lambda>page s4.
                  let base = MemPhys2Virt page
                  in ret (upd_thread thread (t_kStackBase_update (\<lambda>_. base))
                       (s4\<lparr>kstack := (\<lambda>a. if base \<le> a \<and> a < base + PROC_KSTACK_SIZE then 0 else kstack s4 a)\<rparr>))) s3
              else ret s3))"

text \<open>The entry points \<open>ProcIntUserThreadEntry\<close> and \<open>ProcIntKernelThreadReturn\<close> are addresses of code.\<close>

definition user_stack :: "u32 \<Rightarrow> u32 \<Rightarrow> u32 \<Rightarrow> u32 list" where
  "user_stack userEntry startAddr stackPtr = [0, 0, 0, 0, userEntry, 0, 0, startAddr, 0x1B, 0x202, stackPtr, 0x23]"

definition ProcCreateUserThread :: "u32 \<Rightarrow> u32 \<Rightarrow> u32 \<Rightarrow> u32 \<Rightarrow> u32 \<Rightarrow> 'a proc_state_scheme \<Rightarrow> 'a proc_state_scheme run" where
  "ProcCreateUserThread userEntry thread process startAddr stackPtr s =
     seq (ProcCreateRawThread thread process True s) (\<lambda>s1.
       let sp = t_kStackBase (threadAt s1 thread) + PROC_KSTACK_SIZE - 48
       in ret (s1\<lparr>kstack := store_words sp (user_stack userEntry startAddr stackPtr) (kstack s1),
                  kStackPointer := (kStackPointer s1)(thread := sp)\<rparr>))"

definition kernel_stack :: "u32 \<Rightarrow> u32 \<Rightarrow> u32 \<Rightarrow> u32 list" where
  "kernel_stack threadReturn startAddr arg = [0, 0, 0, 0, startAddr, 0, 0, threadReturn, arg]"

definition ProcCreateKernelThread :: "u32 \<Rightarrow> u32 \<Rightarrow> u32 \<Rightarrow> u32 \<Rightarrow> 'a proc_state_scheme \<Rightarrow> 'a proc_state_scheme run" where
  "ProcCreateKernelThread threadReturn thread startAddr arg s =
     seq (ProcCreateRawThread thread (ProcKernelProcess s) True s) (\<lambda>s1.
       let sp = t_kStackBase (threadAt s1 thread) + PROC_KSTACK_SIZE - 36
       in ret (s1\<lparr>kstack := store_words sp (kernel_stack threadReturn startAddr arg) (kstack s1),
                  kStackPointer := (kStackPointer s1)(thread := sp)\<rparr>))"

text \<open>Zero is \<open>NULL\<close>; \<open>kalloc\<close> gives the addresses that \<open>MemContextClone\<close> allocates for the region copies.\<close>

definition ProcFork ::
  "u32 \<Rightarrow> u32 \<Rightarrow> u32 \<Rightarrow> u32 \<Rightarrow> u32 \<Rightarrow> (nat \<Rightarrow> u32) \<Rightarrow> u32 \<Rightarrow> u32 \<Rightarrow> 'a proc_state_scheme \<Rightarrow> (u32 \<times> 'a proc_state_scheme) run" where
  "ProcFork userEntry newProc newThread newMem newIo kalloc startAddr userStackPtr s =
     (if ProcCurrProcess s = ProcKernelProcess s then ret (0, s)
      else seq (ProcCreateProcess newProc (ProcCurrProcess s) s) (\<lambda>s1.
        let s2 = upd_process newProc (p_sigHandlers_update (\<lambda>_. p_sigHandlers (processAt s1 (ProcCurrProcess s1)))) s1
        in onMemory (MemContextClone newMem kalloc) (\<lambda>mc s3.
             let s4 = upd_process newProc (p_memContext_update (\<lambda>_. mc)) s3;
                 (ic, io) = IoContextClone (p_ioContext (processAt s4 (ProcCurrProcess s4))) newIo (pio s4);
                 s5 = upd_process newProc (p_ioContext_update (\<lambda>_. ic)) (s4\<lparr>pio := io\<rparr>)
             in seq (ProcCreateUserThread userEntry newThread newProc startAddr userStackPtr s5) (\<lambda>s6.
                  let cur = threadAt s6 (ProcCurrThread s6);
                      s7 = upd_thread newThread (\<lambda>t. t\<lparr>t_sigBlocked := t_sigBlocked cur, t_tlsDescriptor := t_tlsDescriptor cur\<rparr>) s6
                  in ret (newProc, ProcWakeUp newThread s7))) s2))"

section \<open>Reaping\<close>

text \<open>The children are moved to the kernel process; their \<open>parent\<close> field is not changed.\<close>

definition ProcDisownChildren :: "u32 \<Rightarrow> 'a proc_state_scheme \<Rightarrow> 'a proc_state_scheme" where
  "ProcDisownChildren process s =
     (let children = p_children (processAt s process);
          s1 = upd_process process (p_children_update (\<lambda>_. [])) s
      in upd_process (ProcKernelProcess s1) (p_children_update (\<lambda>cs. cs @ children)) s1)"

definition ProcIntReapThread :: "u32 \<Rightarrow> 'a proc_state_scheme \<Rightarrow> 'a proc_state_scheme run" where
  "ProcIntReapThread thread s =
     (if ProcCurrThread s = thread then panic
      else if t_state (threadAt s thread) \<noteq> PTS_ZOMBIE then panic
      else let t = threadAt s thread;
               s1 = CpuFreeFpuState (ProcCurrThread s) s;
               s2 = (if threadTable s1 (t_tid t) = Some thread then s1\<lparr>threadTable := (threadTable s1)(t_tid t := None)\<rparr> else s1);
               s3 = upd_process (t_parent t) (p_threads_update (remove1 thread)) s2;
               s4 = s3\<lparr>pmm := MemPhysicalFree (MemVirt2Phys (t_kStackBase t)) 1 (pmm s3)\<rparr>
           in ret (s4\<lparr>slabFreed := slabFreed s4 @ [thread]\<rparr>))"

fun reap_threads :: "u32 list \<Rightarrow> 'a proc_state_scheme \<Rightarrow> 'a proc_state_scheme run" where
  "reap_threads [] s = ret s"
| "reap_threads (t # rest) s = seq (ProcIntReapThread t s) (reap_threads rest)"

text \<open>\<open>ListDelete\<close> takes the process out of the ring it is in, be it its parent's or the kernel's.\<close>

definition ProcIntReapProcess :: "u32 \<Rightarrow> 'a proc_state_scheme \<Rightarrow> 'a proc_state_scheme run" where
  "ProcIntReapProcess process s =
     (if \<not> p_zombie (processAt s process) then panic
      else seq (reap_threads (p_threads (processAt s process)) s) (\<lambda>s1.
        let s2 = ProcDisownChildren process s1;
            s3 = s2\<lparr>processAt := (\<lambda>p. p_children_update (remove1 process) (processAt s2 p))\<rparr>;
            pid = p_pid (processAt s3 process);
            s4 = (if procTable s3 pid = Some process then s3\<lparr>procTable := (procTable s3)(pid := None)\<rparr> else s3)
        in ret (s4\<lparr>slabFreed := slabFreed s4 @ [process]\<rparr>)))"

text \<open>The inner loop of the reaper thread: it runs until its queue is empty and then blocks.\<close>

fun reap_queue :: "u32 list \<Rightarrow> 'a proc_state_scheme \<Rightarrow> 'a proc_state_scheme run" where
  "reap_queue [] s = ret s"
| "reap_queue (t # rest) s =
     (let s1 = s\<lparr>reaperHead := rest\<rparr>; parent = t_parent (threadAt s1 t)
      in seq (if parent \<noteq> ProcKernelProcess s1 then ProcIntReapProcess parent s1 else ProcIntReapThread t s1)
           (reap_queue rest))"

definition ProcIntReaperThread :: "'a proc_state_scheme \<Rightarrow> 'a proc_state_scheme run" where
  "ProcIntReaperThread s = seq (reap_queue (reaperHead s) s) (\<lambda>s1.
     case ProcYieldBlock False s1 of None \<Rightarrow> ret s1 | Some s2 \<Rightarrow> ret s2)"

section \<open>Start-up\<close>

definition ProcIntReaperInit :: "u32 \<Rightarrow> u32 \<Rightarrow> u32 \<Rightarrow> 'a proc_state_scheme \<Rightarrow> 'a proc_state_scheme run" where
  "ProcIntReaperInit threadReturn thread reaperEntry s =
     seq (ProcCreateKernelThread threadReturn thread reaperEntry 0 s) (\<lambda>s1. ret (s1\<lparr>reaperThread := thread\<rparr>))"

definition init_kernel_process :: "'a proc_state_scheme \<Rightarrow> 'a proc_state_scheme" where
  "init_kernel_process s =
     (let k = ProcKernelProcess s
      in upd_process k (\<lambda>p. p\<lparr>p_pid := 0, p_memContext := MemKernelContext (pmm s), p_threads := [], p_children := []\<rparr>)
           (s\<lparr>procTable := (procTable s)(0 \<mapsto> k), ProcCurrProcess := k\<rparr>))"

definition ProcInit :: "u32 \<Rightarrow> u32 \<Rightarrow> u32 \<Rightarrow> u32 \<Rightarrow> u32 \<Rightarrow> 'a proc_state_scheme \<Rightarrow> 'a proc_state_scheme run" where
  "ProcInit threadReturn idle idleEntry reaper reaperEntry s =
     seq (ProcCreateKernelThread threadReturn idle idleEntry 0 (init_kernel_process s)) (\<lambda>s2.
       ProcIntReaperInit threadReturn reaper reaperEntry (s2\<lparr>ProcIdleThread := idle\<rparr>))"

section \<open>Exit\<close>

text \<open>The panic after the switch is reached when the scheduler keeps the current thread.\<close>

definition ProcIntSelfExit :: "'a proc_state_scheme \<Rightarrow> 'a proc_state_scheme run" where
  "ProcIntSelfExit s = (let s1 = ProcDoSchedule s in if ProcCurrThread s1 = ProcCurrThread s then panic else ret s1)"

fun wake_waiting :: "ProcWaitMode \<Rightarrow> u32 list \<Rightarrow> 'a proc_state_scheme \<Rightarrow> 'a proc_state_scheme" where
  "wake_waiting mode [] s = s"
| "wake_waiting mode (t # rest) s =
     wake_waiting mode rest
       (if t_state (threadAt s t) = PTS_INTR \<and> t_waitMode (threadAt s t) = mode then ProcWakeUp t s else s)"

fun kill_others :: "u32 list \<Rightarrow> 'a proc_state_scheme \<Rightarrow> 'a proc_state_scheme" where
  "kill_others [] s = s"
| "kill_others (t # rest) s =
     kill_others rest (if t \<noteq> ProcCurrThread s then ProcSignalSendThread t (int SIGKILL) s else s)"

definition release_contexts :: "(u32 \<Rightarrow> io_state IoFileOps) \<Rightarrow> u32 \<Rightarrow> 'a proc_state_scheme \<Rightarrow> 'a proc_state_scheme" where
  "release_contexts ops p s =
     (let mc = p_memContext (processAt s p);
          s1 = (if mc \<noteq> 0 then
                  upd_process p (p_memContext_update (\<lambda>_. 0))
                    (s\<lparr>activeContext := MemKernelContext (pmm s),
                       pmm := MemContextDeleteReference mc (MemContextSwitchTo (MemKernelContext (pmm s)) (pmm s))\<rparr>)
                else s);
          ic = p_ioContext (processAt s1 p)
      in if ic \<noteq> 0 then
           upd_process p (p_ioContext_update (\<lambda>_. 0)) (s1\<lparr>pio := IoContextDeleteReference ops ic (pio s1)\<rparr>)
         else s1)"

text \<open>The branch of \<open>ProcExitProcess\<close> for the last thread.\<close>

definition exit_last :: "(u32 \<Rightarrow> io_state IoFileOps) \<Rightarrow> 'a proc_state_scheme \<Rightarrow> 'a proc_state_scheme run" where
  "exit_last ops s =
     (let p = ProcCurrProcess s;
          s1 = snd (TimerSetAlarm 0 0 s);
          s2 = release_contexts ops p (ProcDisownChildren p s1);
          s3 = upd_thread (ProcCurrThread s2) (t_state_update (\<lambda>_. PTS_ZOMBIE))
                 (upd_process p (p_zombie_update (\<lambda>_. True)) s2);
          parent = p_parent (processAt s3 p);
          s4 = (if parent = ProcKernelProcess s3 then ProcIntReaperAdd (ProcCurrThread s3) s3
                else ProcSignalSendProcess parent (int SIGCLD)
                       (wake_waiting PWM_PROCESS (p_threads (processAt s3 parent)) s3))
      in ProcIntSelfExit s4)"

text \<open>\<open>threads.next == threads.prev\<close>: the ring holds at most one thread.\<close>

definition last_thread :: "'a proc_state_scheme \<Rightarrow> bool" where
  "last_thread s \<longleftrightarrow> length (p_threads (processAt s (ProcCurrProcess s))) \<le> 1"

definition ProcExitThread :: "(u32 \<Rightarrow> io_state IoFileOps) \<Rightarrow> u32 \<Rightarrow> 'a proc_state_scheme \<Rightarrow> 'a proc_state_scheme run" where
  "ProcExitThread ops exitCode s =
     (if last_thread s then exit_last ops s
      else let s1 = upd_thread (ProcCurrThread s) (\<lambda>t. t\<lparr>t_state := PTS_ZOMBIE, t_exitCode := exitCode\<rparr>) s;
               s2 = (if ProcCurrProcess s1 = ProcKernelProcess s1 then ProcIntReaperAdd (ProcCurrThread s1) s1
                     else wake_waiting PWM_THREAD (p_threads (processAt s1 (ProcCurrProcess s1))) s1)
           in ProcIntSelfExit s2)"

definition ProcExitProcess :: "(u32 \<Rightarrow> io_state IoFileOps) \<Rightarrow> u32 \<Rightarrow> 'a proc_state_scheme \<Rightarrow> 'a proc_state_scheme run" where
  "ProcExitProcess ops exitCode s =
     (let s1 = upd_process (ProcCurrProcess s) (p_exitCode_update (\<lambda>_. exitCode)) s in
      if \<not> last_thread s1
      then ProcExitThread ops 0 (kill_others (p_threads (processAt s1 (ProcCurrProcess s1))) s1)
      else exit_last ops s1)"

section \<open>Waiting\<close>

text \<open>
  The check loop of the two wait functions. \<open>look\<close> finds a dead child or thread; the result is the one
  found or a return value.
\<close>

partial_function (option) wait_loop ::
  "('a proc_state_scheme \<Rightarrow> 'a proc_state_scheme) \<Rightarrow> ('a proc_state_scheme \<Rightarrow> u32 option) \<Rightarrow> ProcWaitMode \<Rightarrow> bool \<Rightarrow> bool
     \<Rightarrow> 'a proc_state_scheme \<Rightarrow> ((int + u32) \<times> 'a proc_state_scheme) option" where
  "wait_loop others look mode nohang interrupted s =
     (case look s of
        Some x \<Rightarrow> Some (Inr x, s)
      | None \<Rightarrow>
          if nohang then Some (Inl 0, s)
          else if interrupted then Some (Inl (- EINTR), s)
          else let s1 = upd_thread (ProcCurrThread s) (t_waitMode_update (\<lambda>_. mode)) s;
                   (intr, s2) = (case ProcYieldBlock True s1 of
                                   None \<Rightarrow> (True, s1)
                                 | Some s' \<Rightarrow> (let s'' = others s' in (block_result s'', s'')))
               in wait_loop others look mode nohang intr
                    (upd_thread (ProcCurrThread s2) (t_waitMode_update (\<lambda>_. PWM_NONE)) s2))"

definition WNOHANG :: u32 where "WNOHANG = 1"

text \<open>The first component is the exit code written, if any, the second the return value.\<close>

definition ProcWaitProcess ::
  "('a proc_state_scheme \<Rightarrow> 'a proc_state_scheme) \<Rightarrow> int \<Rightarrow> u32 \<Rightarrow> 'a proc_state_scheme
     \<Rightarrow> (u32 option \<times> int \<times> 'a proc_state_scheme) run" where
  "ProcWaitProcess others wid options s =
     (if ProcCurrProcess s = ProcKernelProcess s then ret (None, - EPERM, s)
      else if wid < 0 \<and> wid \<noteq> -1 then ret (None, - EINVAL, s)
      else if wid = 0 \<or> wid < -1 then ret (None, - ENOSYS, s)
      else let chosen = (if wid > 0 then ProcGetProcessByID (of_int wid) s else None) in
        if wid > 0 \<and> (case chosen of None \<Rightarrow> True | Some p \<Rightarrow> p_parent (processAt s p) \<noteq> ProcCurrProcess s)
        then ret (None, - ECHILD, s)
        else if \<not> wid > 0 \<and> p_children (processAt s (ProcCurrProcess s)) = [] then ret (None, - ECHILD, s)
        else let look = (\<lambda>s. case chosen of
                     Some p \<Rightarrow> if p_zombie (processAt s p) then Some p else None
                   | None \<Rightarrow> find (\<lambda>p. p_zombie (processAt s p)) (p_children (processAt s (ProcCurrProcess s))))
          in case wait_loop others look PWM_PROCESS (options AND WNOHANG \<noteq> 0) False s of
               None \<Rightarrow> None
             | Some (Inl r, s1) \<Rightarrow> ret (None, r, s1)
             | Some (Inr p, s1) \<Rightarrow>
                 seq (ProcIntReapProcess p s1) (\<lambda>s2.
                   ret (Some (p_exitCode (processAt s1 p)), sint (p_pid (processAt s1 p)), s2)))"

definition ProcWaitThread ::
  "('a proc_state_scheme \<Rightarrow> 'a proc_state_scheme) \<Rightarrow> int \<Rightarrow> u32 \<Rightarrow> 'a proc_state_scheme
     \<Rightarrow> (u32 option \<times> int \<times> 'a proc_state_scheme) run" where
  "ProcWaitThread others wid options s =
     (if ProcCurrProcess s = ProcKernelProcess s then ret (None, - EPERM, s)
      else if wid < 0 \<and> wid \<noteq> -1 then ret (None, - EINVAL, s)
      else let chosen = (if wid > 0 then ProcGetThreadByID (of_int wid) s else None) in
        if wid > 0 \<and> (case chosen of None \<Rightarrow> True | Some t \<Rightarrow> t_parent (threadAt s t) \<noteq> ProcCurrProcess s)
        then ret (None, - ESRCH, s)
        else if \<not> wid > 0 \<and> last_thread s then ret (None, - ESRCH, s)
        else let look = (\<lambda>s. case chosen of
                     Some t \<Rightarrow> if t_state (threadAt s t) = PTS_ZOMBIE then Some t else None
                   | None \<Rightarrow> find (\<lambda>t. t_state (threadAt s t) = PTS_ZOMBIE) (p_threads (processAt s (ProcCurrProcess s))))
          in case wait_loop others look PWM_THREAD (options AND WNOHANG \<noteq> 0) False s of
               None \<Rightarrow> None
             | Some (Inl r, s1) \<Rightarrow> ret (None, r, s1)
             | Some (Inr t, s1) \<Rightarrow>
                 seq (ProcIntReapThread t s1) (\<lambda>s2.
                   ret (Some (t_exitCode (threadAt s1 t)), sint (t_tid (threadAt s1 t)), s2)))"

section \<open>Entering a new thread\<close>

text \<open>
  What \<open>ProcIntSchedulerSwap\<close> loads when it switches to a stack for the first time: four registers and the
  return address, and then it drops its own two arguments (\<open>ret 8\<close>). \<open>ProcIntUserThreadEntry\<close> ends in an
  \<open>iret\<close>, which loads five words.
\<close>

record swap_frame =
  sw_eip :: u32
  sw_esp :: u32

definition ProcIntSchedulerSwap :: "(u32 \<Rightarrow> u32) \<Rightarrow> u32 \<Rightarrow> swap_frame" where
  "ProcIntSchedulerSwap stack newStackPtr = \<lparr>sw_eip = stack (newStackPtr + 16), sw_esp = newStackPtr + 20 + 8\<rparr>"

record user_frame =
  uf_eip :: u32
  uf_cs :: u32
  uf_eflags :: u32
  uf_esp :: u32
  uf_ss :: u32

definition ProcIntUserThreadEntry :: "(u32 \<Rightarrow> u32) \<Rightarrow> u32 \<Rightarrow> user_frame" where
  "ProcIntUserThreadEntry stack sp = \<lparr>uf_eip = stack sp, uf_cs = stack (sp + 4), uf_eflags = stack (sp + 8),
     uf_esp = stack (sp + 12), uf_ss = stack (sp + 16)\<rparr>"

section \<open>Frame lemmas\<close>

lemma upd_process_sel [simp]:
  "processAt (upd_process p f s) = (processAt s)(p := f (processAt s p))" "threadAt (upd_process p f s) = threadAt s"
  "ProcCurrThread (upd_process p f s) = ProcCurrThread s" "ProcCurrProcess (upd_process p f s) = ProcCurrProcess s"
  "ProcKernelProcess (upd_process p f s) = ProcKernelProcess s" "threadQueue (upd_process p f s) = threadQueue s"
  "ProcIdleThread (upd_process p f s) = ProcIdleThread s" "reaperHead (upd_process p f s) = reaperHead s"
  by (simp_all add: upd_process_def)

lemma upd_proc_fields [simp]:
  "procTable (upd_process p f s) = procTable s" "procTable (upd_thread t g s) = procTable s"
  "threadTable (upd_process p f s) = threadTable s" "threadTable (upd_thread t g s) = threadTable s"
  "pmm (upd_process p f s) = pmm s" "pmm (upd_thread t g s) = pmm s" "pio (upd_process p f s) = pio s"
  "pio (upd_thread t g s) = pio s" "slabFreed (upd_process p f s) = slabFreed s" "slabFreed (upd_thread t g s) = slabFreed s"
  "kstack (upd_process p f s) = kstack s" "kstack (upd_thread t g s) = kstack s"
  "kStackPointer (upd_process p f s) = kStackPointer s" "kStackPointer (upd_thread t g s) = kStackPointer s"
  by (simp_all add: upd_process_def upd_thread_def)

section \<open>Identifiers\<close>

lemma alloc_id_free: "alloc_id table n = Some i \<Longrightarrow> table i = None"
proof -
  assume ret: "alloc_id table n = Some i"
  show ?thesis
  proof (rule alloc_id.raw_induct [where P = "\<lambda>t n i. t i = None", OF _ ret])
    fix f and t :: "u32 \<rightharpoonup> u32" and n i :: u32
    assume IH: "\<And>t n i. f t n = Some i \<Longrightarrow> t i = None" and eq: "(if t n = None then Some n else f t (n + 1)) = Some i"
    show "t i = None" using eq IH [of t "n + 1" i] by (auto split: if_splits)
  qed
qed

lemma alloc_id_returns:
  assumes "table i = None"
  shows "\<exists>j. alloc_id table n = Some j"
proof (induction "unat (i - n)" arbitrary: n)
  case 0
  then have "i = n" by (simp add: unat_eq_zero)
  then show ?case using assms by (subst alloc_id.simps) simp
next
  case (Suc k)
  show ?case
  proof (cases "table n = None")
    case True
    then show ?thesis by (subst alloc_id.simps) simp
  next
    case False
    have "i - n \<noteq> 0" using Suc(2) by auto
    then have "unat (i - (n + 1)) = k" using Suc(2) unat_minus_one [of "i - n"] by (simp add: diff_diff_eq [symmetric])
    then show ?thesis using Suc(1) [of "n + 1"] False by (subst alloc_id.simps) simp
  qed
qed

lemma alloc_id_full: "(\<And>i. table i \<noteq> None) \<Longrightarrow> alloc_id table n = None"
  using alloc_id_free by (cases "alloc_id table n") blast+

section \<open>Properties\<close>

text \<open>
  Creating a process. \<open>ProcCreateProcess\<close> returns exactly when some process identifier is free. The new
  process then has an identifier that was not in use and is found under it, all others are found as
  before, it is the last child of its parent, and no other process changes.
\<close>

theorem create_process_fresh:
  assumes "process \<noteq> parent" "parent \<noteq> 0"
  shows "if \<exists>i. procTable s i = None
    then \<exists>s' pid. ProcCreateProcess process parent s = ret s' \<and> procTable s pid = None \<and>
      procTable s' = (procTable s)(pid \<mapsto> process) \<and> p_pid (processAt s' process) = pid \<and>
      p_parent (processAt s' process) = parent \<and> p_children (processAt s' parent) = p_children (processAt s parent) @ [process] \<and>
      (\<forall>q. q \<noteq> process \<and> q \<noteq> parent \<longrightarrow> processAt s' q = processAt s q)
    else ProcCreateProcess process parent s = None"
proof (cases "\<exists>i. procTable s i = None")
  case True
  then obtain pid where pid: "alloc_id (procTable s) (processNextID s) = Some pid" using alloc_id_returns by blast
  have free: "procTable s pid = None" by (rule alloc_id_free [OF pid])
  obtain s' where s': "ProcCreateProcess process parent s = ret s'" by (simp add: ProcCreateProcess_def pid Let_def)
  then have eq: "s' = upd_process parent (p_children_update (\<lambda>cs. cs @ [process])) (upd_process process
      (\<lambda>_. zero_process\<lparr>p_pid := pid, p_parent := parent\<rparr>)
      (s\<lparr>processNextID := pid + 1, procTable := (procTable s)(pid \<mapsto> process)\<rparr>))"
    using assms by (simp add: ProcCreateProcess_def pid Let_def)
  have "procTable s' = (procTable s)(pid \<mapsto> process) \<and> p_pid (processAt s' process) = pid \<and>
      p_parent (processAt s' process) = parent \<and> p_children (processAt s' parent) = p_children (processAt s parent) @ [process] \<and>
      (\<forall>q. q \<noteq> process \<and> q \<noteq> parent \<longrightarrow> processAt s' q = processAt s q)"
    using assms unfolding eq by auto
  then show ?thesis using True s' free by auto
next
  case False
  then show ?thesis by (simp add: ProcCreateProcess_def alloc_id_full)
qed

text \<open>A state with the kernel process at 1, one other process at 2 and a free page of kernel memory.\<close>

definition demo_proc :: proc_state where
  "demo_proc = timer_state.extend (timer_state.truncate (two_sleepers\<lparr>ProcKernelProcess := 1, ProcCurrProcess := 2,
       processAt := (\<lambda>_. zero_process), threadAt := (\<lambda>_. zero_thread)\<rparr>))
     \<lparr>procTable = [0 \<mapsto> 1], threadTable = Map.empty, processNextID = 0, threadNextID = 0, kstack = (\<lambda>_. 0),
      kStackPointer = (\<lambda>_. 0),
      pmm = (two_regions 0)\<lparr>zones := (\<lambda>_. \<lparr>headPtr = 0x1000, zstart = 0x1000, zend = 0x1001\<rparr>), MemPhysicalFreePages := 1\<rparr>,
      pio = demo_io, slabFreed = []\<rparr>"

lemmas demo_proc_defs = demo_proc_def timer_state.defs two_sleepers_def sched_state.defs demo_sched_def two_regions_def

theorem create_process_fresh_witness:
  "\<exists>s' pid. ProcCreateProcess 3 2 demo_proc = ret s' \<and> procTable demo_proc pid = None \<and> procTable s' pid = Some 3"
proof -
  have "procTable demo_proc 5 = None" by (simp add: demo_proc_defs)
  then have "\<exists>i. procTable demo_proc i = None" by blast
  with create_process_fresh [of 3 2 demo_proc] obtain s' pid where "ProcCreateProcess 3 2 demo_proc = ret s'"
    "procTable demo_proc pid = None" "procTable s' = (procTable demo_proc)(pid \<mapsto> 3)" by auto
  then show ?thesis by auto
qed

lemma onMemory_ret: "onMemory f k s = ret r \<longleftrightarrow> (\<exists>x m. f (pmm s) = ret (x, m) \<and> k x (s\<lparr>pmm := m\<rparr>) = ret r)"
  by (auto simp: onMemory_def)

lemma raw_thread_ret:
  assumes "ProcCreateRawThread thread parent True s = ret s'"
  shows "\<exists>tid. threadTable s tid = None \<and> threadTable s' = (threadTable s)(tid \<mapsto> thread) \<and> t_tid (threadAt s' thread) = tid \<and>
    t_parent (threadAt s' thread) = parent \<and> t_state (threadAt s' thread) = PTS_STARTUP \<and>
    p_threads (processAt s' parent) = p_threads (processAt s parent) @ [thread]"
proof -
  obtain tid where tid: "alloc_id (threadTable s) (threadNextID s) = Some tid"
    using assms by (cases "alloc_id (threadTable s) (threadNextID s)") (simp_all add: ProcCreateRawThread_def)
  have "threadTable s tid = None" by (rule alloc_id_free [OF tid])
  moreover have "threadTable s' = (threadTable s)(tid \<mapsto> thread) \<and> t_tid (threadAt s' thread) = tid \<and>
    t_parent (threadAt s' thread) = parent \<and> t_state (threadAt s' thread) = PTS_STARTUP \<and>
    p_threads (processAt s' parent) = p_threads (processAt s parent) @ [thread]"
    using assms by (auto simp: ProcCreateRawThread_def tid Let_def onMemory_ret)
  ultimately show ?thesis by blast
qed

text \<open>
  (C34) The first steps of a thread. The stack that \<open>ProcCreateUserThread\<close> prepares fits the assembly code
  that runs on it: the first switch to the thread enters the user entry code, which enters user mode at
  the given address and stack pointer, with the user segments and with interrupts on. A kernel thread is
  entered at its start address, with the return stub as return address and its argument above it. Either
  thread waits to be started, has an unused identifier, and is the last thread of its process.
\<close>

theorem new_thread_starts:
  assumes "ProcCreateUserThread userEntry ut process startAddr stackPtr s = ret s1"
    and "ProcCreateKernelThread threadReturn kt kstart arg s = ret s2"
  defines "u \<equiv> ProcIntSchedulerSwap (kstack s1) (kStackPointer s1 ut)"
    and "k \<equiv> ProcIntSchedulerSwap (kstack s2) (kStackPointer s2 kt)"
  shows "sw_eip u = userEntry \<and>
    ProcIntUserThreadEntry (kstack s1) (sw_esp u) =
      \<lparr>uf_eip = startAddr, uf_cs = 0x1B, uf_eflags = 0x202, uf_esp = stackPtr, uf_ss = 0x23\<rparr> \<and>
    sw_eip k = kstart \<and> kstack s2 (sw_esp k) = threadReturn \<and> kstack s2 (sw_esp k + 4) = arg \<and>
    t_state (threadAt s1 ut) = PTS_STARTUP \<and> threadTable s (t_tid (threadAt s1 ut)) = None \<and>
    threadTable s1 = (threadTable s)(t_tid (threadAt s1 ut) \<mapsto> ut) \<and>
    p_threads (processAt s1 process) = p_threads (processAt s process) @ [ut]"
proof -
  obtain r1 where r1: "ProcCreateRawThread ut process True s = ret r1"
    "s1 = r1\<lparr>kstack := store_words (t_kStackBase (threadAt r1 ut) + PROC_KSTACK_SIZE - 48)
            (user_stack userEntry startAddr stackPtr) (kstack r1),
          kStackPointer := (kStackPointer r1)(ut := t_kStackBase (threadAt r1 ut) + PROC_KSTACK_SIZE - 48)\<rparr>"
    using assms(1) by (auto simp: ProcCreateUserThread_def Let_def)
  obtain r2 where r2: "s2 = r2\<lparr>kstack := store_words (t_kStackBase (threadAt r2 kt) + PROC_KSTACK_SIZE - 36)
            (kernel_stack threadReturn kstart arg) (kstack r2),
          kStackPointer := (kStackPointer r2)(kt := t_kStackBase (threadAt r2 kt) + PROC_KSTACK_SIZE - 36)\<rparr>"
    using assms(2) by (auto simp: ProcCreateKernelThread_def Let_def)
  have "sw_eip u = userEntry \<and> ProcIntUserThreadEntry (kstack s1) (sw_esp u) =
      \<lparr>uf_eip = startAddr, uf_cs = 0x1B, uf_eflags = 0x202, uf_esp = stackPtr, uf_ss = 0x23\<rparr>"
    by (simp add: u_def r1(2) ProcIntSchedulerSwap_def ProcIntUserThreadEntry_def user_stack_def)
  moreover have "sw_eip k = kstart \<and> kstack s2 (sw_esp k) = threadReturn \<and> kstack s2 (sw_esp k + 4) = arg"
    by (simp add: k_def r2 ProcIntSchedulerSwap_def kernel_stack_def)
  ultimately show ?thesis using raw_thread_ret [OF r1(1)] r1(2) by auto
qed

lemma demo_alloc: "\<exists>m. MemPhysicalAlloc 1 MEM_KERNEL (pmm demo_proc) = ret (0x1000, m)"
  by (simp add: MemPhysicalAlloc_def alloc_zones.simps alloc_scan.simps demo_proc_defs Let_def)

lemma demo_raw_thread: "\<exists>s'. ProcCreateRawThread thread parent True demo_proc = ret s'"
proof -
  obtain tid where "alloc_id (threadTable demo_proc) (threadNextID demo_proc) = Some tid"
    using alloc_id_returns [of "threadTable demo_proc" 0] by (auto simp: demo_proc_defs)
  then show ?thesis using demo_alloc by (auto simp: ProcCreateRawThread_def Let_def onMemory_ret)
qed

theorem new_thread_starts_witness:
  "\<exists>s1. ProcCreateUserThread 0xC0100000 20 2 0x4000 0x8000 demo_proc = ret s1 \<and>
     ProcIntUserThreadEntry (kstack s1) (sw_esp (ProcIntSchedulerSwap (kstack s1) (kStackPointer s1 20))) =
       \<lparr>uf_eip = 0x4000, uf_cs = 0x1B, uf_eflags = 0x202, uf_esp = 0x8000, uf_ss = 0x23\<rparr>"
proof -
  obtain s1 where s1: "ProcCreateUserThread 0xC0100000 20 2 0x4000 0x8000 demo_proc = ret s1"
    using demo_raw_thread [of 20 2] by (auto simp: ProcCreateUserThread_def Let_def)
  obtain s2 where s2: "ProcCreateKernelThread 0xC0200000 21 0xC0300000 0 demo_proc = ret s2"
    using demo_raw_thread [of 21 "ProcKernelProcess demo_proc"] by (auto simp: ProcCreateKernelThread_def Let_def)
  show ?thesis using new_thread_starts [OF s1 s2] s1 by simp
qed

section \<open>Exit and reaping\<close>

text \<open>What sending signals and waking threads leaves alone.\<close>

lemma wake_proc_frame [simp]:
  "processAt (ProcWakeUpSig t b s) = processAt s" "ProcCurrProcess (ProcWakeUpSig t b s) = ProcCurrProcess s"
  "ProcKernelProcess (ProcWakeUpSig t b s) = ProcKernelProcess s"
  by (cases "t_state (threadAt s t)"; simp add: ProcWakeUpSig_def Let_def upd_thread_def)+

lemma wake_zombie [simp]: "t_state (threadAt s t) = PTS_ZOMBIE \<Longrightarrow> t_state (threadAt (ProcWakeUpSig u b s) t) = PTS_ZOMBIE"
  by (cases "t_state (threadAt s u)") (auto simp: ProcWakeUpSig_def Let_def)

lemma wake_waiting_frame [simp]:
  "processAt (wake_waiting m ts s) = processAt s" "ProcCurrProcess (wake_waiting m ts s) = ProcCurrProcess s"
  "ProcCurrThread (wake_waiting m ts s) = ProcCurrThread s" "ProcKernelProcess (wake_waiting m ts s) = ProcKernelProcess s"
  by (induction ts arbitrary: s) (simp_all add: ProcWakeUp_def)

lemma wake_waiting_zombie [simp]:
  "t_state (threadAt s t) = PTS_ZOMBIE \<Longrightarrow> t_state (threadAt (wake_waiting m ts s) t) = PTS_ZOMBIE"
  by (induction ts arbitrary: s) (simp_all add: ProcWakeUp_def)

lemma send_thread_frame [simp]:
  "processAt (ProcSignalSendThread t n s) = processAt s" "ProcCurrProcess (ProcSignalSendThread t n s) = ProcCurrProcess s"
  "ProcCurrThread (ProcSignalSendThread t n s) = ProcCurrThread s"
  "ProcKernelProcess (ProcSignalSendThread t n s) = ProcKernelProcess s"
  by (simp_all add: ProcSignalSendThread_def RemoteContinueThread_def Let_def)

lemma kill_others_frame [simp]:
  "processAt (kill_others ts s) = processAt s" "ProcCurrProcess (kill_others ts s) = ProcCurrProcess s"
  "ProcCurrThread (kill_others ts s) = ProcCurrThread s" "ProcKernelProcess (kill_others ts s) = ProcKernelProcess s"
  by (induction ts arbitrary: s) simp_all

lemma schedule_proc_frame [simp]: "processAt (ProcDoSchedule s) = processAt s" "threadAt (ProcDoSchedule s) = threadAt s"
  by (simp_all add: ProcDoSchedule_def split: list.split)

lemma self_exit_ret: "ProcIntSelfExit s = ret s' \<Longrightarrow> processAt s' = processAt s \<and> threadAt s' = threadAt s"
  by (auto simp: ProcIntSelfExit_def Let_def split: if_splits)

lemma exit_thread_process:
  assumes "\<not> last_thread s" "ProcCurrProcess s \<noteq> ProcKernelProcess s" "ProcExitThread ops code s = ret s'"
  shows "processAt s' = processAt s \<and> t_state (threadAt s' (ProcCurrThread s)) = PTS_ZOMBIE"
  using assms by (auto simp: ProcExitThread_def Let_def dest!: self_exit_ret)

text \<open>
  A process with several threads does not end. Threads that have exited stay in their process's list
  until they are waited for, and the process ends only through the exit of a thread that is alone in the
  list. So when a thread of a process with two or more entries exits, by itself or to end the process,
  the process does not become a zombie and its list does not change: this is still so for the next
  thread, and after all have exited the parent still waits.
\<close>

theorem multi_thread_exit:
  assumes "ProcCurrProcess s \<noteq> ProcKernelProcess s" "length (p_threads (processAt s (ProcCurrProcess s))) \<ge> 2"
    and "ProcExitThread ops code s = ret s' \<or> ProcExitProcess ops code s = ret s'"
  shows "p_zombie (processAt s' p) = p_zombie (processAt s p) \<and> p_threads (processAt s' p) = p_threads (processAt s p) \<and>
    t_state (threadAt s' (ProcCurrThread s)) = PTS_ZOMBIE"
  using assms(3)
proof
  assume "ProcExitThread ops code s = ret s'"
  then show ?thesis using exit_thread_process [of s ops code s'] assms(1,2) by (simp add: last_thread_def)
next
  let ?s1 = "upd_process (ProcCurrProcess s) (p_exitCode_update (\<lambda>_. code)) s"
  let ?s2 = "kill_others (p_threads (processAt ?s1 (ProcCurrProcess ?s1))) ?s1"
  assume "ProcExitProcess ops code s = ret s'"
  then have "ProcExitThread ops 0 ?s2 = ret s'" using assms(2) by (simp add: ProcExitProcess_def last_thread_def)
  moreover have "\<not> last_thread ?s2" "ProcCurrProcess ?s2 \<noteq> ProcKernelProcess ?s2"
    using assms(1,2) by (simp_all add: last_thread_def)
  ultimately show ?thesis using exit_thread_process [of ?s2 ops 0 s'] by auto
qed

text \<open>Process 2 with threads 5 (running) and 6 (queued) and one dead child, process 3.\<close>

definition pair_proc :: proc_state where
  "pair_proc = demo_proc\<lparr>ProcCurrThread := 5, threadQueue := [6],
     threadAt := (\<lambda>t. zero_thread\<lparr>t_tid := t, t_parent := 2, t_state := (if t = 7 then PTS_ZOMBIE else PTS_RUNNING)\<rparr>),
     processAt := (\<lambda>p. if p = 2 then zero_process\<lparr>p_pid := 2, p_parent := 1, p_threads := [5, 6], p_children := [3]\<rparr>
       else if p = 3 then zero_process\<lparr>p_pid := 3, p_parent := 2, p_threads := [7], p_zombie := True, p_exitCode := 42\<rparr>
       else zero_process), procTable := [2 \<mapsto> 2, 3 \<mapsto> 3]\<rparr>"

lemma pair_proc_simps:
  "ProcCurrThread pair_proc = 5" "ProcCurrProcess pair_proc = 2" "ProcKernelProcess pair_proc = 1" "threadQueue pair_proc = [6]"
  "t_state (threadAt pair_proc t) = (if t = 7 then PTS_ZOMBIE else PTS_RUNNING)" "t_parent (threadAt pair_proc t) = 2"
  "p_threads (processAt pair_proc 2) = [5, 6]" "p_children (processAt pair_proc 2) = [3]" "p_zombie (processAt pair_proc 3)"
  "p_threads (processAt pair_proc 3) = [7]" "p_exitCode (processAt pair_proc 3) = 42" "p_pid (processAt pair_proc 3) = 3"
  "p_children (processAt pair_proc 3) = []" "p_parent (processAt pair_proc 3) = 2" "procTable pair_proc 3 = Some 3"
  by (simp_all add: pair_proc_def demo_proc_defs zero_process_def)

theorem multi_thread_exit_witness:
  "\<exists>s'. ProcExitThread demo_ops 0 pair_proc = ret s' \<and> \<not> p_zombie (processAt s' 2) \<and> p_threads (processAt s' 2) = [5, 6]"
proof -
  obtain s' where s': "ProcExitThread demo_ops 0 pair_proc = ret s'"
    by (simp add: ProcExitThread_def last_thread_def pair_proc_simps ProcIntSelfExit_def ProcDoSchedule_def Let_def)
  have "\<not> p_zombie (processAt pair_proc 2)" by (simp add: pair_proc_def zero_process_def)
  then show ?thesis using multi_thread_exit [of pair_proc demo_ops 0 s' 2] s' by (auto simp: pair_proc_simps)
qed

lemma fpu_free_frame [simp]:
  "threadAt (CpuFreeFpuState t s) = threadAt s" "processAt (CpuFreeFpuState t s) = processAt s"
  "ProcCurrThread (CpuFreeFpuState t s) = ProcCurrThread s" "ProcKernelProcess (CpuFreeFpuState t s) = ProcKernelProcess s"
  "ProcCurrProcess (CpuFreeFpuState t s) = ProcCurrProcess s"
  by (simp_all add: CpuFreeFpuState_def Let_def)

lemma fpu_free_tables [simp]:
  "procTable (CpuFreeFpuState t s) = procTable s" "threadTable (CpuFreeFpuState t s) = threadTable s"
  "slabFreed (CpuFreeFpuState t s) = slabFreed s"
  by (simp_all add: CpuFreeFpuState_def Let_def)

lemma reap_thread_ret:
  assumes "ProcCurrThread s \<noteq> t" "t_state (threadAt s t) = PTS_ZOMBIE"
  obtains s' where "ProcIntReapThread t s = ret s'" "threadAt s' = threadAt s" "ProcCurrThread s' = ProcCurrThread s"
    "ProcCurrProcess s' = ProcCurrProcess s" "ProcKernelProcess s' = ProcKernelProcess s" "procTable s' = procTable s"
    "processAt s' = (processAt s)(t_parent (threadAt s t) := p_threads_update (remove1 t) (processAt s (t_parent (threadAt s t))))"
    "slabFreed s' = slabFreed s @ [t]" "threadTable s' (t_tid (threadAt s t)) \<noteq> Some t"
proof -
  obtain s' where s': "ProcIntReapThread t s = ret s'" using assms by (simp add: ProcIntReapThread_def Let_def)
  moreover have "threadAt s' = threadAt s" "ProcCurrThread s' = ProcCurrThread s" "ProcCurrProcess s' = ProcCurrProcess s"
    "ProcKernelProcess s' = ProcKernelProcess s" "procTable s' = procTable s"
    "processAt s' = (processAt s)(t_parent (threadAt s t) := p_threads_update (remove1 t) (processAt s (t_parent (threadAt s t))))"
    "slabFreed s' = slabFreed s @ [t]" "threadTable s' (t_tid (threadAt s t)) \<noteq> Some t"
    using s' assms by (cases "threadTable s (t_tid (threadAt s t)) = Some t"; auto simp: ProcIntReapThread_def Let_def)+
  ultimately show thesis by (rule that)
qed

lemma reap_threads_ret:
  assumes "\<forall>t \<in> set ts. t \<noteq> ProcCurrThread s \<and> t_state (threadAt s t) = PTS_ZOMBIE"
  shows "\<exists>s'. reap_threads ts s = ret s' \<and> ProcCurrThread s' = ProcCurrThread s \<and> ProcCurrProcess s' = ProcCurrProcess s \<and>
    ProcKernelProcess s' = ProcKernelProcess s \<and> procTable s' = procTable s \<and>
    (\<forall>p. \<exists>us. processAt s' p = p_threads_update (\<lambda>_. us) (processAt s p)) \<and> set ts \<subseteq> set (slabFreed s') \<and>
    set (slabFreed s) \<subseteq> set (slabFreed s')"
  using assms
proof (induction ts arbitrary: s)
  case Nil
  have "\<exists>us. x = p_threads_update (\<lambda>_. us) x" for x :: ProcProcess by (rule exI [of _ "p_threads x"]) simp
  then show ?case by auto
next
  case (Cons t ts)
  have "ProcCurrThread s \<noteq> t" "t_state (threadAt s t) = PTS_ZOMBIE" using Cons.prems by auto
  then obtain r where r: "ProcIntReapThread t s = ret r" "threadAt r = threadAt s" "ProcCurrThread r = ProcCurrThread s"
    "ProcCurrProcess r = ProcCurrProcess s" "ProcKernelProcess r = ProcKernelProcess s" "procTable r = procTable s"
    "processAt r = (processAt s)(t_parent (threadAt s t) := p_threads_update (remove1 t) (processAt s (t_parent (threadAt s t))))"
    "slabFreed r = slabFreed s @ [t]"
    by (rule reap_thread_ret)
  have "\<forall>u \<in> set ts. u \<noteq> ProcCurrThread r \<and> t_state (threadAt r u) = PTS_ZOMBIE" using Cons.prems r(2,3) by simp
  from Cons.IH [OF this] obtain s' where s': "reap_threads ts r = ret s'" "ProcCurrThread s' = ProcCurrThread r"
    "ProcCurrProcess s' = ProcCurrProcess r" "ProcKernelProcess s' = ProcKernelProcess r" "procTable s' = procTable r"
    "\<forall>p. \<exists>us. processAt s' p = p_threads_update (\<lambda>_. us) (processAt r p)" "set ts \<subseteq> set (slabFreed s')"
    "set (slabFreed r) \<subseteq> set (slabFreed s')" by blast
  have "\<exists>us. processAt s' p = p_threads_update (\<lambda>_. us) (processAt s p)" for p
  proof -
    obtain us where "processAt s' p = p_threads_update (\<lambda>_. us) (processAt r p)" using s'(6) by blast
    then show ?thesis using r(7) by auto
  qed
  then show ?case using s' r by simp
qed

lemma reap_process_ret:
  assumes "p_zombie (processAt s p)"
    and "\<forall>t \<in> set (p_threads (processAt s p)). t \<noteq> ProcCurrThread s \<and> t_state (threadAt s t) = PTS_ZOMBIE"
  shows "\<exists>s'. ProcIntReapProcess p s = ret s' \<and> procTable s' (p_pid (processAt s p)) \<noteq> Some p \<and>
    (\<forall>i. i \<noteq> p_pid (processAt s p) \<longrightarrow> procTable s' i = procTable s i) \<and> p \<in> set (slabFreed s') \<and>
    (\<forall>q. p_parent (processAt s' q) = p_parent (processAt s q)) \<and>
    (\<forall>c \<in> set (p_children (processAt s p)). c \<noteq> p \<longrightarrow> c \<in> set (p_children (processAt s' (ProcKernelProcess s')))) \<and>
    (\<forall>q. distinct (p_children (processAt s q)) \<and> q \<noteq> ProcKernelProcess s \<longrightarrow> p \<notin> set (p_children (processAt s' q)))"
proof -
  obtain r where r: "reap_threads (p_threads (processAt s p)) s = ret r" "ProcKernelProcess r = ProcKernelProcess s"
    "procTable r = procTable s" "\<forall>q. \<exists>us. processAt r q = p_threads_update (\<lambda>_. us) (processAt s q)"
    using reap_threads_ret [OF assms(2)] by blast
  have same: "p_pid (processAt r q) = p_pid (processAt s q)" "p_parent (processAt r q) = p_parent (processAt s q)"
    "p_children (processAt r q) = p_children (processAt s q)" for q
    using r(4) [rule_format, of q] by auto
  obtain s' where s': "ProcIntReapProcess p s = ret s'" using assms(1) r(1) by (simp add: ProcIntReapProcess_def Let_def)
  let ?r2 = "ProcDisownChildren p r"
  have at: "processAt s' = (\<lambda>q. p_children_update (remove1 p) (processAt ?r2 q))"
    "ProcKernelProcess s' = ProcKernelProcess s" "p \<in> set (slabFreed s')"
    "procTable s' = (if procTable s (p_pid (processAt s p)) = Some p then (procTable s)(p_pid (processAt s p) := None) else procTable s)"
    using s' assms(1) r(1-3) same(1)
    by (auto simp: ProcIntReapProcess_def Let_def ProcDisownChildren_def)
  have kids: "p_children (processAt ?r2 q) = (if q = ProcKernelProcess s then
        (if q = p then [] else p_children (processAt s q)) @ p_children (processAt s p)
      else if q = p then [] else p_children (processAt s q))" for q
    using r(2) same(3) by (simp add: ProcDisownChildren_def Let_def)
  have par: "p_parent (processAt ?r2 q) = p_parent (processAt s q)" for q
    using same(2) by (simp add: ProcDisownChildren_def Let_def)
  show ?thesis
    using s' at kids par by auto
qed

text \<open>
  Waiting for any child. A process without children gets \<open>-ECHILD\<close>; with children but none dead, and
  \<open>WNOHANG\<close>, it gets 0 at once and nothing changes. If a child is dead, with all its threads dead, the
  call returns the identifier and exit code of the first such child whatever the options, and the child
  is gone: it is freed, no longer found under its identifier and no longer in the list, and all other
  identifiers are as before.
\<close>

theorem wait_any_child:
  assumes "ProcCurrProcess s \<noteq> ProcKernelProcess s" "distinct (p_children (processAt s (ProcCurrProcess s)))"
  shows "(p_children (processAt s (ProcCurrProcess s)) = [] \<longrightarrow> ProcWaitProcess others (-1) options s = ret (None, - ECHILD, s)) \<and>
    (p_children (processAt s (ProcCurrProcess s)) \<noteq> [] \<and> options AND WNOHANG \<noteq> 0 \<and>
     (\<forall>p \<in> set (p_children (processAt s (ProcCurrProcess s))). \<not> p_zombie (processAt s p)) \<longrightarrow>
       ProcWaitProcess others (-1) options s = ret (None, 0, s)) \<and>
    (find (\<lambda>p. p_zombie (processAt s p)) (p_children (processAt s (ProcCurrProcess s))) = Some p \<and>
     (\<forall>t \<in> set (p_threads (processAt s p)). t \<noteq> ProcCurrThread s \<and> t_state (threadAt s t) = PTS_ZOMBIE) \<longrightarrow>
       (\<exists>s'. ProcWaitProcess others (-1) options s = ret (Some (p_exitCode (processAt s p)), sint (p_pid (processAt s p)), s') \<and>
          p \<in> set (slabFreed s') \<and> procTable s' (p_pid (processAt s p)) \<noteq> Some p \<and>
          (\<forall>i. i \<noteq> p_pid (processAt s p) \<longrightarrow> procTable s' i = procTable s i) \<and>
          p \<notin> set (p_children (processAt s' (ProcCurrProcess s)))))"
proof (intro conjI impI)
  let ?kids = "p_children (processAt s (ProcCurrProcess s))"
  show "?kids = [] \<Longrightarrow> ProcWaitProcess others (-1) options s = ret (None, - ECHILD, s)"
    using assms(1) by (simp add: ProcWaitProcess_def)
  show "ProcWaitProcess others (-1) options s = ret (None, 0, s)"
    if "?kids \<noteq> [] \<and> options AND WNOHANG \<noteq> 0 \<and> (\<forall>p \<in> set ?kids. \<not> p_zombie (processAt s p))"
  proof -
    have "find (\<lambda>p. p_zombie (processAt s p)) ?kids = None" using that by (simp add: find_None_iff)
    then show ?thesis using assms(1) that by (simp add: ProcWaitProcess_def wait_loop.simps)
  qed
  assume dead: "find (\<lambda>p. p_zombie (processAt s p)) ?kids = Some p \<and>
    (\<forall>t \<in> set (p_threads (processAt s p)). t \<noteq> ProcCurrThread s \<and> t_state (threadAt s t) = PTS_ZOMBIE)"
  then have p: "p_zombie (processAt s p)" "?kids \<noteq> []" by (auto simp: find_Some_iff)
  obtain s' where s': "ProcIntReapProcess p s = ret s'" "procTable s' (p_pid (processAt s p)) \<noteq> Some p"
    "\<forall>i. i \<noteq> p_pid (processAt s p) \<longrightarrow> procTable s' i = procTable s i" "p \<in> set (slabFreed s')"
    "p \<notin> set (p_children (processAt s' (ProcCurrProcess s)))"
    using reap_process_ret [OF p(1)] dead assms by metis
  have "ProcWaitProcess others (-1) options s = ret (Some (p_exitCode (processAt s p)), sint (p_pid (processAt s p)), s')"
    using assms(1) p dead s'(1) by (simp add: ProcWaitProcess_def wait_loop.simps)
  then show "\<exists>s'. ProcWaitProcess others (-1) options s = ret (Some (p_exitCode (processAt s p)), sint (p_pid (processAt s p)), s') \<and>
          p \<in> set (slabFreed s') \<and> procTable s' (p_pid (processAt s p)) \<noteq> Some p \<and>
          (\<forall>i. i \<noteq> p_pid (processAt s p) \<longrightarrow> procTable s' i = procTable s i) \<and>
          p \<notin> set (p_children (processAt s' (ProcCurrProcess s)))"
    using s' by blast
qed

theorem wait_any_child_witness:
  "\<exists>s'. ProcWaitProcess (\<lambda>s. s) (-1) 0 pair_proc = ret (Some 42, 3, s') \<and> procTable s' 3 \<noteq> Some 3"
  using wait_any_child [of pair_proc "\<lambda>s. s" 0 3] by (auto simp: pair_proc_simps)

text \<open>
  Orphans keep a pointer to a freed process. Reaping a process moves its children to the kernel's
  list, but their parent field still names the process that has just been freed; when such a child exits
  it is not handed to the reaper but notifies that process.
\<close>

theorem orphan_parent_dangles:
  assumes "p_zombie (processAt s p)" "c \<in> set (p_children (processAt s p))" "c \<noteq> p" "p_parent (processAt s c) = p"
    and "\<forall>t \<in> set (p_threads (processAt s p)). t \<noteq> ProcCurrThread s \<and> t_state (threadAt s t) = PTS_ZOMBIE"
  shows "\<exists>s'. ProcIntReapProcess p s = ret s' \<and> p \<in> set (slabFreed s') \<and>
    c \<in> set (p_children (processAt s' (ProcKernelProcess s'))) \<and> p_parent (processAt s' c) = p"
  using reap_process_ret [OF assms(1,5)] assms(2-4) by metis

theorem orphan_parent_dangles_witness:
  "\<exists>s'. ProcIntReapProcess 3 (upd_process 3 (p_children_update (\<lambda>_. [4])) (upd_process 4 (p_parent_update (\<lambda>_. 3)) pair_proc)) = ret s' \<and>
     p_parent (processAt s' 4) = 3 \<and> 3 \<in> set (slabFreed s')"
proof -
  let ?s = "upd_process 3 (p_children_update (\<lambda>_. [4])) (upd_process 4 (p_parent_update (\<lambda>_. 3)) pair_proc)"
  from orphan_parent_dangles [of ?s 3 4] show ?thesis by (auto simp: pair_proc_simps)
qed

text \<open>
  Reaping a thread frees the wrong floating point state. \<open>ProcIntReapThread\<close> frees the save area of the
  thread that runs it, and the registers that thread owns are lost with it; the save area of the dead
  thread is kept, and if the dead thread owns the registers it still does after its structure is freed.
\<close>

theorem reap_frees_own_fpu:
  assumes "ProcIntReapThread t s = ret s'"
  shows "fpuSaved s' (ProcCurrThread s) = None \<and> fpuCurrent s' \<noteq> Some (ProcCurrThread s) \<and>
    fpuSaved s' t = fpuSaved s t \<and> (fpuCurrent s = Some t \<longrightarrow> fpuCurrent s' = Some t)"
proof -
  have "ProcCurrThread s \<noteq> t" using assms by (auto simp: ProcIntReapThread_def)
  moreover have "fpuSaved s' = fpuSaved (CpuFreeFpuState (ProcCurrThread s) s)"
    "fpuCurrent s' = fpuCurrent (CpuFreeFpuState (ProcCurrThread s) s)"
    using assms by (cases "threadTable s (t_tid (threadAt s t)) = Some t";
      auto simp: ProcIntReapThread_def Let_def upd_process_def split: if_splits)+
  ultimately show ?thesis by (auto simp: CpuFreeFpuState_def Let_def)
qed

theorem reap_frees_own_fpu_witness:
  "\<exists>s'. ProcIntReapThread 7 (pair_proc\<lparr>fpuSaved := (\<lambda>_. Some [1]), fpuCurrent := Some 5\<rparr>) = ret s' \<and> fpuSaved s' 5 = None \<and> fpuSaved s' 7 = Some [1]"
proof -
  let ?s = "pair_proc\<lparr>fpuSaved := (\<lambda>_. Some [1]), fpuCurrent := Some 5\<rparr>"
  have "ProcCurrThread ?s \<noteq> 7" "t_state (threadAt ?s 7) = PTS_ZOMBIE" by (simp_all add: pair_proc_simps)
  then obtain s' where "ProcIntReapThread 7 ?s = ret s'" by (rule reap_thread_ret)
  with reap_frees_own_fpu [OF this] show ?thesis by (auto simp: pair_proc_simps)
qed

end
