(* ===== verification/Page_Fault.thy ===== *)
theory Page_Fault
  imports Region
begin

text \<open>
  The page fault handler, \<open>kernel/src/mm/pageFault.c\<close>: demand paging and copy on write on top of the
  page tables and regions.

  The handler itself touches user addresses: it wipes the page it has just mapped and copies the page
  it duplicates. The processor translates these accesses as well, and an access it cannot translate
  enters the handler again, from kernel mode. \<open>user_access\<close> is such an access with the faults it
  causes; it may never come to an end. The error code of a nested fault has bit 0 for a page that is
  present and bit 1 for a write; bit 2, user mode, is clear. Write protection holds in kernel mode
  too, because \<open>cpuAsm.s\<close> sets the WP bit of CR0. Translations are read from the tables: stale entries
  of the translation buffer, which the code invalidates, are not modelled.
\<close>

section \<open>The handler\<close>

definition MEM_TEMPPAGE3 :: u32 where "MEM_TEMPPAGE3 = 0xFFFFE000"

definition page_base :: "u32 \<Rightarrow> u32" where "page_base addr = addr AND 0xFFFFF000"

definition copy_page :: "MemPhysPage \<Rightarrow> MemPhysPage \<Rightarrow> 'a paging_state_scheme \<Rightarrow> 'a paging_state_scheme" where
  "copy_page dst src s =
     s\<lparr>pmem := (\<lambda>a. if in_page dst a then pmem s (a - entry dst 0 + entry src 0) else pmem s a)\<rparr>"

text \<open>
  The part of the handler that repairs a fault; \<open>None\<close> is a fault that it does not handle. The
  argument \<open>access\<close> gives the physical page of a user address the handler touches.
\<close>

definition fault_fix ::
  "(bool \<times> u32 \<times> 'a mm_state_scheme \<Rightarrow> (MemPhysPage \<times> 'a mm_state_scheme) run)
     \<Rightarrow> u32 \<Rightarrow> u32 \<Rightarrow> 'a mm_state_scheme \<Rightarrow> 'a mm_state_scheme option run" where
  "fault_fix access addr errorCode s =
     (if bit errorCode 4 then panic
      else let context = MemCurrentContext s; pd = physDirectory (contextAt s context); basePageAddr = page_base addr in
        case MemRegionFind context addr s of
          None \<Rightarrow> ret None
        | Some region \<Rightarrow>
          if bit errorCode 0 then
            (let table = MemGetPageTable (MemGetPageDirectory pd addr) addr s in
             if \<not> e_writable (pmem s table) \<and> rflags (regionAt s region) AND MEM_WRITABLE \<noteq> 0 then
               seq (if MemPhysicalRefCount (pageID (pmem s table)) s > 1 then
                      seq (MemPhysicalAlloc 1 MEM_HIGHMEM s) (\<lambda>(newPage, s1).
                        let s2 = snd (MemMapPage MEM_TEMPPAGE3 newPage s1) in
                        seq (access (False, basePageAddr, s2)) (\<lambda>(src, s3).
                          let s4 = copy_page (pageID (MemVirtualPageTables s3 (vpt_index MEM_TEMPPAGE3))) src s3;
                              s5 = snd (MemUnmapPage MEM_TEMPPAGE3 s4);
                              s6 = MemPhysicalDeleteRef (pageID (pmem s5 table)) 1 s5
                          in ret (set_word table (set_pageID newPage (pmem s6 table)) s6)))
                    else ret s)
                 (\<lambda>s1. ret (Some (set_word table (set_flag 1 True (pmem s1 table)) s1)))
             else ret None)
          else
            seq (MemPhysicalAlloc 1 MEM_HIGHMEM s) (\<lambda>(page, s1).
              seq (MemIntMapUserPage pd basePageAddr page (rflags (regionAt s region)) s1) (\<lambda>s2.
                seq (access (True, basePageAddr, s2)) (\<lambda>(p, s3). ret (Some (wipe_page p s3))))))"

lemma fault_fix_mono [partial_function_mono]: "mono_option (\<lambda>f. fault_fix f addr errorCode s)"
proof (cases "MemRegionFind (MemCurrentContext s) addr s")
  case None
  show ?thesis unfolding fault_fix_def Let_def None option.case by (intro if_mono option.const_mono)
next
  case (Some region)
  show ?thesis unfolding fault_fix_def Let_def Some case_prod_beta option.case
    by (intro if_mono seq_mono option.const_mono call_mono)
qed

definition nested_error :: "bool \<Rightarrow> bool \<Rightarrow> u32" where
  "nested_error present write = (if present then 1 else 0) OR (if write then 2 else 0)"

partial_function (option) user_access ::
  "bool \<times> u32 \<times> 'a mm_state_scheme \<Rightarrow> (MemPhysPage \<times> 'a mm_state_scheme) run" where
  "user_access x =
     (let write = fst x; addr = fst (snd x); s = snd (snd x);
          w = mmu_walk (physDirectory (contextAt s (MemCurrentContext s))) addr s
      in if w \<noteq> None \<and> (write \<longrightarrow> snd (the w)) then ret (fst (the w), s)
         else seq (fault_fix user_access addr (nested_error (w \<noteq> None) write) s) (\<lambda>r.
           case r of None \<Rightarrow> panic | Some s1 \<Rightarrow> user_access (write, addr, s1)))"

declare user_access.simps [simp del]

datatype fault_action = FaultFixed | FaultSegv

definition MemPageFaultHandler ::
  "u32 \<Rightarrow> u32 \<Rightarrow> 'a mm_state_scheme \<Rightarrow> (fault_action \<times> 'a mm_state_scheme) run" where
  "MemPageFaultHandler addr errorCode s =
     seq (fault_fix user_access addr errorCode s) (\<lambda>r.
       case r of Some s1 \<Rightarrow> ret (FaultFixed, s1)
       | None \<Rightarrow> if bit errorCode 2 then ret (FaultSegv, s) else panic)"

section \<open>Addresses and frames\<close>

lemma page_base_bits: "bit (page_base a) n \<longleftrightarrow> 12 \<le> n \<and> bit a n"
proof -
  have "(0xFFFFF000 :: int) = push_bit 12 (mask 20)" by (simp add: mask_eq_exp_minus_1)
  then have "bit (0xFFFFF000 :: int) n \<longleftrightarrow> 12 \<le> n \<and> n < 32" by (simp only: bit_push_bit_iff bit_mask_iff) auto
  then show ?thesis by (auto simp: page_base_def bit_and_iff dest: bit_imp_le_length)
qed

lemma page_base_index [simp]:
  "drop_bit 22 (page_base a) = drop_bit 22 a" "drop_bit 12 (page_base a) = drop_bit 12 a"
  by (rule bit_eqI, simp add: bit_drop_bit_eq page_base_bits)+

lemma page_base_lookup [simp]:
  "page_base (page_base a) = page_base a" "mmu_pte pd (page_base a) = mmu_pte pd a" "mmu_walk pd (page_base a) = mmu_walk pd a"
  "MemGetPageDirectory pd (page_base a) = MemGetPageDirectory pd a"
  "MemGetPageTable dir (page_base a) s = MemGetPageTable dir a s"
  by (rule bit_eqI, simp add: page_base_bits)
    (simp_all add: fun_eq_iff Let_def mmu_walk_def mmu_pte_def MemGetPageDirectory_def MemGetPageTable_def)

lemma page_base_le: "page_base a \<le> a"
  unfolding page_base_def by (metis word_and_le1 word_and_le2)

lemma entry_cong: "(p - q) mod 0x100000 = 0 \<Longrightarrow> entry p i = entry q i"
proof -
  have wrap: "(4294967296 :: u32) = 0" by (rule word_uint_eqI) simp
  assume "(p - q) mod 0x100000 = 0"
  then obtain k where "p = q + 0x100000 * k" by (metis add.commute diff_add_cancel mod_0_imp_dvd dvdE)
  then have "of_int p * PAGE_SIZE = (of_int q * PAGE_SIZE :: u32)"
    by (simp add: PAGE_SIZE_def algebra_simps) (subst wrap, simp)
  then show ?thesis by (simp add: entry_def)
qed

lemma entry_signed [simp]: "entry (signed_take_bit 19 p) i = entry p i"
  using mod_diff_left_eq [of "p + 524288" 1048576 "524288 + p"]
  by (intro entry_cong) (simp add: signed_take_bit_eq_take_bit_shift take_bit_eq_mod algebra_simps)

lemma in_page_signed [simp]: "in_page (signed_take_bit 19 p) = in_page p"
  by (simp add: in_page_def fun_eq_iff)

lemma in_page_entry: "uint j < 1024 \<Longrightarrow> in_page p (entry q j) \<longleftrightarrow> (p - q) mod 0x100000 = 0"
  unfolding in_page_def word_uint_eq_iff entry_frame by (auto simp: mod_eq_dvd_iff dvd_eq_mod_eq_0 [symmetric] dvd_diff_commute)

text \<open>Two pages of the machine are in the same frame only if they are the same page.\<close>

lemma distinct_frames: "p \<noteq> q \<Longrightarrow> 0 \<le> p \<Longrightarrow> p < 0x100000 \<Longrightarrow> 0 \<le> q \<Longrightarrow> q < 0x100000 \<Longrightarrow> (p - q) mod 0x100000 \<noteq> 0"
  for p q :: int
proof
  assume a: "p \<noteq> q" "0 \<le> p" "p < 0x100000" "0 \<le> q" "q < 0x100000" "(p - q) mod 0x100000 = 0"
  then have "0x100000 dvd p - q" by (simp add: dvd_eq_mod_eq_0)
  then have "p mod 0x100000 = q mod 0x100000" by (simp add: mod_eq_dvd_iff)
  moreover have "p mod 0x100000 = p" "q mod 0x100000 = q" using a by simp_all
  ultimately show False using a(1) by simp
qed

section \<open>Address spaces in good order\<close>

definition current_dir :: "'a mm_state_scheme \<Rightarrow> MemPhysPage" where
  "current_dir s = physDirectory (contextAt s (MemCurrentContext s))"

definition table_page :: "u32 \<Rightarrow> 'a mm_state_scheme \<Rightarrow> MemPhysPage" where
  "table_page a s = pageID (pmem s (MemGetPageDirectory (current_dir s) a))"

definition has_table :: "u32 \<Rightarrow> 'a mm_state_scheme \<Rightarrow> bool" where
  "has_table a s = e_present (pmem s (MemGetPageDirectory (current_dir s) a))"

text \<open>The page directory and the page tables of the current context are pages in use.\<close>

definition tables_ok :: "'a mm_state_scheme \<Rightarrow> bool" where
  "tables_ok s \<longleftrightarrow> zones_ok s \<and> highestPage s \<le> 0x100000 \<and>
     0 \<le> current_dir s \<and> current_dir s < 0x100000 \<and> page_refs s (current_dir s) \<noteq> 0 \<and>
     (\<forall>a. has_table a s \<longrightarrow> 0 \<le> table_page a s \<and> page_refs s (table_page a s) \<noteq> 0 \<and> table_page a s \<noteq> current_dir s)"

definition user_page_ready :: "'a phys_state_scheme \<Rightarrow> bool" where
  "user_page_ready s \<longleftrightarrow> live_zone s MEM_HIGHMEM \<and> zone_free (zones s MEM_HIGHMEM) (page_refs s) \<noteq> {}"

lemma pageID_less: "pageID w < 0x100000"
  using signed_take_bit_int_less_exp [of 19 "uint (drop_bit 12 w)"] by (simp add: pageID_def)

lemma more_mm:
  assumes "phys_state.more s' = phys_state.more s"
  shows "pmem s' = pmem s" "MemVirtualPageTables s' = MemVirtualPageTables s" "regionAt s' = regionAt s"
    "contextAt s' = contextAt s" "MemCurrentContext s' = MemCurrentContext s" "MemKernelContext s' = MemKernelContext s"
  by (cases s; cases s'; use assms in simp)+

lemma walk_pmem: "pmem s' = pmem s \<Longrightarrow> mmu_pte pd a s' = mmu_pte pd a s \<and> mmu_walk pd a s' = mmu_walk pd a s"
  by (simp add: mmu_walk_def mmu_pte_def Let_def)

lemma user_page_new:
  assumes "tables_ok s" "user_page_ready s"
  obtains p s1 where "MemPhysicalAlloc 1 MEM_HIGHMEM s = ret (p, s1)" "phys_state.more s1 = phys_state.more s"
    "page_refs s p = 0" "page_refs s1 = (page_refs s)(p := 1)" "0 \<le> p" "p < 0x100000"
    "(p - current_dir s) mod 0x100000 \<noteq> 0" "\<forall>a. has_table a s \<longrightarrow> (p - table_page a s) mod 0x100000 \<noteq> 0"
proof -
  have wf: "zones_ok s" and top: "highestPage s \<le> 0x100000" using assms(1) by (simp_all add: tables_ok_def)
  obtain p s1 where alloc: "MemPhysicalAlloc 1 MEM_HIGHMEM s = ret (p, s1)"
    using user_pages.alloc_ready [OF wf] assms(2) by (auto simp: user_page_ready_def)
  note new = alloc_one_fresh [OF alloc wf]
  have range: "0 \<le> p" "p < 0x100000" using new top by auto
  have "q \<noteq> p" if "page_refs s q \<noteq> 0" for q using user_pages.in_use_kept [OF wf alloc that] by simp
  then have "(p - q) mod 0x100000 \<noteq> 0" if "page_refs s q \<noteq> 0" "0 \<le> q" "q < 0x100000" for q
    using that range by (intro distinct_frames) auto
  then show ?thesis using that [OF alloc alloc_more [OF alloc]] new range assms(1) pageID_less
    by (auto simp: tables_ok_def table_page_def)
qed

lemma wipe_other: "\<not> in_page p a \<Longrightarrow> pmem (wipe_page p s) a = pmem s a"
  by (simp add: wipe_page_def)

text \<open>Writing to a page that is neither the directory nor a page table changes no translation.\<close>

lemma walk_data_page:
  assumes "\<And>a. \<not> in_page p a \<Longrightarrow> pmem s' a = pmem s a" "(p - pd) mod 0x100000 \<noteq> 0"
    and "e_present (pmem s (entry pd (drop_bit 22 a))) \<Longrightarrow> (p - pageID (pmem s (entry pd (drop_bit 22 a)))) mod 0x100000 \<noteq> 0"
  shows "mmu_walk pd a s' = mmu_walk pd a s"
proof (rule walk_unchanged)
  show "pmem s' (entry pd (drop_bit 22 a)) = pmem s (entry pd (drop_bit 22 a))"
    using assms(1,2) in_page_entry [OF index_22] by blast
  fix t assume "mmu_pte pd a s = Some t"
  then have "e_present (pmem s (entry pd (drop_bit 22 a)))"
      "t = entry (pageID (pmem s (entry pd (drop_bit 22 a)))) (drop_bit 12 a AND 0x3FF)"
    by (simp_all add: mmu_pte_def Let_def split: if_splits)
  then have "pmem s' t = pmem s t" using assms(1,3) in_page_entry [OF index_10] by blast
  then show "e_present (pmem s' t) = e_present (pmem s t) \<and> pageID (pmem s' t) = pageID (pmem s t) \<and>
      e_writable (pmem s' t) = e_writable (pmem s t)" by simp
qed

section \<open>Accesses of the handler\<close>

lemma access_translated:
  assumes "mmu_walk (current_dir s) addr s = Some (p, w)" "write \<longrightarrow> w"
  shows "user_access (write, addr, s) = ret (p, s)"
  using assms by (subst user_access.simps) (simp add: current_dir_def Let_def all_bool_eq)

lemma access_faults:
  assumes "case mmu_walk (current_dir s) addr s of None \<Rightarrow> True | Some (p, w) \<Rightarrow> write \<and> \<not> w"
  shows "user_access (write, addr, s) = seq (fault_fix user_access addr
      (nested_error (mmu_walk (current_dir s) addr s \<noteq> None) write) s) (\<lambda>r.
        case r of None \<Rightarrow> panic | Some s1 \<Rightarrow> user_access (write, addr, s1))"
  using assms by (subst user_access.simps) (auto simp: current_dir_def Let_def split: option.splits prod.splits)

section \<open>Demand paging\<close>

text \<open>The state in which a not present fault maps a new page.\<close>

definition demand_ready :: "u32 \<Rightarrow> u32 \<Rightarrow> 'a mm_state_scheme \<Rightarrow> bool" where
  "demand_ready addr region s \<longleftrightarrow> tables_ok s \<and> user_page_ready s \<and>
     MemRegionFind (MemCurrentContext s) addr s = Some region \<and>
     rflags (regionAt s region) AND (MEM_READABLE OR MEM_WRITABLE OR MEM_EXECUTABLE) \<noteq> 0 \<and>
     addr < KERNEL_VIRTUAL_BASE \<and> has_table addr s \<and> mmu_walk (current_dir s) addr s = None \<and>
     tableCount (pmem s (entry (table_page addr s) 0)) \<noteq> 7 \<and> \<not> bit addr 22 \<and> \<not> bit addr 23"

lemma demand_map:
  assumes ready: "demand_ready addr region s"
  obtains p s1 s2 where "MemPhysicalAlloc 1 MEM_HIGHMEM s = ret (p, s1)" "phys_state.more s1 = phys_state.more s"
    "MemIntMapUserPage (current_dir s) (page_base addr) p (rflags (regionAt s region)) s1 = ret s2"
    "page_refs s p = 0" "0 \<le> p" "p < 0x100000"
    "mmu_walk (current_dir s) addr s2 = Some (signed_take_bit 19 p, rflags (regionAt s region) AND MEM_WRITABLE \<noteq> 0)"
    "\<And>a. mmu_pte (current_dir s) a s \<noteq> mmu_pte (current_dir s) addr s \<Longrightarrow> mmu_walk (current_dir s) a s2 = mmu_walk (current_dir s) a s"
    "paging_frame (table_page addr s) s1 s2" "(p - current_dir s) mod 0x100000 \<noteq> 0"
    "\<forall>a. has_table a s \<longrightarrow> (p - table_page a s) mod 0x100000 \<noteq> 0"
proof -
  let ?pd = "current_dir s" and ?flags = "rflags (regionAt s region)"
  have "tables_ok s" "user_page_ready s" using ready by (simp_all add: demand_ready_def)
  then obtain p s1 where p: "MemPhysicalAlloc 1 MEM_HIGHMEM s = ret (p, s1)" "phys_state.more s1 = phys_state.more s"
    "page_refs s p = 0" "page_refs s1 = (page_refs s)(p := 1)" "0 \<le> p" "p < 0x100000"
    "(p - ?pd) mod 0x100000 \<noteq> 0" "\<forall>a. has_table a s \<longrightarrow> (p - table_page a s) mod 0x100000 \<noteq> 0"
    by (rule user_page_new)
  note mem = more_mm(1) [OF p(2)]
  have walks: "mmu_walk ?pd a s1 = mmu_walk ?pd a s" "mmu_pte ?pd a s1 = mmu_pte ?pd a s" for a
    using walk_pmem [OF mem] by simp_all
  have apart: "(table_page addr s - ?pd) mod 0x100000 \<noteq> 0"
    using ready pageID_less by (intro distinct_frames) (auto simp: demand_ready_def tables_ok_def table_page_def)
  have "\<exists>s2. MemIntMapUserPage ?pd (page_base addr) p ?flags s1 = ret s2 \<and>
      paging_frame (pageID (pmem s1 (MemGetPageDirectory ?pd (page_base addr)))) s1 s2 \<and>
      mmu_walk ?pd (page_base addr) s2 = Some (signed_take_bit 19 p, ?flags AND MEM_WRITABLE \<noteq> 0) \<and>
      (\<forall>a. mmu_pte ?pd a s1 \<noteq> mmu_pte ?pd (page_base addr) s1 \<longrightarrow> mmu_walk ?pd a s2 = mmu_walk ?pd a s1)"
    using ready apart page_base_le [of addr]
    by (intro map_user_walk)
      (auto simp: demand_ready_def mem walks has_table_def table_page_def counter_word_def page_base_bits)
  then show ?thesis using that p walks by (auto simp: table_page_def mem)
qed


text \<open>A machine of four pages: the directory in page 1, one page table in page 2, page 3 free.\<close>

definition paged :: "MemRegionFlags \<Rightarrow> mm_state" where
  "paged flags = (two_regions flags)\<lparr>pmem := (\<lambda>_. 0)(entry 1 0 := 0x2007), highestPage := 4,
     zones := (\<lambda>i. if i = MEM_HIGHMEM then \<lparr>headPtr = 3, zstart = 3, zend = 4\<rparr> else no_zone),
     MemPageStateTable := (\<lambda>p. \<lparr>refCount = (if p = 1 \<or> p = 2 then 1 else 0), slabPtr = 0\<rparr>)\<rparr>"

lemma pageID_2007: "pageID 0x2007 = 2"
  by (simp add: pageID_def signed_take_bit_eq_take_bit_minus)

lemma paged_tables: "tables_ok (paged flags)"
proof -
  have dir: "current_dir (paged flags) = 1" by (simp add: current_dir_def paged_def two_regions_def)
  have mem: "pmem (paged flags) = (\<lambda>_. 0)(entry 1 0 := 0x2007)" by (simp add: paged_def)
  have "table_page a (paged flags) = 2" if "has_table a (paged flags)" for a
  proof -
    have "MemGetPageDirectory 1 a = entry 1 0"
      using that unfolding has_table_def dir mem by (auto simp: e_present_def split: if_splits)
    then show ?thesis by (simp add: table_page_def dir mem pageID_2007)
  qed
  moreover note dir
  moreover have "zones_ok (paged flags)" by (simp add: zones_ok_def zone_ok_def no_zone_def paged_def)
  moreover have "page_refs (paged flags) 1 = 1" "page_refs (paged flags) 2 = 1" "highestPage (paged flags) = 4"
    by (simp_all add: page_refs_def paged_def)
  ultimately show ?thesis by (simp add: tables_ok_def)
qed

lemma paged_ready: "flags AND (MEM_READABLE OR MEM_WRITABLE OR MEM_EXECUTABLE) \<noteq> 0 \<Longrightarrow> demand_ready 0x2010 100 (paged flags)"
proof -
  assume flags: "flags AND (MEM_READABLE OR MEM_WRITABLE OR MEM_EXECUTABLE) \<noteq> 0"
  have dir: "pmem (paged flags) (MemGetPageDirectory (current_dir (paged flags)) 0x2010) = 0x2007"
    by (simp add: paged_def two_regions_def current_dir_def MemGetPageDirectory_def)
  have entries: "pmem (paged flags) (entry 2 i) = 0" if "uint i < 1024" for i
    using in_page_entry [OF that, of 1 2] in_page_entry [of 0 1 1] by (auto simp: paged_def)
  have "3 \<in> zone_free (zones (paged flags) MEM_HIGHMEM) (page_refs (paged flags))"
    by (simp add: paged_def two_regions_def zone_free_def page_refs_def)
  then have "user_page_ready (paged flags)"
    by (auto simp: user_page_ready_def live_zone_def paged_def)
  moreover have "MemRegionFind (MemCurrentContext (paged flags)) 0x2010 (paged flags) = Some 100"
    by (simp add: MemRegionFind_def paged_def two_regions_def rend_def)
  moreover have "mmu_walk (current_dir (paged flags)) 0x2010 (paged flags) = None"
    using dir entries [of "drop_bit 12 0x2010 AND 0x3FF"] index_10 [of "0x2010"]
    by (simp add: mmu_walk_def mmu_pte_def Let_def MemGetPageDirectory_def pageID_2007 e_present_def)
  moreover have "rflags (regionAt (paged flags) 100) = flags" by (simp add: paged_def two_regions_def)
  moreover have "has_table 0x2010 (paged flags)" "table_page 0x2010 (paged flags) = 2"
    using dir by (simp_all add: has_table_def table_page_def pageID_2007 e_present_def)
  ultimately show ?thesis using flags paged_tables entries [of 0]
    by (simp add: demand_ready_def KERNEL_VIRTUAL_BASE_def tableCount_def bit_iff_odd)
qed


text \<open>
  Read-only regions. The first access to a page of a region that is not writable stops the kernel: the
  new page is mapped read-only and then wiped through that mapping, and the write fault this causes in
  kernel mode is not one the handler repairs.
\<close>

theorem demand_readonly_panics:
  assumes ready: "demand_ready addr region s" and err: "\<not> bit errorCode 0" "\<not> bit errorCode 4"
    and aligned: "MemRegionFind (MemCurrentContext s) (page_base addr) s = Some region"
    and readonly: "rflags (regionAt s region) AND MEM_WRITABLE = 0"
  shows "MemPageFaultHandler addr errorCode s = panic"
proof -
  let ?pd = "current_dir s"
  obtain p s1 s2 where run: "MemPhysicalAlloc 1 MEM_HIGHMEM s = ret (p, s1)" "phys_state.more s1 = phys_state.more s"
      "MemIntMapUserPage ?pd (page_base addr) p (rflags (regionAt s region)) s1 = ret s2"
    and walk: "mmu_walk ?pd addr s2 = Some (signed_take_bit 19 p, rflags (regionAt s region) AND MEM_WRITABLE \<noteq> 0)"
    and frame: "paging_frame (table_page addr s) s1 s2"
    using demand_map [OF ready] by metis
  have same: "regionAt s2 = regionAt s" "contextAt s2 = contextAt s" "MemCurrentContext s2 = MemCurrentContext s"
      "MemKernelContext s2 = MemKernelContext s"
    using more_mm [OF run(2)] frame by (auto simp: paging_frame_def)
  have cur: "current_dir s2 = ?pd" by (simp add: current_dir_def same)
  have "MemRegionFind (MemCurrentContext s2) (page_base addr) s2 = Some region"
    using aligned by (simp add: MemRegionFind_def same split: if_splits)
  then have "fault_fix user_access (page_base addr) (nested_error True True) s2 = ret None"
    using readonly by (simp add: fault_fix_def nested_error_def bit_iff_odd Let_def same)
  then have "user_access (True, page_base addr, s2) = panic"
    using walk readonly cur by (subst access_faults) simp_all
  then show ?thesis
    using ready err run by (simp add: MemPageFaultHandler_def fault_fix_def demand_ready_def Let_def current_dir_def [symmetric])
qed

theorem demand_readonly_panics_witness: "MemPageFaultHandler 0x2010 4 (paged 1) = panic"
proof (rule demand_readonly_panics [of _ 100])
  show "demand_ready 0x2010 100 (paged 1)"
    by (rule paged_ready) (simp add: MEM_READABLE_def MEM_WRITABLE_def MEM_EXECUTABLE_def)
qed (simp_all add: bit_iff_odd MemRegionFind_def paged_def two_regions_def rend_def page_base_def MEM_WRITABLE_def)

section \<open>Copy on write\<close>

text \<open>The state in which a write fault meets a shared page of a writable region.\<close>

definition cow_ready :: "u32 \<Rightarrow> u32 \<Rightarrow> MemPhysPage \<Rightarrow> 'a mm_state_scheme \<Rightarrow> bool" where
  "cow_ready addr region old s \<longleftrightarrow> tables_ok s \<and> user_page_ready s \<and>
     MemRegionFind (MemCurrentContext s) addr s = Some region \<and> rflags (regionAt s region) AND MEM_WRITABLE \<noteq> 0 \<and>
     mmu_walk (current_dir s) addr s = Some (old, False) \<and> 0 \<le> old \<and> page_refs s old > 1 \<and>
     \<not> e_present (MemVirtualPageTables s (vpt_index MEM_TEMPPAGE3)) \<and> \<not> bit addr 22 \<and> \<not> bit addr 23"

lemma temp_page:
  assumes "\<not> e_present (MemVirtualPageTables s (vpt_index MEM_TEMPPAGE3))"
  shows "MemMapPage MEM_TEMPPAGE3 p s = (True, s\<lparr>MemVirtualPageTables := (MemVirtualPageTables s)(vpt_index MEM_TEMPPAGE3 :=
      set_pageID p (set_flag 8 True (set_flag 1 True (set_flag 0 True 0))))\<rparr>)"
    and "e_present (MemVirtualPageTables t (vpt_index MEM_TEMPPAGE3)) \<Longrightarrow>
      snd (MemUnmapPage MEM_TEMPPAGE3 t) = t\<lparr>MemVirtualPageTables := (MemVirtualPageTables t)(vpt_index MEM_TEMPPAGE3 := 0)\<rparr>"
  using assms by (simp_all add: MemMapPage_def MemUnmapPage_def MEM_TEMPPAGE3_def MEM_KFIXED_MAX_def Let_def)

lemma copy_page_at: "uint i < 1024 \<Longrightarrow> pmem (copy_page p q s) (entry p i) = pmem s (entry q i)"
  by (simp add: copy_page_def in_page_entry) (simp add: entry_def algebra_simps)

lemma page_refs_set_word [simp]: "page_refs (set_word a v s) = page_refs s"
  by (simp add: set_word_def page_refs_def fun_eq_iff)

lemma copy_page_other: "\<not> in_page p a \<Longrightarrow> pmem (copy_page p q s) a = pmem s a"
  by (simp add: copy_page_def)

lemma copy_page_signed [simp]: "copy_page (signed_take_bit 19 p) q = copy_page p q"
  by (simp add: copy_page_def fun_eq_iff)

lemma pte_of_walk:
  assumes "mmu_walk (current_dir s) addr s = Some (q, w)" "\<not> bit addr 22" "\<not> bit addr 23"
  shows "has_table addr s" "MemGetPageTable (MemGetPageDirectory (current_dir s) addr) addr s =
      entry (table_page addr s) (drop_bit 12 addr AND 0x3FF)"
    "pageID (pmem s (entry (table_page addr s) (drop_bit 12 addr AND 0x3FF))) = q"
    "e_writable (pmem s (entry (table_page addr s) (drop_bit 12 addr AND 0x3FF))) = w"
    "e_present (pmem s (entry (table_page addr s) (drop_bit 12 addr AND 0x3FF)))"
  using assms by (auto simp: has_table_def table_page_def mmu_walk_def mmu_pte_def Let_def MemGetPageDirectory_def
      MemGetPageTable_def index_low split: if_splits option.splits)

text \<open>The handler on such a fault, as the state it leaves.\<close>

lemma cow_run:
  assumes ready: "cow_ready addr region old s" and err: "bit errorCode 0" "\<not> bit errorCode 4"
    and alloc: "MemPhysicalAlloc 1 MEM_HIGHMEM s = ret (p, s1)" "phys_state.more s1 = phys_state.more s"
    and apart: "(p - table_page addr s) mod 0x100000 \<noteq> 0" and in_use: "page_refs s1 old \<noteq> 0"
  defines "t \<equiv> entry (table_page addr s) (drop_bit 12 addr AND 0x3FF)"
  shows "\<exists>s'. MemPageFaultHandler addr errorCode s = ret (FaultFixed, s') \<and>
     pmem s' = (pmem (copy_page p old s))(t := set_flag 1 True (set_pageID p (pmem s t))) \<and>
     MemVirtualPageTables s' = (MemVirtualPageTables s)(vpt_index MEM_TEMPPAGE3 := 0) \<and>
     page_refs s' = (page_refs s1)(old := page_refs s1 old - 1)"
proof -
  let ?v = "vpt_index MEM_TEMPPAGE3"
  note same = more_mm [OF alloc(2)]
  define w where "w = set_pageID p (set_flag 8 True (set_flag 1 True (set_flag 0 True 0)))"
  have w: "e_present w" "pageID w = signed_take_bit 19 p" by (simp_all add: w_def)
  define s2 where "s2 = s1\<lparr>MemVirtualPageTables := (MemVirtualPageTables s1)(?v := w)\<rparr>"
  have map: "MemMapPage MEM_TEMPPAGE3 p s1 = (True, s2)"
    using temp_page(1) [of s1 p] ready same by (simp add: cow_ready_def s2_def w_def)
  have walk: "mmu_walk (current_dir s) addr s = Some (old, False)" and low: "\<not> bit addr 22" "\<not> bit addr 23"
    using ready by (simp_all add: cow_ready_def)
  note pte = pte_of_walk [OF walk low, folded t_def]
  have "current_dir s2 = current_dir s" "mmu_walk (current_dir s) addr s2 = mmu_walk (current_dir s) addr s"
    using walk_pmem [of s2 s] same by (simp_all add: s2_def current_dir_def)
  then have access: "user_access (False, page_base addr, s2) = ret (old, s2)"
    using walk by (intro access_translated) auto
  define s4 where "s4 = copy_page p old s2"
  define s5 where "s5 = s4\<lparr>MemVirtualPageTables := (MemVirtualPageTables s)(?v := 0)\<rparr>"
  have unmap: "snd (MemUnmapPage MEM_TEMPPAGE3 s4) = s5"
    using temp_page(2) [of s s4] ready w same by (simp add: cow_ready_def s4_def s5_def s2_def copy_page_def)
  have "\<not> in_page p t" using apart by (simp add: t_def in_page_entry index_10)
  then have mem: "pmem s5 t = pmem s t" by (simp add: s5_def s4_def copy_page_def s2_def same)
  define s' where "s' = set_word t (set_flag 1 True (set_pageID p (pmem s t))) (delete_ref old s5)"
  have s6: "pmem (delete_ref old s5) = pmem s5" "MemVirtualPageTables (delete_ref old s5) = MemVirtualPageTables s5"
    using more_mm [of "delete_ref old s5" s5] by simp_all
  have refs: "page_refs s5 = page_refs s1" by (simp add: s5_def s4_def copy_page_def s2_def page_refs_def fun_eq_iff)
  have slot: "copy_page (pageID (MemVirtualPageTables s2 ?v)) old s2 = s4" by (simp add: s4_def s2_def w)
  have release: "MemPhysicalDeleteRef old 1 s5 = delete_ref old s5" by (simp add: MemPhysicalDeleteRef_def)
  have "MemPageFaultHandler addr errorCode s = ret (FaultFixed, s')"
    using ready err alloc(1) access
    by (simp add: MemPageFaultHandler_def fault_fix_def cow_ready_def Let_def current_dir_def [symmetric] pte map
        MemPhysicalRefCount_def page_refs_def slot unmap mem release s'_def)
      (simp add: set_word_def s6 mem)
  moreover have "pmem s' = (pmem (copy_page p old s))(t := set_flag 1 True (set_pageID p (pmem s t)))"
    by (simp add: s'_def s6) (simp add: s5_def s4_def s2_def copy_page_def same cong: if_cong)
  moreover have "MemVirtualPageTables s' = (MemVirtualPageTables s)(?v := 0)"
    by (simp add: s'_def set_word_def s6) (simp add: s5_def)
  moreover have "page_refs s' = (page_refs s1)(old := page_refs s1 old - 1)"
    using delete_ref_refs [of old s5] in_use refs by (simp add: s'_def)
  ultimately show ?thesis by blast
qed

text \<open>The translations after the copy: the entry of \<open>addr\<close> names the new page, every other entry is as before.\<close>

lemma cow_walks:
  assumes tables: "tables_ok s" and walk: "mmu_walk (current_dir s) addr s = Some (old, False)" and low: "\<not> bit addr 22" "\<not> bit addr 23"
    and p: "(p - current_dir s) mod 0x100000 \<noteq> 0" "\<forall>a. has_table a s \<longrightarrow> (p - table_page a s) mod 0x100000 \<noteq> 0"
  defines "pte_at \<equiv> entry (table_page addr s) (drop_bit 12 addr AND 0x3FF)"
  assumes mem: "pmem s' = (pmem (copy_page p old s))(pte_at := set_flag 1 True (set_pageID p (pmem s pte_at)))"
  shows "mmu_walk (current_dir s) addr s' = Some (signed_take_bit 19 p, True)"
    and "mmu_pte (current_dir s) a s \<noteq> mmu_pte (current_dir s) addr s \<Longrightarrow> mmu_walk (current_dir s) a s' = mmu_walk (current_dir s) a s"
proof -
  let ?pd = "current_dir s" and ?T = "table_page addr s"
  note pte = pte_of_walk [OF walk low, folded pte_at_def]
  have copied: "mmu_walk ?pd a (copy_page p old s) = mmu_walk ?pd a s" for a
  proof (rule walk_data_page [of p])
    show "(p - pageID (pmem s (entry ?pd (drop_bit 22 a)))) mod 0x100000 \<noteq> 0"
      if "e_present (pmem s (entry ?pd (drop_bit 22 a)))"
      using p(2) that by (simp add: has_table_def table_page_def MemGetPageDirectory_def)
  qed (simp_all add: copy_page_other p(1))
  have "(?T - ?pd) mod 0x100000 \<noteq> 0"
    using tables pte(1) pageID_less by (intro distinct_frames) (auto simp: tables_ok_def table_page_def)
  then have dirs: "entry ?pd (drop_bit 22 a) \<noteq> pte_at" "pmem (copy_page p old s) (entry ?pd (drop_bit 22 a)) = pmem s (entry ?pd (drop_bit 22 a))" for a
    using p(1) other_frame [OF _ index_10] by (simp_all add: pte_at_def copy_page_other in_page_entry index_22)
  have ptes: "mmu_pte ?pd a s' = mmu_pte ?pd a s" "mmu_pte ?pd a (copy_page p old s) = mmu_pte ?pd a s" for a
    using dirs [of a] by (simp_all add: mmu_pte_def mem)
  have at: "mmu_pte ?pd addr s = Some pte_at"
    using pte(1) by (simp add: mmu_pte_def has_table_def table_page_def MemGetPageDirectory_def pte_at_def)
  then show "mmu_walk ?pd addr s' = Some (signed_take_bit 19 p, True)" using pte(5) by (simp add: mmu_walk_def ptes mem)
  assume "mmu_pte ?pd a s \<noteq> mmu_pte ?pd addr s"
  then have "mmu_walk ?pd a s' = mmu_walk ?pd a (copy_page p old s)"
    using at dirs(1) [of a] by (intro walk_unchanged) (auto simp: mem ptes)
  then show "mmu_walk ?pd a s' = mmu_walk ?pd a s" by (simp add: copied)
qed


definition shared_page :: mm_state where
  "shared_page = (paged 3)\<lparr>pmem := (\<lambda>_. 0)(entry 1 0 := 0x2007, entry 2 2 := 0x5005),
     MemPageStateTable := (\<lambda>p. \<lparr>refCount = (if p = 1 \<or> p = 2 then 1 else if p = 5 then 2 else 0), slabPtr = 0\<rparr>)\<rparr>"

lemma shared_page_ready: "cow_ready 0x2010 100 5 shared_page"
proof -
  have id: "pageID 0x5005 = 5" by (simp add: pageID_def signed_take_bit_eq_take_bit_minus)
  have dir: "current_dir shared_page = 1" by (simp add: current_dir_def shared_page_def paged_def two_regions_def)
  have mem: "pmem shared_page = (\<lambda>_. 0)(entry 1 0 := 0x2007, entry 2 2 := 0x5005)" by (simp add: shared_page_def)
  have ne: "entry 1 0 \<noteq> entry 2 2" "entry 1 (drop_bit 22 a) \<noteq> entry 2 2" for a :: u32
    using other_frame [of 2 1 2 a] by (simp_all add: entry_def PAGE_SIZE_def)
  have table: "table_page a shared_page = 2" if "has_table a shared_page" for a
  proof -
    have "MemGetPageDirectory 1 a = entry 1 0"
      using that ne unfolding has_table_def dir mem MemGetPageDirectory_def by (auto simp: e_present_def split: if_splits)
    then show ?thesis using ne by (simp add: table_page_def dir mem pageID_2007)
  qed
  have refs: "page_refs shared_page 1 = 1" "page_refs shared_page 2 = 1" "page_refs shared_page 5 = 2" "highestPage shared_page = 4"
    by (simp_all add: page_refs_def shared_page_def paged_def)
  have "zones_ok shared_page" by (simp add: zones_ok_def zone_ok_def no_zone_def shared_page_def paged_def)
  then have "tables_ok shared_page" using table refs dir by (simp add: tables_ok_def)
  moreover have "3 \<in> zone_free (zones shared_page MEM_HIGHMEM) (page_refs shared_page)"
    by (simp add: shared_page_def paged_def zone_free_def page_refs_def)
  then have "user_page_ready shared_page" by (auto simp: user_page_ready_def live_zone_def shared_page_def paged_def)
  moreover have "mmu_walk 1 0x2010 shared_page = Some (5, False)"
    using ne(1) by (simp add: mmu_walk_def mmu_pte_def Let_def mem pageID_2007 id e_present_def e_writable_def bit_iff_odd)
  moreover have "MemRegionFind (MemCurrentContext shared_page) 0x2010 shared_page = Some 100"
    by (simp add: MemRegionFind_def shared_page_def paged_def two_regions_def rend_def)
  moreover have "rflags (regionAt shared_page 100) = 3" "MemVirtualPageTables shared_page = (\<lambda>_. 0)"
    by (simp_all add: shared_page_def paged_def two_regions_def)
  ultimately show ?thesis using dir refs by (simp add: cow_ready_def MEM_WRITABLE_def e_present_def bit_iff_odd)
qed


section \<open>Addresses with bit 22 or 23 set\<close>

text \<open>The state at a not present fault at such an address; a fault and the faults nested in it keep it.\<close>

definition high_fault :: "u32 \<Rightarrow> u32 \<Rightarrow> MemRegionFlags \<Rightarrow> 'a mm_state_scheme \<Rightarrow> bool" where
  "high_fault addr region flags s \<longleftrightarrow>
     MemRegionFind (MemCurrentContext s) addr s = Some region \<and> rflags (regionAt s region) = flags \<and>
     has_table addr s \<and> mmu_walk (current_dir s) addr s = None \<and>
     (\<forall>k \<in> {0..3}. (table_page addr s + k - current_dir s) mod 0x100000 \<noteq> 0) \<and>
     (e_present (pmem s (MemGetPageTable (MemGetPageDirectory (current_dir s) addr) addr s)) \<or>
      tableCount (pmem s (counter_word (MemGetPageDirectory (current_dir s) addr) 0 s)) \<noteq> 7)"

lemma high_fault_alloc:
  assumes "phys_state.more s1 = phys_state.more s"
  shows "high_fault addr region flags s1 \<longleftrightarrow> high_fault addr region flags s" "current_dir s1 = current_dir s"
  using more_mm [OF assms] walk_pmem [of s1 s]
  by (simp_all add: high_fault_def MemRegionFind_def current_dir_def has_table_def table_page_def MemGetPageTable_def counter_word_def)

lemma high_fault_map:
  assumes fault: "high_fault addr region flags s" and high: "bit addr 22 \<or> bit addr 23"
    and flags: "flags AND (MEM_READABLE OR MEM_WRITABLE OR MEM_EXECUTABLE) \<noteq> 0" and addr: "addr < KERNEL_VIRTUAL_BASE"
  shows "\<exists>s'. MemIntMapUserPage (current_dir s) addr page flags s = ret s' \<and> high_fault addr region flags s'"
proof -
  let ?pd = "current_dir s"
  obtain m where m: "MemIntMapUserPage ?pd addr page flags s = ret (s\<lparr>pmem := m\<rparr>)"
      "mmu_walk ?pd addr (s\<lparr>pmem := m\<rparr>) = mmu_walk ?pd addr s"
      "\<And>a. m (entry ?pd (drop_bit 22 a)) = pmem s (entry ?pd (drop_bit 22 a))"
      "e_present (m (MemGetPageTable (MemGetPageDirectory ?pd addr) addr s))"
    using map_user_misses [OF flags addr _ _ high, of s ?pd page] fault
    by (auto simp: high_fault_def has_table_def table_page_def)
  have "current_dir (s\<lparr>pmem := m\<rparr>) = ?pd" by (simp add: current_dir_def)
  then have "high_fault addr region flags (s\<lparr>pmem := m\<rparr>)"
    using fault m(2-4)
    by (auto simp: high_fault_def MemRegionFind_def has_table_def table_page_def MemGetPageTable_def MemGetPageDirectory_def)
  then show ?thesis using m(1) by blast
qed

text \<open>One pass of the handler: it does not come back unless the access it makes does.\<close>

lemma high_fault_fix:
  assumes fault: "high_fault addr region flags s" and high: "bit addr 22 \<or> bit addr 23" and base: "page_base addr = addr"
    and flags: "flags AND (MEM_READABLE OR MEM_WRITABLE OR MEM_EXECUTABLE) \<noteq> 0" and addr: "addr < KERNEL_VIRTUAL_BASE"
    and err: "\<not> bit errorCode 0"
    and access: "\<And>s' r. high_fault addr region flags s' \<Longrightarrow> f (True, addr, s') \<noteq> ret r"
  shows "fault_fix f addr errorCode s \<noteq> ret r"
proof
  assume "fault_fix f addr errorCode s = ret r"
  then obtain p s1 s2 x where step: "MemPhysicalAlloc 1 MEM_HIGHMEM s = ret (p, s1)"
      "MemIntMapUserPage (current_dir s) addr p flags s1 = ret s2" "f (True, addr, s2) = ret x"
    using fault err base
    by (auto simp: fault_fix_def high_fault_def Let_def current_dir_def [symmetric] split: if_splits)
  note same = high_fault_alloc [OF alloc_more [OF step(1)]]
  have "high_fault addr region flags s2"
    using high_fault_map [OF _ high flags addr, of region s1 p] fault step(2) same by auto
  then show False using access [of s2 x] step(3) by simp
qed

lemma high_access:
  assumes high: "bit addr 22 \<or> bit addr 23" and base: "page_base addr = addr"
    and flags: "flags AND (MEM_READABLE OR MEM_WRITABLE OR MEM_EXECUTABLE) \<noteq> 0" and addr: "addr < KERNEL_VIRTUAL_BASE"
    and fault: "high_fault addr region flags s"
  shows "user_access (True, addr, s) \<noteq> ret r"
proof
  assume returns: "user_access (True, addr, s) = ret r"
  have "\<forall>s. x = (True, addr, s) \<and> high_fault addr region flags s \<longrightarrow> y = Panics" if "user_access x = Some y" for x y
  proof (rule user_access.raw_induct [where P = "\<lambda>x y. \<forall>s. x = (True, addr, s) \<and> high_fault addr region flags s \<longrightarrow> y = Panics",
        OF _ that], intro allI impI, goal_cases)
    case (1 f x y s)
    note ih = 1(1) and body = 1(2) and x = 1(3)
    have "f (True, addr, s') \<noteq> ret r" if "high_fault addr region flags s'" for s' r
      using ih [of "(True, addr, s')" "Returns r"] that by auto
    then have stuck: "fault_fix f addr (nested_error False True) s \<noteq> ret r" for r
      using x by (intro high_fault_fix [OF _ high base flags addr]) (auto simp: nested_error_def bit_iff_odd)
    have "mmu_walk (physDirectory (contextAt s (MemCurrentContext s))) addr s = None"
      using x by (simp add: high_fault_def current_dir_def)
    then have "seq (fault_fix f addr (nested_error False True) s) (\<lambda>r.
             case r of None \<Rightarrow> panic | Some s1 \<Rightarrow> f (True, addr, s1)) = Some y"
      using body x by (simp add: Let_def)
    then show ?case using stuck
      by (cases "fault_fix f addr (nested_error False True) s" rule: run_cases) auto
  qed
  then show False using returns fault by blast
qed

text \<open>
  Demand paging at an address with bit 22 or 23 set, such as \<open>0x400000\<close>, never succeeds: the page is
  mapped outside the page table, wiping it faults again, and so on in ever deeper nested faults. The
  handler does not return; at best it panics when no page is left.
\<close>

theorem demand_high_never_returns:
  assumes fault: "high_fault (page_base addr) region flags s"
    and find: "MemRegionFind (MemCurrentContext s) addr s = Some region"
    and high: "bit addr 22 \<or> bit addr 23"
    and flags: "flags AND (MEM_READABLE OR MEM_WRITABLE OR MEM_EXECUTABLE) \<noteq> 0" and addr: "addr < KERNEL_VIRTUAL_BASE"
    and err: "\<not> bit errorCode 0"
  shows "MemPageFaultHandler addr errorCode s \<noteq> ret r"
proof
  let ?b = "page_base addr"
  have base: "bit ?b 22 \<or> bit ?b 23" "page_base ?b = ?b" "?b < KERNEL_VIRTUAL_BASE"
    using high addr page_base_le [of addr] by (simp_all add: page_base_bits)
  assume "MemPageFaultHandler addr errorCode s = ret r"
  then obtain p s1 s2 x where step: "MemPhysicalAlloc 1 MEM_HIGHMEM s = ret (p, s1)"
      "MemIntMapUserPage (current_dir s) ?b p flags s1 = ret s2" "user_access (True, ?b, s2) = ret x"
    using fault err find
    by (auto simp: MemPageFaultHandler_def fault_fix_def high_fault_def Let_def current_dir_def [symmetric] split: if_splits)
  note same = high_fault_alloc [OF alloc_more [OF step(1)]]
  have "high_fault ?b region flags s2"
    using high_fault_map [OF _ base(1) flags base(3), of region s1 p] fault step(2) same by auto
  then show False using high_access [OF base(1,2) flags base(3)] step(3) by blast
qed

definition high_page :: mm_state where
  "high_page = (paged 3)\<lparr>pmem := (\<lambda>_. 0)(entry 1 1 := 0x2007),
     regionAt := (\<lambda>r. \<lparr>myContext = 5, rflags = 3, rstart = (if r = 100 then 0x400000 else 0x500000), rlength = 0x1000\<rparr>)\<rparr>"

theorem demand_high_never_returns_witness: "\<forall>r. MemPageFaultHandler 0x400010 6 high_page \<noteq> ret r"
proof (rule allI, rule demand_high_never_returns [of "0x400010" 100 3])
  have b: "page_base 0x400010 = 0x400000" by (simp add: page_base_def)
  have dir: "current_dir high_page = 1" by (simp add: current_dir_def high_page_def paged_def two_regions_def)
  have mem: "pmem high_page = (\<lambda>_. 0)(entry 1 1 := 0x2007)" by (simp add: high_page_def)
  have find: "MemRegionFind (MemCurrentContext high_page) a high_page = Some 100" if "a = 0x400010 \<or> a = 0x400000" for a
    using that by (auto simp: MemRegionFind_def high_page_def paged_def two_regions_def rend_def)
  show "MemRegionFind (MemCurrentContext high_page) 0x400010 high_page = Some 100" by (rule find) simp
  have "mmu_walk 1 0x400000 high_page = None"
    by (simp add: mmu_walk_def mmu_pte_def mem Let_def e_present_def pageID_2007 entry_def PAGE_SIZE_def)
  moreover have "rflags (regionAt high_page 100) = 3" by (simp add: high_page_def)
  moreover have "has_table 0x400000 high_page" "table_page 0x400000 high_page = 2"
    by (simp_all add: has_table_def table_page_def dir mem MemGetPageDirectory_def pageID_2007 e_present_def)
  moreover have "counter_word (MemGetPageDirectory 1 0x400000) 0 high_page = entry 2 0"
    by (simp add: counter_word_def MemGetPageDirectory_def mem pageID_2007)
  then have "tableCount (pmem high_page (counter_word (MemGetPageDirectory 1 0x400000) 0 high_page)) \<noteq> 7"
    by (simp add: mem entry_def PAGE_SIZE_def tableCount_def)
  ultimately show "high_fault (page_base 0x400010) 100 3 high_page"
    using find [of "0x400000"] unfolding high_fault_def b dir by (auto simp: dvd_eq_mod_eq_0 [symmetric] dest: zdvd_imp_le)
qed (simp_all add: bit_iff_odd MEM_READABLE_def MEM_WRITABLE_def MEM_EXECUTABLE_def KERNEL_VIRTUAL_BASE_def)

end
