(* ===== verification/Interrupt.thy ===== *)
theory Interrupt
  imports Process Page_Fault
begin

text \<open>
  Interrupt dispatch: \<open>kernel/src/interrupt.c\<close>, \<open>kernel/include/interrupt.h\<close> and the exception handlers
  of \<open>kernel/src/exceptions.c\<close>.

  A handler is a function pointer in C. The handlers of the kernel itself are the constructors of
  \<open>IntrHandlerFn\<close> and run the models of their components; a handler that a driver registers is \<open>Driver n\<close>,
  whose effect is an argument; no handler changes the chain it is called from. The dispatch table holds for every vector its embedded first entry and
  the list of the entries allocated behind it. The two interrupt controllers are their mask registers
  and the list of the ports that received an end of interrupt; the initialisation words are not state.

  An interrupt taken in user mode may end in a switch to other threads: \<open>others\<close> gives the state in which
  the interrupted thread runs again.
\<close>

section \<open>State\<close>

datatype IntrHandlerFn = ExceptMathFault | ExceptMathTrap | ExceptDebugTrap | ExceptIllOpcodeFault
  | ExceptProtectionFault | ExceptAlignmentFault | ExceptError | NoFpuException | PageFaultHandler
  | TimerIrq | Driver u32

record IntrDispatchEntry =
  ie_handler :: "IntrHandlerFn option"
  ie_flags :: u32

record IntrGateStruct =
  offLow :: u16
  destSegment :: u16
  gateInfo :: u8
  offHigh :: u16

record intr_state = proc_state +
  idt :: "nat \<Rightarrow> IntrGateStruct"
  IntrDispatchTable :: "nat \<Rightarrow> IntrDispatchEntry \<times> IntrDispatchEntry list"
  picMaster :: u8
  picSlave :: u8
  picEoi :: "u16 list"
  cr2 :: u32

definition INTR_SHARED :: u32 where "INTR_SHARED = 1"
definition INTR_KERNEL_GATE :: u8 where "INTR_KERNEL_GATE = 0x8E"
definition INTR_USER_GATE :: u8 where "INTR_USER_GATE = 0xEE"

section \<open>Start-up\<close>

definition gate :: "u8 \<Rightarrow> u32 \<Rightarrow> IntrGateStruct" where
  "gate info isr = \<lparr>offLow = ucast (isr AND 0xFFFF), destSegment = 0x08, gateInfo = info, offHigh = ucast (drop_bit 16 isr)\<rparr>"

fun init_gates :: "nat \<Rightarrow> nat \<Rightarrow> u8 \<Rightarrow> (nat \<Rightarrow> u32) \<Rightarrow> (nat \<Rightarrow> IntrGateStruct) \<Rightarrow> nat \<Rightarrow> IntrGateStruct" where
  "init_gates 0 i info isrList g = g"
| "init_gates (Suc n) i info isrList g = init_gates n (i + 1) info isrList (g(i := gate info (isrList i)))"

definition IntrInit :: "(nat \<Rightarrow> u32) \<Rightarrow> u32 \<Rightarrow> 'a intr_state_scheme \<Rightarrow> 'a intr_state_scheme" where
  "IntrInit isrList isr66 s =
     (let g1 = init_gates 3 0 INTR_KERNEL_GATE isrList (idt s);
          g2 = init_gates 3 3 INTR_USER_GATE isrList g1;
          g3 = init_gates 42 6 INTR_KERNEL_GATE isrList g2
      in s\<lparr>idt := g3(0x42 := gate INTR_USER_GATE isr66), picMaster := 0xFB, picSlave := 0xFF\<rparr>)"

text \<open>The initial contents of the dispatch table.\<close>

definition exception_handlers :: "IntrHandlerFn list" where
  "exception_handlers = [ExceptMathFault, ExceptDebugTrap, ExceptError, ExceptDebugTrap, ExceptMathTrap, ExceptMathTrap,
     ExceptIllOpcodeFault, NoFpuException, ExceptError, ExceptProtectionFault, ExceptError, ExceptProtectionFault,
     ExceptProtectionFault, ExceptProtectionFault, PageFaultHandler, ExceptError, ExceptMathFault, ExceptAlignmentFault,
     ExceptMathFault]"

definition empty_entry :: IntrDispatchEntry where "empty_entry = \<lparr>ie_handler = None, ie_flags = 0\<rparr>"

definition initial_table :: "nat \<Rightarrow> IntrDispatchEntry \<times> IntrDispatchEntry list" where
  "initial_table n =
     ((if n < length exception_handlers then \<lparr>ie_handler = Some (exception_handlers ! n), ie_flags = 0\<rparr> else empty_entry), [])"

section \<open>Registration\<close>

definition set_chain :: "nat \<Rightarrow> IntrDispatchEntry \<times> IntrDispatchEntry list \<Rightarrow> 'a intr_state_scheme \<Rightarrow> 'a intr_state_scheme" where
  "set_chain n c s = s\<lparr>IntrDispatchTable := (IntrDispatchTable s)(n := c)\<rparr>"

definition unmask_irq :: "int \<Rightarrow> 'a intr_state_scheme \<Rightarrow> 'a intr_state_scheme" where
  "unmask_irq irq s =
     (if irq > 8 then s\<lparr>picSlave := picSlave s AND NOT (push_bit (nat (irq - 8)) 1)\<rparr>
      else s\<lparr>picMaster := picMaster s AND NOT (push_bit (nat irq) 1)\<rparr>)"

definition mask_irq :: "int \<Rightarrow> 'a intr_state_scheme \<Rightarrow> 'a intr_state_scheme" where
  "mask_irq irq s =
     (if irq > 8 then s\<lparr>picSlave := picSlave s OR push_bit (nat (irq - 8)) 1\<rparr>
      else s\<lparr>picMaster := picMaster s OR push_bit (nat irq) 1\<rparr>)"

definition irq_vector :: "int \<Rightarrow> nat" where "irq_vector irq = nat (0x20 + irq)"

definition IntrRegister ::
  "int \<Rightarrow> u32 \<Rightarrow> IntrHandlerFn option \<Rightarrow> 'a intr_state_scheme \<Rightarrow> bool \<times> 'a intr_state_scheme" where
  "IntrRegister irq flags handler s =
     (if irq < 0 \<or> irq > 15 then (False, s)
      else let (first, rest) = IntrDispatchTable s (irq_vector irq); new = \<lparr>ie_handler = handler, ie_flags = flags\<rparr> in
        if ie_handler first \<noteq> None then
          (if flags AND INTR_SHARED = 0 \<or> ie_flags first AND INTR_SHARED = 0 then (False, s)
           else (True, set_chain (irq_vector irq) (first, new # rest) s))
        else (True, set_chain (irq_vector irq) (new, []) (unmask_irq irq s)))"

text \<open>The search of \<open>IntrUnRegister\<close> behind the first entry.\<close>

fun drop_handler :: "IntrHandlerFn option \<Rightarrow> IntrDispatchEntry list \<Rightarrow> IntrDispatchEntry list option" where
  "drop_handler h [] = None"
| "drop_handler h (e # es) = (if ie_handler e = h then Some es else map_option (Cons e) (drop_handler h es))"

definition IntrUnRegister :: "int \<Rightarrow> IntrHandlerFn option \<Rightarrow> 'a intr_state_scheme \<Rightarrow> bool \<times> 'a intr_state_scheme" where
  "IntrUnRegister irq handler s =
     (if irq < 0 \<or> irq > 15 then (False, s)
      else let (first, rest) = IntrDispatchTable s (irq_vector irq) in
        if ie_handler first = handler then
          (True, case rest of
             second # tail \<Rightarrow> set_chain (irq_vector irq) (second, tail) s
           | [] \<Rightarrow> mask_irq irq (set_chain (irq_vector irq) (empty_entry, []) s))
        else case drop_handler handler rest of
          None \<Rightarrow> (False, s)
        | Some rest' \<Rightarrow> (True, set_chain (irq_vector irq) (first, rest') s))"

section \<open>Handlers\<close>

definition SIGILL :: nat where "SIGILL = 4"
definition SIGTRAP :: nat where "SIGTRAP = 5"
definition SIGBUS :: nat where "SIGBUS = 7"
definition SIGFPE :: nat where "SIGFPE = 8"

definition IntrExceptMathFault :: "IntrContext \<Rightarrow> 'a sched_state_scheme \<Rightarrow> 'a sched_state_scheme flow run" where
  "IntrExceptMathFault c s = (if cs c = 0x08 then panic else ret (ProcSignalSendOrCrash SIGFPE s))"

definition IntrExceptMathTrap :: "IntrContext \<Rightarrow> 'a sched_state_scheme \<Rightarrow> 'a sched_state_scheme flow run" where
  "IntrExceptMathTrap c s =
     ret (Goes (if cs c = 0x08 then s else ProcSignalSendThread (ProcCurrThread s) (int SIGFPE) s))"

definition IntrExceptDebugTrap :: "IntrContext \<Rightarrow> 'a sched_state_scheme \<Rightarrow> 'a sched_state_scheme flow run" where
  "IntrExceptDebugTrap c s =
     ret (Goes (if cs c = 0x08 then s else ProcSignalSendThread (ProcCurrThread s) (int SIGTRAP) s))"

definition IntrExceptIllOpcodeFault :: "IntrContext \<Rightarrow> 'a sched_state_scheme \<Rightarrow> 'a sched_state_scheme flow run" where
  "IntrExceptIllOpcodeFault c s = (if cs c = 0x08 then panic else ret (ProcSignalSendOrCrash SIGILL s))"

definition IntrExceptProtectionFault :: "IntrContext \<Rightarrow> 'a sched_state_scheme \<Rightarrow> 'a sched_state_scheme flow run" where
  "IntrExceptProtectionFault c s = (if cs c = 0x08 then panic else ret (ProcSignalSendOrCrash SIGSEGV s))"

definition IntrExceptAlignmentFault :: "IntrContext \<Rightarrow> 'a sched_state_scheme \<Rightarrow> 'a sched_state_scheme flow run" where
  "IntrExceptAlignmentFault c s = ret (ProcSignalSendOrCrash SIGBUS s)"

definition IntrExceptError :: "IntrContext \<Rightarrow> 'a sched_state_scheme \<Rightarrow> 'a sched_state_scheme flow run" where
  "IntrExceptError c s = panic"

text \<open>The address space of the memory manager follows the context the scheduler has switched to.\<close>

definition page_fault_handler :: "IntrContext \<Rightarrow> 'a intr_state_scheme \<Rightarrow> 'a intr_state_scheme flow run" where
  "page_fault_handler c s =
     seq (MemPageFaultHandler (cr2 s) (intrError c) (MemContextSwitchTo (activeContext s) (pmm s))) (\<lambda>(action, m).
       let s1 = s\<lparr>pmm := m\<rparr>
       in ret (case action of FaultFixed \<Rightarrow> Goes s1 | FaultSegv \<Rightarrow> ProcSignalSendOrCrash SIGSEGV s1))"

definition no_fpu_handler :: "IntrContext \<Rightarrow> 'a sched_state_scheme \<Rightarrow> 'a sched_state_scheme flow run" where
  "no_fpu_handler c s =
     (case CpuNoFpuException (cs c) (ProcCurrThread s) s of
        Panics \<Rightarrow> panic
      | Returns (FpuSwitched, s1) \<Rightarrow> ret (Goes s1)
      | Returns (FpuSignal, s1) \<Rightarrow> ret (ProcSignalSendOrCrash SIGFPE s1))"

definition run_handler ::
  "(u32 \<Rightarrow> IntrContext \<Rightarrow> 'a intr_state_scheme \<Rightarrow> 'a intr_state_scheme flow run) \<Rightarrow> IntrHandlerFn \<Rightarrow>
   IntrContext \<Rightarrow> 'a intr_state_scheme \<Rightarrow> 'a intr_state_scheme flow run" where
  "run_handler driver h c s =
     (case h of
        ExceptMathFault \<Rightarrow> IntrExceptMathFault c s
      | ExceptMathTrap \<Rightarrow> IntrExceptMathTrap c s
      | ExceptDebugTrap \<Rightarrow> IntrExceptDebugTrap c s
      | ExceptIllOpcodeFault \<Rightarrow> IntrExceptIllOpcodeFault c s
      | ExceptProtectionFault \<Rightarrow> IntrExceptProtectionFault c s
      | ExceptAlignmentFault \<Rightarrow> IntrExceptAlignmentFault c s
      | ExceptError \<Rightarrow> IntrExceptError c s
      | NoFpuException \<Rightarrow> no_fpu_handler c s
      | PageFaultHandler \<Rightarrow> page_fault_handler c s
      | TimerIrq \<Rightarrow> ret (Goes (TimerInterrupt s))
      | Driver n \<Rightarrow> driver n c s)"

section \<open>Dispatch\<close>

text \<open>Sequencing of routines that may also end the process they run in.\<close>

definition flow_seq :: "'a flow run \<Rightarrow> ('a \<Rightarrow> 'b flow run) \<Rightarrow> 'b flow run" where
  "flow_seq m f = seq m (\<lambda>r. case r of Goes x \<Rightarrow> f x | Exits e \<Rightarrow> ret (Exits e))"

text \<open>The chain ends at an entry without a handler.\<close>

fun run_chain ::
  "(u32 \<Rightarrow> IntrContext \<Rightarrow> 'a intr_state_scheme \<Rightarrow> 'a intr_state_scheme flow run) \<Rightarrow> IntrDispatchEntry list \<Rightarrow>
   IntrContext \<Rightarrow> 'a intr_state_scheme \<Rightarrow> 'a intr_state_scheme flow run" where
  "run_chain driver [] c s = ret (Goes s)"
| "run_chain driver (e # es) c s =
     (case ie_handler e of None \<Rightarrow> ret (Goes s)
      | Some h \<Rightarrow> flow_seq (run_handler driver h c s) (run_chain driver es c))"

definition end_of_interrupt :: "u32 \<Rightarrow> 'a intr_state_scheme \<Rightarrow> 'a intr_state_scheme" where
  "end_of_interrupt n s =
     (if n \<ge> 0x20 then s\<lparr>picEoi := picEoi s @ (if n \<ge> 0x28 then [0xA0, 0x20] else [0x20])\<rparr> else s)"

definition post_interrupt ::
  "('a intr_state_scheme \<Rightarrow> 'a intr_state_scheme) \<Rightarrow> (u32 \<Rightarrow> u32 \<Rightarrow> bool) \<Rightarrow> IntrContext \<Rightarrow> user_mem \<Rightarrow>
   'a intr_state_scheme \<Rightarrow> (IntrContext \<times> user_mem \<times> 'a intr_state_scheme) flow run" where
  "post_interrupt others canWrite c m s =
     (if cs c = 0x1B then
        (let s1 = (if TimerShouldPreempt s then (if threadQueue s = [] then ProcYield s else others (ProcYield s)) else s)
         in map_option Returns (ProcSignalHandler others canWrite c m s1))
      else ret (Goes (c, m, s)))"

definition IntrHandler ::
  "(u32 \<Rightarrow> IntrContext \<Rightarrow> 'a intr_state_scheme \<Rightarrow> 'a intr_state_scheme flow run) \<Rightarrow>
   ('a intr_state_scheme \<Rightarrow> 'a intr_state_scheme) \<Rightarrow> (u32 \<Rightarrow> u32 \<Rightarrow> bool) \<Rightarrow> IntrContext \<Rightarrow> user_mem \<Rightarrow>
   'a intr_state_scheme \<Rightarrow> (IntrContext \<times> user_mem \<times> 'a intr_state_scheme) flow run" where
  "IntrHandler driver others canWrite c m s =
     (let n = intrNum c in
      if n < 0x30 then
        (let (first, rest) = IntrDispatchTable s (unat n)
         in flow_seq (run_chain driver (first # rest) c s) (\<lambda>s1.
              post_interrupt others canWrite c m (end_of_interrupt n s1)))
      else if n = 0x42 then post_interrupt others canWrite c m s
      else panic)"

section \<open>The handlers of a line\<close>

text \<open>The abstract view of the dispatch table: the list of the handlers of each line.\<close>

definition handlers_of :: "'a intr_state_scheme \<Rightarrow> int \<Rightarrow> IntrHandlerFn list" where
  "handlers_of s irq = (let (first, rest) = IntrDispatchTable s (irq_vector irq)
     in if ie_handler first = None then [] else map (the \<circ> ie_handler) (first # rest))"

definition chains_ok :: "'a intr_state_scheme \<Rightarrow> bool" where
  "chains_ok s \<longleftrightarrow> (\<forall>irq. let (first, rest) = IntrDispatchTable s (irq_vector irq)
     in (\<forall>e \<in> set rest. ie_handler e \<noteq> None) \<and> (ie_handler first = None \<longrightarrow> rest = []))"

definition irq_masked :: "'a intr_state_scheme \<Rightarrow> int \<Rightarrow> bool" where
  "irq_masked s irq = (if irq \<ge> 8 then bit (picSlave s) (nat (irq - 8)) else bit (picMaster s) (nat irq))"

lemma chains_okD:
  assumes "chains_ok s" "IntrDispatchTable s (irq_vector irq) = (first, rest)"
  shows "\<forall>e \<in> set rest. ie_handler e \<noteq> None" "ie_handler first = None \<Longrightarrow> rest = []"
  using assms by (auto simp: chains_ok_def dest!: spec [of _ irq])

lemma irq_vector_eq: "0 \<le> irq \<Longrightarrow> 0 \<le> j \<Longrightarrow> irq_vector irq = irq_vector j \<longleftrightarrow> irq = j"
  by (simp add: irq_vector_def eq_nat_nat_iff)

lemma set_chain_sel [simp]:
  "IntrDispatchTable (set_chain n c s) = (IntrDispatchTable s)(n := c)" "picMaster (set_chain n c s) = picMaster s"
  "picSlave (set_chain n c s) = picSlave s"
  by (simp_all add: set_chain_def)

lemma mask_sel [simp]:
  "IntrDispatchTable (mask_irq irq s) = IntrDispatchTable s" "IntrDispatchTable (unmask_irq irq s) = IntrDispatchTable s"
  by (simp_all add: mask_irq_def unmask_irq_def)

lemma handlers_of_cong:
  "IntrDispatchTable s' (irq_vector irq) = IntrDispatchTable s (irq_vector irq) \<Longrightarrow> handlers_of s' irq = handlers_of s irq"
  by (simp add: handlers_of_def)

lemma chains_ok_upd:
  assumes "chains_ok s" "\<forall>e \<in> set rest. ie_handler e \<noteq> None" "ie_handler first = None \<longrightarrow> rest = []"
  shows "chains_ok (set_chain n (first, rest) s)"
  using assms by (auto simp: chains_ok_def Let_def split: prod.splits)

lemma chains_ok_mask [simp]: "chains_ok (mask_irq irq s) = chains_ok s" "chains_ok (unmask_irq irq s) = chains_ok s"
  by (simp_all add: chains_ok_def)

lemma drop_handler_spec:
  assumes "\<forall>e \<in> set es. ie_handler e \<noteq> None"
  shows "case drop_handler (Some h) es of
      None \<Rightarrow> h \<notin> set (map (the \<circ> ie_handler) es)
    | Some es' \<Rightarrow> h \<in> set (map (the \<circ> ie_handler) es) \<and> set es' \<subseteq> set es \<and>
        map (the \<circ> ie_handler) es' = remove1 h (map (the \<circ> ie_handler) es)"
  using assms
proof (induction es)
  case (Cons e es)
  then obtain k where "ie_handler e = Some k" by auto
  then show ?case using Cons by (cases "drop_handler (Some h) es") auto
qed simp

lemma register_spec:
  assumes "chains_ok s" "IntrRegister irq flags (Some h) s = (b, s')"
  shows "chains_ok s'"
    and "b \<Longrightarrow> 0 \<le> irq \<and> irq \<le> 15 \<and> (handlers_of s irq \<noteq> [] \<longrightarrow> flags AND INTR_SHARED \<noteq> 0)"
    and "b \<Longrightarrow> handlers_of s' irq = (case handlers_of s irq of [] \<Rightarrow> [h] | x # xs \<Rightarrow> x # h # xs)"
    and "\<not> b \<Longrightarrow> s' = s" and "0 \<le> j \<Longrightarrow> j \<noteq> irq \<Longrightarrow> handlers_of s' j = handlers_of s j"
proof -
  obtain first rest where chain: "IntrDispatchTable s (irq_vector irq) = (first, rest)" by fastforce
  note ok = chains_okD [OF assms(1) chain]
  show "chains_ok s'"
    using assms chain ok by (auto simp: IntrRegister_def Let_def intro!: chains_ok_upd split: if_splits)
  show "0 \<le> irq \<and> irq \<le> 15 \<and> (handlers_of s irq \<noteq> [] \<longrightarrow> flags AND INTR_SHARED \<noteq> 0)" if b
    using assms(2) that chain by (auto simp: IntrRegister_def handlers_of_def split: if_splits)
  show "handlers_of s' irq = (case handlers_of s irq of [] \<Rightarrow> [h] | x # xs \<Rightarrow> x # h # xs)" if b
    using assms(2) that chain by (auto simp: IntrRegister_def handlers_of_def split: if_splits)
  show "s' = s" if "\<not> b"
    using assms(2) that chain by (auto simp: IntrRegister_def Let_def split: if_splits)
  show "handlers_of s' j = handlers_of s j" if "0 \<le> j" "j \<noteq> irq"
    using assms(2) that chain irq_vector_eq [of irq j]
    by (intro handlers_of_cong) (auto simp: IntrRegister_def Let_def split: if_splits)
qed

lemma unregister_spec:
  assumes "chains_ok s" "IntrUnRegister irq (Some h) s = (b, s')"
  shows "chains_ok s'"
    and "0 \<le> irq \<Longrightarrow> irq \<le> 15 \<Longrightarrow> b = (h \<in> set (handlers_of s irq)) \<and> handlers_of s' irq = remove1 h (handlers_of s irq)"
    and "\<not> b \<Longrightarrow> s' = s" and "0 \<le> j \<Longrightarrow> j \<noteq> irq \<Longrightarrow> handlers_of s' j = handlers_of s j"
proof -
  obtain first rest where chain: "IntrDispatchTable s (irq_vector irq) = (first, rest)" by fastforce
  note ok = chains_okD [OF assms(1) chain]
  note drop = drop_handler_spec [OF ok(1), of h]
  show "chains_ok s'"
    using assms chain ok drop
    by (auto simp: IntrUnRegister_def Let_def empty_entry_def intro!: chains_ok_upd split: if_splits list.splits option.splits)
  show "b = (h \<in> set (handlers_of s irq)) \<and> handlers_of s' irq = remove1 h (handlers_of s irq)" if "0 \<le> irq" "irq \<le> 15"
  proof (cases "ie_handler first")
    case None
    then show ?thesis using assms(2) that chain ok by (auto simp: IntrUnRegister_def handlers_of_def)
  next
    case (Some k)
    then have hs: "handlers_of s irq = k # map (the \<circ> ie_handler) rest" using chain by (simp add: handlers_of_def)
    show ?thesis
    proof (cases "k = h")
      case True
      then show ?thesis using assms(2) that chain ok(1) Some hs
        by (cases rest) (auto simp: IntrUnRegister_def handlers_of_def empty_entry_def)
    next
      case False
      then show ?thesis using assms(2) that chain drop Some hs
        by (cases "drop_handler (Some h) rest") (auto simp: IntrUnRegister_def handlers_of_def remove1_idem)
    qed
  qed
  show "s' = s" if "\<not> b"
    using assms(2) that chain by (auto simp: IntrUnRegister_def Let_def split: if_splits option.splits)
  show "handlers_of s' j = handlers_of s j" if "0 \<le> j" "j \<noteq> irq"
    using assms(2) that chain irq_vector_eq [of irq j]
    by (intro handlers_of_cong) (auto simp: IntrUnRegister_def Let_def split: if_splits list.splits option.splits)
qed

section \<open>The interface of a registry\<close>

text \<open>
  What a driver relies on: a registration that succeeds adds the handler to its line and to no other, one
  that is refused changes nothing, and removing a handler removes one registration of it.
\<close>

locale handler_registry =
  fixes wf :: "'s \<Rightarrow> bool" and handlers :: "'s \<Rightarrow> int \<Rightarrow> 'h list"
    and add :: "int \<Rightarrow> 'f \<Rightarrow> 'h \<Rightarrow> 's \<Rightarrow> bool \<times> 's" and drop :: "int \<Rightarrow> 'h \<Rightarrow> 's \<Rightarrow> bool \<times> 's"
  assumes add_wf: "wf s \<Longrightarrow> add irq f h s = (b, s') \<Longrightarrow> wf s'"
    and add_ok: "wf s \<Longrightarrow> add irq f h s = (True, s') \<Longrightarrow>
      0 \<le> irq \<and> irq \<le> 15 \<and> handlers s' irq = (case handlers s irq of [] \<Rightarrow> [h] | x # xs \<Rightarrow> x # h # xs)"
    and add_refused: "wf s \<Longrightarrow> add irq f h s = (False, s') \<Longrightarrow> s' = s"
    and add_other: "wf s \<Longrightarrow> add irq f h s = (b, s') \<Longrightarrow> 0 \<le> j \<Longrightarrow> j \<noteq> irq \<Longrightarrow> handlers s' j = handlers s j"
    and drop_wf: "wf s \<Longrightarrow> drop irq h s = (b, s') \<Longrightarrow> wf s'"
    and drop_handlers: "wf s \<Longrightarrow> 0 \<le> irq \<Longrightarrow> irq \<le> 15 \<Longrightarrow> drop irq h s = (b, s') \<Longrightarrow>
      b = (h \<in> set (handlers s irq)) \<and> handlers s' irq = remove1 h (handlers s irq)"
    and drop_other: "wf s \<Longrightarrow> drop irq h s = (b, s') \<Longrightarrow> 0 \<le> j \<Longrightarrow> j \<noteq> irq \<Longrightarrow> handlers s' j = handlers s j"
begin

lemma add_drop:
  assumes "wf s" "add irq f h s = (True, s1)" "h \<notin> set (handlers s irq)"
  shows "\<exists>s2. drop irq h s1 = (True, s2) \<and> wf s2 \<and> (\<forall>j \<ge> 0. handlers s2 j = handlers s j)"
proof -
  obtain b s2 where drop: "drop irq h s1 = (b, s2)" by fastforce
  note ok = add_ok [OF assms(1,2)] and wf1 = add_wf [OF assms(1,2)]
  have line: "b \<and> handlers s2 irq = handlers s irq"
    using drop_handlers [OF wf1 _ _ drop] ok assms(3) by (auto split: list.splits)
  moreover have "handlers s2 j = handlers s j" if "j \<ge> 0" for j
    using that line add_other [OF assms(1,2), of j] drop_other [OF wf1 drop, of j] by (cases "j = irq") auto
  ultimately show ?thesis using drop drop_wf [OF wf1 drop] by auto
qed

end

interpretation irq: handler_registry chains_ok handlers_of
    "\<lambda>irq flags h. IntrRegister irq flags (Some h)" "\<lambda>irq h. IntrUnRegister irq (Some h)"
proof (unfold_locales, goal_cases)
  case 1
  then show ?case by (rule register_spec(1))
next
  case 2
  then show ?case using register_spec(2,3) by blast
next
  case 3
  then show ?case using register_spec(4) by blast
next
  case 4
  then show ?case by (rule register_spec(5))
next
  case 5
  then show ?case by (rule unregister_spec(1))
next
  case 6
  then show ?case by (intro unregister_spec(2))
next
  case 7
  then show ?case by (rule unregister_spec(4))
qed

section \<open>The masks of the controllers\<close>

text \<open>Drivers come and go in any order.\<close>

inductive irq_step :: "'a intr_state_scheme \<Rightarrow> 'a intr_state_scheme \<Rightarrow> bool" where
  register: "IntrRegister irq flags (Some h) s = (b, s') \<Longrightarrow> irq_step s s'"
| unregister: "IntrUnRegister irq (Some h) s = (b, s') \<Longrightarrow> irq_step s s'"

inductive irq_reachable :: "'a intr_state_scheme \<Rightarrow> 'a intr_state_scheme \<Rightarrow> bool" for s0 where
  start: "irq_reachable s0 s0"
| step: "irq_reachable s0 s \<Longrightarrow> irq_step s s' \<Longrightarrow> irq_reachable s0 s'"

definition masks_ok :: "'a intr_state_scheme \<Rightarrow> bool" where
  "masks_ok s \<longleftrightarrow> chains_ok s \<and> irq_masked s 8 \<and>
     (\<forall>irq \<in> {0..15} - {2, 8}. irq_masked s irq = (handlers_of s irq = []))"

lemma bit_clear_one: "bit (x AND NOT (2 ^ k)) j \<longleftrightarrow> bit x j \<and> j \<noteq> k" for x :: u8
  by (auto simp: bit_and_iff bit_not_iff bit_exp_iff dest: bit_imp_le_length)

lemma bit_set_one: "bit (x OR 2 ^ k) j \<longleftrightarrow> bit x j \<or> (j = k \<and> k < 8)" for x :: u8
  by (auto simp: bit_or_iff bit_exp_iff dest: bit_imp_le_length)

lemma irq_masked_upd:
  assumes "0 \<le> irq" "irq \<le> 15" "0 \<le> j" "j \<le> 15"
  shows "irq_masked (unmask_irq irq s) j \<longleftrightarrow> irq_masked s j \<and> (j \<noteq> irq \<or> irq = 8)"
    and "irq_masked (mask_irq irq s) j \<longleftrightarrow> irq_masked s j \<or> (j = irq \<and> irq \<noteq> 8)"
  using assms by (auto simp: irq_masked_def unmask_irq_def mask_irq_def bit_clear_one bit_set_one eq_nat_nat_iff)

lemma irq_masked_chain [simp]: "irq_masked (set_chain n c s) = irq_masked s"
  by (simp add: irq_masked_def fun_eq_iff)

lemma register_masks:
  assumes "IntrRegister irq flags (Some h) s = (b, s')" "0 \<le> j" "j \<le> 15"
  shows "irq_masked s' j \<longleftrightarrow> irq_masked s j \<and> \<not> (b \<and> j = irq \<and> irq \<noteq> 8 \<and> handlers_of s irq = [])"
  using assms by (auto simp: IntrRegister_def handlers_of_def Let_def irq_masked_upd split: if_splits prod.splits)

lemma unregister_masks:
  assumes "IntrUnRegister irq (Some h) s = (b, s')" "chains_ok s" "0 \<le> j" "j \<le> 15"
  shows "irq_masked s' j \<longleftrightarrow> irq_masked s j \<or> (b \<and> j = irq \<and> irq \<noteq> 8 \<and> handlers_of s' irq = [])"
proof -
  obtain first rest where chain: "IntrDispatchTable s (irq_vector irq) = (first, rest)" by fastforce
  note ok = chains_okD [OF assms(2) chain]
  show ?thesis using assms chain ok
    by (cases rest)
      (auto simp: IntrUnRegister_def handlers_of_def irq_masked_upd empty_entry_def split: if_splits option.splits)
qed

lemma irq_step_masks: "irq_step s s' \<Longrightarrow> masks_ok s \<Longrightarrow> masks_ok s'"
proof (induction rule: irq_step.induct)
  case (register irq flags h s b s')
  then have ok: "chains_ok s" by (simp add: masks_ok_def)
  note spec = register_spec [OF ok register(1)] and masks = register_masks [OF register(1)]
  have "irq_masked s' j = (handlers_of s' j = [])" if "j \<in> {0..15} - {2, 8}" for j
    using that register(2) spec(3,4) spec(5) [of j] masks [of j] by (cases "j = irq"; cases b) (auto simp: masks_ok_def split: list.splits)
  then show ?case using register(2) spec(1) masks [of 8] by (auto simp: masks_ok_def)
next
  case (unregister irq h s b s')
  then have ok: "chains_ok s" by (simp add: masks_ok_def)
  note spec = unregister_spec [OF ok unregister(1)] and masks = unregister_masks [OF unregister(1) ok]
  have "irq_masked s' j = (handlers_of s' j = [])" if "j \<in> {0..15} - {2, 8}" for j
    using that unregister(2) spec(2,3) spec(4) [of j] masks [of j] by (cases "j = irq"; cases b) (auto simp: masks_ok_def)
  then show ?case using unregister(2) spec(1) masks [of 8] by (auto simp: masks_ok_def)
qed

lemma init_masks:
  assumes "IntrDispatchTable s = initial_table"
  shows "masks_ok (IntrInit isrList isr66 s)"
proof -
  have vec: "\<not> irq_vector irq < length exception_handlers" if "0 \<le> irq" for irq
    using that by (simp add: irq_vector_def exception_handlers_def)
  have "handlers_of (IntrInit isrList isr66 s) irq = []" if "0 \<le> irq" for irq
    using assms vec [OF that] by (simp add: handlers_of_def IntrInit_def initial_table_def empty_entry_def)
  moreover have "irq_masked (IntrInit isrList isr66 s) irq" if "irq \<in> {0..15} - {2}" for irq
  proof -
    have "irq \<in> {0, 1, 3, 4, 5, 6, 7, 8, 9, 10, 11, 12, 13, 14, 15}" using that by simp presburger
    then show ?thesis by (auto simp: irq_masked_def IntrInit_def Let_def bit_iff_odd)
  qed
  ultimately show ?thesis using assms by (auto simp: masks_ok_def chains_ok_def IntrInit_def initial_table_def)
qed


definition demo_intr :: intr_state where
  "demo_intr = proc_state.extend demo_proc \<lparr>idt = (\<lambda>_. gate 0 0), IntrDispatchTable = initial_table,
     picMaster = 0, picSlave = 0, picEoi = [], cr2 = 0\<rparr>"

lemma demo_intr_table [simp]: "IntrDispatchTable demo_intr = initial_table"
  by (simp add: demo_intr_def proc_state.defs)

text \<open>The table after a driver has registered a handler for the real-time clock.\<close>

definition clock_driver :: intr_state where
  "clock_driver = snd (IntrRegister 8 0 (Some (Driver 1)) (IntrInit (\<lambda>_. 0) 0 demo_intr))"

lemma clock_driver:
  shows "chains_ok (IntrInit (\<lambda>_. 0) 0 demo_intr)" and "handlers_of (IntrInit (\<lambda>_. 0) 0 demo_intr) 8 = []"
    and "IntrRegister 8 0 (Some (Driver 1)) (IntrInit (\<lambda>_. 0) 0 demo_intr) = (True, clock_driver)"
    and "handlers_of clock_driver 8 = [Driver 1]" and "picEoi clock_driver = []"
proof -
  have chain: "IntrDispatchTable (IntrInit (\<lambda>_. 0) 0 demo_intr) (irq_vector 8) = (empty_entry, [])"
    by (simp add: IntrInit_def initial_table_def exception_handlers_def irq_vector_def Let_def)
  have eoi: "picEoi demo_intr = []" by (simp add: demo_intr_def proc_state.defs)
  show ok: "chains_ok (IntrInit (\<lambda>_. 0) 0 demo_intr)" using init_masks [OF demo_intr_table] by (simp add: masks_ok_def)
  show none: "handlers_of (IntrInit (\<lambda>_. 0) 0 demo_intr) 8 = []"
    by (simp add: handlers_of_def chain empty_entry_def)
  show run: "IntrRegister 8 0 (Some (Driver 1)) (IntrInit (\<lambda>_. 0) 0 demo_intr) = (True, clock_driver)"
    by (simp add: clock_driver_def IntrRegister_def chain empty_entry_def Let_def)
  show "handlers_of clock_driver 8 = [Driver 1]" using register_spec(3) [OF ok run] none by simp
  show "picEoi clock_driver = []"
    by (simp add: clock_driver_def IntrRegister_def chain empty_entry_def Let_def set_chain_def unmask_irq_def)
      (simp add: IntrInit_def Let_def eoi)
qed


text \<open>
  Registration and removal. A handler that was accepted for a line and is not registered there twice can
  be removed again, and every line then has exactly the handlers it had before, in the same order.
\<close>

theorem irq_register_unregister:
  assumes "chains_ok s" "IntrRegister irq flags (Some h) s = (True, s1)" "h \<notin> set (handlers_of s irq)"
  shows "\<exists>s2. IntrUnRegister irq (Some h) s1 = (True, s2) \<and> chains_ok s2 \<and> (\<forall>j \<ge> 0. handlers_of s2 j = handlers_of s j)"
  using assms by (rule irq.add_drop)

theorem irq_register_unregister_witness:
  "\<exists>s2. IntrUnRegister 8 (Some (Driver 1)) clock_driver = (True, s2) \<and> handlers_of s2 8 = []"
proof -
  show ?thesis using irq_register_unregister [OF clock_driver(1,3)] clock_driver(2) by fastforce
qed

section \<open>Gates\<close>

lemma init_gates_apply:
  "init_gates n i info isrList g k = (if i \<le> k \<and> k < i + n then gate info (isrList k) else g k)"
  by (induction n arbitrary: i g) auto

text \<open>
  The interrupt descriptor table. After \<open>IntrInit\<close> the gates 0 to 47 and 66 lead to their entry points in
  the kernel code segment, and user programs may raise exactly the interrupts 3, 4, 5 and 66: the gates
  of the processor exceptions and of the hardware are closed to them.
\<close>

theorem idt_user_gates:
  assumes "n < 48 \<or> n = 0x42"
  shows "let g = idt (IntrInit isrList isr66 s) n; isr = (if n = 0x42 then isr66 else isrList n)
     in (ucast (offHigh g) :: u32) * 0x10000 + ucast (offLow g) = isr \<and> destSegment g = 0x08 \<and>
        (gateInfo g = INTR_USER_GATE \<longleftrightarrow> n \<in> {3, 4, 5, 0x42}) \<and> (gateInfo g = INTR_KERNEL_GATE \<longleftrightarrow> n \<notin> {3, 4, 5, 0x42})"
proof -
  have offset: "(ucast (offHigh (gate info isr)) :: u32) * 0x10000 + ucast (offLow (gate info isr)) = isr" for info isr
  proof -
    have "(ucast (offHigh (gate info isr)) :: u32) = drop_bit 16 isr"
      by (rule bit_eqI) (auto simp: gate_def bit_simps dest: bit_imp_le_length)
    moreover have low: "isr AND 0xFFFF = take_bit 16 isr"
      using take_bit_eq_mask [of 16 isr] by (simp add: mask_eq_exp_minus_1)
    have "(ucast (offLow (gate info isr)) :: u32) = take_bit 16 isr"
      by (rule bit_eqI) (auto simp: gate_def low bit_simps)
    moreover have "drop_bit 16 isr * 0x10000 = push_bit 16 (drop_bit 16 isr)" by (simp add: push_bit_eq_mult)
    ultimately show ?thesis using bits_ident [of 16 isr] by simp
  qed
  have "idt (IntrInit isrList isr66 s) n = gate (if n \<in> {3, 4, 5, 0x42} then INTR_USER_GATE else INTR_KERNEL_GATE)
      (if n = 0x42 then isr66 else isrList n)"
    using assms by (auto simp: IntrInit_def Let_def init_gates_apply)
  then show ?thesis using offset [of _ "if n = 0x42 then isr66 else isrList n"]
    by (simp add: Let_def INTR_USER_GATE_def INTR_KERNEL_GATE_def) (simp add: gate_def)
qed

theorem idt_user_gates_witness: "gateInfo (idt (IntrInit (\<lambda>_. 0) 0 demo_intr) 14) \<noteq> INTR_USER_GATE"
  using idt_user_gates [of 14 "\<lambda>_. 0" 0 demo_intr] by (auto simp: Let_def)

section \<open>Dispatching\<close>

lemma flow_seq_simps [simp]:
  "flow_seq (ret (Goes x)) f = f x" "flow_seq (ret (Exits e)) f = ret (Exits e)" "flow_seq panic f = panic" "flow_seq None f = None"
  by (simp_all add: flow_seq_def)

lemma run_chain_drivers:
  assumes "map ie_handler es = map (Some \<circ> Driver) ds" "\<And>d s. d \<in> set ds \<Longrightarrow> driver d c s = ret (Goes (effect d s))"
  shows "run_chain driver es c s = ret (Goes (fold effect ds s))"
  using assms
proof (induction ds arbitrary: es s)
  case (Cons d ds)
  then obtain e es' where es: "es = e # es'" "ie_handler e = Some (Driver d)" "map ie_handler es' = map (Some \<circ> Driver) ds"
    by (cases es) auto
  then show ?case using Cons.IH [of es'] Cons.prems(2) by (simp add: run_handler_def)
qed simp

lemma chain_handlers:
  assumes "chains_ok s" "IntrDispatchTable s (irq_vector irq) = (first, rest)" "handlers_of s irq = hs" "hs \<noteq> []"
  shows "map ie_handler (first # rest) = map Some hs"
  using assms chains_okD [OF assms(1,2)] by (auto simp: handlers_of_def split: if_splits intro!: map_cong)

text \<open>
  Hardware interrupts. An interrupt of a line that shares several drivers, taken in the kernel, calls each
  of them once, in the order of the chain, and only then tells the controllers that the interrupt is
  over: the first one always, before it the second one for the lines that are connected to it.
\<close>

theorem irq_dispatch:
  assumes "chains_ok s" "0 \<le> irq" "irq \<le> 15" "intrNum c = of_int (0x20 + irq)" "cs c \<noteq> 0x1B"
    and "handlers_of s irq = map Driver ds" "ds \<noteq> []"
    and "\<And>d s. d \<in> set ds \<Longrightarrow> driver d c s = ret (Goes (effect d s))"
  shows "\<exists>s'. IntrHandler driver others canWrite c m s = ret (Goes (c, m, s')) \<and>
     s' = (fold effect ds s)\<lparr>picEoi := picEoi (fold effect ds s) @ (if irq \<ge> 8 then [0xA0, 0x20] else [0x20])\<rparr>"
proof -
  obtain first rest where chain: "IntrDispatchTable s (irq_vector irq) = (first, rest)" by fastforce
  have "map ie_handler (first # rest) = map (Some \<circ> Driver) ds"
    using chain_handlers [OF assms(1) chain assms(6)] assms(7) by simp
  then have run: "run_chain driver (first # rest) c s = ret (Goes (fold effect ds s))"
    by (rule run_chain_drivers) (rule assms(8))
  have num: "uint (intrNum c) = 0x20 + irq" unfolding assms(4) uint_word_of_int using assms(2,3) by simp
  then have vec: "unat (intrNum c) = irq_vector irq" by (simp add: irq_vector_def unat_eq_nat_uint)
  have "intrNum c < 0x30" "intrNum c \<ge> 0x20" "intrNum c \<ge> 0x28 \<longleftrightarrow> irq \<ge> 8"
    using num assms(2,3) by (simp_all add: word_less_def word_le_def)
  then show ?thesis using run chain assms(5)
    by (simp add: IntrHandler_def vec post_interrupt_def end_of_interrupt_def del: run_chain.simps)
qed

definition kernel_frame :: "u32 \<Rightarrow> IntrContext" where
  "kernel_frame n = \<lparr>edi = 0, esi = 0, ebp = 0, ebx = 0, edx = 0, ecx = 0, eax = 0, intrNum = n, intrError = 0, eip = 0,
     cs = 0x08, eflags = 0, esp = 0\<rparr>"

theorem irq_dispatch_witness:
  "\<exists>s'. IntrHandler (\<lambda>d c s. ret (Goes (s\<lparr>cr2 := d\<rparr>))) id (\<lambda>_ _. True) (kernel_frame 0x28) (\<lambda>_. 0) clock_driver =
       ret (Goes (kernel_frame 0x28, \<lambda>_. 0, s')) \<and> cr2 s' = 1 \<and> picEoi s' = [0xA0, 0x20]"
proof -
  have "handlers_of clock_driver 8 = map Driver [1]" using clock_driver(4) by simp
  then show ?thesis
    using clock_driver(5) irq_dispatch [OF register_spec(1) [OF clock_driver(1,3)], of 8 "kernel_frame 0x28" "[1]" "\<lambda>d c s. ret (Goes (s\<lparr>cr2 := d\<rparr>))"
        "\<lambda>d s. s\<lparr>cr2 := d\<rparr>"]
    by (simp add: kernel_frame_def)
qed

text \<open>
  Exceptions of the kernel. With the table the kernel starts with, every fault raised by code of the kernel
  stops it: division, invalid opcode, use of the FPU, protection and floating point faults, and the
  errors of the processor. Traps are ignored; an alignment fault is the exception, it is sent to the
  interrupted process as a signal.
\<close>

theorem kernel_faults_panic:
  assumes "IntrDispatchTable s = initial_table" "cs c = 0x08"
  shows "(intrNum c \<in> {0, 2, 6, 7, 8, 9, 10, 11, 12, 13, 15, 16, 18} \<longrightarrow> IntrHandler driver others canWrite c m s = panic) \<and>
     (intrNum c \<in> {1, 3, 4, 5} \<longrightarrow> IntrHandler driver others canWrite c m s = ret (Goes (c, m, s))) \<and>
     (intrNum c = 17 \<longrightarrow> IntrHandler driver others canWrite c m s =
        ret (case ProcSignalSendOrCrash SIGBUS s of Goes s' \<Rightarrow> Goes (c, m, s') | Exits e \<Rightarrow> Exits e))"
proof -
  note defs = IntrHandler_def initial_table_def exception_handlers_def run_handler_def post_interrupt_def end_of_interrupt_def
    IntrExceptMathFault_def IntrExceptIllOpcodeFault_def IntrExceptProtectionFault_def IntrExceptError_def
    IntrExceptMathTrap_def IntrExceptDebugTrap_def no_fpu_handler_def CpuNoFpuException_def IntrExceptAlignmentFault_def
  have "IntrHandler driver others canWrite c m s = panic" if "intrNum c \<in> {0, 2, 6, 7, 8, 9, 10, 11, 12, 13, 15, 16, 18}"
    using that assms by (elim insertE emptyE) (simp_all add: defs)
  moreover have "IntrHandler driver others canWrite c m s = ret (Goes (c, m, s))" if "intrNum c \<in> {1, 3, 4, 5}"
    using that assms by (elim insertE emptyE) (simp_all add: defs word_le_def)
  moreover have "IntrHandler driver others canWrite c m s =
      ret (case ProcSignalSendOrCrash SIGBUS s of Goes s' \<Rightarrow> Goes (c, m, s') | Exits e \<Rightarrow> Exits e)" if "intrNum c = 17"
    using that assms by (simp add: defs split: flow.split)
  ultimately show ?thesis by blast
qed

theorem kernel_faults_panic_witness:
  "IntrHandler (\<lambda>d c s. None) id (\<lambda>_ _. True) (kernel_frame 13) (\<lambda>_. 0) demo_intr = panic"
  using kernel_faults_panic [OF demo_intr_table, of "kernel_frame 13"] by (simp add: kernel_frame_def)

section \<open>A bad access of a program\<close>

lemma segv_sent:
  assumes "sa_handler (p_sigHandlers (processAt s (ProcCurrProcess s)) (SIGNAL_INDEX SIGSEGV)) = SIG_DFL"
    and "t_parent (threadAt s (ProcCurrThread s)) = ProcCurrProcess s"
    and "t_sigBlocked (threadAt s (ProcCurrThread s)) = 0" "t_state (threadAt s (ProcCurrThread s)) = PTS_RUNNING"
  shows "ProcSignalSendOrCrash SIGSEGV s =
     Goes (upd_thread (ProcCurrThread s) (t_sigPending_update (\<lambda>x. x OR sigbit SIGSEGV)) s)"
  using assms by (simp add: ProcSignalSendOrCrash_def SignalIsIgnored_def ProcSignalSendThread_def Let_def SIG_MAX_def
      SIG_DFL_def SIG_IGN_def signal_numbers upd_thread_def)

lemma segv_kills:
  assumes "pending_set s = sigbit SIGSEGV" "cs c = 0x1B"
    and "sa_handler (p_sigHandlers (processAt s (ProcCurrProcess s)) (SIGNAL_INDEX SIGSEGV)) = SIG_DFL"
  shows "ProcSignalHandler others canWrite c m s = Some (Exits (ExitProcess (- int SIGSEGV)))"
proof -
  have bits: "pending_set s = 0x400" using assms(1) by (simp add: sigbit_def SIGSEGV_def SIGNAL_INDEX_def)
  have scan: "BitScanForward 0x400 = 10" by (simp add: BitScanForward_def upt_rec bit_iff_odd)
  have handler: "sa_handler (p_sigHandlers (processAt (clear_signal SIGSEGV s) (ProcCurrProcess (clear_signal SIGSEGV s)))
      (SIGNAL_INDEX SIGSEGV)) = SIG_DFL"
    using assms(3) by (simp add: clear_signal_def upd_thread_def upd_process_def)
  have "deliver others canWrite (Some 0x400) c m s = Some (Exits (ExitProcess (- int SIGSEGV)))"
    using handler by (subst deliver.simps) (simp add: Let_def scan SIG_DFL_def SIG_IGN_def signal_numbers)
  then show ?thesis using assms(2)
    by (simp add: ProcSignalHandler_def) (subst deliver.simps, simp add: Let_def bits signal_numbers)
qed


definition demo_user :: intr_state where
  "demo_user = demo_intr\<lparr>cr2 := 0x9000, TimerQuantum := 5, ProcCurrThread := 7, ProcCurrProcess := 2, activeContext := 5,
     threadAt := (\<lambda>_. zero_thread\<lparr>t_parent := 2, t_state := PTS_RUNNING\<rparr>), processAt := (\<lambda>_. zero_process)\<rparr>"


end
