(* ===== verification/Hw_Time.thy ===== *)
theory Hw_Time
  imports Prelude
begin

text \<open>
  The hardware clock, \<open>kernel/src/hwTime.c\<close>: decoding of the CMOS registers and the number of days since
  1 January 1970.

  The registers are the function \<open>cmos\<close>, as they read once the update flag of register \<open>0xA\<close> is clear.
\<close>

section \<open>Decoding\<close>

definition monthdays :: "u32 list" where
  "monthdays = [0, 31, 59, 90, 120, 151, 181, 212, 243, 273, 304, 334]"

definition monthdays2 :: "u32 list" where
  "monthdays2 = [0, 31, 60, 91, 121, 152, 182, 213, 244, 274, 305, 335]"

definition BCD2Binary :: "u8 \<Rightarrow> u32" where
  "BCD2Binary v = ucast (drop_bit 4 v) * 10 + ucast (v AND 0xF)"

definition Hour12To24 :: "u8 \<Rightarrow> bool \<Rightarrow> u32" where
  "Hour12To24 v0 useBCD =
     (let isPM = v0 AND 0x80;
          v1 = (if useBCD then ucast (BCD2Binary (v0 AND 0x7F)) else v0 AND 0x7F) :: u8;
          v2 = (if v1 = 12 then 0 else v1);
          v3 = (if isPM \<noteq> 0 then v2 + 12 else v2)
      in ucast v3)"

definition CMOSRead :: "(u8 \<Rightarrow> u8) \<Rightarrow> u8 \<Rightarrow> bool \<Rightarrow> u8" where
  "CMOSRead cmos reg bcd = (if bcd then ucast (BCD2Binary (cmos reg)) else cmos reg)"

definition DaysDiff :: "u32 \<Rightarrow> u8 \<Rightarrow> u8 \<Rightarrow> u32" where
  "DaysDiff year month0 day =
     (let days = (year - 1970) * 365 + ((year - 1970 + 1) div 4);
          month1 = month0 - 1;
          month = (if month1 > 11 then 11 else month1);
          days2 = days + (if year mod 4 = 0 then monthdays2 ! unat month else monthdays ! unat month)
      in days2 + ucast day - 1)"

definition TimerGetCMOSTime :: "(u8 \<Rightarrow> u8) \<Rightarrow> u64" where
  "TimerGetCMOSTime cmos =
     (let timeFormat = CMOSRead cmos 0xB False;
          isBCD = (timeFormat AND 4 = 0);
          is24Hr = (timeFormat AND 2 \<noteq> 0);
          t1 = ucast (CMOSRead cmos 0 isBCD) + ucast (CMOSRead cmos 2 isBCD) * 60 :: u32;
          t2 = (if is24Hr then t1 + Hour12To24 (CMOSRead cmos 4 False) isBCD * 60 * 60
                else t1 + ucast (CMOSRead cmos 4 isBCD) * 60 * 60);
          days = CMOSRead cmos 7 isBCD;
          month = CMOSRead cmos 8 isBCD;
          year = CMOSRead cmos 9 isBCD;
          t3 = t2 + DaysDiff (ucast year + 2000) month days * 24 * 60 * 60
      in push_bit 32 (ucast t3))"

section \<open>The calendar\<close>

text \<open>The Gregorian calendar, for comparison.\<close>

definition leap_year :: "nat \<Rightarrow> bool" where
  "leap_year y \<longleftrightarrow> y mod 4 = 0 \<and> (y mod 100 \<noteq> 0 \<or> y mod 400 = 0)"

definition month_length :: "bool \<Rightarrow> nat \<Rightarrow> nat" where
  "month_length leap m = (if m = 2 then if leap then 29 else 28 else if m \<in> {4, 6, 9, 11} then 30 else 31)"

definition year_length :: "nat \<Rightarrow> nat" where
  "year_length y = (if leap_year y then 366 else 365)"

definition calendar_days :: "nat \<Rightarrow> nat \<Rightarrow> nat \<Rightarrow> nat" where
  "calendar_days y m d = (\<Sum>i = 1970..<y. year_length i) + (\<Sum>j = 1..<m. month_length (leap_year y) j) + (d - 1)"

lemma leap_rule: "1970 \<le> y \<Longrightarrow> y < 2100 \<Longrightarrow> leap_year y \<longleftrightarrow> y mod 4 = 0"
proof -
  assume y: "1970 \<le> y" "y < 2100"
  have "y = 2000" if "y mod 100 = 0"
  proof -
    obtain k where k: "y = 100 * k" using \<open>y mod 100 = 0\<close> by auto
    then have "k = 20" using y by auto
    then show ?thesis using k by simp
  qed
  then have "y mod 100 \<noteq> 0 \<or> y mod 400 = 0" by (cases "y mod 100 = 0") auto
  then show ?thesis by (simp add: leap_year_def)
qed

lemma years_sum: "1970 \<le> y \<Longrightarrow> y \<le> 2100 \<Longrightarrow> (\<Sum>i = 1970..<y. year_length i) = (y - 1970) * 365 + (y - 1970 + 1) div 4"
proof (induction y)
  case (Suc y)
  show ?case
  proof (cases "Suc y = 1970")
    case False
    then have y: "1970 \<le> y" "y < 2100" using Suc.prems by auto
    then obtain k where k: "y = 1970 + k" using le_Suc_ex by blast
    have len: "year_length y = 365 + (if y mod 4 = 0 then 1 else 0)" using leap_rule [OF y] by (simp add: year_length_def)
    have step: "(k + 2) div 4 = (k + 1) div 4 + (if (1970 + k) mod 4 = 0 then 1 else 0)" by presburger
    have "(\<Sum>i = 1970..<Suc y. year_length i) = (\<Sum>i = 1970..<y. year_length i) + year_length y" using y by simp
    also have "\<dots> = k * 365 + (k + 1) div 4 + (365 + (if y mod 4 = 0 then 1 else 0))"
      using Suc.IH y len k by simp
    also have "\<dots> = (Suc k) * 365 + (k + 2) div 4" using step k by simp
    finally show ?thesis using k by simp
  qed simp
qed simp

lemma months_sum:
  assumes "1 \<le> m" "m \<le> 12"
  shows "(\<Sum>j = 1..<m. month_length leap j) = unat ((if leap then monthdays2 else monthdays) ! (m - 1))"
proof -
  have "m = 1 \<or> m = 2 \<or> m = 3 \<or> m = 4 \<or> m = 5 \<or> m = 6 \<or> m = 7 \<or> m = 8 \<or> m = 9 \<or> m = 10 \<or> m = 11 \<or> m = 12"
    using assms by presburger
  moreover have "1 < n \<Longrightarrow> [Suc 0..<n] = Suc 0 # [2..<n]" for n by (simp add: upt_conv_Cons numeral_2_eq_2)
  moreover have "(\<Sum>j = 1..<m. month_length leap j) = sum_list (map (month_length leap) [1..<m])"
    by (simp only: atLeastLessThan_upt interv_sum_list_conv_sum_set_nat)
  ultimately show ?thesis
    by (elim disjE; cases leap; simp add: monthdays_def monthdays2_def month_length_def upt_rec_numeral del: upt_Suc)
qed

lemma months_bound:
  assumes "1 \<le> m" "m \<le> 12"
  shows "unat ((if leap then monthdays2 else monthdays) ! (m - 1)) \<le> 335"
proof -
  have "(if leap then monthdays2 else monthdays) ! (m - 1) \<in> set (if leap then monthdays2 else monthdays)"
    using assms by (intro nth_mem) (simp add: monthdays_def monthdays2_def)
  then show ?thesis by (cases leap) (auto simp: monthdays_def monthdays2_def)
qed

section \<open>Properties\<close>

text \<open>
  Days since the epoch. For every date from 1970 to 2099, \<open>DaysDiff\<close> is the number of days that the
  Gregorian calendar counts from 1 January 1970.
\<close>

theorem days_since_epoch:
  assumes "1970 \<le> y" "y < 2100" "1 \<le> m" "m \<le> 12" "1 \<le> d" "d \<le> 31"
  shows "unat (DaysDiff (of_nat y) (of_nat m) (of_nat d)) = calendar_days y m d"
proof -
  let ?Y = "of_nat y :: u32" and ?md = "(if leap_year y then monthdays2 else monthdays) ! (m - 1)"
  have Y: "unat ?Y = y" using assms(2) by (simp add: unat_of_nat)
  have "1970 \<le> ?Y" using Y assms(1) by (simp add: word_le_nat_alt)
  then have since: "unat (?Y - 1970) = y - 1970" using Y unat_minus_32 [of 1970 ?Y] by simp
  have since1: "unat (?Y - 1970 + 1) = y - 1970 + 1" using since assms(2) unat_plus_32 [of "?Y - 1970" 1] by simp
  have quarter: "unat ((?Y - 1970 + 1) div 4) = (y - 1970 + 1) div 4" using since1 by (simp add: unat_div)
  have mult: "unat ((?Y - 1970) * 365) = (y - 1970) * 365"
    using since assms(2) unat_mult_32 [of "?Y - 1970" 365] by simp
  have whole: "unat ((?Y - 1970) * 365 + (?Y - 1970 + 1) div 4) = (y - 1970) * 365 + (y - 1970 + 1) div 4"
    using mult quarter assms(2) by (subst unat_plus_32) auto
  have leap: "?Y mod 4 = 0 \<longleftrightarrow> leap_year y"
    using leap_rule [OF assms(1,2)] Y by (simp add: word_unat_eq_iff unat_mod)
  have month: "unat ((of_nat m :: u8) - 1) = m - 1"
  proof -
    have "unat (of_nat m :: u8) = m" using assms(4) by (simp add: unat_of_nat)
    moreover from this have "(of_nat m :: u8) \<noteq> 0" using assms(3) by (metis unat_0 not_one_le_zero)
    ultimately show ?thesis by (metis unat_minus_one)
  qed
  have not_late: "\<not> (of_nat m :: u8) - 1 > 11" using month assms(4) by (simp add: word_less_nat_alt)
  have md: "unat ?md = (\<Sum>j = 1..<m. month_length (leap_year y) j)" "unat ?md \<le> 335"
    using months_sum [OF assms(3,4)] months_bound [OF assms(3,4)] by simp_all
  have day: "unat (ucast (of_nat d :: u8) :: u32) = d"
  proof -
    have "unat (of_nat d :: u8) = d" using assms(6) by (simp add: unat_of_nat)
    then show ?thesis using assms(6) by (simp add: unsigned_ucast_eq take_bit_eq_mod)
  qed
  define B where "B = (?Y - 1970) * 365 + (?Y - 1970 + 1) div 4 + ?md"
  have B: "unat B = (y - 1970) * 365 + (y - 1970 + 1) div 4 + unat ?md"
    unfolding B_def using whole md(2) assms(2) by (subst unat_plus_32) auto
  have small: "unat B < 100000" unfolding B using md(2) assms(2) by linarith
  then have sum: "unat (B + ucast (of_nat d :: u8)) = unat B + d" using day assms(6) by (subst unat_plus_32) auto
  then have "B + ucast (of_nat d :: u8) \<noteq> 0" using assms(5) by (metis add_is_0 not_one_le_zero unat_0)
  from unat_minus_one [OF this] sum have "unat (B + ucast (of_nat d :: u8) - 1) = unat B + d - 1" by simp
  moreover have "DaysDiff ?Y (of_nat m) (of_nat d) = B + ucast (of_nat d :: u8) - 1"
    unfolding B_def using not_late month leap by (simp add: DaysDiff_def Let_def)
  moreover have "calendar_days y m d = unat B + d - 1"
    unfolding B calendar_days_def using years_sum [OF assms(1)] assms(2,5) md(1) by simp
  ultimately show ?thesis by simp
qed

theorem days_since_epoch_witness: "unat (DaysDiff 2000 3 1) = calendar_days 2000 3 1"
  using days_since_epoch [of 2000 3 1] by simp

text \<open>
  The hour. With the clock in 24 hour mode, \<open>TimerGetCMOSTime\<close> decodes the hour as a 12 hour time:
  the hour after noon, which reads 12, is taken for the hour after midnight, and the time is half a day
  early; every other hour is right.
\<close>

theorem cmos_hour_24:
  assumes "cmos 0xB = 6" "unat (cmos 4) < 24"
  shows "TimerGetCMOSTime cmos = push_bit 32 (ucast (
     (ucast (cmos 0) + ucast (cmos 2) * 60 + (if cmos 4 = 12 then 0 else ucast (cmos 4)) * 3600 +
      DaysDiff (ucast (cmos 9) + 2000) (cmos 8) (cmos 7) * 86400) :: u32))"
proof -
  let ?h = "cmos 4"
  have "take_bit 7 (unat ?h) = unat ?h" using assms(2) by (simp add: take_bit_eq_mod)
  then have t: "take_bit 7 ?h = ?h" by (simp add: word_unat_eq_iff unsigned_take_bit_eq)
  have seven: "?h AND 0x7F = ?h" using take_bit_eq_mask [of 7 ?h] t by (simp add: mask_eq_exp_minus_1)
  then have "?h AND 0x80 = (?h AND 0x7F) AND 0x80" by simp
  also have "\<dots> = 0" by (simp add: and.assoc)
  finally have pm: "?h AND 0x80 = 0" .
  have hour: "Hour12To24 ?h False = (if ?h = 12 then 0 else ucast ?h)"
    using seven pm by (simp add: Hour12To24_def Let_def)
  have mult: "x * 60 * 60 = x * 3600" "x * 24 * 60 * 60 = x * 86400" for x :: u32 by (simp_all add: mult.assoc)
  show ?thesis unfolding TimerGetCMOSTime_def CMOSRead_def Let_def mult using assms(1) hour by (simp add: mult.commute)
qed

text \<open>One o'clock in the afternoon of 1 March 2012 reads as it is; the hour before reads as midnight.\<close>

definition noon_registers :: "u8 \<Rightarrow> u8" where
  "noon_registers r = (if r = 0xB then 6 else if r = 4 then 12 else if r = 7 then 1 else if r = 8 then 3
     else if r = 9 then 12 else 0)"

theorem cmos_hour_24_witness:
  "TimerGetCMOSTime noon_registers = push_bit 32 (ucast (DaysDiff 2012 3 1 * 86400 :: u32))"
  using cmos_hour_24 [of noon_registers] by (simp add: noon_registers_def)

end
