(* ===== verification/Slab.thy ===== *)
theory Slab
  imports Physical
begin

text \<open>
  The slab allocator and \<open>MemKAlloc\<close>: \<open>kernel/src/mm/slab.c\<close>, \<open>kernel/include/mm/kmemory.h\<close>.

  Cache and slab headers are records stored at their addresses; the three slab lists of a cache and the
  chain of caches are lists of addresses (theory \<open>Linked_List\<close>). The objects of a slab are words of
  \<open>smem\<close>, addressed through the kernel's fixed window, and a free object's first word is the address
  of the next free object, as in C. Allocation is recursive through the cache of large slab headers;
  its first argument bounds the depth, and running out of it is a call that never returns. Two levels
  are enough as long as the header cache is not itself a large one (\<open>slab_alloc_depth\<close>).
\<close>

section \<open>State\<close>

record MemCache =
  slabsFull :: "u32 list"
  slabsPartial :: "u32 list"
  slabsEmpty :: "u32 list"
  objectSize :: u32
  cacheFlags :: u32
  pagesPerSlab :: u32
  objectsPerSlab :: u32

record MemSlab =
  slabCache :: u32
  activeObjs :: u32
  slabMemory :: MemPhysPage
  freePtr :: u32

record slab_state = phys_state +
  smem :: "u32 \<Rightarrow> u32"
  cacheAt :: "u32 \<Rightarrow> MemCache"
  slabAt :: "u32 \<Rightarrow> MemSlab"
  cacheChain :: "u32 list"
  rootCache :: u32
  rootSlabCache :: u32
  kAllocCache :: "nat \<Rightarrow> u32"

definition MEM_SLAB_DMA :: u32 where "MEM_SLAB_DMA = 1"
definition MEM_SLAB_LARGE :: u32 where "MEM_SLAB_LARGE = 2"
definition MEM_SLAB_END :: u32 where "MEM_SLAB_END = 0xFFFFFFFF"

text \<open>\<open>sizeof(MemSlab)\<close> and \<open>sizeof(MemCache)\<close> on the 32-bit target.\<close>

definition sizeof_MemSlab :: u32 where "sizeof_MemSlab = 24"
definition sizeof_MemCache :: u32 where "sizeof_MemCache = 48"

definition is_large :: "MemCache \<Rightarrow> bool" where
  "is_large c \<longleftrightarrow> cacheFlags c AND MEM_SLAB_LARGE \<noteq> 0"

section \<open>Slabs\<close>

fun set_slabs :: "nat \<Rightarrow> MemPhysPage \<Rightarrow> u32 \<Rightarrow> 'a phys_state_scheme \<Rightarrow> 'a phys_state_scheme" where
  "set_slabs 0 page slab s = s"
| "set_slabs (Suc n) page slab s =
     set_slabs n (page + 1) slab (s\<lparr>MemPageStateTable := (MemPageStateTable s)
       (page := (MemPageStateTable s page)\<lparr>slabPtr := slab\<rparr>)\<rparr>)"

text \<open>The free chain of a new slab: \<open>n\<close> objects that point to the one behind them, then the end mark.\<close>

fun build_chain :: "nat \<Rightarrow> u32 \<Rightarrow> u32 \<Rightarrow> (u32 \<Rightarrow> u32) \<Rightarrow> (u32 \<Rightarrow> u32)" where
  "build_chain 0 dataPtr sz m = m(dataPtr := MEM_SLAB_END)"
| "build_chain (Suc n) dataPtr sz m = build_chain n (dataPtr + sz) sz (m(dataPtr := dataPtr + sz))"

definition init_slab :: "u32 \<Rightarrow> MemPhysPage \<Rightarrow> u32 \<Rightarrow> 'a slab_state_scheme \<Rightarrow> 'a slab_state_scheme" where
  "init_slab cache rawData slab s =
     (let c = cacheAt s cache;
          s1 = set_slabs (unat (pagesPerSlab c)) rawData slab s;
          s2 = s1\<lparr>smem := build_chain (unat (objectsPerSlab c) - 1) (MemPhys2Virt rawData) (objectSize c) (smem s1)\<rparr>
      in s2\<lparr>slabAt := (slabAt s2)(slab := \<lparr>slabCache = cache, activeObjs = 0, slabMemory = rawData,
               freePtr = MemPhys2Virt rawData\<rparr>),
            cacheAt := (cacheAt s2)(cache := (cacheAt s2 cache)\<lparr>slabsEmpty := slabsEmpty (cacheAt s2 cache) @ [slab]\<rparr>)\<rparr>)"

text \<open>\<open>ListDeleteInit(&slab->slabList)\<close>: the slab leaves whichever list it is in.\<close>

definition unlink_slab :: "u32 \<Rightarrow> MemCache \<Rightarrow> MemCache" where
  "unlink_slab slab c = c\<lparr>slabsFull := remove1 slab (slabsFull c), slabsPartial := remove1 slab (slabsPartial c),
     slabsEmpty := remove1 slab (slabsEmpty c)\<rparr>"

text \<open>The part of \<open>MemSlabAlloc\<close> behind the choice of the slab.\<close>

definition take_object :: "u32 \<Rightarrow> u32 \<Rightarrow> 'a slab_state_scheme \<Rightarrow> u32 \<times> 'a slab_state_scheme" where
  "take_object cache slab s =
     (let sl = slabAt s slab; objectPtr = freePtr sl; nextFree = smem s objectPtr;
          active = activeObjs sl + 1;
          s1 = s\<lparr>slabAt := (slabAt s)(slab := sl\<lparr>freePtr := nextFree, activeObjs := active\<rparr>)\<rparr>;
          c = cacheAt s cache; unlinked = unlink_slab slab c;
          c' = (if nextFree = MEM_SLAB_END then unlinked\<lparr>slabsFull := slabsFull unlinked @ [slab]\<rparr>
                else if active = 1 then unlinked\<lparr>slabsPartial := slabsPartial unlinked @ [slab]\<rparr>
                else c)
      in (objectPtr, s1\<lparr>cacheAt := (cacheAt s1)(cache := c')\<rparr>))"

fun MemSlabAlloc :: "nat \<Rightarrow> u32 \<Rightarrow> 'a slab_state_scheme \<Rightarrow> (u32 \<times> 'a slab_state_scheme) run" where
  "MemSlabAlloc 0 cache s = None"
| "MemSlabAlloc (Suc depth) cache s =
     (let c = cacheAt s cache in
      case slabsPartial c of slab # _ \<Rightarrow> ret (take_object cache slab s)
      | [] \<Rightarrow> (case slabsEmpty c of slab # _ \<Rightarrow> ret (take_object cache slab s)
        | [] \<Rightarrow>
            seq (MemPhysicalAlloc (pagesPerSlab c) (if cacheFlags c AND MEM_SLAB_DMA \<noteq> 0 then MEM_DMA else MEM_KERNEL) s)
              (\<lambda>(rawData, s1).
                seq (if is_large c then MemSlabAlloc depth (rootSlabCache s1) s1
                     else ret (MemPhys2Virt (rawData + uint (pagesPerSlab c)) - sizeof_MemSlab, s1))
                  (\<lambda>(slab, s2). ret (take_object cache slab (init_slab cache rawData slab s2))))))"

definition MemSlabFree :: "u32 \<Rightarrow> u32 \<Rightarrow> 'a slab_state_scheme \<Rightarrow> 'a slab_state_scheme" where
  "MemSlabFree cache ptr s =
     (if ptr < KERNEL_VIRTUAL_BASE \<or> ptr \<ge> MEM_KFIXED_MAX then s
      else let slab = slabPtr (MemPageStateTable s (MemVirt2Phys ptr)); sl = slabAt s slab in
        if slabCache sl \<noteq> cache then s
        else let s1 = s\<lparr>smem := (smem s)(ptr := freePtr sl)\<rparr>; c = cacheAt s cache;
            unlinked = unlink_slab slab c;
            c' = (if activeObjs sl = objectsPerSlab c then unlinked\<lparr>slabsPartial := slabsPartial unlinked @ [slab]\<rparr>
                  else if activeObjs sl = 1 then unlinked\<lparr>slabsEmpty := slabsEmpty unlinked @ [slab]\<rparr>
                  else c)
          in s1\<lparr>slabAt := (slabAt s1)(slab := sl\<lparr>freePtr := ptr, activeObjs := activeObjs sl - 1\<rparr>),
               cacheAt := (cacheAt s1)(cache := c')\<rparr>)"

text \<open>The loop visits the slabs that are in the empty list when it starts; nothing takes them off it.\<close>

fun shrink_loop :: "u32 \<Rightarrow> u32 list \<Rightarrow> 'a slab_state_scheme \<Rightarrow> 'a slab_state_scheme" where
  "shrink_loop cache [] s = s"
| "shrink_loop cache (slab # rest) s =
     (let c = cacheAt s cache; s1 = MemPhysicalFree (slabMemory (slabAt s slab)) (pagesPerSlab c) s;
          s2 = (if is_large c then MemSlabFree (rootSlabCache s1) slab s1 else s1)
      in shrink_loop cache rest s2)"

definition MemSlabShrink :: "u32 \<Rightarrow> 'a slab_state_scheme \<Rightarrow> u32 \<times> 'a slab_state_scheme" where
  "MemSlabShrink cache s =
     (let c = cacheAt s cache
      in (of_nat (length (slabsEmpty c)) * pagesPerSlab c, shrink_loop cache (slabsEmpty c) s))"

section \<open>Caches\<close>

text \<open>The search for the number of pages per slab, from \<open>pages\<close> on.\<close>

fun best_pages :: "nat \<Rightarrow> u32 \<Rightarrow> u32 \<Rightarrow> u32 \<Rightarrow> u32 \<Rightarrow> u32 \<Rightarrow> u32" where
  "best_pages 0 pages sz slabExtra bestPages bestWastage = bestPages"
| "best_pages (Suc n) pages sz slabExtra bestPages bestWastage =
     (let room = pages * PAGE_SIZE - slabExtra; nrObjects = room div sz; wastage = room mod sz in
      if nrObjects < 8 then best_pages n (pages + 1) sz slabExtra bestPages bestWastage
      else if wastage \<le> pages * 128 then pages
      else if wastage < bestWastage then best_pages n (pages + 1) sz slabExtra pages wastage
      else best_pages n (pages + 1) sz slabExtra bestPages bestWastage)"

text \<open>The object that describes a new cache. The C code divides by the size, which traps for size zero;
  that case is excluded in \<open>MemSlabCreate\<close>.\<close>

definition cache_layout :: "u32 \<Rightarrow> u32 \<Rightarrow> MemCache" where
  "cache_layout sz flags0 =
     (let large = (sz \<ge> drop_bit 3 PAGE_SIZE);
          flags = (if large then flags0 OR MEM_SLAB_LARGE else flags0 AND NOT MEM_SLAB_LARGE);
          slabExtra = (if large then 0 else sizeof_MemSlab);
          bestPages = best_pages 7 1 sz slabExtra 8 0xFFFFFFFF
      in \<lparr>slabsFull = [], slabsPartial = [], slabsEmpty = [], objectSize = sz, cacheFlags = flags,
          pagesPerSlab = bestPages, objectsPerSlab = (bestPages * PAGE_SIZE - slabExtra) div sz\<rparr>)"

definition MemSlabCreate :: "u32 \<Rightarrow> u32 \<Rightarrow> 'a slab_state_scheme \<Rightarrow> (u32 \<times> 'a slab_state_scheme) run" where
  "MemSlabCreate sz0 flags s =
     (let sz = (sz0 + 3) AND NOT 3 in
      if sz \<ge> 8 * PAGE_SIZE then ret (0, s)
      else seq (MemSlabAlloc 2 (rootCache s) s) (\<lambda>(cache, s1).
        if cache = 0 then ret (0, s1)
        else if sz = 0 then panic
        else ret (cache, s1\<lparr>cacheAt := (cacheAt s1)(cache := cache_layout sz flags),
               cacheChain := cacheChain s1 @ [cache]\<rparr>)))"

definition MemSlabDestroy :: "u32 \<Rightarrow> 'a slab_state_scheme \<Rightarrow> bool \<times> 'a slab_state_scheme" where
  "MemSlabDestroy cache s =
     (let c = cacheAt s cache in
      if slabsFull c \<noteq> [] \<or> slabsPartial c \<noteq> [] then (False, s)
      else let s1 = snd (MemSlabShrink cache s); s2 = s1\<lparr>cacheChain := remove1 cache (cacheChain s1)\<rparr>
        in (True, MemSlabFree (rootCache s2) cache s2))"

section \<open>General allocation\<close>

text \<open>\<open>BitScanReverse\<close> is \<open>__builtin_clz\<close>: the number of leading zeros of a word that is not zero.\<close>

definition BitScanReverse :: "u32 \<Rightarrow> nat" where
  "BitScanReverse x = length (takeWhile (\<lambda>n. \<not> bit x n) (rev [0..<32]))"

definition kalloc_index :: "u32 \<Rightarrow> nat" where
  "kalloc_index bytes =
     (if bytes > 8 then
        (let cacheIndex = 28 - BitScanReverse bytes
         in if push_bit (cacheIndex + 3) 1 \<noteq> bytes then cacheIndex + 1 else cacheIndex)
      else 0)"

definition MemKAlloc :: "u32 \<Rightarrow> 'a slab_state_scheme \<Rightarrow> (u32 \<times> 'a slab_state_scheme) run" where
  "MemKAlloc bytes s =
     (if bytes = 0 \<or> bytes > push_bit 10 8 then ret (0, s)
      else MemSlabAlloc 2 (kAllocCache s (kalloc_index bytes)) s)"

definition MemKFree :: "u32 \<Rightarrow> 'a slab_state_scheme \<Rightarrow> 'a slab_state_scheme" where
  "MemKFree ptr s =
     (let slab = slabPtr (MemPageStateTable s (MemVirt2Phys ptr)) in
      if slab = 0 then s else MemSlabFree (slabCache (slabAt s slab)) ptr s)"

fun kalloc_caches :: "nat \<Rightarrow> nat \<Rightarrow> 'a slab_state_scheme \<Rightarrow> 'a slab_state_scheme run" where
  "kalloc_caches 0 i s = ret s"
| "kalloc_caches (Suc n) i s =
     seq (MemSlabCreate (push_bit i 8) 0 s) (\<lambda>(cache, s1).
       kalloc_caches n (Suc i) (s1\<lparr>kAllocCache := (kAllocCache s1)(i := cache)\<rparr>))"

definition MemSlabInit :: "'a slab_state_scheme \<Rightarrow> 'a slab_state_scheme run" where
  "MemSlabInit s =
     seq (MemSlabCreate sizeof_MemSlab 0 s) (\<lambda>(cache, s1).
       kalloc_caches 11 0 (s1\<lparr>rootSlabCache := cache\<rparr>))"

lemma or_and_absorb: "(x OR y) AND y = y" for x y :: u32
  by (rule bit_eqI) (auto simp: bit_and_iff bit_or_iff)

lemma and_not_and: "(x AND NOT y) AND y = 0" for x y :: u32
  by (rule bit_eqI) (auto simp: bit_and_iff bit_not_iff)

section \<open>The size classes of \<open>MemKAlloc\<close>\<close>

lemma bit_above: "unat (x :: u32) < 2 ^ k \<Longrightarrow> k \<le> n \<Longrightarrow> \<not> bit x n"
proof -
  assume a: "unat x < 2 ^ k" "k \<le> n"
  then have "unat x < 2 ^ n" by (meson less_le_trans one_le_numeral power_increasing)
  then have "\<not> bit (unat x) n" by (simp add: bit_iff_odd)
  then show ?thesis by (simp add: bit_unsigned_iff)
qed

lemma BitScanReverse_log:
  assumes "2 ^ k \<le> unat x" "unat x < 2 ^ Suc k" "k < 32"
  shows "BitScanReverse x = 31 - k"
proof -
  have "unat x div 2 ^ k = 1" using assms by (simp add: div_nat_eqI)
  then have "bit (unat x) k" by (simp add: bit_iff_odd)
  then have here: "bit x k" by (simp add: bit_unsigned_iff)
  have "[0..<32] = [0..<k] @ k # [Suc k..<32]" 
    using upt_add_eq_append [of 0 k "32 - k"] assms(3) by (simp add: upt_conv_Cons)
  then have "takeWhile (\<lambda>n. \<not> bit x n) (rev [0..<32]) = rev [Suc k..<32]"
    using here bit_above [OF assms(2)] by (simp add: takeWhile_tail)
  then show ?thesis by (simp add: BitScanReverse_def)
qed

section \<open>The layout of a cache\<close>

lemma unat_room:
  assumes "1 \<le> unat pages" "unat pages \<le> 8" "unat extra \<le> 24"
  shows "unat (pages * PAGE_SIZE - extra) = unat pages * 4096 - unat extra"
proof -
  have "unat (pages * PAGE_SIZE) = unat pages * 4096" using assms by (simp add: PAGE_SIZE_def unat_word_ariths)
  moreover from this have "extra \<le> pages * PAGE_SIZE" using assms by (simp add: word_le_nat_alt)
  ultimately show ?thesis by (simp add: unat_minus_32)
qed

lemma best_pages_range:
  assumes "unat extra \<le> 24" "unat sz \<le> 8 * 4096 - unat extra" "0 < unat sz"
  shows "n + unat pages = 8 \<Longrightarrow> 1 \<le> unat pages \<Longrightarrow>
    1 \<le> unat best \<and> unat best \<le> 8 \<and> unat sz \<le> unat best * 4096 - unat extra \<Longrightarrow>
    1 \<le> unat (best_pages n pages sz extra best w) \<and> unat (best_pages n pages sz extra best w) \<le> 8 \<and>
    unat sz \<le> unat (best_pages n pages sz extra best w) * 4096 - unat extra"
proof (induction n arbitrary: pages best w)
  case (Suc n)
  have p: "unat (pages + 1) = unat pages + 1" using Suc.prems(1) by (simp add: unat_plus_32)
  have enough: "unat sz \<le> unat pages * 4096 - unat extra" if "\<not> (pages * PAGE_SIZE - extra) div sz < 8"
  proof -
    have "8 \<le> unat (pages * PAGE_SIZE - extra) div unat sz" using that by (simp add: word_less_nat_alt unat_div)
    then have "unat sz \<le> unat (pages * PAGE_SIZE - extra)" using assms(3)
      by (metis div_less leI le_zero_eq not_less zero_neq_numeral)
    then show ?thesis using unat_room [of pages extra] Suc.prems(1,2) assms(1) by simp
  qed
  show ?case using Suc.IH [of "pages + 1"] Suc.prems p enough by (auto simp: Let_def)
qed simp

section \<open>Free chains\<close>

fun free_chain :: "(u32 \<Rightarrow> u32) \<Rightarrow> u32 \<Rightarrow> u32 list \<Rightarrow> bool" where
  "free_chain m p [] \<longleftrightarrow> p = MEM_SLAB_END"
| "free_chain m p (x # xs) \<longleftrightarrow> p = x \<and> x \<noteq> MEM_SLAB_END \<and> free_chain m (m x) xs"

lemma free_chain_upd [simp]: "p \<notin> set xs \<Longrightarrow> free_chain (m(p := v)) q xs = free_chain m q xs"
  by (induction xs arbitrary: q) auto

text \<open>A slab of a cache with the list of its free objects.\<close>

definition slab_rep :: "'a slab_state_scheme \<Rightarrow> u32 \<Rightarrow> u32 \<Rightarrow> u32 list \<Rightarrow> bool" where
  "slab_rep s cache slab xs \<longleftrightarrow> slabCache (slabAt s slab) = cache \<and>
     free_chain (smem s) (freePtr (slabAt s slab)) xs \<and> distinct xs \<and>
     unat (activeObjs (slabAt s slab)) + length xs = unat (objectsPerSlab (cacheAt s cache))"

definition cache_slabs :: "MemCache \<Rightarrow> u32 list" where
  "cache_slabs c = slabsFull c @ slabsPartial c @ slabsEmpty c"

definition cache_inv :: "'a slab_state_scheme \<Rightarrow> u32 \<Rightarrow> (u32 \<Rightarrow> u32 list) \<Rightarrow> bool" where
  "cache_inv s cache F \<longleftrightarrow> distinct (cache_slabs (cacheAt s cache)) \<and>
     0 < unat (objectsPerSlab (cacheAt s cache)) \<and>
     (\<forall>sl \<in> set (cache_slabs (cacheAt s cache)). slab_rep s cache sl (F sl)) \<and>
     (\<forall>sl \<in> set (cache_slabs (cacheAt s cache)). \<forall>sl' \<in> set (cache_slabs (cacheAt s cache)).
        sl \<noteq> sl' \<longrightarrow> set (F sl) \<inter> set (F sl') = {}) \<and>
     (\<forall>sl \<in> set (slabsFull (cacheAt s cache)). F sl = []) \<and>
     (\<forall>sl \<in> set (slabsPartial (cacheAt s cache)). F sl \<noteq> [] \<and> activeObjs (slabAt s sl) \<noteq> 0) \<and>
     (\<forall>sl \<in> set (slabsEmpty (cacheAt s cache)). activeObjs (slabAt s sl) = 0)"

lemma unlink_fields [simp]:
  "objectsPerSlab (unlink_slab slab c) = objectsPerSlab c" "cacheFlags (unlink_slab slab c) = cacheFlags c"
  "pagesPerSlab (unlink_slab slab c) = pagesPerSlab c" "objectSize (unlink_slab slab c) = objectSize c"
  by (simp_all add: unlink_slab_def)

lemma unlink_sets:
  assumes "distinct (cache_slabs c)"
  shows "set (slabsFull (unlink_slab slab c)) = set (slabsFull c) - {slab}"
    "set (slabsPartial (unlink_slab slab c)) = set (slabsPartial c) - {slab}"
    "set (slabsEmpty (unlink_slab slab c)) = set (slabsEmpty c) - {slab}"
    "distinct (cache_slabs (unlink_slab slab c))" "slab \<notin> set (cache_slabs (unlink_slab slab c))"
  using assms by (auto simp: unlink_slab_def cache_slabs_def)

text \<open>One slab changes, and moves between the lists so that they still tell full, partial and empty slabs
  apart; everything else stays.\<close>

lemma cache_inv_step:
  assumes inv: "cache_inv s cache F" and mem: "slab \<in> set (cache_slabs (cacheAt s cache))"
    and objs: "objectsPerSlab (cacheAt s' cache) = objectsPerSlab (cacheAt s cache)"
    and other: "\<And>sl. sl \<noteq> slab \<Longrightarrow> slabAt s' sl = slabAt s sl"
    and chains: "\<And>sl. sl \<in> set (cache_slabs (cacheAt s cache)) \<Longrightarrow> sl \<noteq> slab \<Longrightarrow>
      free_chain (smem s') (freePtr (slabAt s sl)) (F sl) = free_chain (smem s) (freePtr (slabAt s sl)) (F sl)"
    and rep: "slab_rep s' cache slab xs"
    and disj: "\<And>sl. sl \<in> set (cache_slabs (cacheAt s cache)) \<Longrightarrow> sl \<noteq> slab \<Longrightarrow> set xs \<inter> set (F sl) = {}"
    and dist: "distinct (cache_slabs (cacheAt s' cache))"
    and sets: "set (slabsFull (cacheAt s' cache)) - {slab} = set (slabsFull (cacheAt s cache)) - {slab}"
      "set (slabsPartial (cacheAt s' cache)) - {slab} = set (slabsPartial (cacheAt s cache)) - {slab}"
      "set (slabsEmpty (cacheAt s' cache)) - {slab} = set (slabsEmpty (cacheAt s cache)) - {slab}"
    and place: "slab \<in> set (slabsFull (cacheAt s' cache)) \<Longrightarrow> xs = []"
      "slab \<in> set (slabsPartial (cacheAt s' cache)) \<Longrightarrow> xs \<noteq> [] \<and> activeObjs (slabAt s' slab) \<noteq> 0"
      "slab \<in> set (slabsEmpty (cacheAt s' cache)) \<Longrightarrow> activeObjs (slabAt s' slab) = 0"
  shows "cache_inv s' cache (F(slab := xs))"
proof -
  have all: "sl \<in> set (cache_slabs (cacheAt s cache))" if "sl \<in> set (cache_slabs (cacheAt s' cache))" "sl \<noteq> slab" for sl
    using that sets by (auto simp: cache_slabs_def)
  have reps: "slab_rep s' cache sl (F sl)" if "sl \<in> set (cache_slabs (cacheAt s cache))" "sl \<noteq> slab" for sl
    using inv that other [OF that(2)] chains [OF that] objs by (auto simp: cache_inv_def slab_rep_def)
  have full: "F sl = []" if "sl \<in> set (slabsFull (cacheAt s' cache))" "sl \<noteq> slab" for sl
    using inv that sets(1) by (auto simp: cache_inv_def)
  have part: "F sl \<noteq> [] \<and> activeObjs (slabAt s' sl) \<noteq> 0" if "sl \<in> set (slabsPartial (cacheAt s' cache))" "sl \<noteq> slab" for sl
    using inv that sets(2) other [OF that(2)] by (auto simp: cache_inv_def)
  have empt: "activeObjs (slabAt s' sl) = 0" if "sl \<in> set (slabsEmpty (cacheAt s' cache))" "sl \<noteq> slab" for sl
    using inv that sets(3) other [OF that(2)] by (auto simp: cache_inv_def)
  have pair: "set (F sl) \<inter> set (F sl') = {}"
    if "sl \<in> set (cache_slabs (cacheAt s cache))" "sl' \<in> set (cache_slabs (cacheAt s cache))" "sl \<noteq> sl'" for sl sl'
    using inv that unfolding cache_inv_def by blast
  show ?thesis unfolding cache_inv_def
  proof (intro conjI ballI impI)
    show "0 < unat (objectsPerSlab (cacheAt s' cache))" using inv objs by (simp add: cache_inv_def)
    fix sl assume sl: "sl \<in> set (cache_slabs (cacheAt s' cache))"
    show "slab_rep s' cache sl ((F(slab := xs)) sl)" using reps [OF all [OF sl]] rep by (cases "sl = slab") auto
    fix sl' assume sl': "sl' \<in> set (cache_slabs (cacheAt s' cache))" and ne: "sl \<noteq> sl'"
    show "set ((F(slab := xs)) sl) \<inter> set ((F(slab := xs)) sl') = {}"
      using pair [OF all [OF sl] all [OF sl'] ne] disj [OF all [OF sl]] disj [OF all [OF sl']] ne
      by (cases "sl = slab"; cases "sl' = slab") auto
  qed (use dist full part empt place in auto)
qed

lemma take_object_inv:
  assumes inv: "cache_inv s cache F" and mem: "slab \<in> set (slabsPartial (cacheAt s cache) @ slabsEmpty (cacheAt s cache))"
  shows "\<exists>x xs. F slab = x # xs \<and> fst (take_object cache slab s) = x \<and>
     cache_inv (snd (take_object cache slab s)) cache (F(slab := xs))"
proof -
  let ?c = "cacheAt s cache" and ?s' = "snd (take_object cache slab s)"
  have slabs: "slab \<in> set (cache_slabs ?c)" using mem by (auto simp: cache_slabs_def)
  then have rep: "slab_rep s cache slab (F slab)" using inv by (auto simp: cache_inv_def)
  have "F slab \<noteq> []" using mem inv rep by (auto simp: cache_inv_def slab_rep_def)
  then obtain x xs where F: "F slab = x # xs" by (cases "F slab") auto
  have dist: "distinct (cache_slabs ?c)" using inv by (simp add: cache_inv_def)
  have x: "freePtr (slabAt s slab) = x" "x \<noteq> MEM_SLAB_END" "free_chain (smem s) (smem s x) xs" "x \<notin> set xs" "distinct xs"
    and count: "unat (activeObjs (slabAt s slab)) + length xs + 1 = unat (objectsPerSlab ?c)"
    using rep F by (auto simp: slab_rep_def)
  have active: "unat (activeObjs (slabAt s slab) + 1) = unat (activeObjs (slabAt s slab)) + 1"
    using count unat_less_32 [of "objectsPerSlab ?c"] unat_plus_32 [of "activeObjs (slabAt s slab)" 1] by simp
  have nonzero: "activeObjs (slabAt s slab) + 1 \<noteq> 0" using active by (metis add_is_0 one_neq_zero unat_0)
  have not_full: "slab \<notin> set (slabsFull ?c)" using mem dist by (auto simp: cache_slabs_def)
  have last: "smem s x = MEM_SLAB_END \<longleftrightarrow> xs = []" using x(3) by (cases xs) auto
  have first: "activeObjs (slabAt s slab) + 1 = 1 \<longleftrightarrow> slab \<in> set (slabsEmpty ?c)"
    using mem inv dist by (auto simp: cache_inv_def cache_slabs_def)
  have "cache_inv ?s' cache (F(slab := xs))"
  proof (rule cache_inv_step [OF inv slabs])
    show "slab_rep ?s' cache slab xs"
      using rep x count active by (auto simp: take_object_def Let_def slab_rep_def)
    show "set xs \<inter> set (F sl) = {}" if "sl \<in> set (cache_slabs ?c)" "sl \<noteq> slab" for sl
    proof -
      have "set (F slab) \<inter> set (F sl) = {}" using inv that slabs unfolding cache_inv_def by blast
      then show ?thesis using F by auto
    qed
    show "distinct (cache_slabs (cacheAt ?s' cache))"
      using dist unlink_sets [OF dist, of slab] by (auto simp: take_object_def Let_def cache_slabs_def)
    show "slab \<in> set (slabsFull (cacheAt ?s' cache)) \<Longrightarrow> xs = []"
      using last x(1) unlink_sets(1) [OF dist, of slab] not_full
      by (auto simp: take_object_def Let_def split: if_splits)
    show "slab \<in> set (slabsPartial (cacheAt ?s' cache)) \<Longrightarrow> xs \<noteq> [] \<and> activeObjs (slabAt ?s' slab) \<noteq> 0"
      using last x(1) unlink_sets(2) [OF dist, of slab] nonzero
      by (auto simp: take_object_def Let_def split: if_splits)
    show "slab \<in> set (slabsEmpty (cacheAt ?s' cache)) \<Longrightarrow> activeObjs (slabAt ?s' slab) = 0"
      using first x(1) unlink_sets(3) [OF dist, of slab]
      by (auto simp: take_object_def Let_def split: if_splits)
  qed (use unlink_sets [OF dist, of slab] in \<open>auto simp: take_object_def Let_def cache_slabs_def\<close>)
  then show ?thesis using F x(1) by (simp add: take_object_def Let_def)
qed

lemma slab_free_inv:
  assumes inv: "cache_inv s cache F" and range: "KERNEL_VIRTUAL_BASE \<le> ptr" "ptr < MEM_KFIXED_MAX"
    and slab: "slab = slabPtr (MemPageStateTable s (MemVirt2Phys ptr))" "slab \<in> set (cache_slabs (cacheAt s cache))"
    and used: "\<And>sl. sl \<in> set (cache_slabs (cacheAt s cache)) \<Longrightarrow> ptr \<notin> set (F sl)" "activeObjs (slabAt s slab) \<noteq> 0"
    and objs: "1 < unat (objectsPerSlab (cacheAt s cache))"
  shows "cache_inv (MemSlabFree cache ptr s) cache (F(slab := ptr # F slab))"
proof -
  let ?c = "cacheAt s cache" and ?s' = "MemSlabFree cache ptr s" and ?sl = "slabAt s slab"
  have rep: "slab_rep s cache slab (F slab)" using inv slab by (auto simp: cache_inv_def)
  have dist: "distinct (cache_slabs ?c)" using inv by (simp add: cache_inv_def)
  have count: "unat (activeObjs ?sl) + length (F slab) = unat (objectsPerSlab ?c)" "slabCache ?sl = cache"
    using rep by (auto simp: slab_rep_def)
  have ptr: "ptr \<noteq> MEM_SLAB_END" using range(2) by (auto simp: MEM_SLAB_END_def MEM_KFIXED_MAX_def)
  have active: "unat (activeObjs ?sl - 1) = unat (activeObjs ?sl) - 1" "0 < unat (activeObjs ?sl)"
    using used(2) by (simp_all add: unat_minus_one unat_gt_0)
  have full: "activeObjs ?sl = objectsPerSlab ?c \<longleftrightarrow> F slab = []"
    using count(1) by (auto simp: word_unat_eq_iff)
  have full_list: "slab \<in> set (slabsFull ?c) \<Longrightarrow> F slab = []" using inv by (auto simp: cache_inv_def)
  have part_list: "slab \<in> set (slabsPartial ?c) \<Longrightarrow> F slab \<noteq> []" using inv by (auto simp: cache_inv_def)
  have empty_list: "slab \<notin> set (slabsEmpty ?c)" using inv used(2) by (auto simp: cache_inv_def)
  have one: "activeObjs ?sl = objectsPerSlab ?c \<Longrightarrow> activeObjs ?sl - 1 \<noteq> 0"
    using objs active by (metis diff_is_0_eq less_irrefl_nat linorder_not_less unat_0 nat_le_linear le_antisym)
  have many: "activeObjs ?sl \<noteq> 1 \<Longrightarrow> activeObjs ?sl - 1 \<noteq> 0" by simp
  have s': "?s' = (let s1 = s\<lparr>smem := (smem s)(ptr := freePtr ?sl)\<rparr>; unlinked = unlink_slab slab ?c;
      c' = (if activeObjs ?sl = objectsPerSlab ?c then unlinked\<lparr>slabsPartial := slabsPartial unlinked @ [slab]\<rparr>
            else if activeObjs ?sl = 1 then unlinked\<lparr>slabsEmpty := slabsEmpty unlinked @ [slab]\<rparr> else ?c)
      in s1\<lparr>slabAt := (slabAt s1)(slab := ?sl\<lparr>freePtr := ptr, activeObjs := activeObjs ?sl - 1\<rparr>),
            cacheAt := (cacheAt s1)(cache := c')\<rparr>)"
    using range count(2) slab(1) by (simp add: MemSlabFree_def Let_def not_less not_le)
  show ?thesis
  proof (rule cache_inv_step [OF inv slab(2)])
    show "slab_rep ?s' cache slab (ptr # F slab)"
      using rep used(1) [OF slab(2)] ptr active count by (auto simp: s' Let_def slab_rep_def)
    show "set (ptr # F slab) \<inter> set (F sl) = {}" if "sl \<in> set (cache_slabs ?c)" "sl \<noteq> slab" for sl
      using inv that slab(2) used(1) [OF that(1)] unfolding cache_inv_def by auto
    show "distinct (cache_slabs (cacheAt ?s' cache))"
      using dist unlink_sets [OF dist, of slab] by (auto simp: s' Let_def cache_slabs_def)
    show "free_chain (smem ?s') (freePtr (slabAt s sl)) (F sl) = free_chain (smem s) (freePtr (slabAt s sl)) (F sl)"
      if "sl \<in> set (cache_slabs ?c)" "sl \<noteq> slab" for sl
      using used(1) [OF that(1)] by (simp add: s' Let_def)
    show "slab \<in> set (slabsFull (cacheAt ?s' cache)) \<Longrightarrow> ptr # F slab = []"
      using full full_list unlink_sets [OF dist, of slab] by (auto simp: s' Let_def split: if_splits)
    show "slab \<in> set (slabsPartial (cacheAt ?s' cache)) \<Longrightarrow> ptr # F slab \<noteq> [] \<and> activeObjs (slabAt ?s' slab) \<noteq> 0"
      using one many unlink_sets [OF dist, of slab] by (auto simp: s' Let_def split: if_splits)
    show "slab \<in> set (slabsEmpty (cacheAt ?s' cache)) \<Longrightarrow> activeObjs (slabAt ?s' slab) = 0"
      using empty_list unlink_sets [OF dist, of slab] by (auto simp: s' Let_def split: if_splits)
  qed (use unlink_sets [OF dist, of slab] in \<open>auto simp: s' Let_def cache_slabs_def\<close>)
qed

section \<open>The depth of the recursion\<close>

lemma same_more:
  "phys_state.more s' = phys_state.more s \<Longrightarrow> cacheAt s' = cacheAt s \<and> rootSlabCache s' = rootSlabCache s"
  by (cases s; cases s') simp

lemma slab_alloc_small: "\<not> is_large (cacheAt s cache) \<Longrightarrow> MemSlabAlloc (Suc d) cache s = MemSlabAlloc 1 cache s"
  by (simp add: Let_def split: list.split)

lemma slab_alloc_depth:
  assumes "\<not> is_large (cacheAt s (rootSlabCache s))"
  shows "MemSlabAlloc (Suc (Suc d)) cache s = MemSlabAlloc 2 cache s"
proof -
  have "MemSlabAlloc (Suc d) (rootSlabCache t) t = MemSlabAlloc 1 (rootSlabCache t) t"
    if "MemPhysicalAlloc n z s = ret (p, t)" for n z p t
    using same_more [OF alloc_more [OF that]] assms slab_alloc_small [of t "rootSlabCache t" d] by simp
  then have step: "seq (MemPhysicalAlloc n z s) (\<lambda>(rawData, s1). seq (if b then MemSlabAlloc (Suc d) (rootSlabCache s1) s1
         else f rawData s1) (g rawData)) =
      seq (MemPhysicalAlloc n z s) (\<lambda>(rawData, s1). seq (if b then MemSlabAlloc 1 (rootSlabCache s1) s1
         else f rawData s1) (g rawData))" for n z b f g
    by (cases "MemPhysicalAlloc n z s" rule: run_cases) auto
  show ?thesis
    unfolding numeral_2_eq_2 MemSlabAlloc.simps(2) [of "Suc d"] MemSlabAlloc.simps(2) [of "Suc 0"] Let_def
    by (subst step [unfolded One_nat_def]) (rule refl)
qed

section \<open>Freeing pages\<close>

lemma free_pages_frame [simp]:
  "cacheAt (free_pages n p s) = cacheAt s" "slabAt (free_pages n p s) = slabAt s"
  by (induction n p s rule: free_pages.induct) (simp_all add: set_ref_def)

lemma shrink_loop_frame:
  "\<not> is_large (cacheAt s cache) \<Longrightarrow> cacheAt (shrink_loop cache l s) = cacheAt s \<and> slabAt (shrink_loop cache l s) = slabAt s \<and>
   (\<forall>q. page_refs s q = 0 \<longrightarrow> page_refs (shrink_loop cache l s) q = 0)"
  by (induction l arbitrary: s) (auto simp: Let_def MemPhysicalFree_def free_pages_refs)

section \<open>Properties\<close>

text \<open>
  Size classes. Every request of 1 to 8192 bytes goes to one of the eleven caches, whose objects are
  large enough, and no smaller cache would do.
\<close>

theorem kalloc_best_fit:
  assumes "0 < unat bytes" "unat bytes \<le> 8192"
  shows "kalloc_index bytes \<le> 10 \<and> unat bytes \<le> 8 * 2 ^ kalloc_index bytes \<and>
     (kalloc_index bytes = 0 \<or> 8 * 2 ^ (kalloc_index bytes - 1) < unat bytes)"
proof (cases "bytes > 8")
  case True
  then have big: "8 < unat bytes" by (simp add: word_less_nat_alt)
  then obtain k where k: "2 ^ k \<le> unat bytes" "unat bytes < 2 ^ Suc k"
    using ex_power_ivl1 [of 2 "unat bytes"] by auto
  have "2 ^ 3 < (2 :: nat) ^ Suc k" using big k by simp
  then have lo: "3 \<le> k" by (metis less_Suc_eq_le numeral_3_eq_3 one_less_numeral_iff power_less_imp_less_exp semiring_norm(76))
  have hi: "k \<le> 13" using power_le_imp_le_exp [of "2 :: nat" k 13] k assms by simp
  have pw: "8 * 2 ^ (k - 3) = (2 :: nat) ^ k" using lo power_add [of "2 :: nat" 3 "k - 3"] by simp
  have idx: "28 - BitScanReverse bytes = k - 3" using BitScanReverse_log [OF k] lo hi by simp
  have "(2 :: nat) ^ k < 2 ^ 32" using k assms by simp
  moreover have "push_bit k 1 = (of_nat (2 ^ k) :: u32)" by (simp add: push_bit_eq_mult)
  ultimately have "unat (push_bit k 1 :: u32) = 2 ^ k" by (simp only: unat_of_nat take_bit_eq_mod mod_less len_num1 len_bit0) simp
  then have exact: "push_bit (k - 3 + 3) 1 = bytes \<longleftrightarrow> unat bytes = 2 ^ k" using lo by (auto simp: word_unat_eq_iff)
  have i: "kalloc_index bytes = (if unat bytes = 2 ^ k then k - 3 else k - 3 + 1)"
    using True idx exact by (simp add: kalloc_index_def Let_def)
  have "unat bytes \<noteq> 2 ^ k \<Longrightarrow> k \<noteq> 13" using k assms by auto
  moreover have "k - 3 = 0 \<or> 8 * 2 ^ (k - 3 - 1) < (2 :: nat) ^ k" unfolding pw [symmetric] by (cases "k - 3") simp_all
  ultimately show ?thesis using i pw k hi lo by auto
next
  case False
  then show ?thesis by (simp add: kalloc_index_def word_less_nat_alt)
qed

theorem kalloc_best_fit_witness: "kalloc_index 100 \<le> 10 \<and> 100 \<le> 8 * (2 :: nat) ^ kalloc_index 100"
  using kalloc_best_fit [of 100] by simp

text \<open>
  (C31) Cache layout. For every object size from 1 to 32767 bytes, a slab has 1 to 8 pages and at least one
  object, and its objects, with the slab header where it is stored in the slab, fit into the pages.
\<close>

theorem slab_layout_fits:
  fixes flags :: u32
  assumes "0 < unat sz" "unat sz < 32768"
  defines "c \<equiv> cache_layout sz flags"
  shows "1 \<le> unat (pagesPerSlab c) \<and> unat (pagesPerSlab c) \<le> 8 \<and> 1 \<le> unat (objectsPerSlab c) \<and>
     unat (objectsPerSlab c) * unat (objectSize c) + (if is_large c then 0 else 24) \<le> unat (pagesPerSlab c) * 4096"
proof -
  let ?extra = "if sz \<ge> drop_bit 3 PAGE_SIZE then 0 else sizeof_MemSlab"
  let ?b = "best_pages 7 1 sz ?extra 8 0xFFFFFFFF"
  have large: "is_large c \<longleftrightarrow> sz \<ge> drop_bit 3 PAGE_SIZE" 
    using or_and_absorb [of flags MEM_SLAB_LARGE] and_not_and [of flags MEM_SLAB_LARGE]
    by (simp add: is_large_def c_def cache_layout_def Let_def) (simp add: MEM_SLAB_LARGE_def)
  have small: "\<not> sz \<ge> drop_bit 3 PAGE_SIZE \<Longrightarrow> unat sz < 512"
    by (simp add: PAGE_SIZE_def word_le_nat_alt)
  have extra: "unat ?extra \<le> 24" "unat sz \<le> 8 * 4096 - unat ?extra"
    using small assms by (auto simp: sizeof_MemSlab_def)
  have b: "1 \<le> unat ?b" "unat ?b \<le> 8" "unat sz \<le> unat ?b * 4096 - unat ?extra"
    using best_pages_range [OF extra assms(1), of 7 1 8 "0xFFFFFFFF"] extra by auto
  have objs: "unat (objectsPerSlab c) = (unat ?b * 4096 - unat ?extra) div unat sz" "pagesPerSlab c = ?b" "objectSize c = sz"
    using unat_room [OF b(1,2) extra(1)] by (simp_all add: c_def cache_layout_def Let_def unat_div)
  have "1 \<le> (unat ?b * 4096 - unat ?extra) div unat sz" using b(3) assms(1) by (simp add: Suc_le_eq div_greater_zero_iff)
  moreover have "unat (objectsPerSlab c) * unat sz + unat ?extra \<le> unat ?b * 4096"
  proof -
    have "unat (objectsPerSlab c) * unat sz \<le> unat ?b * 4096 - unat ?extra"
      unfolding objs(1) by (rule div_times_less_eq_dividend)
    moreover have "unat ?extra \<le> unat ?b * 4096" using extra(1) b(1) by linarith
    ultimately show ?thesis by linarith
  qed
  moreover have "unat ?extra = (if is_large c then 0 else 24)" using large by (simp add: sizeof_MemSlab_def)
  ultimately show ?thesis using b(1,2) unfolding objs(1) [symmetric] by (simp only: objs(2,3))
qed

theorem slab_layout_fits_witness:
  "unat (objectsPerSlab (cache_layout 100 0)) * unat (objectSize (cache_layout 100 0)) +
     (if is_large (cache_layout 100 0) then 0 else 24) \<le> unat (pagesPerSlab (cache_layout 100 0)) * 4096"
  using slab_layout_fits [of 100 0] by simp

text \<open>
  (C18) Allocation from an existing slab. In a well-formed cache that has a partial or an empty slab,
  \<open>MemSlabAlloc\<close> returns an object that was on the free chain of one of its slabs, takes exactly that
  object off the chain, and leaves the cache well formed: slabs are in the full, partial and empty
  lists according to their object counts, and no object is free in two slabs.
\<close>

theorem slab_alloc_keeps_cache:
  assumes "cache_inv s cache F" "slabsPartial (cacheAt s cache) @ slabsEmpty (cacheAt s cache) \<noteq> []"
  shows "\<exists>slab x xs s'. MemSlabAlloc (Suc d) cache s = ret (x, s') \<and> slab \<in> set (cache_slabs (cacheAt s cache)) \<and>
     F slab = x # xs \<and> cache_inv s' cache (F(slab := xs))"
proof -
  let ?c = "cacheAt s cache"
  obtain slab where slab: "slab \<in> set (slabsPartial ?c @ slabsEmpty ?c)"
      "MemSlabAlloc (Suc d) cache s = ret (take_object cache slab s)"
    using assms(2) by (cases "slabsPartial ?c"; cases "slabsEmpty ?c") auto
  have "slab \<in> set (cache_slabs ?c)" using slab(1) by (auto simp: cache_slabs_def)
  then show ?thesis using take_object_inv [OF assms(1) slab(1)] slab(2)
    by (metis prod.collapse)
qed

text \<open>A cache at address 1 with one slab at address 2: two objects at the first addresses of physical page
  0, and the second one free.\<close>

definition demo_slab :: "u32 \<Rightarrow> slab_state" where
  "demo_slab used = \<lparr>MemPageStateTable = (\<lambda>_. \<lparr>refCount = 1, slabPtr = 2\<rparr>), highestPage = 4, zones = (\<lambda>_. no_zone),
     MemPhysicalTotalPages = 4, MemPhysicalFreePages = 0,
     smem = (\<lambda>_. 0)(0xC0000000 := 0xC0000800, 0xC0000800 := MEM_SLAB_END),
     cacheAt = (\<lambda>_. \<lparr>slabsFull = [], slabsPartial = (if used = 0 then [] else [2]),
        slabsEmpty = (if used = 0 then [2] else []), objectSize = 2048, cacheFlags = 0, pagesPerSlab = 1, objectsPerSlab = 2\<rparr>),
     slabAt = (\<lambda>_. \<lparr>slabCache = 1, activeObjs = used, slabMemory = 0,
        freePtr = (if used = 0 then 0xC0000000 else 0xC0000800)\<rparr>),
     cacheChain = [1], rootCache = 0, rootSlabCache = 3, kAllocCache = (\<lambda>_. 1)\<rparr>"

lemma demo_slab_inv: "cache_inv (demo_slab 1) 1 (\<lambda>_. [0xC0000800])"
  by (simp add: cache_inv_def demo_slab_def cache_slabs_def slab_rep_def MEM_SLAB_END_def)

theorem slab_alloc_keeps_cache_witness:
  "\<exists>x s'. MemSlabAlloc 1 1 (demo_slab 1) = ret (x, s') \<and> x = 0xC0000800"
  using slab_alloc_keeps_cache [OF demo_slab_inv, of 0] by (auto simp: demo_slab_def)



text \<open>
  Shrinking a cache. \<open>MemSlabShrink\<close> frees the pages of the empty slabs but leaves the slabs in the
  cache: with no partial slab, the next \<open>MemSlabAlloc\<close> hands out an object of the first of them, in
  pages whose reference count is zero.
\<close>

theorem slab_shrink_use_after_free:
  assumes "slabsPartial (cacheAt s cache) = []" "slabsEmpty (cacheAt s cache) = slab # rest"
    and "\<not> is_large (cacheAt s cache)" "0 < unat (pagesPerSlab (cacheAt s cache))"
  shows "\<exists>s' s''. MemSlabShrink cache s = (of_nat (length (slab # rest)) * pagesPerSlab (cacheAt s cache), s') \<and>
     MemPhysicalRefCount (slabMemory (slabAt s slab)) s' = 0 \<and>
     MemSlabAlloc (Suc d) cache s' = ret (freePtr (slabAt s slab), s'')"
proof -
  let ?n = "pagesPerSlab (cacheAt s cache)" and ?p = "slabMemory (slabAt s slab)"
  define s1 where "s1 = MemPhysicalFree ?p ?n s"
  define s' where "s' = shrink_loop cache rest s1"
  have "0 < uint ?n" using assms(4) by (simp only: unat_eq_nat_uint zero_less_nat_eq)
  then have s1: "cacheAt s1 = cacheAt s" "slabAt s1 = slabAt s" "page_refs s1 ?p = 0"
    by (simp_all add: s1_def MemPhysicalFree_def free_pages_refs)
  then have s': "cacheAt s' = cacheAt s" "slabAt s' = slabAt s" "page_refs s' ?p = 0"
    using shrink_loop_frame [of s1 cache rest] assms(3) by (auto simp: s'_def)
  have "MemSlabShrink cache s = (of_nat (length (slab # rest)) * ?n, s')"
    using assms(2,3) by (simp add: MemSlabShrink_def Let_def s'_def s1_def)
  moreover have "MemSlabAlloc (Suc d) cache s' = ret (freePtr (slabAt s slab), snd (take_object cache slab s'))"
    using assms(1,2) s' by (simp add: take_object_def Let_def)
  ultimately show ?thesis using s'(3) by (simp add: MemPhysicalRefCount_def page_refs_def)
qed

theorem slab_shrink_use_after_free_witness:
  "\<exists>s' s''. MemSlabShrink 1 (demo_slab 0) = (1, s') \<and> MemPhysicalRefCount 0 s' = 0 \<and>
     MemSlabAlloc 1 1 s' = ret (0xC0000000, s'')"
  using slab_shrink_use_after_free [of "demo_slab 0" 1 2 "[]" 0] by (simp add: demo_slab_def is_large_def)

end
