(* ===== verification/Slab_Init.thy ===== *)
theory Slab_Init
  imports Slab
begin

text \<open>
  New slabs and the start of the slab allocator, \<open>kernel/src/mm/slab.c\<close>: what \<open>CreateSlab\<close> puts on the free chain, \<open>MemSlabAlloc\<close> as
  the operation of a pool of objects, and the caches that \<open>MemSlabInit\<close> sets up from the static root cache.
\<close>

section \<open>The objects of a new slab\<close>

definition slab_objects :: "u32 \<Rightarrow> u32 \<Rightarrow> nat \<Rightarrow> u32 list" where
  "slab_objects p sz n = map (\<lambda>i. p + of_nat i * sz) [0..<n]"

lemma slab_objects_Suc: "slab_objects p sz (Suc n) = p # slab_objects (p + sz) sz n"
  by (simp add: slab_objects_def upt_conv_Cons map_Suc_upt [symmetric] algebra_simps del: upt_Suc)

lemma build_chain_other: "x \<notin> set (slab_objects p sz (Suc n)) \<Longrightarrow> build_chain n p sz m x = m x"
  by (induction n arbitrary: p m) (simp_all add: slab_objects_Suc [of _ _ "Suc _"] slab_objects_Suc [of _ _ 0])

lemma build_chain_free:
  "distinct (slab_objects p sz (Suc n)) \<Longrightarrow> MEM_SLAB_END \<notin> set (slab_objects p sz (Suc n)) \<Longrightarrow>
    free_chain (build_chain n p sz m) p (slab_objects p sz (Suc n))"
proof (induction n arbitrary: p m)
  case 0
  then show ?case by (simp add: slab_objects_def)
next
  case (Suc n)
  have eq: "slab_objects p sz (Suc (Suc n)) = p # slab_objects (p + sz) sz (Suc n)" by (rule slab_objects_Suc)
  have "build_chain n (p + sz) sz (m(p := p + sz)) p = p + sz" using Suc.prems(1) by (simp add: eq build_chain_other)
  moreover have "free_chain (build_chain n (p + sz) sz (m(p := p + sz))) (p + sz) (slab_objects (p + sz) sz (Suc n))"
    using Suc.prems unfolding eq by (intro Suc.IH) simp_all
  ultimately show ?case using Suc.prems(2) unfolding eq by auto
qed

lemma slab_object_addr:
  fixes p sz :: u32
  assumes "i \<le> n" "unat p + n * unat sz < 2 ^ 32"
  shows "unat (p + of_nat i * sz) = unat p + i * unat sz"
proof -
  have "i * unat sz \<le> n * unat sz" using assms(1) by simp
  then have small: "unat p + i * unat sz < 2 ^ 32" using assms(2) by linarith
  have "unat (of_nat i * sz) = i * unat sz"
  proof (cases "unat sz = 0")
    case False
    then have "i \<le> i * unat sz" by simp
    then have "i < 2 ^ 32" using small by linarith
    then show ?thesis using small by (simp add: unat_word_ariths unsigned_of_nat take_bit_nat_eq_self)
  qed (simp add: unat_word_ariths)
  then show ?thesis using small by (simp add: unat_plus_32)
qed

lemma slab_objects_distinct:
  assumes "unat p + n * unat sz < 2 ^ 32" "0 < unat sz"
  shows "distinct (slab_objects p sz n)"
proof -
  have "i = j" if ij: "i < n" "j < n" "p + of_nat i * sz = p + of_nat j * sz" for i j
  proof -
    have "unat p + i * unat sz = unat p + j * unat sz"
      using slab_object_addr [OF less_imp_le [OF ij(1)] assms(1)] slab_object_addr [OF less_imp_le [OF ij(2)] assms(1)]
      unfolding ij(3) by (rule trans [OF sym])
    then show ?thesis using assms(2) by simp
  qed
  then show ?thesis by (auto simp: slab_objects_def distinct_map inj_on_def)
qed

lemma slab_objects_range:
  assumes "x \<in> set (slab_objects p sz n)" "unat p + n * unat sz < 2 ^ 32" "0 < unat sz"
  shows "unat p \<le> unat x" "unat x < unat p + n * unat sz"
proof -
  obtain i where i: "i < n" "x = p + of_nat i * sz" using assms(1) by (auto simp: slab_objects_def)
  then have x: "unat x = unat p + i * unat sz" using slab_object_addr [of i n] assms(2) by simp
  then show "unat p \<le> unat x" by simp
  show "unat x < unat p + n * unat sz" using x i(1) assms(3) by simp
qed

lemma set_slabs_frame [simp]:
  "page_refs (set_slabs n p x s) = page_refs s" "zones (set_slabs n p x s) = zones s" "highestPage (set_slabs n p x s) = highestPage s"
  "cacheAt (set_slabs n p x t) = cacheAt t" "slabAt (set_slabs n p x t) = slabAt t" "smem (set_slabs n p x t) = smem t"
  "rootSlabCache (set_slabs n p x t) = rootSlabCache t" "cacheChain (set_slabs n p x t) = cacheChain t"
  "rootCache (set_slabs n p x t) = rootCache t" "kAllocCache (set_slabs n p x t) = kAllocCache t"
proof -
  show "page_refs (set_slabs n p x s) = page_refs s" "zones (set_slabs n p x s) = zones s" "highestPage (set_slabs n p x s) = highestPage s"
    by (induction n p x s rule: set_slabs.induct) (auto simp: page_refs_def fun_eq_iff)
  have more: "phys_state.more (set_slabs n p x t) = phys_state.more t"
    by (induction n p x t rule: set_slabs.induct) simp_all
  show "cacheAt (set_slabs n p x t) = cacheAt t" "slabAt (set_slabs n p x t) = slabAt t" "smem (set_slabs n p x t) = smem t"
    "rootSlabCache (set_slabs n p x t) = rootSlabCache t" "cacheChain (set_slabs n p x t) = cacheChain t"
    "rootCache (set_slabs n p x t) = rootCache t" "kAllocCache (set_slabs n p x t) = kAllocCache t"
    by (cases t; cases "set_slabs n p x t"; use more in simp)+
qed

lemma free_chain_cong: "\<forall>x \<in> set xs. m' x = m x \<Longrightarrow> free_chain m' p xs = free_chain m p xs"
  by (induction xs arbitrary: p) auto

text \<open>A new slab at an address that is not a slab of the cache, with objects that are not free objects of it.\<close>

lemma init_slab_inv:
  assumes inv: "cache_inv s cache F" and new: "slab \<notin> set (cache_slabs (cacheAt s cache))"
    and objs: "xs = slab_objects (MemPhys2Virt p) (objectSize (cacheAt s cache)) (unat (objectsPerSlab (cacheAt s cache)))"
    and fits: "distinct xs" "MEM_SLAB_END \<notin> set xs"
    and disj: "\<And>sl. sl \<in> set (cache_slabs (cacheAt s cache)) \<Longrightarrow> set xs \<inter> set (F sl) = {}"
  shows "cache_inv (init_slab cache p slab s) cache (F(slab := xs))"
proof -
  let ?c = "cacheAt s cache" and ?s = "init_slab cache p slab s"
  have n: "0 < unat (objectsPerSlab ?c)" using inv by (simp add: cache_inv_def)
  then have xs: "xs = slab_objects (MemPhys2Virt p) (objectSize ?c) (Suc (unat (objectsPerSlab ?c) - 1))" using objs by simp
  have mem: "smem ?s = build_chain (unat (objectsPerSlab ?c) - 1) (MemPhys2Virt p) (objectSize ?c) (smem s)"
    and at: "slabAt ?s = (slabAt s)(slab := \<lparr>slabCache = cache, activeObjs = 0, slabMemory = p, freePtr = MemPhys2Virt p\<rparr>)"
    and c: "cacheAt ?s cache = ?c\<lparr>slabsEmpty := slabsEmpty ?c @ [slab]\<rparr>"
    by (simp_all add: init_slab_def Let_def)
  have chain: "free_chain (smem ?s) (MemPhys2Virt p) xs"
    using build_chain_free [of "MemPhys2Virt p" "objectSize ?c" "unat (objectsPerSlab ?c) - 1" "smem s"] fits mem xs by simp
  have keep: "smem ?s x = smem s x" if "x \<notin> set xs" for x using that build_chain_other [of x] by (simp add: mem xs)
  have old: "slab_rep ?s cache sl (F sl)" if sl: "sl \<in> set (cache_slabs ?c)" for sl
  proof -
    have "free_chain (smem ?s) q (F sl) = free_chain (smem s) q (F sl)" for q
      using keep disj [OF sl] by (intro free_chain_cong) blast
    then show ?thesis using inv sl new by (auto simp: cache_inv_def slab_rep_def at c)
  qed
  have rep: "slab_rep ?s cache slab xs" using chain fits objs by (simp add: slab_rep_def at c slab_objects_def)
  have pair: "set (F sl) \<inter> set (F sl') = {}" if "sl \<in> set (cache_slabs ?c)" "sl' \<in> set (cache_slabs ?c)" "sl \<noteq> sl'" for sl sl'
    using inv that unfolding cache_inv_def by blast
  have slabs: "set (cache_slabs (cacheAt ?s cache)) = insert slab (set (cache_slabs ?c))" by (auto simp: c cache_slabs_def)
  show ?thesis unfolding cache_inv_def slabs
  proof (intro conjI ballI impI)
    show "distinct (cache_slabs (cacheAt ?s cache))" using inv new by (auto simp: c cache_inv_def cache_slabs_def)
    fix sl assume sl: "sl \<in> insert slab (set (cache_slabs ?c))"
    show "slab_rep ?s cache sl ((F(slab := xs)) sl)" using old [of sl] rep sl by (cases "sl = slab") auto
    fix sl' assume sl': "sl' \<in> insert slab (set (cache_slabs ?c))" and ne: "sl \<noteq> sl'"
    show "set ((F(slab := xs)) sl) \<inter> set ((F(slab := xs)) sl') = {}"
      using pair [of sl sl'] disj [of sl] disj [of sl'] sl sl' ne by (cases "sl = slab"; cases "sl' = slab") auto
  qed (use inv new n in \<open>auto simp: cache_inv_def cache_slabs_def at c\<close>)
qed

section \<open>A cache as a pool of objects\<close>

text \<open>
  What a client of a cache relies on: as long as the pool has objects, taking one succeeds, gives an object of the
  pool, and leaves the rest.
\<close>

locale object_pool =
  fixes take :: "'s \<Rightarrow> (u32 \<times> 's) run" and pool :: "'s \<Rightarrow> u32 set \<Rightarrow> bool"
  assumes take_some: "pool s X \<Longrightarrow> X \<noteq> {} \<Longrightarrow> \<exists>x s'. take s = ret (x, s') \<and> x \<in> X \<and> pool s' (X - {x})"
begin

lemma take_pool: "pool s X \<Longrightarrow> X \<noteq> {} \<Longrightarrow> take s = ret (x, s') \<Longrightarrow> x \<in> X \<and> pool s' (X - {x})"
  using take_some by fastforce

lemma take_two:
  assumes "pool s X" "a \<in> X" "b \<in> X" "a \<noteq> b"
  shows "\<exists>x y s1 s2. take s = ret (x, s1) \<and> take s1 = ret (y, s2) \<and> x \<noteq> y \<and> pool s2 (X - {x, y})"
proof -
  obtain x s1 where x: "take s = ret (x, s1)" "x \<in> X" "pool s1 (X - {x})" using take_some [OF assms(1)] assms(2) by blast
  have "X - {x} \<noteq> {}" using assms(2-4) by auto
  then obtain y s2 where y: "take s1 = ret (y, s2)" "y \<in> X - {x}" "pool s2 (X - {x} - {y})" using take_some [OF x(3)] by blast
  have "X - {x} - {y} = X - {x, y}" by auto
  then have "take s = ret (x, s1) \<and> take s1 = ret (y, s2) \<and> x \<noteq> y \<and> pool s2 (X - {x, y})" using x(1) y by auto
  then show ?thesis by blast
qed

end

definition free_objs :: "MemCache \<Rightarrow> (u32 \<Rightarrow> u32 list) \<Rightarrow> u32 set" where
  "free_objs c F = (\<Union>sl \<in> set (cache_slabs c). set (F sl))"

definition cache_pool :: "u32 \<Rightarrow> 'a slab_state_scheme \<Rightarrow> u32 set \<Rightarrow> bool" where
  "cache_pool cache s X \<longleftrightarrow> (\<exists>F. cache_inv s cache F \<and> X = free_objs (cacheAt s cache) F)"

text \<open>What an allocation leaves alone.\<close>

definition other_caches :: "u32 \<Rightarrow> 'a slab_state_scheme \<Rightarrow> 'a slab_state_scheme \<Rightarrow> bool" where
  "other_caches cache s s' \<longleftrightarrow> (\<forall>y. y \<noteq> cache \<longrightarrow> cacheAt s' y = cacheAt s y) \<and> rootCache s' = rootCache s \<and>
     rootSlabCache s' = rootSlabCache s \<and> kAllocCache s' = kAllocCache s \<and> cacheChain s' = cacheChain s"

text \<open>A step of one cache: the other caches, the shape of this one, and the words and headers outside \<open>A\<close> stay.\<close>

definition same_shape :: "MemCache \<Rightarrow> MemCache \<Rightarrow> bool" where
  "same_shape c c' \<longleftrightarrow> objectSize c' = objectSize c \<and> objectsPerSlab c' = objectsPerSlab c \<and> cacheFlags c' = cacheFlags c \<and>
     pagesPerSlab c' = pagesPerSlab c"

definition slab_step :: "u32 \<Rightarrow> u32 set \<Rightarrow> 'a slab_state_scheme \<Rightarrow> 'a slab_state_scheme \<Rightarrow> bool" where
  "slab_step cache A s s' \<longleftrightarrow> other_caches cache s s' \<and> same_shape (cacheAt s cache) (cacheAt s' cache) \<and>
     (\<forall>y. y \<notin> A \<longrightarrow> smem s' y = smem s y \<and> slabAt s' y = slabAt s y)"

text \<open>The pages are as in \<open>s\<close>.\<close>

definition same_pages :: "'a phys_state_scheme \<Rightarrow> 'b phys_state_scheme \<Rightarrow> bool" where
  "same_pages s s' \<longleftrightarrow> page_refs s' = page_refs s \<and> zones s' = zones s \<and> highestPage s' = highestPage s"

lemma same_pages_refl [simp]: "same_pages s s"
  by (simp add: same_pages_def)

lemma same_pages_trans: "same_pages s t \<Longrightarrow> same_pages t u \<Longrightarrow> same_pages s u"
  by (simp add: same_pages_def)

lemma slab_step_trans: "slab_step c A s t \<Longrightarrow> slab_step c B t u \<Longrightarrow> A \<subseteq> D \<Longrightarrow> B \<subseteq> D \<Longrightarrow> slab_step c D s u"
  by (auto simp: slab_step_def other_caches_def same_shape_def) (metis subsetD)+

lemma take_object_step: "slab_step cache {slab} s (snd (take_object cache slab s))" "same_pages s (snd (take_object cache slab s))"
  by (simp_all add: take_object_def Let_def slab_step_def other_caches_def same_shape_def same_pages_def page_refs_def fun_eq_iff)

lemma take_object_slabs:
  assumes "slab \<in> set (cache_slabs (cacheAt s cache))"
  shows "set (cache_slabs (cacheAt (snd (take_object cache slab s)) cache)) = set (cache_slabs (cacheAt s cache))"
proof -
  have "set (cache_slabs (unlink_slab slab c)) \<union> {slab} = set (cache_slabs c)" if "slab \<in> set (cache_slabs c)" for c
    using that set_remove1_subset [of slab] by (auto simp: unlink_slab_def cache_slabs_def)
  then show ?thesis using assms by (auto simp: take_object_def Let_def cache_slabs_def)
qed

lemma take_object_pool:
  assumes "cache_inv s cache F" "slab \<in> set (slabsPartial (cacheAt s cache) @ slabsEmpty (cacheAt s cache))"
  shows "fst (take_object cache slab s) \<in> free_objs (cacheAt s cache) F \<and>
    cache_pool cache (snd (take_object cache slab s)) (free_objs (cacheAt s cache) F - {fst (take_object cache slab s)})"
proof -
  let ?c = "cacheAt s cache" and ?s = "snd (take_object cache slab s)"
  have mem: "slab \<in> set (cache_slabs ?c)" using assms(2) by (auto simp: cache_slabs_def)
  obtain x xs where x: "F slab = x # xs" "fst (take_object cache slab s) = x" "cache_inv ?s cache (F(slab := xs))"
    using take_object_inv [OF assms] by blast
  have "x \<notin> set xs" using assms(1) mem x(1) by (auto simp: cache_inv_def slab_rep_def)
  moreover have "x \<notin> set (F sl)" if "sl \<in> set (cache_slabs ?c)" "sl \<noteq> slab" for sl
  proof -
    have "set (F slab) \<inter> set (F sl) = {}" using assms(1) mem that unfolding cache_inv_def by blast
    then show ?thesis using x(1) by auto
  qed
  ultimately have "free_objs (cacheAt ?s cache) (F(slab := xs)) = free_objs ?c F - {x}"
    unfolding free_objs_def take_object_slabs [OF mem] using mem x(1) by (auto split: if_splits) (metis set_ConsD)
  then have "cache_pool cache ?s (free_objs ?c F - {x})" using x(3) by (auto simp: cache_pool_def)
  moreover have "x \<in> free_objs ?c F" unfolding free_objs_def using mem x(1) by (intro UN_I [of slab]) simp_all
  ultimately show ?thesis by (simp add: x(2))
qed

lemma pool_slab:
  assumes "cache_inv s cache F" "free_objs (cacheAt s cache) F \<noteq> {}"
  obtains slab where "slab \<in> set (slabsPartial (cacheAt s cache) @ slabsEmpty (cacheAt s cache))"
    "MemSlabAlloc (Suc d) cache s = ret (take_object cache slab s)"
proof -
  let ?c = "cacheAt s cache"
  have "slabsPartial ?c @ slabsEmpty ?c \<noteq> []" using assms by (auto simp: free_objs_def cache_inv_def cache_slabs_def)
  then show ?thesis using that by (cases "slabsPartial ?c"; cases "slabsEmpty ?c") auto
qed

lemma slab_pool_take:
  assumes "cache_pool cache s X" "X \<noteq> {}"
  shows "\<exists>x s'. MemSlabAlloc (Suc d) cache s = ret (x, s') \<and> x \<in> X \<and> cache_pool cache s' (X - {x}) \<and>
    slab_step cache (set (cache_slabs (cacheAt s cache))) s s' \<and> same_pages s s' \<and>
    set (cache_slabs (cacheAt s' cache)) = set (cache_slabs (cacheAt s cache))"
proof -
  obtain F where F: "cache_inv s cache F" "X = free_objs (cacheAt s cache) F" using assms(1) by (auto simp: cache_pool_def)
  obtain slab where slab: "slab \<in> set (slabsPartial (cacheAt s cache) @ slabsEmpty (cacheAt s cache))"
    "MemSlabAlloc (Suc d) cache s = ret (take_object cache slab s)" using pool_slab [OF F(1)] F(2) assms(2) by blast
  then have "MemSlabAlloc (Suc d) cache s = ret (fst (take_object cache slab s), snd (take_object cache slab s))" by simp
  moreover have mem: "slab \<in> set (cache_slabs (cacheAt s cache))" using slab(1) by (auto simp: cache_slabs_def)
  have "slab_step cache (set (cache_slabs (cacheAt s cache))) s (snd (take_object cache slab s))"
    using take_object_step(1) [of cache slab s] mem by (auto simp: slab_step_def)
  ultimately show ?thesis using take_object_pool [OF F(1) slab(1)] take_object_step(2) [of s cache slab] take_object_slabs [OF mem] F(2) by blast
qed

interpretation slab_pool: object_pool "MemSlabAlloc (Suc d) cache" "cache_pool cache" for d cache
  by unfold_locales (use slab_pool_take in blast)

section \<open>A cache that grows\<close>

text \<open>A cache whose slabs are one page with the header at its end, and whose headers lie in pages in use.\<close>

definition small_cache :: "MemCache \<Rightarrow> bool" where
  "small_cache c \<longleftrightarrow> \<not> is_large c \<and> cacheFlags c AND MEM_SLAB_DMA = 0 \<and> pagesPerSlab c = 1 \<and> 0 < unat (objectSize c) \<and>
     unat (objectsPerSlab c) * unat (objectSize c) + 24 \<le> 4096"

definition headers_placed :: "u32 \<Rightarrow> 'a slab_state_scheme \<Rightarrow> bool" where
  "headers_placed cache s \<longleftrightarrow> (\<forall>sl \<in> set (cache_slabs (cacheAt s cache)). page_refs s (MemVirt2Phys sl) \<noteq> 0)"

text \<open>The kernel zone has a free page, and the zones an allocation for the kernel uses lie in the fixed window.\<close>

definition kernel_page_ready :: "'a phys_state_scheme \<Rightarrow> bool" where
  "kernel_page_ready s \<longleftrightarrow> zones_ok s \<and> live_zone s MEM_KERNEL \<and> zone_free (zones s MEM_KERNEL) (page_refs s) \<noteq> {} \<and>
     zend (zones s MEM_KERNEL) \<le> MEM_KFIXED_MAX_PAGE"

lemma window_address:
  assumes "0 \<le> p" "p < MEM_KFIXED_MAX_PAGE"
  shows "unat (MemPhys2Virt p) = 3221225472 + nat p * 4096"
proof -
  have "uint (of_int p * 4096 :: u32) = p * 4096"
    using assms by (simp add: kfixed_max uint_word_ariths uint_word_of_int mod_mult_left_eq mod_pos_pos_trivial)
  then have "uint (MemPhys2Virt p) = 0xC0000000 + p * 4096"
    using assms by (simp add: MemPhys2Virt_def KERNEL_VIRTUAL_BASE_def PAGE_SIZE_def kfixed_max uint_word_ariths(1) mod_pos_pos_trivial)
  then have "int (unat (MemPhys2Virt p)) = int (3221225472 + nat p * 4096)" using assms by simp
  then show ?thesis by (simp only: of_nat_eq_iff)
qed

lemma empty_pool_lists:
  assumes inv: "cache_inv s cache F" and none: "free_objs (cacheAt s cache) F = {}"
  shows "slabsPartial (cacheAt s cache) = []" "slabsEmpty (cacheAt s cache) = []"
proof -
  let ?c = "cacheAt s cache"
  have empty: "F sl = []" if "sl \<in> set (cache_slabs ?c)" for sl using none that by (auto simp: free_objs_def)
  have nil: "xs = []" if "\<And>x. x \<notin> set xs" for xs :: "u32 list" using that by (cases xs) auto
  show "slabsPartial ?c = []" using inv empty by (intro nil) (auto simp: cache_inv_def cache_slabs_def)
  have "sl \<notin> set (slabsEmpty ?c)" for sl
  proof
    assume sl: "sl \<in> set (slabsEmpty ?c)"
    then have "sl \<in> set (cache_slabs ?c)" by (simp add: cache_slabs_def)
    then have "slab_rep s cache sl (F sl)" "F sl = []" using inv empty unfolding cache_inv_def by blast+
    moreover have "activeObjs (slabAt s sl) = 0" "0 < unat (objectsPerSlab ?c)" using inv sl by (simp_all add: cache_inv_def)
    ultimately show False by (simp add: slab_rep_def)
  qed
  then show "slabsEmpty ?c = []" by (rule nil)
qed

text \<open>The objects and the header of a slab in page \<open>p\<close>.\<close>

definition page_objects :: "MemCache \<Rightarrow> MemPhysPage \<Rightarrow> u32 list" where
  "page_objects c p = slab_objects (MemPhys2Virt p) (objectSize c) (unat (objectsPerSlab c))"

definition page_header :: "MemPhysPage \<Rightarrow> u32" where
  "page_header p = MemPhys2Virt (p + 1) - 24"

lemma page_objects_ok:
  assumes "small_cache c" "0 \<le> p" "p < MEM_KFIXED_MAX_PAGE"
  shows "distinct (page_objects c p)" "MEM_SLAB_END \<notin> set (page_objects c p)" "0 \<notin> set (page_objects c p)"
    "MemVirt2Phys (page_header p) = p" "x \<in> set (page_objects c p) \<Longrightarrow> MemVirt2Phys x = p"
proof -
  have c: "0 < unat (objectSize c)" "unat (objectsPerSlab c) * unat (objectSize c) \<le> 4072" using assms(1) by (simp_all add: small_cache_def)
  have bot: "3221225472 \<le> unat (MemPhys2Virt p)" and top: "unat (MemPhys2Virt p) + unat (objectsPerSlab c) * unat (objectSize c) < 4026531840"
    using window_address [OF assms(2,3)] assms(2,3) c(2) by (simp_all add: kfixed_max)
  have room: "unat (MemPhys2Virt p) + unat (objectsPerSlab c) * unat (objectSize c) < 2 ^ 32" using top by simp
  show "distinct (page_objects c p)" unfolding page_objects_def by (rule slab_objects_distinct [OF room c(1)])
  show "MEM_SLAB_END \<notin> set (page_objects c p)" "0 \<notin> set (page_objects c p)" unfolding page_objects_def
    using slab_objects_range [OF _ room c(1), of MEM_SLAB_END] slab_objects_range(1) [OF _ room c(1), of 0] top bot by (auto simp: MEM_SLAB_END_def)
  have "page_header p = MemPhys2Virt p + 4072" by (simp add: page_header_def MemPhys2Virt_def PAGE_SIZE_def algebra_simps)
  then show "MemVirt2Phys (page_header p) = p" using phys_virt_roundtrip [OF assms(2,3), of 4072] by (simp add: PAGE_SIZE_def)
  assume "x \<in> set (page_objects c p)"
  then obtain i where i: "i < unat (objectsPerSlab c)" "x = MemPhys2Virt p + of_nat i * objectSize c" by (auto simp: page_objects_def slab_objects_def)
  then have "unat x = unat (MemPhys2Virt p) + i * unat (objectSize c)" using slab_object_addr [OF less_imp_le room] by simp
  moreover have "i * unat (objectSize c) < unat (objectsPerSlab c) * unat (objectSize c)" using i(1) c(1) by simp
  then have "i * unat (objectSize c) < 4096" using c(2) by linarith
  ultimately have "unat (x - MemPhys2Virt p) < 4096" by (simp add: unat_minus_32 word_le_nat_alt)
  then show "MemVirt2Phys x = p" using phys_virt_roundtrip [OF assms(2,3), of "x - MemPhys2Virt p"] by (simp add: PAGE_SIZE_def word_less_nat_alt)
qed

text \<open>Filling a new slab: its words, its header and the counts.\<close>

lemma init_slab_step:
  assumes "0 < unat (objectsPerSlab (cacheAt s cache))"
  shows "slab_step cache (insert slab (set (page_objects (cacheAt s cache) p))) s (init_slab cache p slab s)"
    "same_pages s (init_slab cache p slab s)"
    "cacheAt (init_slab cache p slab s) cache = (cacheAt s cache)\<lparr>slabsEmpty := slabsEmpty (cacheAt s cache) @ [slab]\<rparr>"
proof -
  let ?c = "cacheAt s cache"
  have n: "unat (objectsPerSlab ?c) = Suc (unat (objectsPerSlab ?c) - 1)" using assms by simp
  have "page_refs (init_slab cache p slab s) = page_refs (set_slabs (unat (pagesPerSlab ?c)) p slab s)"
    by (simp add: init_slab_def Let_def page_refs_def fun_eq_iff del: set_slabs_frame(1))
  then show "same_pages s (init_slab cache p slab s)" by (simp add: same_pages_def) (simp add: init_slab_def Let_def)
  have "smem (init_slab cache p slab s) y = smem s y" if "y \<notin> set (page_objects ?c p)" for y
    using that build_chain_other [of y "MemPhys2Virt p" "objectSize ?c" "unat (objectsPerSlab ?c) - 1"] n
    by (simp add: init_slab_def Let_def page_objects_def)
  then show "slab_step cache (insert slab (set (page_objects ?c p))) s (init_slab cache p slab s)"
    by (auto simp: slab_step_def other_caches_def same_shape_def) (simp_all add: init_slab_def Let_def)
  show "cacheAt (init_slab cache p slab s) cache = ?c\<lparr>slabsEmpty := slabsEmpty ?c @ [slab]\<rparr>" by (simp add: init_slab_def Let_def)
qed

lemma alloc_page_same:
  fixes s :: "'a slab_state_scheme"
  assumes "MemPhysicalAlloc n z s = ret (p, s')"
  shows "cacheAt s' = cacheAt s" "slabAt s' = slabAt s" "smem s' = smem s" "rootCache s' = rootCache s"
    "rootSlabCache s' = rootSlabCache s" "kAllocCache s' = kAllocCache s" "cacheChain s' = cacheChain s"
  using alloc_more [OF assms] by (cases s; cases s'; simp)+

text \<open>An allocation from a cache without free objects takes one page for a new slab.\<close>

lemma new_slab_pool:
  fixes s :: "'a slab_state_scheme"
  assumes pool: "cache_pool cache s {}" and small: "small_cache (cacheAt s cache)" and heads: "headers_placed cache s"
    and page: "MemPhysicalAlloc 1 MEM_KERNEL s = ret (p, s1)" "page_refs s p = 0" "0 \<le> p" "p < MEM_KFIXED_MAX_PAGE"
  shows "\<exists>x s'. MemSlabAlloc (Suc d) cache s = ret (x, s') \<and> x \<in> set (page_objects (cacheAt s cache) p) \<and> same_pages s1 s' \<and>
    cache_pool cache s' (set (page_objects (cacheAt s cache) p) - {x}) \<and>
    slab_step cache (insert (page_header p) (set (page_objects (cacheAt s cache) p))) s s' \<and>
    set (cache_slabs (cacheAt s' cache)) = insert (page_header p) (set (cache_slabs (cacheAt s cache)))"
proof -
  let ?c = "cacheAt s cache" and ?slab = "page_header p" and ?xs = "page_objects (cacheAt s cache) p"
  obtain F where inv: "cache_inv s cache F" and none: "free_objs ?c F = {}" using pool by (auto simp: cache_pool_def)
  note lists = empty_pool_lists [OF inv none] and same = alloc_page_same [OF page(1)] and objs = page_objects_ok [OF small page(3,4)]
  have empty: "F sl = []" if "sl \<in> set (cache_slabs ?c)" for sl using none that by (auto simp: free_objs_def)
  have c: "\<not> is_large ?c" "cacheFlags ?c AND MEM_SLAB_DMA = 0" "pagesPerSlab ?c = 1" using small by (simp_all add: small_cache_def)
  have new: "?slab \<notin> set (cache_slabs ?c)" using heads page(2) objs(4) by (auto simp: headers_placed_def)
  define s2 where "s2 = init_slab cache p ?slab s1"
  have inv1: "cache_inv s1 cache F" using inv by (simp add: cache_inv_def slab_rep_def same)
  have inv2: "cache_inv s2 cache (F(?slab := ?xs))" unfolding s2_def
    by (rule init_slab_inv [OF inv1]) (use new objs empty in \<open>simp_all add: same page_objects_def\<close>)
  have n: "0 < unat (objectsPerSlab (cacheAt s1 cache))" using inv1 by (simp add: cache_inv_def)
  note step = init_slab_step [OF n, where slab = ?slab and p = p, folded s2_def, unfolded same]
  have c2: "cacheAt s2 cache = ?c\<lparr>slabsEmpty := [?slab]\<rparr>" using step(3) lists by simp
  then have slabs: "set (cache_slabs (cacheAt s2 cache)) = insert ?slab (set (cache_slabs ?c))" by (simp add: cache_slabs_def lists)
  then have all: "free_objs (cacheAt s2 cache) (F(?slab := ?xs)) = set ?xs"
    using empty new by (auto simp: free_objs_def split: if_splits)
  let ?x = "fst (take_object cache ?slab s2)" and ?s = "snd (take_object cache ?slab s2)"
  have run: "MemSlabAlloc (Suc d) cache s = ret (?x, ?s)"
    using lists c page(1) by (simp add: Let_def s2_def sizeof_MemSlab_def page_header_def)
  have taken: "?x \<in> set ?xs" "cache_pool cache ?s (set ?xs - {?x})"
    using take_object_pool [OF inv2, of ?slab] unfolding all by (simp_all add: c2)
  have "slab_step cache (insert ?slab (set ?xs)) s s2" using step(1) by (simp add: slab_step_def other_caches_def same same_shape_def)
  then have "slab_step cache (insert ?slab (set ?xs)) s ?s" using take_object_step(1) [of cache ?slab s2] by (rule slab_step_trans) simp_all
  moreover have "same_pages s1 ?s" using step(2) take_object_step(2) by (rule same_pages_trans)
  moreover have "set (cache_slabs (cacheAt ?s cache)) = insert ?slab (set (cache_slabs ?c))"
    using take_object_slabs [of ?slab s2 cache] slabs by simp
  ultimately show ?thesis using run taken by blast
qed

lemma kernel_page_take:
  assumes "kernel_page_ready s"
  obtains p s1 where "MemPhysicalAlloc 1 MEM_KERNEL s = ret (p, s1)" "page_refs s p = 0" "page_refs s1 = (page_refs s)(p := 1)"
    "0 \<le> p" "p < MEM_KFIXED_MAX_PAGE"
proof -
  have z: "zones_ok s" "live_zone s MEM_KERNEL" "zone_free (zones s MEM_KERNEL) (page_refs s) \<noteq> {}" "zend (zones s MEM_KERNEL) \<le> MEM_KFIXED_MAX_PAGE"
    using assms by (simp_all add: kernel_page_ready_def)
  obtain p s1 where p: "MemPhysicalAlloc 1 MEM_KERNEL s = ret (p, s1)" "p \<in> zone_free (zones s MEM_KERNEL) (page_refs s)"
    using alloc_one_zone [OF z(1-3)] by blast
  note fresh = alloc_one_fresh [OF p(1) z(1), simplified]
  show ?thesis using that [OF p(1)] fresh p(2) z(4) by (auto simp: zone_free_def)
qed

section \<open>The caches of the start\<close>

lemma cache_pool_upd: "x \<noteq> cache \<Longrightarrow> cache_pool cache (s\<lparr>cacheAt := (cacheAt s)(x := c), cacheChain := l\<rparr>) Y = cache_pool cache s Y"
  "cache_pool cache (s\<lparr>kAllocCache := k\<rparr>) Y = cache_pool cache s Y" "cache_pool cache (s\<lparr>rootSlabCache := r\<rparr>) Y = cache_pool cache s Y"
  by (simp_all add: cache_pool_def cache_inv_def slab_rep_def)

text \<open>What the creation of a cache does once its header is allocated.\<close>

definition created :: "u32 \<Rightarrow> MemCache \<Rightarrow> 'a slab_state_scheme \<Rightarrow> 'a slab_state_scheme \<Rightarrow> bool" where
  "created x c s s' \<longleftrightarrow> cacheAt s' x = c \<and> (\<forall>y. y \<noteq> x \<and> y \<noteq> rootCache s \<longrightarrow> cacheAt s' y = cacheAt s y) \<and> rootCache s' = rootCache s \<and>
     rootSlabCache s' = rootSlabCache s \<and> kAllocCache s' = kAllocCache s \<and> cacheChain s' = cacheChain s @ [x]"

lemma create_after_alloc:
  assumes "MemSlabAlloc 2 (rootCache s) s = ret (x, s1)" "cache_pool (rootCache s) s1 Y" "other_caches (rootCache s) s s1"
    and "x \<noteq> rootCache s" "x \<noteq> 0" "(sz0 + 3) AND NOT 3 = sz" "sz < 8 * PAGE_SIZE" "sz \<noteq> 0"
  shows "\<exists>s'. MemSlabCreate sz0 flags s = ret (x, s') \<and> cache_pool (rootCache s) s' Y \<and> created x (cache_layout sz flags) s s'"
  using assms by (simp add: MemSlabCreate_def Let_def not_le created_def other_caches_def cache_pool_upd)

lemma create_from_pool:
  assumes "cache_pool (rootCache s) s X" "X \<noteq> {}" "rootCache s \<notin> X" "0 \<notin> X"
    and "(sz0 + 3) AND NOT 3 = sz" "sz < 8 * PAGE_SIZE" "sz \<noteq> 0"
  shows "\<exists>x s'. MemSlabCreate sz0 flags s = ret (x, s') \<and> x \<in> X \<and> cache_pool (rootCache s) s' (X - {x}) \<and>
    created x (cache_layout sz flags) s s'"
proof -
  obtain x s1 where x: "MemSlabAlloc (Suc (Suc 0)) (rootCache s) s = ret (x, s1)" "x \<in> X" "cache_pool (rootCache s) s1 (X - {x})"
    "other_caches (rootCache s) s s1" using slab_pool_take [OF assms(1,2)] unfolding slab_step_def by blast
  then show ?thesis using create_after_alloc [of s x s1 "X - {x}" sz0 sz flags] assms(3-7) by (metis numeral_2_eq_2)
qed

lemma kalloc_sizes:
  assumes "i < 11"
  shows "(push_bit i 8 + 3) AND NOT 3 = (push_bit i 8 :: u32)" "push_bit i 8 < 8 * PAGE_SIZE" "push_bit i (8 :: u32) \<noteq> 0"
proof -
  have "i \<in> {0, 1, 2, 3, 4, 5, 6, 7, 8, 9, 10}" using assms by (auto simp: less_Suc_eq numeral_eq_Suc)
  then show "(push_bit i 8 + 3) AND NOT 3 = (push_bit i 8 :: u32)" "push_bit i 8 < 8 * PAGE_SIZE" "push_bit i (8 :: u32) \<noteq> 0"
    by (auto simp: PAGE_SIZE_def push_bit_eq_mult)
qed

lemma kalloc_caches_pool:
  "cache_pool (rootCache s) s X \<Longrightarrow> n \<le> card X \<Longrightarrow> rootCache s \<notin> X \<Longrightarrow> 0 \<notin> X \<Longrightarrow> i + n \<le> 11 \<Longrightarrow>
    \<exists>s' X'. kalloc_caches n i s = ret s' \<and> cache_pool (rootCache s) s' X' \<and> X' \<subseteq> X \<and> rootCache s' = rootCache s \<and> rootSlabCache s' = rootSlabCache s \<and>
      (\<forall>j. i \<le> j \<and> j < i + n \<longrightarrow> kAllocCache s' j \<in> X - X' \<and> cacheAt s' (kAllocCache s' j) = cache_layout (push_bit j 8) 0) \<and>
      inj_on (kAllocCache s') {i..<i + n} \<and> (\<forall>j < i. kAllocCache s' j = kAllocCache s j) \<and>
      (\<forall>y. y \<notin> X \<and> y \<noteq> rootCache s \<longrightarrow> cacheAt s' y = cacheAt s y) \<and>
      cacheChain s' = cacheChain s @ map (kAllocCache s') [i..<i + n]"
proof (induction n arbitrary: i s X)
  case 0
  then show ?case by (intro exI [of _ s] exI [of _ X]) simp
next
  case (Suc n)
  let ?r = "rootCache s"
  have X: "X \<noteq> {}" and i: "i < 11" using Suc.prems(2,5) by auto
  obtain x s1 where x: "MemSlabCreate (push_bit i 8) 0 s = ret (x, s1)" "x \<in> X" "cache_pool ?r s1 (X - {x})"
    "created x (cache_layout (push_bit i 8) 0) s s1"
    using create_from_pool [OF Suc.prems(1) X Suc.prems(3,4) kalloc_sizes [OF i], of 0] by blast
  let ?s2 = "s1\<lparr>kAllocCache := (kAllocCache s1)(i := x)\<rparr>"
  have r: "rootCache ?s2 = ?r" using x(4) by (simp add: created_def)
  have "n \<le> card (X - {x})" using Suc.prems(2) x(2) by (simp add: card_Diff_singleton)
  then obtain s' X' where s': "kalloc_caches n (Suc i) ?s2 = ret s'" "cache_pool ?r s' X'" "X' \<subseteq> X - {x}" "rootCache s' = ?r"
    "rootSlabCache s' = rootSlabCache ?s2"
    "\<forall>j. Suc i \<le> j \<and> j < Suc i + n \<longrightarrow> kAllocCache s' j \<in> X - {x} - X' \<and> cacheAt s' (kAllocCache s' j) = cache_layout (push_bit j 8) 0"
    "inj_on (kAllocCache s') {Suc i..<Suc i + n}" "\<forall>j < Suc i. kAllocCache s' j = kAllocCache ?s2 j"
    "\<forall>y. y \<notin> X - {x} \<and> y \<noteq> ?r \<longrightarrow> cacheAt s' y = cacheAt ?s2 y"
    "cacheChain s' = cacheChain ?s2 @ map (kAllocCache s') [Suc i..<Suc i + n]"
    using Suc.IH [of ?s2 "X - {x}" "Suc i"] Suc.prems(3-5) x(3) unfolding r by (auto simp: cache_pool_upd)
  have head: "kAllocCache s' i = x" "cacheAt s' x = cache_layout (push_bit i 8) 0"
    using s'(8,9) x(2,4) Suc.prems(3) by (auto simp: created_def)
  have "[i..<i + Suc n] = i # [Suc i..<Suc i + n]" by (simp add: upt_conv_Cons)
  then have chain: "cacheChain s' = cacheChain s @ map (kAllocCache s') [i..<i + Suc n]"
    using s'(10) x(4) head by (simp add: created_def)
  have "{i..<i + Suc n} = insert i {Suc i..<Suc i + n}" by auto
  moreover have "kAllocCache s' i \<notin> kAllocCache s' ` {Suc i..<Suc i + n}" using s'(6) by (auto simp: head)
  ultimately have inj: "inj_on (kAllocCache s') {i..<i + Suc n}" using s'(7) by (simp add: inj_on_insert)
  have others: "cacheAt s' y = cacheAt s y" if "y \<notin> X" "y \<noteq> ?r" for y using that s'(9) x(2,4) by (auto simp: created_def)
  have slots: "kAllocCache s' j \<in> X - X' \<and> cacheAt s' (kAllocCache s' j) = cache_layout (push_bit j 8) 0" if "i \<le> j" "j < i + Suc n" for j
    using that head x(2) s'(3,6) by (cases "j = i") auto
  show ?case
  proof (intro exI [of _ s'] exI [of _ X'] conjI allI impI)
    show "kalloc_caches (Suc n) i s = ret s'" using x(1) s'(1) by simp
    show "rootSlabCache s' = rootSlabCache s" using s'(5) x(4) by (simp add: created_def)
    show "kAllocCache s' j = kAllocCache s j" if "j < i" for j using that s'(8) x(4) by (simp add: created_def)
  qed (use s'(2-4) chain inj others slots in auto)
qed

text \<open>The static initialiser of the root cache.\<close>

definition root_cache :: MemCache where
  "root_cache = \<lparr>slabsFull = [], slabsPartial = [], slabsEmpty = [], objectSize = sizeof_MemCache, cacheFlags = 0, pagesPerSlab = 1,
     objectsPerSlab = (PAGE_SIZE - sizeof_MemSlab) div sizeof_MemCache\<rparr>"

lemma root_cache_pool:
  assumes "cacheAt s cache = root_cache"
  shows "cache_pool cache s {}" "small_cache (cacheAt s cache)" "headers_placed cache s"
proof -
  have "cache_inv s cache (\<lambda>_. [])" using assms
    by (simp add: cache_inv_def root_cache_def cache_slabs_def PAGE_SIZE_def sizeof_MemSlab_def sizeof_MemCache_def)
  moreover have "free_objs (cacheAt s cache) (\<lambda>_. []) = {}" by (simp add: free_objs_def)
  ultimately show "cache_pool cache s {}" by (auto simp: cache_pool_def)
  show "small_cache (cacheAt s cache)" using assms
    by (simp add: small_cache_def is_large_def root_cache_def PAGE_SIZE_def sizeof_MemSlab_def sizeof_MemCache_def)
  show "headers_placed cache s" using assms by (simp add: headers_placed_def root_cache_def cache_slabs_def)
qed

lemma slab_init_run:
  assumes "cacheAt s (rootCache s) = root_cache" "page_refs s (MemVirt2Phys (rootCache s)) \<noteq> 0" "kernel_page_ready s"
  shows "\<exists>s'. MemSlabInit s = ret s' \<and>
    (\<forall>i < 11. cacheAt s' (kAllocCache s' i) = cache_layout (push_bit i 8) 0) \<and> cacheAt s' (rootSlabCache s') = cache_layout 24 0 \<and>
    inj_on (kAllocCache s') {..<11} \<and> rootSlabCache s' \<notin> kAllocCache s' ` {..<11} \<and>
    rootCache s' \<notin> insert (rootSlabCache s') (kAllocCache s' ` {..<11}) \<and> rootCache s' = rootCache s \<and>
    cacheChain s' = cacheChain s @ rootSlabCache s' # map (kAllocCache s') [0..<11]"
proof -
  let ?r = "rootCache s"
  have N: "unat (objectsPerSlab root_cache) = 84" by (simp add: root_cache_def PAGE_SIZE_def sizeof_MemSlab_def sizeof_MemCache_def)
  obtain p s0 where p: "MemPhysicalAlloc 1 MEM_KERNEL s = ret (p, s0)" "page_refs s p = 0" "0 \<le> p" "p < MEM_KFIXED_MAX_PAGE"
    using kernel_page_take [OF assms(3)] by blast
  let ?X = "set (page_objects root_cache p)"
  obtain x s1 where x: "MemSlabAlloc (Suc (Suc 0)) ?r s = ret (x, s1)" "x \<in> ?X" "cache_pool ?r s1 (?X - {x})" "other_caches ?r s s1"
    using new_slab_pool [OF root_cache_pool [OF assms(1)] p, of "Suc 0"] unfolding assms(1) slab_step_def by blast
  note objs = page_objects_ok [OF root_cache_pool(2) [OF assms(1), unfolded assms(1)] p(3,4)]
  have r: "?r \<notin> ?X" using objs(5) assms(2) p(2) by auto
  have zero: "0 \<notin> ?X" by (rule objs(3))
  have "card ?X = 84" using distinct_card [OF objs(1)] by (simp add: page_objects_def slab_objects_def N)
  then have card: "11 \<le> card (?X - {x})" using x(2) by (simp add: card_Diff_singleton)
  have sz: "(sizeof_MemSlab + 3) AND NOT 3 = 24" "(24 :: u32) < 8 * PAGE_SIZE" "(24 :: u32) \<noteq> 0"
    by (simp_all add: sizeof_MemSlab_def PAGE_SIZE_def)
  have "x \<noteq> ?r" "x \<noteq> 0" using x(2) r zero by auto
  then obtain s2 where s2: "MemSlabCreate sizeof_MemSlab 0 s = ret (x, s2)" "cache_pool ?r s2 (?X - {x})" "created x (cache_layout 24 0) s s2"
    using create_after_alloc [OF x(1) [folded numeral_2_eq_2] x(3,4) _ _ sz, of 0] by blast
  let ?s3 = "s2\<lparr>rootSlabCache := x\<rparr>"
  have r3: "rootCache ?s3 = ?r" using s2(3) by (simp add: created_def)
  then obtain s' X' where s': "kalloc_caches 11 0 ?s3 = ret s'" "rootCache s' = ?r" "rootSlabCache s' = x"
    "\<forall>j. 0 \<le> j \<and> j < 0 + 11 \<longrightarrow> kAllocCache s' j \<in> ?X - {x} - X' \<and> cacheAt s' (kAllocCache s' j) = cache_layout (push_bit j 8) 0"
    "inj_on (kAllocCache s') {0..<0 + 11}" "\<forall>y. y \<notin> ?X - {x} \<and> y \<noteq> ?r \<longrightarrow> cacheAt s' y = cacheAt ?s3 y"
    "cacheChain s' = cacheChain ?s3 @ map (kAllocCache s') [0..<0 + 11]"
    using kalloc_caches_pool [of ?s3 "?X - {x}" 11 0] s2(2) card r zero unfolding r3 by (auto simp: cache_pool_upd simp del: upt_rec_numeral)
  have "cacheAt s' x = cache_layout 24 0" using s'(6) s2(3) \<open>x \<noteq> ?r\<close> by (auto simp: created_def)
  moreover have "kAllocCache s' j \<in> ?X - {x}" if "j < 11" for j using s'(4) that by auto
  then have "x \<notin> kAllocCache s' ` {..<11}" "?r \<notin> insert x (kAllocCache s' ` {..<11})" using r \<open>x \<noteq> ?r\<close> by auto
  moreover have "MemSlabInit s = ret s'" using s2(1) s'(1) by (simp add: MemSlabInit_def)
  moreover have "cacheChain s' = cacheChain s @ x # map (kAllocCache s') [0..<11]" using s'(7) s2(3) by (simp add: created_def del: upt_rec_numeral)
  ultimately show ?thesis using s'(2-5) by (intro exI [of _ s']) (simp add: atLeast0LessThan del: upt_rec_numeral)
qed

text \<open>
  The caches of the start. From the static root cache, whose own page is in use, and one free page for the
  kernel, \<open>MemSlabInit\<close> returns: the page is taken, the eleven caches of \<open>MemKAlloc\<close> have objects of 8 to 8192
  bytes, the cache of slab headers has objects of 24, the twelve caches are different from one another
  and from the root cache, and the chain of caches lists exactly them.
\<close>

theorem slab_init_caches:
  assumes "cacheAt s (rootCache s) = root_cache" "page_refs s (MemVirt2Phys (rootCache s)) \<noteq> 0" "kernel_page_ready s"
  shows "\<exists>s'. MemSlabInit s = ret s' \<and>
    (\<forall>i < 11. cacheAt s' (kAllocCache s' i) = cache_layout (push_bit i 8) 0) \<and> cacheAt s' (rootSlabCache s') = cache_layout 24 0 \<and>
    inj_on (kAllocCache s') {..<11} \<and> rootSlabCache s' \<notin> kAllocCache s' ` {..<11} \<and>
    rootCache s' \<notin> insert (rootSlabCache s') (kAllocCache s' ` {..<11}) \<and> rootCache s' = rootCache s \<and>
    cacheChain s' = cacheChain s @ rootSlabCache s' # map (kAllocCache s') [0..<11]"
  using assms by (rule slab_init_run)

text \<open>The root cache at the start of the window, in page 0, and a kernel zone of two free pages.\<close>

definition demo_start :: slab_state where
  "demo_start = \<lparr>MemPageStateTable = (\<lambda>p. \<lparr>refCount = (if p = 0 then 1 else 0), slabPtr = 0\<rparr>), highestPage = 0x1002,
     zones = (\<lambda>i. if i = MEM_KERNEL then \<lparr>headPtr = 0x1000, zstart = 0x1000, zend = 0x1002\<rparr> else no_zone),
     MemPhysicalTotalPages = 0x1002, MemPhysicalFreePages = 2, smem = (\<lambda>_. 0), cacheAt = (\<lambda>_. root_cache),
     slabAt = (\<lambda>_. \<lparr>slabCache = 0, activeObjs = 0, slabMemory = 0, freePtr = 0\<rparr>),
     cacheChain = [], rootCache = 0xC0000100, rootSlabCache = 0, kAllocCache = (\<lambda>_. 0)\<rparr>"

theorem slab_init_caches_witness:
  "\<exists>s'. MemSlabInit demo_start = ret s' \<and> cacheAt s' (kAllocCache s' 10) = cache_layout 8192 0"
proof -
  have "0x1001 \<in> zone_free (zones demo_start MEM_KERNEL) (page_refs demo_start)" by (simp add: zone_free_def demo_start_def page_refs_def)
  then have "kernel_page_ready demo_start"
    by (auto simp: kernel_page_ready_def zones_ok_def zone_ok_def live_zone_def no_zone_def kfixed_max) (simp_all add: demo_start_def no_zone_def)
  moreover have "page_refs demo_start (MemVirt2Phys (rootCache demo_start)) \<noteq> 0" "cacheAt demo_start (rootCache demo_start) = root_cache"
    by (simp_all add: demo_start_def page_refs_def MemVirt2Phys_def KERNEL_VIRTUAL_BASE_def signed_divide_int_def)
  ultimately obtain s' where "MemSlabInit demo_start = ret s'" "\<forall>i < 11. cacheAt s' (kAllocCache s' i) = cache_layout (push_bit i 8) 0"
    using slab_init_caches [of demo_start] by blast
  from this(1) this(2) [rule_format, of 10] show ?thesis by (auto simp: push_bit_eq_mult)
qed

end
