(* ===== verification/Boot_Info.thy ===== *)
theory Boot_Info
  imports Mem_Utils
begin

text \<open>
  The information a boot loader passes: the structures of \<open>kernel/include/multiboot.h\<close> that the kernel reads,
  and the two macros that walk over the memory map and over the boot modules, on the byte memory of
  \<open>Mem_Utils\<close>. An entry of the memory map tells its own length, so the walk over the map may run forever.
\<close>

section \<open>Structures\<close>

definition MULTIBOOT_MEMORY_AVAILABLE :: u32 where "MULTIBOOT_MEMORY_AVAILABLE = 1"

definition MULTIBOOT_INFO_MODS :: u32 where "MULTIBOOT_INFO_MODS = 8"

record multiboot_mmap_entry =
  mm_addr :: u64
  mm_len :: u64
  mm_type :: u32

record multiboot_info =
  mb_flags :: u32
  mods_count :: u32
  mods_addr :: u32
  mmap_length :: u32
  mmap_addr :: u32

section \<open>Reading memory\<close>

definition load32 :: "mem \<Rightarrow> u32 \<Rightarrow> u32" where
  "load32 m p = ucast (m p) OR push_bit 8 (ucast (m (p + 1))) OR push_bit 16 (ucast (m (p + 2))) OR push_bit 24 (ucast (m (p + 3)))"

definition load64 :: "mem \<Rightarrow> u32 \<Rightarrow> u64" where
  "load64 m p = ucast (load32 m p) OR push_bit 32 (ucast (load32 m (p + 4)))"

text \<open>The packed structure behind the field \<open>size\<close>, which does not count itself.\<close>

definition mmap_entry_at :: "mem \<Rightarrow> u32 \<Rightarrow> multiboot_mmap_entry" where
  "mmap_entry_at m p = \<lparr>mm_addr = load64 m (p + 4), mm_len = load64 m (p + 12), mm_type = load32 m (p + 20)\<rparr>"

definition module_at :: "mem \<Rightarrow> u32 \<Rightarrow> u32 \<times> u32" where
  "module_at m p = (load32 m p, load32 m (p + 4))"

section \<open>The walks\<close>

partial_function (option) mmap_walk :: "mem \<Rightarrow> u32 \<Rightarrow> u32 \<Rightarrow> multiboot_mmap_entry list option" where
  "mmap_walk m stop p =
     (if p < stop
      then Option.bind (mmap_walk m stop (p + load32 m p + 4)) (\<lambda>rest. Some (mmap_entry_at m p # rest))
      else Some [])"

declare mmap_walk.simps [simp del]

definition MMAP_FOREACH :: "mem \<Rightarrow> u32 \<Rightarrow> u32 \<Rightarrow> multiboot_mmap_entry list option" where
  "MMAP_FOREACH m start len = mmap_walk m (start + 0xC0000000 + len) (start + 0xC0000000)"

partial_function (option) modules_walk :: "mem \<Rightarrow> u32 \<Rightarrow> u32 \<Rightarrow> (u32 \<times> u32) list option" where
  "modules_walk m stop p =
     (if p < stop then Option.bind (modules_walk m stop (p + 16)) (\<lambda>rest. Some (module_at m p # rest)) else Some [])"

declare modules_walk.simps [simp del]

definition MODULES_FOREACH :: "mem \<Rightarrow> u32 \<Rightarrow> u32 \<Rightarrow> (u32 \<times> u32) list option" where
  "MODULES_FOREACH m start len = modules_walk m (start + len * 16) start"

text \<open>What the kernel sees of the boot information: the entries of the map, and the modules when the flag is set.\<close>

record boot_lists =
  bi_mmap :: "multiboot_mmap_entry list"
  bi_mods :: "(u32 \<times> u32) list"

definition boot_modules :: "mem \<Rightarrow> multiboot_info \<Rightarrow> (u32 \<times> u32) list option" where
  "boot_modules m info =
     (if mb_flags info AND MULTIBOOT_INFO_MODS \<noteq> 0 then MODULES_FOREACH m (mods_addr info) (mods_count info) else Some [])"

definition read_boot :: "mem \<Rightarrow> multiboot_info \<Rightarrow> boot_lists option" where
  "read_boot m info = Option.bind (MMAP_FOREACH m (mmap_addr info) (mmap_length info)) (\<lambda>es.
     Option.bind (boot_modules m info) (\<lambda>ms. Some \<lparr>bi_mmap = es, bi_mods = ms\<rparr>))"

section \<open>The layout a boot loader writes\<close>

definition enc32 :: "u32 \<Rightarrow> u8 list" where
  "enc32 w = [ucast w, ucast (drop_bit 8 w), ucast (drop_bit 16 w), ucast (drop_bit 24 w)]"

definition enc64 :: "u64 \<Rightarrow> u8 list" where
  "enc64 w = enc32 (ucast w) @ enc32 (ucast (drop_bit 32 w))"

text \<open>An entry may be longer than the fields the kernel knows.\<close>

definition enc_entry :: "multiboot_mmap_entry \<times> u8 list \<Rightarrow> u8 list" where
  "enc_entry = (\<lambda>(e, pad). enc32 (of_nat (20 + length pad)) @ enc64 (mm_addr e) @ enc64 (mm_len e) @ enc32 (mm_type e) @ pad)"

definition enc_module :: "(u32 \<times> u32) \<times> u32 \<times> u32 \<Rightarrow> u8 list" where
  "enc_module = (\<lambda>((a, b), line, pad). enc32 a @ enc32 b @ enc32 line @ enc32 pad)"

text \<open>The memory from \<open>p\<close> on begins with the bytes \<open>bs\<close>.\<close>

fun holds :: "mem \<Rightarrow> u32 \<Rightarrow> u8 list \<Rightarrow> bool" where
  "holds m p [] = True"
| "holds m p (b # bs) \<longleftrightarrow> m p = b \<and> holds m (p + 1) bs"

lemma holds_append [simp]: "holds m p (xs @ ys) \<longleftrightarrow> holds m p xs \<and> holds m (p + of_nat (length xs)) ys"
  by (induction xs arbitrary: p) (auto simp: algebra_simps)

lemma enc_length [simp]: "length (enc32 w) = 4" "length (enc64 v) = 8"
  by (simp_all add: enc32_def enc64_def)

lemma load32_enc: "holds m p (enc32 w) \<Longrightarrow> load32 m p = w"
proof (rule bit_word_eqI)
  fix n assume *: "holds m p (enc32 w)" "n < LENGTH(32)"
  then consider "n < 8" | "8 \<le> n" "n < 16" | "16 \<le> n" "n < 24" | "24 \<le> n" "n < 32" by fastforce
  then show "bit (load32 m p) n = bit w n"
    using * by cases (auto simp: load32_def enc32_def bit_simps add.assoc)
qed

lemma load64_enc: "holds m p (enc64 w) \<Longrightarrow> load64 m p = w"
proof (rule bit_word_eqI)
  fix n assume *: "holds m p (enc64 w)" "n < LENGTH(64)"
  then show "bit (load64 m p) n = bit w n"
    by (cases "n < 32") (auto simp: load64_def enc64_def load32_enc bit_simps)
qed

lemma entry_enc:
  assumes "holds m p (enc_entry (e, pad))"
  shows "mmap_entry_at m p = e" "load32 m p = of_nat (20 + length pad)"
  using assms by (simp_all add: enc_entry_def mmap_entry_at_def load32_enc load64_enc add.commute)

lemma enc_entry_length [simp]: "length (enc_entry (e, pad)) = 24 + length pad"
  by (simp add: enc_entry_def)

lemma enc_module_length [simp]: "length (enc_module x) = 16"
  by (simp add: enc_module_def split: prod.splits)

lemma module_enc: "holds m p (enc_module (x, y)) \<Longrightarrow> module_at m p = x"
  by (cases x) (simp add: enc_module_def module_at_def load32_enc split: prod.splits)

text \<open>Both walks go from one record to the next; a record never ends beyond the address space.\<close>

lemma step_below:
  fixes p :: u32
  assumes "unat p + n < 2 ^ 32" "0 < n"
  shows "p < p + of_nat n" "unat (p + of_nat n) = unat p + n"
proof -
  have n: "unat (of_nat n :: u32) = n" using assms(1) by (simp add: unsigned_of_nat take_bit_nat_eq_self)
  then show u: "unat (p + of_nat n) = unat p + n" using assms(1) by (simp add: unat_word_ariths)
  show "p < p + of_nat n" using assms(2) by (simp add: word_less_nat_alt u)
qed

lemma mmap_walk_enc:
  "holds m p (concat (map enc_entry es)) \<Longrightarrow> unat p + length (concat (map enc_entry es)) < 2 ^ 32 \<Longrightarrow>
    mmap_walk m (p + of_nat (length (concat (map enc_entry es)))) p = Some (map fst es)"
proof (induction es arbitrary: p)
  case (Cons x es)
  obtain e pad where x: "x = (e, pad)" by fastforce
  let ?k = "length (concat (map enc_entry es))"
  have read: "mmap_entry_at m p = e" "load32 m p = of_nat (20 + length pad)" using Cons.prems(1) entry_enc by (auto simp: x)
  let ?q = "p + of_nat (24 + length pad)"
  have "unat ?q = unat p + (24 + length pad)" using Cons.prems(2) by (intro step_below) (simp_all add: x)
  then have rest: "mmap_walk m (?q + of_nat ?k) ?q = Some (map fst es)"
    using Cons.prems by (intro Cons.IH) (simp_all add: x)
  have "p < p + of_nat (24 + length pad + ?k)" using Cons.prems(2) by (intro step_below) (simp_all add: x)
  then show ?case using rest by (subst mmap_walk.simps) (simp add: x read algebra_simps)
qed (simp add: mmap_walk.simps)

lemma modules_walk_enc:
  "holds m p (concat (map enc_module xs)) \<Longrightarrow> unat p + 16 * length xs < 2 ^ 32 \<Longrightarrow>
    modules_walk m (p + of_nat (length xs) * 16) p = Some (map fst xs)"
proof (induction xs arbitrary: p)
  case (Cons x xs)
  have read: "module_at m p = fst x" using Cons.prems(1) module_enc [of m p "fst x" "snd x"] by simp
  have "unat (p + of_nat 16) = unat p + 16" using Cons.prems(2) by (intro step_below) simp_all
  then have rest: "modules_walk m (p + 16 + of_nat (length xs) * 16) (p + 16) = Some (map fst xs)"
    using Cons.prems by (intro Cons.IH) simp_all
  have "p < p + of_nat (16 * length (x # xs))" using Cons.prems(2) by (intro step_below) simp_all
  then show ?case using rest by (subst modules_walk.simps) (simp add: read algebra_simps)
qed (simp add: modules_walk.simps)

text \<open>
  (C36) The kernel reads what the boot loader wrote. When the memory map lies, entry after entry, at its address in
  the kernel's window and the modules at theirs, both walks end and give exactly the entries that were
  written, whatever extra fields an entry has; without the flag the modules are not read.
\<close>

theorem boot_info_roundtrip:
  assumes "holds m (mmap_addr info + 0xC0000000) (concat (map enc_entry es))" "mmap_length info = of_nat (length (concat (map enc_entry es)))"
    and "unat (mmap_addr info + 0xC0000000) + length (concat (map enc_entry es)) < 2 ^ 32"
    and "holds m (mods_addr info) (concat (map enc_module xs))" "mods_count info = of_nat (length xs)"
    and "unat (mods_addr info) + 16 * length xs < 2 ^ 32"
  shows "read_boot m info =
    Some \<lparr>bi_mmap = map fst es, bi_mods = (if mb_flags info AND MULTIBOOT_INFO_MODS \<noteq> 0 then map fst xs else [])\<rparr>"
  using mmap_walk_enc [OF assms(1,3)] modules_walk_enc [OF assms(4,6)] assms(2,5)
  by (simp add: read_boot_def boot_modules_def MMAP_FOREACH_def MODULES_FOREACH_def)

text \<open>A map of one entry with four extra bytes, and one module, right behind each other.\<close>

definition demo_info :: multiboot_info where
  "demo_info = \<lparr>mb_flags = 8, mods_count = 1, mods_addr = 0xC0000020, mmap_length = 28, mmap_addr = 0\<rparr>"

definition demo_map :: "(multiboot_mmap_entry \<times> u8 list) list" where
  "demo_map = [(\<lparr>mm_addr = 0x100000, mm_len = 0x400000, mm_type = 1\<rparr>, [1, 0, 0, 0])]"

definition demo_mods :: "((u32 \<times> u32) \<times> u32 \<times> u32) list" where
  "demo_mods = [((0x140000, 0x141800), 0, 0)]"

definition demo_bytes :: mem where
  "demo_bytes a = (let i = unat (a - 0xC0000000); bs = concat (map enc_entry demo_map) @ [0, 0, 0, 0] @ concat (map enc_module demo_mods)
     in if i < length bs then bs ! i else 0)"

theorem boot_info_roundtrip_witness:
  "read_boot demo_bytes demo_info = Some \<lparr>bi_mmap = [\<lparr>mm_addr = 0x100000, mm_len = 0x400000, mm_type = 1\<rparr>], bi_mods = [(0x140000, 0x141800)]\<rparr>"
proof -
  have "holds demo_bytes (mmap_addr demo_info + 0xC0000000) (concat (map enc_entry demo_map))"
    "holds demo_bytes (mods_addr demo_info) (concat (map enc_module demo_mods))"
    by (simp_all add: demo_bytes_def demo_info_def demo_map_def demo_mods_def enc_entry_def enc_module_def enc64_def enc32_def Let_def)
  from boot_info_roundtrip [OF this(1) _ _ this(2)] show ?thesis
    by (simp add: demo_info_def demo_map_def demo_mods_def MULTIBOOT_INFO_MODS_def)
qed

end
