(* ===== verification/Mem_Init.thy ===== *)
theory Mem_Init
  imports Region Boot_Info
begin

text \<open>
  Start of the memory manager: \<open>kernel/src/mm/memInit.c\<close>.

  The memory map and the boot modules are the lists that \<open>read_boot\<close> of \<open>Boot_Info\<close> gives; modules are only
  there when the flag \<open>MULTIBOOT_INFO_MODS\<close> is set. The addresses the linker fixes are fields of \<open>kernel_image\<close>:
  the pages where the kernel's own directory lies, the address of the table array for the virtual region,
  and the first pages of the part that is freed after the start and behind the kernel. An index beyond the
  1024 entries of \<open>MemKernelPageDirectory\<close> is written as in C, past the end of the array.
  Before the table of pages exists its memory holds anything.
\<close>

section \<open>The kernel image\<close>

record kernel_image =
  kernelDirectory :: MemPhysPage
  virtualTables :: u32
  kernel_end_page :: u32
  kernel_init_start_page :: u32

section \<open>Place of the page state table\<close>

definition BOUNDS_CHECK :: "u32 \<Rightarrow> u32 \<Rightarrow> u32 \<times> u32 \<Rightarrow> bool" where
  "BOUNDS_CHECK position endPosition = (\<lambda>(start, stop).
     (position \<ge> start \<and> position < stop) \<or> (start > position \<and> start < endPosition))"

definition PAGE_ALIGN :: "u32 \<Rightarrow> u32" where
  "PAGE_ALIGN tableLength = tableLength + (4096 - tableLength mod 4096) mod 4096"

text \<open>The first pass. The variable \<open>highestAddr\<close> has no initial value: \<open>junk\<close>.\<close>

definition raise_highest :: "multiboot_mmap_entry \<Rightarrow> u32 \<Rightarrow> u32" where
  "raise_highest e highestAddr =
     (if mm_type e = MULTIBOOT_MEMORY_AVAILABLE \<and> drop_bit 32 (mm_addr e) = 0 then
        (if mm_addr e + mm_len e \<ge> 0xFFFFFFFF then 0xFFFFFFFF
         else if (ucast (mm_addr e + mm_len e) :: u32) > highestAddr then ucast (mm_addr e + mm_len e)
         else highestAddr)
      else highestAddr)"

definition num_pages :: "multiboot_mmap_entry list \<Rightarrow> u32 \<Rightarrow> u32" where
  "num_pages mmap junk = fold raise_highest mmap junk div 4096"

definition table_length :: "u32 \<Rightarrow> bool \<Rightarrow> u32" where
  "table_length numPages withPageTables =
     (if withPageTables then PAGE_ALIGN (PAGE_ALIGN (numPages * 8) + numPages * 4) else numPages * 8)"

definition forbidden_zones :: "u32 \<Rightarrow> (u32 \<times> u32) list \<Rightarrow> (u32 \<times> u32) list" where
  "forbidden_zones kernelEnd mods =
     [(1, 0x100000), (0x100000, kernelEnd * 4096)] @ map (\<lambda>(start, stop). (start, (stop + 4095) AND 0xFFFFF000)) mods"

text \<open>The loop at \<open>boundsCheckLoop\<close>: the first zone that collides moves the position behind it. \<open>Some None\<close> means that
  the block is too small.\<close>

partial_function (option) bounds_loop :: "(u32 \<times> u32) list \<Rightarrow> u32 \<Rightarrow> u32 \<Rightarrow> u32 \<Rightarrow> u32 option option" where
  "bounds_loop zs tableLength position endPosition =
     (if position < endPosition \<and> endPosition - position \<ge> tableLength then
        (case List.find (BOUNDS_CHECK position endPosition) zs of
           None \<Rightarrow> Some (Some position)
         | Some z \<Rightarrow> bounds_loop zs tableLength (snd z) endPosition)
      else Some None)"

declare bounds_loop.simps [simp del]

definition block_start :: "multiboot_mmap_entry \<Rightarrow> u32" where
  "block_start e = ucast ((mm_addr e + 4095) AND NOT 0xFFF)"

definition block_end :: "multiboot_mmap_entry \<Rightarrow> u32" where
  "block_end e = ucast (ucast (block_start e) + (mm_len e - (mm_addr e - ucast (block_start e))))"

text \<open>The second pass over the memory map.\<close>

fun place_table :: "(u32 \<times> u32) list \<Rightarrow> u32 \<Rightarrow> multiboot_mmap_entry list \<Rightarrow> u32 run" where
  "place_table zs tableLength [] = panic"
| "place_table zs tableLength (e # rest) =
     (if mm_type e = MULTIBOOT_MEMORY_AVAILABLE \<and> drop_bit 32 (mm_addr e) = 0 then
        (case bounds_loop zs tableLength (block_start e) (block_end e) of
           None \<Rightarrow> None
         | Some (Some position) \<Rightarrow> ret position
         | Some None \<Rightarrow> place_table zs tableLength rest)
      else place_table zs tableLength rest)"

definition GetPhysicalTableLocation :: "boot_lists \<Rightarrow> kernel_image \<Rightarrow> bool \<Rightarrow> u32 \<Rightarrow> (u32 \<times> MemPhysPage) run" where
  "GetPhysicalTableLocation boot img withPageTables junk =
     (let numPages = num_pages (bi_mmap boot) junk;
          tableLength = table_length numPages withPageTables
      in seq (place_table (forbidden_zones (kernel_end_page img) (bi_mods boot)) tableLength (bi_mmap boot))
           (\<lambda>position. ret (numPages, uint (position div 4096))))"

section \<open>Kernel page tables\<close>

definition set_directory :: "nat \<Rightarrow> u32 \<Rightarrow> 'a mm_state_scheme \<Rightarrow> 'a mm_state_scheme" where
  "set_directory i v s = s\<lparr>MemKernelPageDirectory := (MemKernelPageDirectory s)(of_nat i := v)\<rparr>"

text \<open>
  The directory entries of the virtual region. The address is that of the entry \<open>i - 0x3C0\<close> of the array,
  four bytes apart from the next.
\<close>

definition virtual_entry :: "kernel_image \<Rightarrow> nat \<Rightarrow> u32" where
  "virtual_entry img i = set_pageID (sint (virtualTables img + 4 * (of_nat i - 0x3C0) - KERNEL_VIRTUAL_BASE) sdiv 4096)
     (set_flag 1 True (set_flag 0 True 0))"

fun virtual_directory :: "kernel_image \<Rightarrow> nat list \<Rightarrow> 'a mm_state_scheme \<Rightarrow> 'a mm_state_scheme" where
  "virtual_directory img [] s = s"
| "virtual_directory img (i # rest) s =
     virtual_directory img rest (set_directory i (virtual_entry img i) s)"

definition huge_entry :: "nat \<Rightarrow> u32" where
  "huge_entry i = set_pageID ((int i - 0x300) * 0x400) (set_flag 8 True (set_flag 7 True (set_flag 1 True (set_flag 0 True 0))))"

fun huge_directory :: "nat list \<Rightarrow> 'a mm_state_scheme \<Rightarrow> 'a mm_state_scheme" where
  "huge_directory [] s = s"
| "huge_directory (i # rest) s = huge_directory rest (set_directory i (huge_entry i) s)"

definition small_entry :: "nat \<Rightarrow> nat \<Rightarrow> u32" where
  "small_entry i j = set_pageID ((int i - 0x300) * 0x400 + int j) (set_flag 8 True (set_flag 1 True (set_flag 0 True 0)))"

fun fill_table :: "MemPhysPage \<Rightarrow> nat \<Rightarrow> nat list \<Rightarrow> 'a paging_state_scheme \<Rightarrow> 'a paging_state_scheme" where
  "fill_table table i [] s = s"
| "fill_table table i (j # rest) s = fill_table table i rest (set_word (entry table (of_nat j)) (small_entry i j) s)"

text \<open>The table is filled through its mapping at the start of the virtual region; \<open>firstPTable\<close> stays the same in
  every pass.\<close>

fun small_directory :: "MemPhysPage \<Rightarrow> nat list \<Rightarrow> 'a mm_state_scheme \<Rightarrow> 'a mm_state_scheme" where
  "small_directory firstPTable [] s = s"
| "small_directory firstPTable (i # rest) s =
     small_directory firstPTable rest
       (set_directory i (set_pageID firstPTable (set_flag 1 True (set_flag 0 True 0))) (fill_table firstPTable i [0..<1024] s))"

section \<open>The page state table\<close>

text \<open>Marking a page that is not yet in use, with the free count.\<close>

fun take_pages :: "nat \<Rightarrow> MemPhysPage \<Rightarrow> 'a phys_state_scheme \<Rightarrow> 'a phys_state_scheme" where
  "take_pages 0 page s = s"
| "take_pages (Suc n) page s =
     take_pages n (page + 1)
       (if refCount (MemPageStateTable s page) = 0
        then (set_ref page 1 s)\<lparr>MemPhysicalFreePages := MemPhysicalFreePages s - 1\<rparr> else s)"

definition reserved_start :: "multiboot_mmap_entry \<Rightarrow> MemPhysPage" where
  "reserved_start e = sint (ucast (mm_addr e div 4096) :: u32)"

definition reserved_end :: "multiboot_mmap_entry \<Rightarrow> MemPhysPage" where
  "reserved_end e = sint (ucast ((mm_len e + mm_addr e + 4095) div 4096) :: u32)"

definition is_reserved :: "u32 \<Rightarrow> multiboot_mmap_entry \<Rightarrow> bool" where
  "is_reserved highestAddr e \<longleftrightarrow> mm_type e \<noteq> MULTIBOOT_MEMORY_AVAILABLE \<and> mm_addr e < ucast highestAddr \<and> drop_bit 32 (mm_addr e) = 0"

fun reserve_entries :: "u32 \<Rightarrow> multiboot_mmap_entry list \<Rightarrow> 'a phys_state_scheme \<Rightarrow> 'a phys_state_scheme" where
  "reserve_entries highestAddr [] s = s"
| "reserve_entries highestAddr (e # rest) s =
     reserve_entries highestAddr rest
       (if is_reserved highestAddr e then
          mark_pages (nat (reserved_end e - reserved_start e)) (reserved_start e)
            (s\<lparr>MemPhysicalTotalPages := MemPhysicalTotalPages s - of_int (reserved_end e - reserved_start e)\<rparr>)
        else s)"

fun take_modules :: "(u32 \<times> u32) list \<Rightarrow> 'a phys_state_scheme \<Rightarrow> 'a phys_state_scheme" where
  "take_modules [] s = s"
| "take_modules ((start, stop) # rest) s =
     take_modules rest (take_pages (nat (sint ((stop + 4095) div 4096) - sint (start div 4096))) (sint (start div 4096)) s)"

text \<open>Phase 3 for a table of \<open>totalPages\<close> pages at \<open>tableLocation\<close>.\<close>

definition fill_state_table ::
  "boot_lists \<Rightarrow> kernel_image \<Rightarrow> u32 \<Rightarrow> MemPhysPage \<Rightarrow> MemPhysPage \<Rightarrow> 'a phys_state_scheme \<Rightarrow> 'a phys_state_scheme" where
  "fill_state_table boot img totalPages tableLocation endOfAllocedTable s =
     (let s1 = s\<lparr>MemPageStateTable := (\<lambda>p. if 0 \<le> p \<and> p < uint totalPages then \<lparr>refCount = 0, slabPtr = 0\<rparr> else MemPageStateTable s p),
                 highestPage := uint totalPages, MemPhysicalTotalPages := totalPages\<rparr>;
          s2 = reserve_entries (totalPages * 4096) (bi_mmap boot) s1;
          s3 = mark_pages (nat (sint (kernel_end_page img) - 0xA0)) 0xA0 s2;
          s4 = s3\<lparr>MemPhysicalFreePages := MemPhysicalTotalPages s3\<rparr>;
          s5 = take_modules (bi_mods boot) s4
      in MemPhysicalInit (take_pages (nat (endOfAllocedTable - tableLocation)) tableLocation s5))"

definition MemManagerInit ::
  "boot_lists \<Rightarrow> kernel_image \<Rightarrow> u32 \<Rightarrow> u32 \<Rightarrow> 'a mm_state_scheme \<Rightarrow> 'a mm_state_scheme run" where
  "MemManagerInit boot img cpuFeaturesEDX junk s =
     (let s0 = s\<lparr>contextAt := (contextAt s)(MemKernelContext s := (contextAt s (MemKernelContext s))\<lparr>physDirectory := kernelDirectory img\<rparr>)\<rparr>;
          using4MBPages = bit cpuFeaturesEDX 3
      in seq (GetPhysicalTableLocation boot img (\<not> using4MBPages) junk) (\<lambda>(totalPages, tableLocation).
        let s1 = virtual_directory img [0x3C0..<0x400] s0;
            num4MBPages = min ((totalPages + 1023) div 1024) 0x3C0;
            tableEnd = tableLocation + uint ((totalPages * 8 + 4095) div 4096);
            slots = [0x300..<unat num4MBPages + 0x300];
            (endOfAllocedTable, s2) =
              (if using4MBPages then (tableEnd, huge_directory slots s1)
               else (tableEnd + uint ((totalPages * 4 + 4095) div 4096),
                     (small_directory tableEnd slots s1)\<lparr>MemVirtualPageTables := (MemVirtualPageTables s1)(0 := 0)\<rparr>))
        in ret (fill_state_table boot img totalPages tableLocation endOfAllocedTable s2)))"

definition MemFreeInitPages :: "kernel_image \<Rightarrow> 'a phys_state_scheme \<Rightarrow> 'a phys_state_scheme" where
  "MemFreeInitPages img s =
     MemPhysicalFree (sint (kernel_init_start_page img)) (kernel_end_page img - kernel_init_start_page img) s"

section \<open>The place found for the table\<close>

text \<open>A position \<open>p\<close> from which \<open>len\<close> bytes fit before \<open>e\<close> without touching a zone.\<close>

definition clear_place :: "(u32 \<times> u32) list \<Rightarrow> u32 \<Rightarrow> u32 \<Rightarrow> u32 \<Rightarrow> bool" where
  "clear_place zs len p e \<longleftrightarrow> p < e \<and> unat p + unat len \<le> unat e \<and>
     (\<forall>(a, b) \<in> set zs. unat p + unat len \<le> unat a \<or> unat b \<le> unat p)"

definition page_aligned :: "u32 \<Rightarrow> bool" where
  "page_aligned x \<longleftrightarrow> x mod 4096 = 0"

text \<open>Every zone is a proper interval that ends at a page boundary.\<close>

definition zones_proper :: "(u32 \<times> u32) list \<Rightarrow> bool" where
  "zones_proper zs \<longleftrightarrow> (\<forall>(a, b) \<in> set zs. a < b \<and> page_aligned b)"

lemma collision_moves_up:
  assumes "BOUNDS_CHECK p e (a, b)" "a < b"
  shows "p < b"
  using assms by (auto simp: BOUNDS_CHECK_def)

lemma no_collision:
  assumes "\<not> BOUNDS_CHECK p e (a, b)" "a < b" "p < e" "e - p \<ge> len"
  shows "unat p + unat len \<le> unat a \<or> unat b \<le> unat p"
proof -
  have "unat p + unat len \<le> unat e" using assms(3,4) by (simp add: word_le_nat_alt word_less_nat_alt unat_sub)
  moreover have "b \<le> p \<or> e \<le> a" using assms(1,2) by (auto simp: BOUNDS_CHECK_def)
  ultimately show ?thesis by (auto simp: word_le_nat_alt)
qed

lemma bounds_loop_result:
  assumes "zones_proper zs" "page_aligned p"
  shows "\<exists>r. bounds_loop zs len p e = Some r \<and> (\<forall>q. r = Some q \<longrightarrow> p \<le> q \<and> page_aligned q \<and> clear_place zs len q e)"
  using assms(2)
proof (induction "unat e - unat p" arbitrary: p rule: less_induct)
  case less
  show ?case
  proof (cases "p < e \<and> e - p \<ge> len")
    case False
    then show ?thesis by (subst bounds_loop.simps) auto
  next
    case True
    show ?thesis
    proof (cases "List.find (BOUNDS_CHECK p e) zs")
      case None
      then have "\<not> BOUNDS_CHECK p e z" if "z \<in> set zs" for z using that by (cases z) (auto simp: find_None_iff)
      then have "unat p + unat len \<le> unat a \<or> unat b \<le> unat p" if "(a, b) \<in> set zs" for a b
        using that True assms(1) by (intro no_collision) (auto simp: zones_proper_def)
      then have "clear_place zs len p e"
        using True by (auto simp: clear_place_def word_le_nat_alt word_less_nat_alt unat_sub)
      then show ?thesis using None True less.prems by (subst bounds_loop.simps) simp
    next
      case (Some z)
      obtain a b where z: "z = (a, b)" by fastforce
      have "(a, b) \<in> set zs" "BOUNDS_CHECK p e (a, b)" using Some by (auto simp: find_Some_iff z)
      then have b: "a < b" "p < b" "page_aligned b" using assms(1) collision_moves_up by (auto simp: zones_proper_def)
      then have "unat e - unat b < unat e - unat p" using True by (simp add: word_less_nat_alt diff_less_mono2)
      from less.hyps [OF this b(3)] obtain r where r: "bounds_loop zs len b e = Some r"
        "\<forall>q. r = Some q \<longrightarrow> b \<le> q \<and> page_aligned q \<and> clear_place zs len q e" by blast
      then show ?thesis using Some True b(2) by (subst bounds_loop.simps) (auto simp: z)
    qed
  qed
qed

lemma page_aligned_bits: "page_aligned x \<longleftrightarrow> (\<forall>n < 12. \<not> bit x n)" for x :: u32
proof -
  have "x mod 4096 = take_bit 12 x" by (simp add: take_bit_eq_mod)
  then show ?thesis by (auto simp: page_aligned_def bit_eq_iff bit_take_bit_iff dest: bit_imp_le_length)
qed

lemma block_start_aligned: "page_aligned (block_start e)"
  unfolding page_aligned_bits block_start_def by (auto simp: bit_simps)

lemma forbidden_proper:
  assumes "0x100000 < k * 4096" "\<forall>(a, b) \<in> set mods. a < (b + 4095) AND 0xFFFFF000"
  shows "zones_proper (forbidden_zones k mods)"
proof -
  have "(0xFFFFF000 :: int) = push_bit 12 (mask 20)" by (simp add: mask_eq_exp_minus_1)
  then have "\<not> bit (0xFFFFF000 :: int) n" if "n < 12" for n using that by (simp only: bit_push_bit_iff) simp
  then have "page_aligned ((b + 4095) AND 0xFFFFF000)" for b :: u32
    unfolding page_aligned_bits by (simp add: bit_and_iff)
  moreover have "page_aligned (k * 4096)"
  proof -
    have "k * 4096 = push_bit 12 k" by (simp add: push_bit_eq_mult)
    then show ?thesis unfolding page_aligned_bits by (simp add: bit_push_bit_iff)
  qed
  ultimately show ?thesis using assms by (auto simp: zones_proper_def forbidden_zones_def page_aligned_def)
qed

lemma place_table_result:
  assumes "zones_proper zs"
  shows "place_table zs len mmap = panic \<or> (\<exists>p. place_table zs len mmap = ret p \<and> page_aligned p \<and>
    (\<exists>e \<in> set mmap. mm_type e = MULTIBOOT_MEMORY_AVAILABLE \<and> drop_bit 32 (mm_addr e) = 0 \<and>
      block_start e \<le> p \<and> clear_place zs len p (block_end e)))"
proof (induction mmap)
  case (Cons e rest)
  obtain r where "bounds_loop zs len (block_start e) (block_end e) = Some r"
    "\<forall>q. r = Some q \<longrightarrow> block_start e \<le> q \<and> page_aligned q \<and> clear_place zs len q (block_end e)"
    using bounds_loop_result [OF assms block_start_aligned] by metis
  then show ?case using Cons by (cases r) auto
qed simp


section \<open>The page state table after the start\<close>

text \<open>The pages below \<open>N\<close> that are in use, each with one reference.\<close>

definition marked :: "int \<Rightarrow> MemPhysPage set \<Rightarrow> 'a phys_state_scheme \<Rightarrow> bool" where
  "marked N U s \<longleftrightarrow> (\<forall>q. 0 \<le> q \<and> q < N \<longrightarrow> page_refs s q = (if q \<in> U then 1 else 0))"

definition boot_used :: "boot_lists \<Rightarrow> kernel_image \<Rightarrow> u32 \<Rightarrow> MemPhysPage \<Rightarrow> MemPhysPage \<Rightarrow> MemPhysPage set" where
  "boot_used boot img totalPages tableLocation endOfAllocedTable =
     (\<Union>e \<in> {e \<in> set (bi_mmap boot). is_reserved (totalPages * 4096) e}. {reserved_start e..<reserved_end e}) \<union>
     {0xA0..<sint (kernel_end_page img)} \<union>
     (\<Union>(start, stop) \<in> set (bi_mods boot). {sint (start div 4096)..<sint ((stop + 4095) div 4096)}) \<union>
     {tableLocation..<endOfAllocedTable}"

lemma take_pages_refs:
  "page_refs (take_pages n p s) = (\<lambda>q. if p \<le> q \<and> q < p + int n \<and> page_refs s q = 0 then 1 else page_refs s q)"
proof (induction n p s rule: take_pages.induct)
  case (2 n p s)
  let ?s1 = "if refCount (MemPageStateTable s p) = 0 then (set_ref p 1 s)\<lparr>MemPhysicalFreePages := MemPhysicalFreePages s - 1\<rparr> else s"
  have step: "page_refs ?s1 = (\<lambda>q. if q = p \<and> page_refs s q = 0 then 1 else page_refs s q)" by (auto simp: page_refs_def set_ref_def)
  have "page_refs (take_pages (Suc n) p s) = page_refs (take_pages n (p + 1) ?s1)" by (simp only: take_pages.simps)
  also have "\<dots> = (\<lambda>q. if p + 1 \<le> q \<and> q < p + 1 + int n \<and> page_refs ?s1 q = 0 then 1 else page_refs ?s1 q)" by (rule "2.IH")
  finally show ?case unfolding step by (auto simp: fun_eq_iff add1_zle_eq order_le_less)
qed auto

lemma marked_mark_pages:
  "marked N U s \<Longrightarrow> marked N (U \<union> {p..<e}) (mark_pages (nat (e - p)) p s)"
  by (auto simp: marked_def mark_pages_refs)

lemma marked_take_pages:
  "marked N U s \<Longrightarrow> marked N (U \<union> {p..<e}) (take_pages (nat (e - p)) p s)"
  by (auto simp: marked_def take_pages_refs)

lemma marked_upd [simp]:
  "marked N U (s\<lparr>MemPhysicalTotalPages := t\<rparr>) = marked N U s" "marked N U (s\<lparr>MemPhysicalFreePages := t\<rparr>) = marked N U s"
  "marked N U (MemPhysicalInit s) = marked N U s"
  by (simp_all add: marked_def page_refs_def MemPhysicalInit_def Let_def)

lemma marked_reserve_entries:
  "marked N U s \<Longrightarrow> marked N (U \<union> (\<Union>e \<in> {e \<in> set es. is_reserved h e}. {reserved_start e..<reserved_end e})) (reserve_entries h es s)"
proof (induction h es s arbitrary: U rule: reserve_entries.induct)
  case (2 h e rest s)
  show ?case
  proof (cases "is_reserved h e")
    case True
    then have eq: "{e' \<in> set (e # rest). is_reserved h e'} = insert e {e' \<in> set rest. is_reserved h e'}" by auto
    show ?thesis using "2.IH" [of "U \<union> {reserved_start e..<reserved_end e}"] True "2.prems"
      unfolding eq by (simp add: marked_mark_pages Un_assoc)
  next
    case False
    then have eq: "{e' \<in> set (e # rest). is_reserved h e'} = {e' \<in> set rest. is_reserved h e'}" by auto
    show ?thesis using "2.IH" [of U] False "2.prems" unfolding eq by simp
  qed
qed simp

lemma marked_take_modules:
  "marked N U s \<Longrightarrow> marked N (U \<union> (\<Union>(start, stop) \<in> set mods. {sint (start div 4096)..<sint ((stop + 4095) div 4096)})) (take_modules mods s)"
proof (induction mods s arbitrary: U rule: take_modules.induct)
  case (2 start stop rest s)
  then show ?case using "2.IH" [of "U \<union> {sint (start div 4096)..<sint ((stop + 4095) div 4096)}"]
    by (simp add: marked_take_pages Un_assoc)
qed simp

lemma fill_state_table_marked:
  "marked (uint n) (boot_used boot img n t e) (fill_state_table boot img n t e s)"
proof -
  define s1 where "s1 = s\<lparr>MemPageStateTable := (\<lambda>p. if 0 \<le> p \<and> p < uint n then \<lparr>refCount = 0, slabPtr = 0\<rparr> else MemPageStateTable s p),
                 highestPage := uint n, MemPhysicalTotalPages := n\<rparr>"
  have "marked (uint n) {} s1" by (simp add: s1_def marked_def page_refs_def)
  from marked_reserve_entries [OF this, of "bi_mmap boot" "n * 4096"]
  have "marked (uint n) (\<Union>e \<in> {e \<in> set (bi_mmap boot). is_reserved (n * 4096) e}. {reserved_start e..<reserved_end e})
    (reserve_entries (n * 4096) (bi_mmap boot) s1)" by simp
  then show ?thesis unfolding fill_state_table_def boot_used_def Let_def s1_def [symmetric]
    by (simp add: marked_take_pages marked_take_modules marked_mark_pages)
qed

lemma take_pages_frame [simp]:
  "zones (take_pages n p s) = zones s" "highestPage (take_pages n p s) = highestPage s"
  by (induction n p s rule: take_pages.induct) simp_all

lemma reserve_entries_frame [simp]:
  "zones (reserve_entries h es s) = zones s" "highestPage (reserve_entries h es s) = highestPage s"
  by (induction h es s rule: reserve_entries.induct) simp_all

lemma take_modules_frame [simp]:
  "zones (take_modules ms s) = zones s" "highestPage (take_modules ms s) = highestPage s"
  by (induction ms s rule: take_modules.induct) simp_all

lemma directory_frame [simp]:
  "zones (virtual_directory img is s) = zones s" "zones (huge_directory is s) = zones s"
  "zones (small_directory t is s) = zones s"
proof -
  have fill: "zones (fill_table t i js s) = zones s" for t i js and s :: "'b paging_state_scheme"
    by (induction js arbitrary: s) (simp_all add: set_word_def)
  show "zones (virtual_directory img is s) = zones s" by (induction "is" arbitrary: s) (simp_all add: set_directory_def)
  show "zones (huge_directory is s) = zones s" by (induction "is" arbitrary: s) (simp_all add: set_directory_def)
  show "zones (small_directory t is s) = zones s" by (induction "is" arbitrary: s) (simp_all add: set_directory_def fill)
qed

lemma manager_init_cases:
  assumes "MemManagerInit boot img edx junk s = ret s'"
  shows "\<exists>n t e s2. GetPhysicalTableLocation boot img (\<not> bit edx 3) junk = ret (n, t) \<and>
    t + uint ((n * 8 + 4095) div 4096) \<le> e \<and> s' = fill_state_table boot img n t e s2 \<and> zones s2 = zones s \<and>
    e \<le> t + uint ((n * 8 + 4095) div 4096) + uint ((n * 4 + 4095) div 4096)"
proof -
  obtain n t where loc: "GetPhysicalTableLocation boot img (\<not> bit edx 3) junk = ret (n, t)"
    using assms by (auto simp: MemManagerInit_def Let_def simp del: upt_rec_numeral)
  let ?s1 = "virtual_directory img [0x3C0..<0x400] (s\<lparr>contextAt := (contextAt s)(MemKernelContext s :=
      (contextAt s (MemKernelContext s))\<lparr>physDirectory := kernelDirectory img\<rparr>)\<rparr>)"
    and ?slots = "[0x300..<unat (min ((n + 1023) div 1024) 0x3C0) + 0x300]" and ?e = "t + uint ((n * 8 + 4095) div 4096)"
  have eq: "s' = (if bit edx 3 then fill_state_table boot img n t ?e (huge_directory ?slots ?s1)
    else fill_state_table boot img n t (?e + uint ((n * 4 + 4095) div 4096))
      ((small_directory ?e ?slots ?s1)\<lparr>MemVirtualPageTables := (MemVirtualPageTables ?s1)(0 := 0)\<rparr>))"
    using assms loc by (simp add: MemManagerInit_def Let_def split: if_splits del: upt_rec_numeral)
  let ?f = "?e + uint ((n * 4 + 4095) div 4096)"
  have pick: "\<exists>e s2. ?e \<le> e \<and> s' = fill_state_table boot img n t e s2 \<and> zones s2 = zones s \<and> e \<le> ?f"
    if "s' = fill_state_table boot img n t e s2" "?e \<le> e" "zones s2 = zones s" "e \<le> ?f" for e s2 using that by blast
  have "\<exists>e s2. ?e \<le> e \<and> s' = fill_state_table boot img n t e s2 \<and> zones s2 = zones s \<and> e \<le> ?f"
  proof (cases "bit edx 3")
    case True
    from eq [unfolded if_P [OF True]] show ?thesis by (rule pick) (simp_all del: upt_rec_numeral)
  next
    case False
    from eq [unfolded if_not_P [OF False]] show ?thesis by (rule pick) (simp_all del: upt_rec_numeral)
  qed
  then show ?thesis using loc by blast
qed

text \<open>The bytes of physical memory that hold something at the start: the kernel and the ROM area below it, the boot
  modules, the reserved entries of the memory map that begin inside the table, and the page state table.\<close>

definition boot_byte :: "boot_lists \<Rightarrow> kernel_image \<Rightarrow> u32 \<Rightarrow> MemPhysPage \<Rightarrow> int \<Rightarrow> bool" where
  "boot_byte boot img n t x \<longleftrightarrow>
     0xA0000 \<le> x \<and> x < uint (kernel_end_page img) * 4096 \<or>
     (\<exists>(a, b) \<in> set (bi_mods boot). uint a \<le> x \<and> x < uint b) \<or>
     (\<exists>e \<in> set (bi_mmap boot). mm_type e \<noteq> MULTIBOOT_MEMORY_AVAILABLE \<and> uint (mm_addr e) < uint n * 4096 \<and>
        uint (mm_addr e) \<le> x \<and> x < uint (mm_addr e) + uint (mm_len e)) \<or>
     t * 4096 \<le> x \<and> x < t * 4096 + 8 * uint n"

lemma byte_in_pages: "a \<le> x \<Longrightarrow> x < b \<Longrightarrow> a div 4096 \<le> x div 4096 \<and> x div 4096 < (b + 4095) div 4096" for a b x :: int
  by (auto intro: zdiv_mono1)

lemma sint_low: "uint v < 2 ^ 31 \<Longrightarrow> sint v = uint v" for v :: u32
  by (simp add: sint_uint signed_take_bit_int_eq_self [of 31 "uint v", OF order_trans [OF _ uint_ge_0]])

lemma sint_page: "sint (w div 4096) = uint w div 4096" for w :: u32
  using uint_lt2p [of w] by (subst sint_low) (simp_all add: uint_div)

lemma module_pages:
  fixes b :: u32
  assumes "b \<le> 0xFFFFF000"
  shows "sint ((b + 4095) div 4096) = (uint b + 4095) div 4096"
proof -
  have "uint b \<le> 0xFFFFF000" using assms by (simp add: word_le_def)
  then have "uint (b + 4095) = uint b + 4095" by (simp add: uint_word_ariths)
  then show ?thesis by (simp add: sint_page)
qed

lemma num_pages_small: "uint (num_pages mmap junk) < 2 ^ 20"
  using uint_lt2p [of "fold raise_highest mmap junk"] by (simp add: num_pages_def uint_div)

lemma reserved_pages:
  assumes "uint (mm_addr e) + uint (mm_len e) \<le> 2 ^ 42" "uint (mm_addr e) < 2 ^ 32"
  shows "reserved_start e = uint (mm_addr e) div 4096" "reserved_end e = (uint (mm_addr e) + uint (mm_len e) + 4095) div 4096"
proof -
  have sum: "uint (mm_len e + mm_addr e + 4095) = uint (mm_addr e) + uint (mm_len e) + 4095"
    using assms by (simp add: uint_word_ariths)
  have u: "sint (ucast (w div 4096) :: u32) = uint w div 4096" if "uint w < 2 ^ 43" for w :: u64
  proof -
    have small: "0 \<le> uint w div 4096" "uint w div 4096 < 2 ^ 31" using that by (simp_all add: pos_imp_zdiv_nonneg_iff)
    then have "uint (ucast (w div 4096) :: u32) = uint w div 4096"
      by (simp add: unsigned_ucast_eq uint_div take_bit_int_eq_self)
    then show ?thesis using small by (simp add: sint_low)
  qed
  show "reserved_start e = uint (mm_addr e) div 4096" using assms(2) by (simp add: reserved_start_def u)
  show "reserved_end e = (uint (mm_addr e) + uint (mm_len e) + 4095) div 4096"
    unfolding reserved_end_def using assms(1) by (subst u) (simp_all add: sum)
qed

lemma boot_byte_used:
  assumes "boot_byte boot img n t x" "kernel_end_page img \<le> 0x100000" "\<forall>(a, b) \<in> set (bi_mods boot). b \<le> 0xFFFFF000"
    and small: "\<forall>e \<in> set (bi_mmap boot). uint (mm_addr e) + uint (mm_len e) \<le> 2 ^ 42" "uint n < 2 ^ 20"
    and e: "t + uint ((n * 8 + 4095) div 4096) \<le> e"
  shows "x div 4096 \<in> boot_used boot img n t e"
  using assms(1) unfolding boot_byte_def
proof (elim disjE bexE conjE)
  assume "0xA0000 \<le> x" "x < uint (kernel_end_page img) * 4096"
  moreover have "sint (kernel_end_page img) = uint (kernel_end_page img)"
    using assms(2) by (intro sint_low) (simp add: word_le_def)
  ultimately show ?thesis by (auto simp: boot_used_def)
next
  fix m assume m: "m \<in> set (bi_mods boot)" "case m of (a, b) \<Rightarrow> uint a \<le> x \<and> x < uint b"
  obtain a b where ab: "m = (a, b)" "uint a \<le> x" "x < uint b" "b \<le> 0xFFFFF000" using m assms(3) by (cases m) auto
  then have "sint (a div 4096) \<le> x div 4096 \<and> x div 4096 < sint ((b + 4095) div 4096)"
    using byte_in_pages [OF ab(2,3)] by (simp only: sint_page [of a] module_pages)
  then have "x div 4096 \<in> (case m of (start, stop) \<Rightarrow> {sint (start div 4096)..<sint ((stop + 4095) div 4096)})" by (simp add: ab(1))
  then show ?thesis using m(1) unfolding boot_used_def by blast
next
  fix r assume r: "r \<in> set (bi_mmap boot)" "mm_type r \<noteq> MULTIBOOT_MEMORY_AVAILABLE" "uint (mm_addr r) < uint n * 4096"
    and x: "uint (mm_addr r) \<le> x" "x < uint (mm_addr r) + uint (mm_len r)"
  have n: "uint (n * 4096) = uint n * 4096" using small(2) by (simp add: uint_word_ariths)
  have low: "uint (mm_addr r) < 2 ^ 32" using r(3) small(2) by simp
  have wide: "take_bit 64 (uint n * 4096) = uint n * 4096" using small(2) by (simp add: take_bit_int_eq_self)
  from low have "is_reserved (n * 4096) r"
    using r(2,3) by (simp add: is_reserved_def word_less_def n unsigned_ucast_eq drop_bit_eq_div word_uint_eq_iff uint_div wide)
  moreover have "reserved_start r \<le> x div 4096 \<and> x div 4096 < reserved_end r"
    using byte_in_pages [OF x] small(1) low r(1) by (simp add: reserved_pages)
  ultimately show ?thesis using r(1) by (auto simp: boot_used_def)
next
  assume x: "t * 4096 \<le> x" "x < t * 4096 + 8 * uint n"
  have "uint ((n * 8 + 4095) div 4096) = (uint n * 8 + 4095) div 4096"
    using small(2) by (simp add: uint_div uint_word_ariths)
  moreover have "(t * 4096 + 8 * uint n + 4095) div 4096 = t + (uint n * 8 + 4095) div 4096"
    using div_mult_self1 [of "4096 :: int" "8 * uint n + 4095" t] by (simp add: algebra_simps)
  ultimately have "t \<le> x div 4096 \<and> x div 4096 < e" using byte_in_pages [OF x] e by simp
  then show ?thesis by (simp add: boot_used_def)
qed

lemma fill_state_table_zones:
  "zones s = (\<lambda>_. no_zone) \<Longrightarrow> zones_ok (fill_state_table boot img n t e s) \<and> highestPage (fill_state_table boot img n t e s) = uint n"
  using uint_ge_0 [of n] unfolding fill_state_table_def Let_def order_le_less
  by (auto simp: zones_ok_def zone_ok_def MemPhysicalInit_def Let_def no_zone_def kfixed_max)


text \<open>Five megabytes with the kernel up to page \<open>0x140\<close> and one module behind it.\<close>

definition demo_boot :: boot_lists where
  "demo_boot = \<lparr>bi_mmap = [\<lparr>mm_addr = 0, mm_len = 0x9F000, mm_type = 1\<rparr>, \<lparr>mm_addr = 0xF0000, mm_len = 0x10000, mm_type = 2\<rparr>,
     \<lparr>mm_addr = 0x100000, mm_len = 0x400000, mm_type = 1\<rparr>], bi_mods = [(0x140000, 0x141800)]\<rparr>"

definition demo_image :: kernel_image where
  "demo_image = \<lparr>kernelDirectory = 0x120, virtualTables = 0xC0121000, kernel_end_page = 0x140, kernel_init_start_page = 0x138\<rparr>"

definition demo_mm :: mm_state where
  "demo_mm = vm_state.extend blank_vm \<lparr>regionAt = (\<lambda>_. \<lparr>myContext = 0, rflags = 0, rstart = 0, rlength = 0\<rparr>),
     contextAt = (\<lambda>_. \<lparr>ctx_regions = [], physDirectory = 0, ctx_refCount = 0\<rparr>), MemCurrentContext = 1, MemKernelContext = 1,
     MemKernelPageDirectory = (\<lambda>_. 0), cr3 = 0, kfreed = []\<rparr>"

lemma demo_blocks:
  "block_start \<lparr>mm_addr = 0, mm_len = 0x9F000, mm_type = 1\<rparr> = 0" "block_end \<lparr>mm_addr = 0, mm_len = 0x9F000, mm_type = 1\<rparr> = 0x9F000"
  "block_start \<lparr>mm_addr = 0x100000, mm_len = 0x400000, mm_type = 1\<rparr> = 0x100000"
  "block_end \<lparr>mm_addr = 0x100000, mm_len = 0x400000, mm_type = 1\<rparr> = 0x500000"
  by (simp_all add: block_start_def block_end_def)

lemma demo_zones: "forbidden_zones (kernel_end_page demo_image) (bi_mods demo_boot) = [(1, 0x100000), (0x100000, 0x140000), (0x140000, 0x142000)]"
  by (simp add: forbidden_zones_def demo_image_def demo_boot_def)

lemma demo_pages: "num_pages (bi_mmap demo_boot) 0 = 0x500"
  by (simp add: num_pages_def raise_highest_def demo_boot_def MULTIBOOT_MEMORY_AVAILABLE_def)

lemma demo_location: "GetPhysicalTableLocation demo_boot demo_image False 0 = ret (0x500, 0x142)"
proof -
  let ?zs = "[(1, 0x100000), (0x100000, 0x140000), (0x140000, 0x142000)] :: (u32 \<times> u32) list"
  have "bounds_loop ?zs 0x2800 0 0x9F000 = Some None"
    by (subst bounds_loop.simps, simp add: BOUNDS_CHECK_def, subst bounds_loop.simps, simp)
  moreover have "bounds_loop ?zs 0x2800 0x100000 0x500000 = Some (Some 0x142000)"
    by (subst bounds_loop.simps, simp add: BOUNDS_CHECK_def, subst bounds_loop.simps, simp add: BOUNDS_CHECK_def,
        subst bounds_loop.simps, simp add: BOUNDS_CHECK_def)
  ultimately have "place_table ?zs 0x2800 (bi_mmap demo_boot) = ret 0x142000"
    by (simp add: demo_boot_def MULTIBOOT_MEMORY_AVAILABLE_def demo_blocks)
  then show ?thesis by (simp add: GetPhysicalTableLocation_def demo_zones demo_pages table_length_def)
qed



section \<open>The kernel's page directory after the start\<close>

lemma set_directory_at:
  "i < 2 ^ 32 \<Longrightarrow> MemKernelPageDirectory (set_directory i v s) w = (if unat w = i then v else MemKernelPageDirectory s w)"
  by (auto simp: set_directory_def word_unat_eq_iff unsigned_of_nat take_bit_nat_eq_self)

lemma fill_table_directory [simp]: "MemKernelPageDirectory (fill_table t i js s) = MemKernelPageDirectory s"
  by (induction js arbitrary: s) (simp_all add: set_word_def)

lemma virtual_directory_at:
  "\<forall>i \<in> set is. i < 2 ^ 32 \<Longrightarrow>
    MemKernelPageDirectory (virtual_directory img is s) w = (if unat w \<in> set is then virtual_entry img (unat w) else MemKernelPageDirectory s w)"
  by (induction "is" arbitrary: s) (auto simp: set_directory_at)

lemma huge_directory_at:
  "\<forall>i \<in> set is. i < 2 ^ 32 \<Longrightarrow>
    MemKernelPageDirectory (huge_directory is s) w = (if unat w \<in> set is then huge_entry (unat w) else MemKernelPageDirectory s w)"
  by (induction "is" arbitrary: s) (auto simp: set_directory_at)

definition table_entry :: "MemPhysPage \<Rightarrow> u32" where
  "table_entry t = set_pageID t (set_flag 1 True (set_flag 0 True 0))"

lemma small_directory_at:
  "\<forall>i \<in> set is. i < 2 ^ 32 \<Longrightarrow>
    MemKernelPageDirectory (small_directory t is s) w = (if unat w \<in> set is then table_entry t else MemKernelPageDirectory s w)"
  by (induction "is" arbitrary: s) (auto simp: set_directory_at table_entry_def)

lemma fill_state_table_more [simp]: "phys_state.more (fill_state_table boot img n t e s) = phys_state.more s"
proof -
  have take: "phys_state.more (take_pages k p u) = phys_state.more u" for k p and u :: "'b phys_state_scheme"
    by (induction k p u rule: take_pages.induct) (simp_all add: set_ref_def)
  have mods: "phys_state.more (take_modules ms u) = phys_state.more u" for ms and u :: "'b phys_state_scheme"
    by (induction ms u rule: take_modules.induct) (simp_all add: take)
  have res: "phys_state.more (reserve_entries h es u) = phys_state.more u" for h es and u :: "'b phys_state_scheme"
    by (induction h es u rule: reserve_entries.induct) simp_all
  show ?thesis by (simp add: fill_state_table_def Let_def MemPhysicalInit_def take mods res)
qed

text \<open>The directory entries that the direct mapping of physical memory takes.\<close>

definition direct_slots :: "u32 \<Rightarrow> nat set" where
  "direct_slots n = {0x300..<unat (min ((n + 1023) div 1024) 0x3C0) + 0x300}"

lemma more_directory: "phys_state.more s' = phys_state.more s \<Longrightarrow> MemKernelPageDirectory s' = MemKernelPageDirectory s"
  by (cases s; cases s'; simp)

lemma manager_init_directory:
  assumes "MemManagerInit boot img edx junk s = ret s'" "GetPhysicalTableLocation boot img (\<not> bit edx 3) junk = ret (n, t)"
  shows "MemKernelPageDirectory s' w =
    (if unat w \<in> direct_slots n then (if bit edx 3 then huge_entry (unat w) else table_entry (t + uint ((n * 8 + 4095) div 4096)))
     else if 0x3C0 \<le> unat w \<and> unat w < 0x400 then virtual_entry img (unat w) else MemKernelPageDirectory s w)"
proof -
  have "unat (min ((n + 1023) div 1024) 0x3C0) \<le> 0x3C0"
    using min.cobounded2 [of "(n + 1023) div 1024" "0x3C0"] by (simp only: word_le_nat_alt) simp
  then have "\<forall>i \<in> set [0x300..<unat (min ((n + 1023) div 1024) 0x3C0) + 0x300]. i < 2 ^ 32" by auto
  then show ?thesis using assms
    by (auto simp: MemManagerInit_def Let_def direct_slots_def more_directory [OF fill_state_table_more]
        huge_directory_at small_directory_at virtual_directory_at simp del: upt_rec_numeral)
qed

lemma direct_slots_iff:
  assumes "uint n < 2 ^ 20"
  shows "i \<in> direct_slots n \<longleftrightarrow> 0x300 \<le> i \<and> int i < min ((uint n + 1023) div 1024) 0x3C0 + 0x300"
proof -
  have "uint ((n + 1023) div 1024) = (uint n + 1023) div 1024"
    using assms by (simp add: uint_div uint_word_ariths)
  moreover have "int (unat (min ((n + 1023) div 1024) 0x3C0)) = min (uint ((n + 1023) div 1024)) 0x3C0"
    by (simp add: min_def word_le_def)
  ultimately have "int (unat (min ((n + 1023) div 1024) 0x3C0)) = min ((uint n + 1023) div 1024) 0x3C0" by simp
  then show ?thesis unfolding direct_slots_def atLeastLessThan_iff by linarith
qed

lemma virt_page:
  assumes "0 \<le> p" "p < MEM_KFIXED_MAX_PAGE"
  shows "uint (MemPhys2Virt p) = 0xC0000000 + p * 4096" "int (unat (drop_bit 22 (MemPhys2Virt p))) = 0x300 + p div 1024"
proof -
  have "uint (of_int p * 4096 :: u32) = p * 4096"
    using assms by (simp add: kfixed_max uint_word_ariths uint_word_of_int mod_mult_left_eq mod_pos_pos_trivial)
  then show u: "uint (MemPhys2Virt p) = 0xC0000000 + p * 4096"
    using assms by (simp add: MemPhys2Virt_def KERNEL_VIRTUAL_BASE_def PAGE_SIZE_def kfixed_max uint_word_ariths(1) mod_pos_pos_trivial)
  show "int (unat (drop_bit 22 (MemPhys2Virt p))) = 0x300 + p div 1024"
    by (simp add: drop_bit_eq_div uint_div u)
qed

lemma huge_entry_flags: "e_present (huge_entry i)" "e_writable (huge_entry i)" "bit (huge_entry i) 7"
  by (simp_all add: huge_entry_def e_present_def e_writable_def set_pageID_bits set_flag_bits)

lemma huge_entry_pageID: "0x300 \<le> i \<Longrightarrow> i < 0x400 \<Longrightarrow> pageID (huge_entry i) = (int i - 0x300) * 0x400"
  by (simp add: huge_entry_def signed_take_bit_int_eq_self)

text \<open>
  The direct mapping. On a processor with 4 MB pages and at most 768 MB of memory, after the start the
  directory entry for the kernel address of every physical page is a present, writable 4 MB page, and
  the processor translates the address to that physical page.
\<close>

theorem direct_map_linear:
  assumes "MemManagerInit boot img edx junk s = ret s'" "bit edx 3"
    and "GetPhysicalTableLocation boot img False junk = ret (n, t)" "uint n \<le> MEM_KFIXED_MAX_PAGE" "0 \<le> p" "p < uint n"
    and "d = MemKernelPageDirectory s' (drop_bit 22 (MemPhys2Virt p))"
  shows "e_present d \<and> e_writable d \<and> bit d 7 \<and> pageID d * 4096 + uint (MemPhys2Virt p) mod 0x400000 = p * 4096"
proof -
  have p: "p < MEM_KFIXED_MAX_PAGE" using assms(4,6) by simp
  let ?i = "unat (drop_bit 22 (MemPhys2Virt p))"
  have i: "int ?i = 0x300 + p div 1024" by (rule virt_page [OF assms(5) p])
  have n: "uint n < 2 ^ 20" using assms(4) by (simp add: kfixed_max)
  have range: "0x300 \<le> ?i" "?i < 0x3C0" using i assms(5) p unfolding kfixed_max by linarith+
  have "p div 1024 < (uint n + 1023) div 1024" using assms(6) by linarith
  then have "?i \<in> direct_slots n" using range i unfolding direct_slots_iff [OF n] by linarith
  then have d: "d = huge_entry ?i"
    using manager_init_directory [OF assms(1), of n t] assms(2,3,7) by simp
  then have "pageID d = p div 1024 * 0x400" using range i huge_entry_pageID [of ?i] by simp
  moreover have "uint (MemPhys2Virt p) mod 0x400000 = p mod 1024 * 4096"
    using virt_page(1) [OF assms(5) p] mod_mult_self3 [of 768 "0x400000" "p * 4096"] mult_mod_left [of p 1024 4096] by simp
  moreover have "p div 1024 * 0x400 * 4096 + p mod 1024 * 4096 = p * 4096" using div_mult_mod_eq [of p 1024] by linarith
  ultimately show ?thesis using huge_entry_flags d by (simp only: simp_thms)
qed

theorem direct_map_linear_witness:
  "\<exists>s'. MemManagerInit demo_boot demo_image 8 0 demo_mm = ret s' \<and>
     pageID (MemKernelPageDirectory s' 0x301) * 4096 + 0x3000 = 0x403 * 4096"
proof -
  have bit3: "bit (8 :: u32) 3" by (simp add: bit_iff_odd)
  obtain s' where init: "MemManagerInit demo_boot demo_image 8 0 demo_mm = ret s'"
    using bit3 by (auto simp: MemManagerInit_def Let_def demo_location simp del: upt_rec_numeral)
  show ?thesis using direct_map_linear [OF init bit3 demo_location, of "0x403"] init
    by (simp add: kfixed_max MemPhys2Virt_def KERNEL_VIRTUAL_BASE_def PAGE_SIZE_def)
qed

text \<open>
  With more than 768 MB of memory the limit of \<open>0x3C0\<close> entries does not protect the virtual region: its first
  directory entry becomes a 4 MB page of the direct mapping. With more than 1 GB the loop also writes past
  the end of the directory.
\<close>

theorem big_memory_overwrites:
  assumes "MemManagerInit boot img edx junk s = ret s'" "bit edx 3"
    and "GetPhysicalTableLocation boot img False junk = ret (n, t)" "0x30000 < uint n"
  shows "MemKernelPageDirectory s' 0x3C0 = huge_entry 0x3C0" "0x40000 < uint n \<Longrightarrow> MemKernelPageDirectory s' 0x400 = huge_entry 0x400"
proof -
  have n: "uint n < 2 ^ 20" using assms(3) num_pages_small by (auto simp: GetPhysicalTableLocation_def Let_def)
  have "0x3C0 \<in> direct_slots n" "0x40000 < uint n \<Longrightarrow> 0x400 \<in> direct_slots n"
    using assms(4) unfolding direct_slots_iff [OF n] by simp_all
  then show "MemKernelPageDirectory s' 0x3C0 = huge_entry 0x3C0" "0x40000 < uint n \<Longrightarrow> MemKernelPageDirectory s' 0x400 = huge_entry 0x400"
    using manager_init_directory [OF assms(1), of n t "0x3C0"] manager_init_directory [OF assms(1), of n t "0x400"] assms(2,3)
    by simp_all
qed

text \<open>Without 4 MB pages the table does not change from one pass to the next: all entries name the same table.\<close>

theorem small_pages_one_table:
  assumes "MemManagerInit boot img edx junk s = ret s'" "\<not> bit edx 3"
    and "GetPhysicalTableLocation boot img True junk = ret (n, t)" "unat i \<in> direct_slots n" "unat j \<in> direct_slots n"
  shows "MemKernelPageDirectory s' i = MemKernelPageDirectory s' j"
  using manager_init_directory [OF assms(1), of n t] assms(2-5) by simp

text \<open>The directory entries of the virtual region all name the first page of its table array.\<close>

theorem virtual_entries_same:
  assumes "KERNEL_VIRTUAL_BASE \<le> virtualTables img" "page_aligned (virtualTables img)" "0x3C0 \<le> i" "i < 0x400"
  shows "virtual_entry img i = virtual_entry img 0x3C0"
proof -
  define a where "a = uint (virtualTables img) - 0xC0000000"
  have a: "0 \<le> a" "a < 2 ^ 30" "a mod 4096 = 0"
    using assms(1,2) uint_lt2p [of "virtualTables img"] uint_mod [of "virtualTables img" 4096]
    by (simp_all add: a_def word_le_def KERNEL_VIRTUAL_BASE_def page_aligned_def mod_diff_eq [symmetric])
  have "sint (virtualTables img + 4 * (of_nat j - 0x3C0) - KERNEL_VIRTUAL_BASE) sdiv 4096 = a div 4096"
    if j: "0x3C0 \<le> j" "j < 0x400" for j
  proof -
    have w: "virtualTables img + 4 * (of_nat j - 0x3C0) - KERNEL_VIRTUAL_BASE = of_int (a + 4 * (int j - 0x3C0))"
      by (simp add: a_def KERNEL_VIRTUAL_BASE_def)
    have "uint (of_int (a + 4 * (int j - 0x3C0)) :: u32) = a + 4 * (int j - 0x3C0)"
      unfolding uint_word_of_int using a j by (intro mod_pos_pos_trivial) simp_all
    then have u: "sint (of_int (a + 4 * (int j - 0x3C0)) :: u32) = a + 4 * (int j - 0x3C0)"
      using a(2) j by (subst sint_low) simp_all
    obtain k where k: "a = 4096 * k" using a(3) by (auto simp: mod_eq_0_iff_dvd)
    have "(4 * (int j - 0x3C0)) div 4096 = 0" using j by (intro div_pos_pos_trivial) simp_all
    then have q: "(a + 4 * (int j - 0x3C0)) div 4096 = a div 4096"
      using div_mult_self2 [of "4096 :: int" "4 * (int j - 0x3C0)" k] by (simp add: k add.commute)
    have "0 \<le> a + 4 * (int j - 0x3C0)" using a(1) j by simp
    then show ?thesis unfolding w u q [symmetric] by (rule sdiv_pos) simp
  qed
  from this [of i] this [of "0x3C0"] show ?thesis using assms(3,4) by (simp add: virtual_entry_def)
qed

section \<open>Freeing the start code\<close>

text \<open>
  The start code is freed: \<open>MemFreeInitPages\<close> makes exactly the pages between the two symbols of the linker
  free, whatever their reference counts were.
\<close>

theorem init_pages_freed:
  assumes "kernel_init_start_page img \<le> kernel_end_page img" "kernel_end_page img \<le> 0x100000"
  shows "page_refs (MemFreeInitPages img s) =
    (\<lambda>q. if uint (kernel_init_start_page img) \<le> q \<and> q < uint (kernel_end_page img) then 0 else page_refs s q)"
proof -
  let ?a = "kernel_init_start_page img" and ?b = "kernel_end_page img"
  have u: "uint ?a \<le> uint ?b" "uint ?b \<le> 0x100000" using assms by (simp_all add: word_le_def)
  then have sa: "sint ?a = uint ?a" by (auto intro!: sint_low)
  have "int (unat (?b - ?a)) = uint ?b - uint ?a" using assms(1) by (simp add: uint_sub_if' word_le_def)
  then show ?thesis by (simp only: MemFreeInitPages_def MemPhysicalFree_def free_pages_refs sa) simp
qed

end
