(* ===== verification/Start_Up.thy ===== *)
theory Start_Up
  imports Interrupt Hw_Time Slab_Init Mem_Init
begin

text \<open>
  Start of the components behind the memory manager, in the order of \<open>kMain\<close> (\<open>kernel/src/kMain.c\<close>): the slab allocator on
  the pages that \<open>MemManagerInit\<close> left free, \<open>CpuInitLate\<close> of \<open>kernel/src/cpu.c\<close>, \<open>TimerInit\<close> of \<open>kernel/src/timer.c\<close> and
  \<open>IoBlockCacheInit\<close> of \<open>kernel/src/io/bcache.c\<close>.

  The slab allocator and the memory manager share the state of the physical pages; \<open>slab_of\<close> puts the one of the memory
  manager under the slab allocator. \<open>TimerInit\<close> also gives the list of its port writes.
\<close>

section \<open>The processor\<close>

definition CPU_EXTRA_FPU :: u32 where "CPU_EXTRA_FPU = 0x6C"
definition CPU_EXTRA_FXSAVE :: u32 where "CPU_EXTRA_FXSAVE = 0x200"

definition CpuHasFpu :: "u32 \<Rightarrow> bool" where
  "CpuHasFpu cpuFeaturesEDX \<longleftrightarrow> cpuFeaturesEDX AND 1 \<noteq> 0"

definition CpuHasFxSave :: "u32 \<Rightarrow> bool" where
  "CpuHasFxSave cpuFeaturesEDX \<longleftrightarrow> cpuFeaturesEDX AND push_bit 24 1 \<noteq> 0"

definition CpuHasSse :: "u32 \<Rightarrow> bool" where
  "CpuHasSse cpuFeaturesEDX \<longleftrightarrow> CpuHasFxSave cpuFeaturesEDX \<and> cpuFeaturesEDX AND push_bit 25 1 \<noteq> 0"

text \<open>The result is \<open>fpuStateCache\<close>.\<close>

definition CpuInitLate :: "u32 \<Rightarrow> 'a slab_state_scheme \<Rightarrow> (u32 \<times> 'a slab_state_scheme) run" where
  "CpuInitLate cpuFeaturesEDX s =
     (if CpuHasFxSave cpuFeaturesEDX then MemSlabCreate CPU_EXTRA_FXSAVE 0 s else MemSlabCreate CPU_EXTRA_FPU 0 s)"

section \<open>The block cache\<close>

definition sizeof_IoBlock :: u32 where "sizeof_IoBlock = 52"

text \<open>The result is \<open>blockHeadCache\<close>.\<close>

definition IoBlockCacheInit :: "'a slab_state_scheme \<Rightarrow> (u32 \<times> 'a slab_state_scheme) run" where
  "IoBlockCacheInit s = MemSlabCreate sizeof_IoBlock 0 s"

section \<open>The timer\<close>

definition PIT_RELOADVAL :: u32 where "PIT_RELOADVAL = 11932"

definition TimerInit :: "(u8 \<Rightarrow> u8) \<Rightarrow> u8 \<Rightarrow> 'a intr_state_scheme \<Rightarrow> ((u16 \<times> u8) list \<times> 'a intr_state_scheme) run" where
  "TimerInit cmos keyboardPort s =
     (case IntrRegister 0 0 (Some TimerIrq) s of
        (False, _) \<Rightarrow> panic
      | (True, s1) \<Rightarrow>
          (let now = sint (TimerGetCMOSTime cmos);
               s2 = s1\<lparr>currentTime := now, startupTime := now\<rparr>
           in ret ([(0x43, 0x34), (0x40, ucast (PIT_RELOADVAL AND 0xFF)), (0x40, ucast (drop_bit 8 PIT_RELOADVAL)), (0x43, 0xB6),
                    (0x61, keyboardPort AND 0xFC)], TimerBeepStop s2)))"

section \<open>The shared pages\<close>

definition slab_of :: "'a phys_state_scheme \<Rightarrow> slab_state \<Rightarrow> slab_state" where
  "slab_of s t = phys_state.extend (phys_state.truncate s) (phys_state.more t)"

lemma slab_of_fields [simp]:
  "page_refs (slab_of s t) = page_refs s" "zones (slab_of s t) = zones s" "highestPage (slab_of s t) = highestPage s"
  "cacheAt (slab_of s t) = cacheAt t" "rootCache (slab_of s t) = rootCache t"
  by (cases s; cases t; simp add: slab_of_def phys_state.defs page_refs_def fun_eq_iff)+

section \<open>Properties\<close>

lemma kernel_zone:
  assumes "zones s = (\<lambda>_. no_zone)" "0x1000 < uint n"
  shows "zones (fill_state_table boot img n t e s) MEM_KERNEL = \<lparr>headPtr = 0x1000, zstart = 0x1000, zend = min (uint n) MEM_KFIXED_MAX_PAGE\<rparr>"
  using assms(2) by (simp add: fill_state_table_def Let_def MemPhysicalInit_def min_def)

lemma boot_page_ready:
  assumes "zones s = (\<lambda>_. no_zone)" "MemManagerInit boot img features junk s = ret s'"
    and "GetPhysicalTableLocation boot img (\<not> bit features 3) junk = ret (n, t)"
    and q: "0x1000 \<le> q" "q < uint n" "q < MEM_KFIXED_MAX_PAGE" "page_refs s' q = 0"
  shows "zones_ok s'" "live_zone s' MEM_KERNEL" "q \<in> zone_free (zones s' MEM_KERNEL) (page_refs s')" "zend (zones s' MEM_KERNEL) \<le> MEM_KFIXED_MAX_PAGE"
proof -
  obtain e s2 where s': "s' = fill_state_table boot img n t e s2" "zones s2 = zones s"
    using manager_init_cases [OF assms(2)] assms(3) by auto
  have z: "zones s' MEM_KERNEL = \<lparr>headPtr = 0x1000, zstart = 0x1000, zend = min (uint n) MEM_KFIXED_MAX_PAGE\<rparr>"
    unfolding s'(1) using assms(1) s'(2) q by (intro kernel_zone) simp_all
  show "zones_ok s'" using fill_state_table_zones [of s2] s' assms(1) by simp
  show "live_zone s' MEM_KERNEL" using q by (simp add: live_zone_def z)
  show "q \<in> zone_free (zones s' MEM_KERNEL) (page_refs s')" "zend (zones s' MEM_KERNEL) \<le> MEM_KFIXED_MAX_PAGE" using q by (simp_all add: zone_free_def z)
qed

text \<open>
  From the boot loader to \<open>MemKAlloc\<close>. When the kernel image lies inside memory, the static root cache inside the
  image, and the start of the memory manager leaves a free page between 16 MB and the end of the fixed window,
  then \<open>MemSlabInit\<close> on the pages of \<open>MemManagerInit\<close> returns, and the caches it made serve
  every size class of \<open>MemKAlloc\<close>. The page of the root cache is not the one it takes, because
  the start marked the image as used.
\<close>

theorem boot_slab_caches:
  assumes "zones s = (\<lambda>_. no_zone)" "MemManagerInit boot img features junk s = ret s'"
    and "GetPhysicalTableLocation boot img (\<not> bit features 3) junk = ret (n, t)"
    and "kernel_end_page img \<le> 0x100000" "kernel_end_page img \<le> n"
    and "0xA0 \<le> MemVirt2Phys (rootCache u)" "MemVirt2Phys (rootCache u) < uint (kernel_end_page img)" "cacheAt u (rootCache u) = root_cache"
    and "0x1000 \<le> q" "q < uint n" "q < MEM_KFIXED_MAX_PAGE" "page_refs s' q = 0"
  shows "\<exists>v. MemSlabInit (slab_of s' u) = ret v \<and> inj_on (kAllocCache v) {..<11} \<and>
    (\<forall>i < 11. cacheAt v (kAllocCache v i) = cache_layout (push_bit i 8) 0)"
proof -
  obtain e s2 where s': "s' = fill_state_table boot img n t e s2" using manager_init_cases [OF assms(2)] assms(3) by auto
  have k: "sint (kernel_end_page img) = uint (kernel_end_page img)" using assms(4) by (intro sint_low) (simp add: word_le_def)
  have "page_refs s' (MemVirt2Phys (rootCache u)) = 1"
    using fill_state_table_marked [of n boot img t e s2] assms(5-7) k
    by (auto simp: s' marked_def boot_used_def word_le_def)
  moreover have "kernel_page_ready (slab_of s' u)"
    using boot_page_ready [OF assms(1-3,9-12)] by (auto simp: kernel_page_ready_def zones_ok_def live_zone_def)
  ultimately show ?thesis using slab_init_run [of "slab_of s' u"] assms(8) by auto
qed

text \<open>
  The timer. After \<open>IntrInit\<close>, \<open>TimerInit\<close> returns with its handler alone on line 0, the line open at the interrupt
  controller, and the clock at the time of the CMOS; the two data bytes written to channel 0 are the reload
  value, low byte first. A second \<open>TimerInit\<close> panics, because the line is taken.
\<close>

theorem timer_started:
  assumes "IntrDispatchTable s = initial_table"
  shows "\<exists>ports s'. TimerInit cmos k (IntrInit isrList isr66 s) = ret (ports, s') \<and> handlers_of s' 0 = [TimerIrq] \<and> \<not> irq_masked s' 0 \<and>
    currentTime s' = sint (TimerGetCMOSTime cmos) \<and> startupTime s' = currentTime s' \<and>
    (\<exists>lo hi. filter (\<lambda>w. fst w = 0x40) ports = [(0x40, lo), (0x40, hi)] \<and> ucast lo OR push_bit 8 (ucast hi) = PIT_RELOADVAL) \<and>
    TimerInit cmos k s' = panic"
proof -
  have vec: "irq_vector 0 = 32" "\<not> 32 < length exception_handlers" by (simp_all add: irq_vector_def exception_handlers_def)
  have mask: "\<not> bit (0xFB AND NOT 1 :: u8) 0" by (simp add: bit_iff_odd)
  show ?thesis using assms mask
    by (simp add: TimerInit_def IntrRegister_def IntrInit_def Let_def initial_table_def vec empty_entry_def set_chain_def unmask_irq_def
        TimerBeepStop_def handlers_of_def irq_masked_def PIT_RELOADVAL_def)
qed

text \<open>33 megabytes above the first one, and the root cache in page \<open>0x120\<close> of the image.\<close>

definition big_boot :: boot_lists where
  "big_boot = \<lparr>bi_mmap = [\<lparr>mm_addr = 0x100000, mm_len = 0x2000000, mm_type = 1\<rparr>], bi_mods = []\<rparr>"

lemma big_location: "GetPhysicalTableLocation big_boot demo_image False 0 = ret (0x2100, 0x140)"
proof -
  let ?zs = "[(1, 0x100000), (0x100000, 0x140000)] :: (u32 \<times> u32) list"
  have "bounds_loop ?zs 0x10800 0x100000 0x2100000 = Some (Some 0x140000)"
    by (subst bounds_loop.simps, simp add: BOUNDS_CHECK_def, subst bounds_loop.simps, simp add: BOUNDS_CHECK_def)
  moreover have "block_start \<lparr>mm_addr = 0x100000, mm_len = 0x2000000, mm_type = 1\<rparr> = 0x100000"
    "block_end \<lparr>mm_addr = 0x100000, mm_len = 0x2000000, mm_type = 1\<rparr> = 0x2100000"
    by (simp_all add: block_start_def block_end_def)
  ultimately have "place_table ?zs 0x10800 (bi_mmap big_boot) = ret 0x140000"
    by (simp add: big_boot_def MULTIBOOT_MEMORY_AVAILABLE_def)
  moreover have "forbidden_zones (kernel_end_page demo_image) (bi_mods big_boot) = ?zs" by (simp add: forbidden_zones_def demo_image_def big_boot_def)
  moreover have "num_pages (bi_mmap big_boot) 0 = 0x2100"
    by (simp add: num_pages_def raise_highest_def big_boot_def MULTIBOOT_MEMORY_AVAILABLE_def)
  ultimately show ?thesis by (simp add: GetPhysicalTableLocation_def table_length_def)
qed

theorem boot_slab_caches_witness:
  "\<exists>s' v. MemManagerInit big_boot demo_image 8 0 demo_mm = ret s' \<and>
     MemSlabInit (slab_of s' (demo_start\<lparr>rootCache := 0xC0120000\<rparr>)) = ret v \<and> cacheAt v (kAllocCache v 10) = cache_layout 8192 0"
proof -
  let ?u = "demo_start\<lparr>rootCache := 0xC0120000\<rparr>"
  have bit3: "bit (8 :: u32) 3" by (simp add: bit_iff_odd)
  obtain s' where init: "MemManagerInit big_boot demo_image 8 0 demo_mm = ret s'"
    using bit3 by (auto simp: MemManagerInit_def Let_def big_location simp del: upt_rec_numeral)
  from manager_init_cases [OF this] obtain e s2 where s': "s' = fill_state_table big_boot demo_image 0x2100 0x140 e s2"
    and e: "e \<le> 0x140 + uint (((0x2100 :: u32) * 8 + 4095) div 4096) + uint (((0x2100 :: u32) * 4 + 4095) div 4096)"
    using bit3 by (auto simp: big_location)
  have "e \<le> 0x15A" using e by simp
  then have "0x2000 \<notin> boot_used big_boot demo_image 0x2100 0x140 e"
    by (auto simp: boot_used_def big_boot_def demo_image_def is_reserved_def MULTIBOOT_MEMORY_AVAILABLE_def)
  then have free: "page_refs s' 0x2000 = 0"
    using fill_state_table_marked [of "0x2100" big_boot demo_image "0x140" e s2] by (simp add: s' marked_def)
  have root: "MemVirt2Phys (rootCache ?u) = 0x120" by (simp add: MemVirt2Phys_def KERNEL_VIRTUAL_BASE_def signed_divide_int_def)
  have z: "zones demo_mm = (\<lambda>_. no_zone)" by (simp add: demo_mm_def blank_vm_def vm_state.defs)
  have "\<exists>v. MemSlabInit (slab_of s' ?u) = ret v \<and> inj_on (kAllocCache v) {..<11} \<and> (\<forall>i < 11. cacheAt v (kAllocCache v i) = cache_layout (push_bit i 8) 0)"
    by (rule boot_slab_caches [OF z init, of "0x2100" "0x140" ?u "0x2000"])
      (use bit3 big_location free root in \<open>simp_all add: demo_image_def kfixed_max demo_start_def\<close>)
  then obtain v where v: "MemSlabInit (slab_of s' ?u) = ret v" "\<forall>i < 11. cacheAt v (kAllocCache v i) = cache_layout (push_bit i 8) 0" by blast
  from v(2) [rule_format, of 10] have "cacheAt v (kAllocCache v 10) = cache_layout 8192 0" by (simp add: push_bit_eq_mult)
  then show ?thesis using init v(1) by blast
qed

theorem timer_started_witness:
  "\<exists>ports s'. TimerInit noon_registers 0 (IntrInit (\<lambda>_. 0) 0 demo_intr) = ret (ports, s') \<and> handlers_of s' 0 = [TimerIrq]"
  using timer_started [OF demo_intr_table, of noon_registers 0 "\<lambda>_. 0" 0] by blast

text \<open>What the clock adds at an interrupt is the length of the period that \<open>PIT_OSCILLATOR_RATE\<close> and the reload value give, to less than
  one part in two million.\<close>

lemma tick_length: "2 ^ 21 * \<bar>PIT_TICKS_PER_INTERRUPT * uint PIT_OSCILLATOR_RATE - 2 ^ 32 * uint PIT_RELOADVAL\<bar> < 2 ^ 32 * uint PIT_RELOADVAL"
  by (simp add: PIT_TICKS_PER_INTERRUPT_def PIT_OSCILLATOR_RATE_def PIT_RELOADVAL_def)

lemma object_alignment: "take_bit 4 (MemPhys2Virt p + of_nat i * 512) = 0"
proof -
  have "MemPhys2Virt p = push_bit 4 (0xC000000 + push_bit 8 (of_int p))"
    by (simp add: MemPhys2Virt_def KERNEL_VIRTUAL_BASE_def PAGE_SIZE_def push_bit_eq_mult algebra_simps)
  moreover have "of_nat i * 512 = (push_bit 4 (of_nat i * 32) :: u32)" by (simp add: push_bit_eq_mult)
  ultimately have "MemPhys2Virt p + of_nat i * 512 = push_bit 4 (0xC000000 + push_bit 8 (of_int p) + of_nat i * 32)"
    by (simp only: push_bit_add)
  then show ?thesis by (simp only: take_bit_push_bit) simp
qed

text \<open>
  Save areas of the floating point unit. With room for one more cache \<open>CpuInitLate\<close> makes a cache whose objects
  hold a whole image: 512 bytes for \<open>fxsave\<close>, 108 without. With \<open>fxsave\<close> every object
  of every slab of the cache is aligned to 16 bytes, as the instruction requires.
\<close>

theorem cpu_save_areas:
  assumes "cache_pool (rootCache s) s X" "X \<noteq> {}" "rootCache s \<notin> X" "0 \<notin> X"
  shows "\<exists>cache s'. CpuInitLate features s = ret (cache, s') \<and> cache \<in> X \<and> cache_pool (rootCache s) s' (X - {cache}) \<and>
    unat (objectSize (cacheAt s' cache)) = 2 * length (fpu_init (CpuHasFxSave features) daz) \<and>
    (CpuHasFxSave features \<longrightarrow> (\<forall>p n. \<forall>x \<in> set (slab_objects (MemPhys2Virt p) (objectSize (cacheAt s' cache)) n). take_bit 4 x = 0))"
proof -
  have sizes: "(CPU_EXTRA_FXSAVE + 3) AND NOT 3 = 0x200" "(0x200 :: u32) < 8 * PAGE_SIZE" "(0x200 :: u32) \<noteq> 0"
    "(CPU_EXTRA_FPU + 3) AND NOT 3 = 0x6C" "(0x6C :: u32) < 8 * PAGE_SIZE" "(0x6C :: u32) \<noteq> 0"
    by (simp_all add: CPU_EXTRA_FXSAVE_def CPU_EXTRA_FPU_def PAGE_SIZE_def)
  have aligned: "\<forall>p n. \<forall>x \<in> set (slab_objects (MemPhys2Virt p) 0x200 n). take_bit 4 x = 0"
    using object_alignment by (auto simp: slab_objects_def)
  show ?thesis
  proof (cases "CpuHasFxSave features")
    case True
    then show ?thesis using create_from_pool [OF assms sizes(1-3), of 0] aligned
      by (auto simp: CpuInitLate_def created_def cache_layout_def Let_def fpu_init_def)
  next
    case False
    then show ?thesis using create_from_pool [OF assms sizes(4-6), of 0]
      by (auto simp: CpuInitLate_def created_def cache_layout_def Let_def fpu_init_def)
  qed
qed

theorem cpu_save_areas_witness:
  "\<exists>cache s'. CpuInitLate 0x1000000 ((demo_slab 0)\<lparr>rootCache := 1\<rparr>) = ret (cache, s') \<and> objectSize (cacheAt s' cache) = 512"
proof -
  let ?s = "(demo_slab 0)\<lparr>rootCache := 1\<rparr>"
  have "cache_inv ?s 1 (\<lambda>_. [0xC0000000, 0xC0000800])"
    by (simp add: cache_inv_def demo_slab_def cache_slabs_def slab_rep_def MEM_SLAB_END_def)
  then have "cache_pool (rootCache ?s) ?s {0xC0000000, 0xC0000800}"
    by (auto simp: cache_pool_def free_objs_def cache_slabs_def demo_slab_def intro!: exI [of _ "\<lambda>_. [0xC0000000, 0xC0000800]"])
  moreover have "CpuHasFxSave 0x1000000" by (simp add: CpuHasFxSave_def push_bit_eq_mult)
  ultimately obtain cache s' where "CpuInitLate 0x1000000 ?s = ret (cache, s')" "unat (objectSize (cacheAt s' cache)) = 512"
    using cpu_save_areas [of ?s "{0xC0000000, 0xC0000800}" "0x1000000" False] by (auto simp: demo_slab_def fpu_init_def)
  moreover from this(2) have "objectSize (cacheAt s' cache) = 512" by (simp add: word_unat_eq_iff)
  ultimately show ?thesis by blast
qed

end
