(* ===== verification/Zalloc.thy ===== *)
theory Zalloc
  imports Vmalloc Slab_Init
begin

text \<open>
  The allocators that clear what they allocate: \<open>MemVirtualZAlloc\<close> of \<open>kernel/src/mm/vmalloc.c\<close>, \<open>MemSlabZAlloc\<close> and
  \<open>MemKZAlloc\<close> of \<open>kernel/src/mm/slab.c\<close>, and with them what \<open>MemVirtualAlloc\<close> maps.

  A block of the virtual region is cleared through the page tables of the region, an object of a cache
  through the fixed window. Memory is made of words; the last bytes of a length that is not a multiple of four
  are the low bytes of a word.
\<close>

section \<open>Clearing\<close>

definition clear_low :: "nat \<Rightarrow> u32 \<Rightarrow> u32" where
  "clear_low r w = w AND NOT (mask (8 * r))"

text \<open>The physical address behind an address of the virtual region.\<close>

definition kernel_phys :: "u32 \<Rightarrow> 'a paging_state_scheme \<Rightarrow> u32" where
  "kernel_phys a s = entry (pageID (MemVirtualPageTables s (vpt_index a))) 0 + (a AND 0xFFF)"

fun wipe_virtual :: "nat \<Rightarrow> u32 \<Rightarrow> 'a paging_state_scheme \<Rightarrow> 'a paging_state_scheme" where
  "wipe_virtual 0 a s = s"
| "wipe_virtual (Suc n) a s = wipe_virtual n (a + 4) (set_word (kernel_phys a s) 0 s)"

definition memset_virtual :: "u32 \<Rightarrow> u32 \<Rightarrow> 'a paging_state_scheme \<Rightarrow> 'a paging_state_scheme" where
  "memset_virtual a bytes s =
     (let s1 = wipe_virtual (unat bytes div 4) a s; a' = kernel_phys (a + of_nat (4 * (unat bytes div 4))) s1
      in if unat bytes mod 4 = 0 then s1 else set_word a' (clear_low (unat bytes mod 4) (pmem s1 a')) s1)"

definition MemVirtualZAlloc :: "u32 \<Rightarrow> 'a vm_state_scheme \<Rightarrow> (u32 \<times> 'a vm_state_scheme) run" where
  "MemVirtualZAlloc bytes s = seq (MemVirtualAlloc bytes s) (\<lambda>(data, s1).
     ret (data, if data \<noteq> 0 then memset_virtual data bytes s1 else s1))"

fun wipe_object :: "nat \<Rightarrow> u32 \<Rightarrow> (u32 \<Rightarrow> u32) \<Rightarrow> (u32 \<Rightarrow> u32)" where
  "wipe_object 0 a m = m"
| "wipe_object (Suc n) a m = wipe_object n (a + 4) (m(a := 0))"

definition memset_object :: "u32 \<Rightarrow> u32 \<Rightarrow> (u32 \<Rightarrow> u32) \<Rightarrow> (u32 \<Rightarrow> u32)" where
  "memset_object a bytes m =
     (let m1 = wipe_object (unat bytes div 4) a m; a' = a + of_nat (4 * (unat bytes div 4))
      in if unat bytes mod 4 = 0 then m1 else m1(a' := clear_low (unat bytes mod 4) (m1 a')))"

definition MemSlabZAlloc :: "u32 \<Rightarrow> 'a slab_state_scheme \<Rightarrow> (u32 \<times> 'a slab_state_scheme) run" where
  "MemSlabZAlloc cache s = seq (MemSlabAlloc 2 cache s) (\<lambda>(obj, s1).
     ret (obj, if obj \<noteq> 0 then s1\<lparr>smem := memset_object obj (objectSize (cacheAt s1 cache)) (smem s1)\<rparr> else s1))"

definition MemKZAlloc :: "u32 \<Rightarrow> 'a slab_state_scheme \<Rightarrow> (u32 \<times> 'a slab_state_scheme) run" where
  "MemKZAlloc bytes s = seq (MemKAlloc bytes s) (\<lambda>(data, s1).
     ret (data, if data \<noteq> 0 then s1\<lparr>smem := memset_object data bytes (smem s1)\<rparr> else s1))"

section \<open>What \<open>MemVirtualAlloc\<close> maps\<close>

definition kernel_entry :: "MemPhysPage \<Rightarrow> u32" where
  "kernel_entry p = set_pageID p (set_flag 8 True (set_flag 1 True (set_flag 0 True 0)))"

lemma unat_page_addr: "unat i < 65536 \<Longrightarrow> unat (page_addr i) = unat i * 4096 + 4026531840"
proof -
  assume i: "unat i < 65536"
  then have "unat (i * 4096) = unat i * 4096" by (simp add: unat_word_ariths)
  then show ?thesis using i by (simp add: page_addr_def PAGE_SIZE_def unat_plus_32)
qed

lemma page_addr_aligned: "page_addr i AND 0xFFFFF000 = page_addr i"
proof -
  have "page_addr i = push_bit 12 (i + 0xF0000)" by (simp add: page_addr_def PAGE_SIZE_def push_bit_eq_mult algebra_simps)
  moreover have "(0xFFFFF000 :: u32) = NOT (mask 12)" by (simp add: mask_eq_exp_minus_1)
  ultimately show ?thesis by (auto simp: bit_eq_iff bit_simps)
qed

lemma map_slot:
  assumes "unat i < 65535" "\<not> e_present (MemVirtualPageTables s i)"
  shows "MemMapPage (page_addr i) p s = (True, s\<lparr>MemVirtualPageTables := (MemVirtualPageTables s)(i := kernel_entry p)\<rparr>)"
proof -
  have "vpt_index (page_addr i) = i"
    using page_addr_index(1) [of i] assms(1) by (simp add: vpt_index_def MEM_KFIXED_MAX_def PAGE_SIZE_def)
  moreover have "\<not> page_addr i < MEM_KFIXED_MAX" "page_addr i \<noteq> 0xFFFFF000"
    using assms(1) unat_page_addr [of i] by (auto simp: MEM_KFIXED_MAX_def word_less_nat_alt)
  ultimately show ?thesis using assms(2) by (simp add: MemMapPage_def page_addr_aligned kernel_entry_def)
qed

text \<open>Taking one page from a zone leaves the other free pages of the zone.\<close>

lemma zone_free_after:
  assumes "MemPhysicalAlloc 1 i s = ret (p, s')" "page_refs s' = (page_refs s)(p := 1)"
  shows "zone_free (zones s' i) (page_refs s') = zone_free (zones s i) (page_refs s) - {p}"
  using alloc_bounds [OF assms(1), of i] by (auto simp: zone_free_def assms(2))

lemma zone_take:
  assumes "zones_ok s" "live_zone s i" "Suc n \<le> card (zone_free (zones s i) (page_refs s))"
  obtains p s' where "MemPhysicalAlloc 1 i s = ret (p, s')" "page_refs s p = 0" "page_refs s' = (page_refs s)(p := 1)"
    "zones_ok s'" "live_zone s' i" "n \<le> card (zone_free (zones s' i) (page_refs s'))" "phys_state.more s' = phys_state.more s"
proof -
  have "zone_free (zones s i) (page_refs s) \<noteq> {}" using assms(3) by auto
  then obtain p s' where p: "MemPhysicalAlloc 1 i s = ret (p, s')" "p \<in> zone_free (zones s i) (page_refs s)"
    using alloc_one_zone [OF assms(1,2)] by blast
  have i: "0 \<le> i" "i \<le> 2" using assms(2) by (auto simp: live_zone_def)
  note new = alloc_one_fresh [OF p(1) assms(1) i]
  have "card (zone_free (zones s' i) (page_refs s')) = card (zone_free (zones s i) (page_refs s)) - 1"
    using zone_free_after [OF p(1)] new p(2) by (simp add: card_Diff_singleton)
  moreover have "live_zone s' i" using assms(2) alloc_bounds [OF p(1)] by (simp add: live_zone_def)
  ultimately show ?thesis using that [OF p(1)] new assms(3) alloc_more [OF p(1)] by simp
qed

text \<open>The table entries of a block whose pages are \<open>ps\<close>, from entry \<open>k\<close> on.\<close>

definition mapped_block :: "nat \<Rightarrow> MemPhysPage list \<Rightarrow> (u32 \<Rightarrow> u32) \<Rightarrow> u32 \<Rightarrow> u32" where
  "mapped_block k ps vpt = (\<lambda>i. if k \<le> unat i \<and> unat i < k + length ps then kernel_entry (ps ! (unat i - k)) else vpt i)"

lemma mapped_block_Cons:
  assumes "unat i = k"
  shows "mapped_block (Suc k) ps (vpt(i := kernel_entry p)) = mapped_block k (p # ps) vpt"
proof
  fix j show "mapped_block (Suc k) ps (vpt(i := kernel_entry p)) j = mapped_block k (p # ps) vpt j"
    using assms by (cases "unat j = k") (auto simp: mapped_block_def nth_Cons' word_unat_eq_iff)
qed

lemma unat_offset: "k \<le> 65536 \<Longrightarrow> unat (of_nat k * 4096 :: u32) = k * 4096"
  by (simp add: unat_word_ariths unsigned_of_nat take_bit_nat_eq_self)

lemma page_addr_add: "page_addr f + of_nat k * 4096 = page_addr (f + of_nat k)"
  by (simp add: page_addr_def PAGE_SIZE_def algebra_simps)

lemma vm_more:
  assumes "phys_state.more s' = phys_state.more s"
  shows "MemVirtualPageTables s' = MemVirtualPageTables s" "pmem s' = pmem s" "allocData s' = allocData s"
  by (cases s; cases s'; use assms in simp)+

lemma alloc_loop_maps:
  fixes s :: "'a vm_state_scheme"
  assumes "n = (unat bytes + 4095) div 4096" "unat f + n \<le> 65532"
  shows "k + d = n \<Longrightarrow> zones_ok s \<Longrightarrow> live_zone s MEM_HIGHMEM \<Longrightarrow> d \<le> card (zone_free (zones s MEM_HIGHMEM) (page_refs s)) \<Longrightarrow>
    (\<forall>i. unat f + k \<le> unat i \<and> unat i < unat f + n \<longrightarrow> \<not> e_present (MemVirtualPageTables s i)) \<Longrightarrow>
    \<exists>ps s'. alloc_loop (page_addr f) bytes (of_nat k * 4096) s = ret s' \<and> length ps = d \<and> distinct ps \<and>
      (\<forall>p \<in> set ps. page_refs s p = 0) \<and> page_refs s' = (\<lambda>q. if q \<in> set ps then 1 else page_refs s q) \<and>
      MemVirtualPageTables s' = mapped_block (unat f + k) ps (MemVirtualPageTables s) \<and>
      pmem s' = pmem s \<and> allocData s' = allocData s"
proof (induction d arbitrary: k s)
  case 0
  then have "\<not> of_nat k * 4096 < bytes" using assms unat_offset [of k] by (auto simp: word_less_nat_alt)
  then have "alloc_loop (page_addr f) bytes (of_nat k * 4096) s = ret s" by (subst alloc_loop.simps) simp
  then show ?case by (intro exI [of _ "[]"] exI [of _ s]) (auto simp: mapped_block_def fun_eq_iff)
next
  case (Suc d)
  have k: "k < n" "k \<le> 65536" using Suc.prems(1) assms(2) by simp_all
  then have more: "of_nat k * 4096 < bytes" using assms(1) unat_offset [of k] by (auto simp: word_less_nat_alt)
  obtain p s1 where p: "MemPhysicalAlloc 1 MEM_HIGHMEM s = ret (p, s1)" "page_refs s p = 0" "page_refs s1 = (page_refs s)(p := 1)"
    "zones_ok s1" "live_zone s1 MEM_HIGHMEM" "d \<le> card (zone_free (zones s1 MEM_HIGHMEM) (page_refs s1))"
    and same: "phys_state.more s1 = phys_state.more s" using zone_take [OF Suc.prems(2-4)] by blast
  let ?i = "f + of_nat k :: u32"
  have i: "unat ?i = unat f + k" using k assms(2) by (simp add: unat_plus_32 unat_of_nat)
  define s2 where "s2 = s1\<lparr>MemVirtualPageTables := (MemVirtualPageTables s)(?i := kernel_entry p)\<rparr>"
  have "\<not> e_present (MemVirtualPageTables s1 ?i)" using Suc.prems(5) i k by (auto simp: vm_more [OF same])
  then have map: "MemMapPage (page_addr f + of_nat k * 4096) p s1 = (True, s2)"
    using map_slot [of ?i s1 p] i k assms(2) by (simp add: page_addr_add s2_def vm_more [OF same])
  have s2: "page_refs s2 = page_refs s1" "zones s2 = zones s1" "zones_ok s2 = zones_ok s1" "live_zone s2 MEM_HIGHMEM = live_zone s1 MEM_HIGHMEM"
    by (simp_all add: s2_def page_refs_def fun_eq_iff zones_ok_def live_zone_def)
  have free: "\<forall>j. unat f + Suc k \<le> unat j \<and> unat j < unat f + n \<longrightarrow> \<not> e_present (MemVirtualPageTables s2 j)"
    using Suc.prems(5) i by (auto simp: s2_def)
  obtain ps s' where rest: "alloc_loop (page_addr f) bytes (of_nat (Suc k) * 4096) s2 = ret s'" "length ps = d" "distinct ps"
    "\<forall>q \<in> set ps. page_refs s2 q = 0" "page_refs s' = (\<lambda>q. if q \<in> set ps then 1 else page_refs s2 q)"
    "MemVirtualPageTables s' = mapped_block (unat f + Suc k) ps (MemVirtualPageTables s2)" "pmem s' = pmem s2" "allocData s' = allocData s2"
    using Suc.IH [of "Suc k" s2] Suc.prems(1) p(4-6) free unfolding s2 by auto
  have "alloc_loop (page_addr f) bytes (of_nat k * 4096) s = ret s'"
    using rest(1) by (subst alloc_loop.simps) (simp add: more p(1) map PAGE_SIZE_def algebra_simps)
  moreover have "MemVirtualPageTables s' = mapped_block (unat f + k) (p # ps) (MemVirtualPageTables s)"
    using mapped_block_Cons [OF i, of ps] by (simp add: rest(6) s2_def)
  moreover have "p \<notin> set ps" "\<forall>q \<in> set ps. page_refs s q = 0" using rest(4) p(3) by (auto simp: s2 split: if_splits)
  moreover have "pmem s2 = pmem s" "allocData s2 = allocData s" by (simp_all add: s2_def vm_more [OF same])
  moreover have "page_refs s' = (\<lambda>q. if q \<in> set (p # ps) then 1 else page_refs s q)" by (auto simp: rest(5) s2(1) p(3))
  ultimately show ?case using rest(2,3,7,8) p(2) by (intro exI [of _ "p # ps"] exI [of _ s']) auto
qed

section \<open>Clearing a block\<close>

lemma kernel_phys_wipe [simp]: "kernel_phys b (wipe_virtual n a s) = kernel_phys b s" "kernel_phys b (set_word x v s) = kernel_phys b s"
proof -
  show *: "kernel_phys b (set_word x v t) = kernel_phys b t" for x v and t :: "'b paging_state_scheme"
    by (simp add: kernel_phys_def set_word_def)
  show "kernel_phys b (wipe_virtual n a s) = kernel_phys b s" by (induction n a s rule: wipe_virtual.induct) (simp_all add: *)
qed

lemma pmem_set_word [simp]: "pmem (set_word x v s) = (pmem s)(x := v)"
  by (simp add: set_word_def)

lemma wipe_virtual_mem:
  "pmem (wipe_virtual n a s) x = (if \<exists>i < n. x = kernel_phys (a + of_nat (4 * i)) s then 0 else pmem s x)"
proof (induction n a s rule: wipe_virtual.induct)
  case (2 n a s)
  have "(\<exists>i < Suc n. x = kernel_phys (a + of_nat (4 * i)) s) \<longleftrightarrow> x = kernel_phys a s \<or> (\<exists>i < n. x = kernel_phys (a + 4 + of_nat (4 * i)) s)"
    by (auto simp: less_Suc_eq_0_disj algebra_simps)
  then show ?case using 2 by auto
qed simp

lemma set_word_frame [simp]:
  "page_refs (set_word x v s) = page_refs s" "MemVirtualPageTables (set_word x v s) = MemVirtualPageTables s"
  by (simp_all add: set_word_def page_refs_def fun_eq_iff)

lemma wipe_virtual_frame [simp]:
  "page_refs (wipe_virtual n a s) = page_refs s" "MemVirtualPageTables (wipe_virtual n a s) = MemVirtualPageTables s"
  by (induction n a s rule: wipe_virtual.induct) simp_all

lemma memset_virtual_frame [simp]:
  "page_refs (memset_virtual a bytes s) = page_refs s" "MemVirtualPageTables (memset_virtual a bytes s) = MemVirtualPageTables s"
  "kernel_phys b (memset_virtual a bytes s) = kernel_phys b s"
  by (simp_all add: memset_virtual_def Let_def)

text \<open>The cleared words read zero, the cleared bytes of the last word too, and only words of the block change.\<close>

lemma memset_virtual_mem:
  assumes "n = unat bytes"
  shows "4 * i + 4 \<le> n \<Longrightarrow> pmem (memset_virtual a bytes s) (kernel_phys (a + of_nat (4 * i)) s) = 0"
    "take_bit (8 * (n mod 4)) (pmem (memset_virtual a bytes s) (kernel_phys (a + of_nat (4 * (n div 4))) s)) = 0"
    "(\<And>i. 4 * i < n \<Longrightarrow> x \<noteq> kernel_phys (a + of_nat (4 * i)) s) \<Longrightarrow> pmem (memset_virtual a bytes s) x = pmem s x"
proof -
  have low: "clear_low r 0 = 0" "take_bit (8 * r) (clear_low r w) = 0" for r w
    by (auto simp: clear_low_def bit_eq_iff bit_simps)
  show "4 * i + 4 \<le> n \<Longrightarrow> pmem (memset_virtual a bytes s) (kernel_phys (a + of_nat (4 * i)) s) = 0"
  proof -
    assume "4 * i + 4 \<le> n"
    then have "i < n div 4" by linarith
    then have "pmem (wipe_virtual (n div 4) a s) (kernel_phys (a + of_nat (4 * i)) s) = 0" by (auto simp: wipe_virtual_mem)
    then show ?thesis using low(1) by (auto simp: memset_virtual_def Let_def assms)
  qed
  show "take_bit (8 * (n mod 4)) (pmem (memset_virtual a bytes s) (kernel_phys (a + of_nat (4 * (n div 4))) s)) = 0"
    by (auto simp: memset_virtual_def Let_def assms low(2))
  assume x: "\<And>i. 4 * i < n \<Longrightarrow> x \<noteq> kernel_phys (a + of_nat (4 * i)) s"
  have "4 * (n div 4) < n" if "n mod 4 \<noteq> 0" using that mult_div_mod_eq [of 4 n] by linarith
  moreover have "x \<noteq> kernel_phys (a + of_nat (4 * i)) s" if "i < n div 4" for i using that by (intro x) linarith
  ultimately show "pmem (memset_virtual a bytes s) x = pmem s x"
    using x [of "n div 4"] by (auto simp: memset_virtual_def Let_def assms wipe_virtual_mem)
qed

lemma entry_push_bit: "entry q 0 = push_bit 12 (of_int q)"
  by (simp add: entry_def PAGE_SIZE_def push_bit_eq_mult)

lemma entry_page_signed: "entry (signed_take_bit 19 q) 0 = entry q 0"
  unfolding entry_push_bit
proof (rule bit_word_eqI)
  fix n assume "n < LENGTH(32)"
  then have "min 19 (n - 12) = n - 12" by simp
  then show "bit (push_bit 12 (of_int (signed_take_bit 19 q)) :: u32) n = bit (push_bit 12 (of_int q) :: u32) n"
    by (simp add: bit_simps)
qed

lemma low_bits: "(a AND 0xFFF) = take_bit 12 a" for a :: u32
  by (simp add: take_bit_eq_mask mask_eq_exp_minus_1)

lemma kernel_phys_block:
  assumes "off < 4096 * length ps" "unat f + length ps \<le> 65532" "MemVirtualPageTables s = mapped_block (unat f) ps vpt"
  shows "in_page (ps ! (off div 4096)) (kernel_phys (page_addr f + of_nat off) s)"
proof -
  let ?k = "off div 4096" and ?a = "page_addr f + of_nat off :: u32"
  have k: "?k < length ps" using assms(1) by (simp add: less_mult_imp_div_less mult.commute)
  have a: "unat ?a = unat f * 4096 + 4026531840 + off"
    using assms(1,2) unat_page_addr [of f] by (simp add: unat_plus_32 unat_of_nat)
  have base: "unat (?a - 0xF0000000) = unat f * 4096 + off" using a by (simp add: unat_minus_32 word_le_nat_alt)
  moreover have i: "unat (f + of_nat ?k) = unat f + ?k" using k assms(2) by (simp add: unat_plus_32 unat_of_nat)
  ultimately have "vpt_index ?a = f + of_nat ?k" by (simp add: word_unat_eq_iff vpt_index_def MEM_KFIXED_MAX_def unat_div)
  then have "MemVirtualPageTables s (vpt_index ?a) = kernel_entry (ps ! ?k)" using k i by (simp add: assms(3) mapped_block_def)
  then have "pageID (MemVirtualPageTables s (vpt_index ?a)) = signed_take_bit 19 (ps ! ?k)" by (simp add: kernel_entry_def)
  moreover note entry_page_signed [of "ps ! ?k"]
  ultimately have "kernel_phys ?a s = entry (ps ! ?k) 0 + (?a AND 0xFFF)" by (simp add: kernel_phys_def)
  also have "\<dots> = entry (ps ! ?k) 0 OR (?a AND 0xFFF)"
    unfolding entry_push_bit low_bits by (rule disjunctive_add_eq_or) (auto simp: bit_eq_iff bit_simps)
  finally have eq: "kernel_phys ?a s = entry (ps ! ?k) 0 OR (?a AND 0xFFF)" .
  show ?thesis unfolding in_page_def eq unfolding entry_push_bit low_bits by (auto simp: bit_eq_iff bit_simps)
qed

section \<open>Properties\<close>

text \<open>Pages of the virtual region that no reservation covers are not mapped.\<close>

definition unmapped_ok :: "'a vm_state_scheme \<Rightarrow> bool" where
  "unmapped_ok s \<longleftrightarrow> (\<forall>i. \<not> vp_allocated (allocData s i) \<longrightarrow> \<not> e_present (MemVirtualPageTables s i))"

lemma virtual_alloc_maps:
  assumes "bytes \<noteq> 0" "bytes \<le> 0xFFFFF000" "n = (unat bytes + 4095) div 4096"
    and "free_run (allocData s) g n" "g + n \<le> 65532" "unmapped_ok s"
    and "zones_ok s" "live_zone s MEM_HIGHMEM" "n \<le> card (zone_free (zones s MEM_HIGHMEM) (page_refs s))"
  shows "\<exists>f ps s'. MemVirtualAlloc bytes s = ret (page_addr f, s') \<and> unat f + n \<le> 65532 \<and> free_run (allocData s) (unat f) n \<and>
    length ps = n \<and> distinct ps \<and> (\<forall>p \<in> set ps. page_refs s p = 0) \<and>
    page_refs s' = (\<lambda>q. if q \<in> set ps then 1 else page_refs s q) \<and>
    MemVirtualPageTables s' = mapped_block (unat f) ps (MemVirtualPageTables s) \<and> pmem s' = pmem s"
proof -
  have n: "unat (pages_of bytes) = n" using pages_of_unat [OF assms(1,2)] assms(3) by simp
  obtain f where f: "MemVirtualReserve bytes s = (page_addr f, s\<lparr>allocData := reserved (unat f) n (allocData s)\<rparr>)"
    "unat f + n \<le> 65532" "free_run (allocData s) (unat f) n"
    using reserve_result [OF assms(1,2), of s] assms(4,5) unfolding n by blast
  let ?s = "s\<lparr>allocData := reserved (unat f) n (allocData s)\<rparr>"
  have same: "page_refs ?s = page_refs s" "zones_ok ?s = zones_ok s" "live_zone ?s MEM_HIGHMEM = live_zone s MEM_HIGHMEM"
    by (simp_all add: page_refs_def fun_eq_iff zones_ok_def live_zone_def)
  have free: "\<not> e_present (MemVirtualPageTables s i)" if "unat f + 0 \<le> unat i \<and> unat i < unat f + n" for i
    using assms(6) f(3) that by (auto simp: unmapped_ok_def free_run_def dest: spec [of _ "unat i"])
  have "\<exists>ps s'. alloc_loop (page_addr f) bytes (of_nat 0 * 4096) ?s = ret s' \<and> length ps = n \<and> distinct ps \<and>
      (\<forall>p \<in> set ps. page_refs ?s p = 0) \<and> page_refs s' = (\<lambda>q. if q \<in> set ps then 1 else page_refs ?s q) \<and>
      MemVirtualPageTables s' = mapped_block (unat f + 0) ps (MemVirtualPageTables ?s) \<and>
      pmem s' = pmem ?s \<and> allocData s' = allocData ?s"
    by (rule alloc_loop_maps [OF assms(3) f(2)]) (use assms(7-9) free in \<open>simp_all add: same\<close>)
  then obtain ps s' where ps: "alloc_loop (page_addr f) bytes 0 ?s = ret s'" "length ps = n" "distinct ps" "\<forall>p \<in> set ps. page_refs s p = 0"
    "page_refs s' = (\<lambda>q. if q \<in> set ps then 1 else page_refs s q)" "MemVirtualPageTables s' = mapped_block (unat f) ps (MemVirtualPageTables s)"
    "pmem s' = pmem s" unfolding same by auto
  then have "MemVirtualAlloc bytes s = ret (page_addr f, s')" by (simp add: MemVirtualAlloc_def f(1))
  then show ?thesis using f(2,3) ps(2-7) by blast
qed


text \<open>One free page of high memory and an empty virtual region.\<close>

definition demo_vm :: vm_state where
  "demo_vm = blank_vm\<lparr>highestPage := 0x30001, pmem := (\<lambda>_. 7),
     zones := (\<lambda>i. if i = MEM_HIGHMEM then \<lparr>headPtr = 0x30000, zstart = 0x30000, zend = 0x30001\<rparr> else no_zone)\<rparr>"


section \<open>Zeroed objects\<close>

lemma wipe_object_mem: "wipe_object n a m x = (if \<exists>i < n. x = a + of_nat (4 * i) then 0 else m x)"
proof (induction n arbitrary: a m)
  case (Suc n)
  have "(\<exists>i < Suc n. x = a + of_nat (4 * i)) \<longleftrightarrow> x = a \<or> (\<exists>i < n. x = a + 4 + of_nat (4 * i))"
    by (auto simp: less_Suc_eq_0_disj algebra_simps)
  then show ?case by (simp add: Suc.IH [of "a + 4" "m(a := 0)"]) auto
qed simp

lemma memset_object_mem:
  assumes "unat bytes mod 4 = 0"
  shows "memset_object a bytes m x = (if \<exists>i. 4 * i < unat bytes \<and> x = a + of_nat (4 * i) then 0 else m x)"
proof -
  have "i < unat bytes div 4 \<longleftrightarrow> 4 * i < unat bytes" for i using mult_div_mod_eq [of 4 "unat bytes"] assms by linarith
  then show ?thesis by (simp add: memset_object_def Let_def assms wipe_object_mem)
qed

lemma cache_inv_smem:
  assumes "cache_inv s cache F" "\<forall>sl \<in> set (cache_slabs (cacheAt s cache)). \<forall>x \<in> set (F sl). m x = smem s x"
  shows "cache_inv (s\<lparr>smem := m\<rparr>) cache F"
  using assms free_chain_cong [of _ m "smem s"] by (auto simp: cache_inv_def slab_rep_def)

lemma take_object_fields:
  "objectSize (cacheAt (snd (take_object cache slab s)) cache) = objectSize (cacheAt s cache)"
  "set (cache_slabs (cacheAt (snd (take_object cache slab s)) cache)) \<subseteq> insert slab (set (cache_slabs (cacheAt s cache)))"
  by (auto simp: take_object_def Let_def cache_slabs_def unlink_slab_def dest: set_remove1_subset [THEN subsetD])

text \<open>The free objects of a cache do not lie inside one another.\<close>

definition objects_apart :: "MemCache \<Rightarrow> (u32 \<Rightarrow> u32 list) \<Rightarrow> bool" where
  "objects_apart c F \<longleftrightarrow> (\<forall>sl \<in> set (cache_slabs c). \<forall>sl' \<in> set (cache_slabs c). \<forall>x \<in> set (F sl). \<forall>y \<in> set (F sl').
     x \<noteq> y \<longrightarrow> (\<forall>i. 4 * i < unat (objectSize c) \<longrightarrow> y \<noteq> x + of_nat (4 * i)))"

text \<open>
  Zeroed objects. In a well-formed cache with a partial or an empty slab, whose objects are whole words
  and do not overlap, \<open>MemSlabZAlloc\<close> returns a free object of one of its slabs, every word of which is zero;
  the clearing touches no free object, so that the cache stays well formed with just this object taken.
\<close>

theorem slab_zalloc_zeroed:
  assumes "cache_inv s cache F" "slabsPartial (cacheAt s cache) @ slabsEmpty (cacheAt s cache) \<noteq> []"
    and "unat (objectSize (cacheAt s cache)) mod 4 = 0" "objects_apart (cacheAt s cache) F"
    and "\<forall>sl \<in> set (cache_slabs (cacheAt s cache)). 0 \<notin> set (F sl)"
  shows "\<exists>slab x xs s'. MemSlabZAlloc cache s = ret (x, s') \<and> slab \<in> set (cache_slabs (cacheAt s cache)) \<and> F slab = x # xs \<and>
    cache_inv s' cache (F(slab := xs)) \<and> (\<forall>i. 4 * i < unat (objectSize (cacheAt s cache)) \<longrightarrow> smem s' (x + of_nat (4 * i)) = 0)"
proof -
  let ?c = "cacheAt s cache"
  obtain slab where slab: "slab \<in> set (slabsPartial ?c @ slabsEmpty ?c)" "MemSlabAlloc 2 cache s = ret (take_object cache slab s)"
    using assms(2) by (cases "slabsPartial ?c"; cases "slabsEmpty ?c") (auto simp: numeral_2_eq_2)
  have mem: "slab \<in> set (cache_slabs ?c)" using slab(1) by (auto simp: cache_slabs_def)
  let ?s1 = "snd (take_object cache slab s)"
  obtain x xs where x: "F slab = x # xs" "fst (take_object cache slab s) = x" "cache_inv ?s1 cache (F(slab := xs))"
    using take_object_inv [OF assms(1) slab(1)] by blast
  let ?m = "memset_object x (objectSize ?c) (smem ?s1)"
  have x0: "x \<noteq> 0" "x \<notin> set xs" using assms(1,5) mem x(1) by (auto simp: cache_inv_def slab_rep_def)
  have apart: "y \<noteq> x" if y: "sl \<in> set (cache_slabs ?c)" "y \<in> set ((F(slab := xs)) sl)" for sl y
  proof (cases "sl = slab")
    case False
    then have "set (F slab) \<inter> set (F sl) = {}" using assms(1) mem y(1) unfolding cache_inv_def by blast
    then show ?thesis using y False x(1) by auto
  qed (use x0 y in auto)
  have "?m y = smem ?s1 y" if y: "sl \<in> set (cache_slabs (cacheAt ?s1 cache))" "y \<in> set ((F(slab := xs)) sl)" for sl y
  proof -
    have sl: "sl \<in> set (cache_slabs ?c)" using y(1) take_object_fields(2) [of cache slab s] mem by auto
    have "y \<in> set (F sl)" using y(2) x(1) by (auto split: if_splits)
    then have "y \<noteq> x + of_nat (4 * i)" if "4 * i < unat (objectSize ?c)" for i
      using assms(4) mem sl x(1) apart [OF sl y(2)] that unfolding objects_apart_def by (metis list.set_intros(1))
    then show ?thesis by (auto simp: memset_object_mem [OF assms(3)])
  qed
  then have "cache_inv (?s1\<lparr>smem := ?m\<rparr>) cache (F(slab := xs))" by (intro cache_inv_smem [OF x(3)]) blast
  moreover have "MemSlabZAlloc cache s = ret (x, ?s1\<lparr>smem := ?m\<rparr>)"
    using slab(2) x(2) x0(1) take_object_fields(1) [of cache slab s]
    by (cases "take_object cache slab s") (simp add: MemSlabZAlloc_def)
  moreover have "\<forall>i. 4 * i < unat (objectSize ?c) \<longrightarrow> ?m (x + of_nat (4 * i)) = 0" by (auto simp: memset_object_mem [OF assms(3)])
  ultimately show ?thesis using mem x(1)
    by (intro exI [of _ slab] exI [of _ x] exI [of _ xs] exI [of _ "?s1\<lparr>smem := ?m\<rparr>"]) simp
qed

theorem slab_zalloc_zeroed_witness:
  "\<exists>x s'. MemSlabZAlloc 1 (demo_slab 1) = ret (x, s') \<and> smem s' (x + 4) = 0"
proof -
  have "\<exists>slab x xs s'. MemSlabZAlloc 1 (demo_slab 1) = ret (x, s') \<and> slab \<in> set (cache_slabs (cacheAt (demo_slab 1) 1)) \<and>
    [0xC0000800] = x # xs \<and> cache_inv s' 1 ((\<lambda>_. [0xC0000800])(slab := xs)) \<and>
    (\<forall>i. 4 * i < unat (objectSize (cacheAt (demo_slab 1) 1)) \<longrightarrow> smem s' (x + of_nat (4 * i)) = 0)"
    by (rule slab_zalloc_zeroed [OF demo_slab_inv]) (simp_all add: demo_slab_def cache_slabs_def objects_apart_def)
  then obtain x s' where "MemSlabZAlloc 1 (demo_slab 1) = ret (x, s')"
    "\<forall>i. 4 * i < unat (objectSize (cacheAt (demo_slab 1) 1)) \<longrightarrow> smem s' (x + of_nat (4 * i)) = 0" by blast
  from this(1) this(2) [rule_format, of 1] show ?thesis by (auto simp: demo_slab_def)
qed

end
