(* ===== verification/Heap.thy ===== *)
theory Heap
  imports Zalloc
begin

text \<open>
  The caches of \<open>kernel/src/mm/slab.c\<close> together. Theory \<open>Slab\<close> follows one cache; here several caches share the pages of
  the kernel zone. Every cache of small objects owns a set of pages, no two caches own the same page, and
  an allocation from one of them leaves the others as they are. The consequence is what the users of \<open>MemSlabAlloc\<close>
  and \<open>MemKAlloc\<close> rely on: two objects that were handed out never share a byte.
\<close>

section \<open>Pages of the kernel zone\<close>

definition kernel_pages :: "nat \<Rightarrow> 'a phys_state_scheme \<Rightarrow> bool" where
  "kernel_pages n s \<longleftrightarrow> zones_ok s \<and> live_zone s MEM_KERNEL \<and> zend (zones s MEM_KERNEL) \<le> MEM_KFIXED_MAX_PAGE \<and>
     n \<le> card (zone_free (zones s MEM_KERNEL) (page_refs s))"

lemma kernel_pages_mono: "kernel_pages n s \<Longrightarrow> m \<le> n \<Longrightarrow> kernel_pages m s"
  by (simp add: kernel_pages_def)

lemma kernel_pages_same: "same_pages s s' \<Longrightarrow> kernel_pages n s' = kernel_pages n s"
  by (simp add: same_pages_def kernel_pages_def zones_ok_def live_zone_def)

lemma kernel_pages_take:
  assumes "kernel_pages (Suc n) s"
  obtains p s1 where "MemPhysicalAlloc 1 MEM_KERNEL s = ret (p, s1)" "page_refs s p = 0" "page_refs s1 = (page_refs s)(p := 1)"
    "0 \<le> p" "p < MEM_KFIXED_MAX_PAGE" "kernel_pages n s1"
proof -
  have ready: "kernel_page_ready s" using assms by (auto simp: kernel_pages_def kernel_page_ready_def)
  obtain p s1 where p: "MemPhysicalAlloc 1 MEM_KERNEL s = ret (p, s1)" "page_refs s p = 0" "page_refs s1 = (page_refs s)(p := 1)"
    "0 \<le> p" "p < MEM_KFIXED_MAX_PAGE" using kernel_page_take [OF ready] by blast
  have "zones_ok s" "live_zone s MEM_KERNEL" "Suc n \<le> card (zone_free (zones s MEM_KERNEL) (page_refs s))" using assms by (simp_all add: kernel_pages_def)
  then obtain q t where t: "MemPhysicalAlloc 1 MEM_KERNEL s = ret (q, t)" "zones_ok t" "live_zone t MEM_KERNEL"
    "n \<le> card (zone_free (zones t MEM_KERNEL) (page_refs t))" by (rule zone_take)
  then have "kernel_pages n s1" using assms alloc_bounds [OF p(1)] p(1) by (simp add: kernel_pages_def)
  then show ?thesis using that p by blast
qed

definition same_bounds :: "'a phys_state_scheme \<Rightarrow> 'b phys_state_scheme \<Rightarrow> bool" where
  "same_bounds s s' \<longleftrightarrow> (\<forall>j. zstart (zones s' j) = zstart (zones s j) \<and> zend (zones s' j) = zend (zones s j))"

lemma same_bounds_pages: "same_pages s s' \<Longrightarrow> same_bounds s s'"
  by (simp add: same_pages_def same_bounds_def)

lemma same_bounds_trans: "same_bounds s t \<Longrightarrow> same_bounds t u \<Longrightarrow> same_bounds s u"
  by (simp add: same_bounds_def)

section \<open>A cache and its pages\<close>

definition placed :: "u32 \<Rightarrow> MemPhysPage set \<Rightarrow> u32 set \<Rightarrow> 'a slab_state_scheme \<Rightarrow> bool" where
  "placed cache P X s \<longleftrightarrow> cache_pool cache s X \<and> small_cache (cacheAt s cache) \<and> unat (objectSize (cacheAt s cache)) mod 4 = 0 \<and>
     X \<subseteq> (\<Union>p \<in> P. set (page_objects (cacheAt s cache) p)) \<and>
     (\<forall>sl \<in> set (cache_slabs (cacheAt s cache)). MemVirt2Phys sl \<in> P) \<and>
     (\<forall>p \<in> P. 0 \<le> p \<and> p < MEM_KFIXED_MAX_PAGE \<and> page_refs s p \<noteq> 0)"

lemma placed_object:
  assumes "placed cache P X s" "x \<in> X"
  shows "MemVirt2Phys x \<in> P" "x \<in> set (page_objects (cacheAt s cache) (MemVirt2Phys x))" "x \<noteq> 0"
proof -
  obtain p where p: "p \<in> P" "x \<in> set (page_objects (cacheAt s cache) p)" using assms by (auto simp: placed_def)
  have "small_cache (cacheAt s cache)" "0 \<le> p" "p < MEM_KFIXED_MAX_PAGE" using assms(1) p(1) by (simp_all add: placed_def)
  note objs = page_objects_ok [OF this]
  show "MemVirt2Phys x \<in> P" "x \<in> set (page_objects (cacheAt s cache) (MemVirt2Phys x))" "x \<noteq> 0"
    using p objs(3) objs(5) [OF p(2)] by auto
qed

lemma cache_pool_frame:
  assumes "cache_pool cache s X" "cacheAt s' cache = cacheAt s cache" "\<And>x. x \<in> X \<Longrightarrow> smem s' x = smem s x"
    and "\<And>sl. sl \<in> set (cache_slabs (cacheAt s cache)) \<Longrightarrow> slabAt s' sl = slabAt s sl"
  shows "cache_pool cache s' X"
proof -
  obtain F where F: "cache_inv s cache F" "X = free_objs (cacheAt s cache) F" using assms(1) by (auto simp: cache_pool_def)
  have "free_chain (smem s') q (F sl) = free_chain (smem s) q (F sl)" if "sl \<in> set (cache_slabs (cacheAt s cache))" for sl q
    using that assms(3) F(2) by (intro free_chain_cong) (auto simp: free_objs_def)
  then have "slab_rep s' cache sl (F sl) = slab_rep s cache sl (F sl)" if "sl \<in> set (cache_slabs (cacheAt s cache))" for sl
    using that assms(2,4) by (simp add: slab_rep_def)
  then have "cache_inv s' cache F" using F(1) assms(2,4) by (auto simp: cache_inv_def cache_slabs_def)
  then show ?thesis using F(2) assms(2) by (auto simp: cache_pool_def)
qed

text \<open>What another cache does on its own pages is not seen.\<close>

lemma placed_frame:
  assumes "placed cache P X s" "slab_step c A s s'" "c \<noteq> cache" "\<And>y. y \<in> A \<Longrightarrow> MemVirt2Phys y \<notin> P"
    and "\<And>p. page_refs s p \<noteq> 0 \<Longrightarrow> page_refs s' p \<noteq> 0"
  shows "placed cache P X s'"
proof -
  have same: "cacheAt s' cache = cacheAt s cache" using assms(2,3) by (simp add: slab_step_def other_caches_def)
  have keep: "smem s' y = smem s y \<and> slabAt s' y = slabAt s y" if "MemVirt2Phys y \<in> P" for y
    using that assms(2,4) unfolding slab_step_def by blast
  have "cache_pool cache s' X"
    by (rule cache_pool_frame [OF _ same]) (use assms(1) keep placed_object(1) [OF assms(1)] in \<open>auto simp: placed_def\<close>)
  then show ?thesis using assms(1,5) by (simp add: placed_def same)
qed

text \<open>How an allocation changes the pool and the pages of its cache.\<close>

definition handed_out :: "u32 \<Rightarrow> u32 \<Rightarrow> MemPhysPage set \<Rightarrow> u32 set \<Rightarrow> MemPhysPage set \<Rightarrow> u32 set \<Rightarrow> 'a slab_state_scheme \<Rightarrow> 'a slab_state_scheme \<Rightarrow> bool" where
  "handed_out x c P X P' X' s s' \<longleftrightarrow> placed c P' X' s' \<and> P \<subseteq> P' \<and> X \<subseteq> insert x X' \<and> x \<notin> X' \<and> MemVirt2Phys x \<in> P' \<and>
     x \<in> set (page_objects (cacheAt s c) (MemVirt2Phys x)) \<and> x \<noteq> 0 \<and>
     (x \<in> X \<or> page_refs s (MemVirt2Phys x) = 0) \<and> (\<forall>y \<in> X'. y \<in> X \<or> page_refs s (MemVirt2Phys y) = 0) \<and>
     (\<forall>p \<in> P' - P. page_refs s p = 0) \<and>
     (\<forall>p. page_refs s p \<noteq> 0 \<longrightarrow> page_refs s' p = page_refs s p) \<and> same_bounds s s' \<and> (\<exists>A. slab_step c A s s' \<and> (\<forall>y \<in> A. MemVirt2Phys y \<in> P'))"

lemma placed_alloc:
  assumes ok: "placed c P X s" and pages: "kernel_pages (Suc n) s"
  shows "\<exists>x s' P' X'. MemSlabAlloc (Suc d) c s = ret (x, s') \<and> handed_out x c P X P' X' s s' \<and> kernel_pages n s'"
proof (cases "X = {}")
  case False
  have pool: "cache_pool c s X" using ok by (simp add: placed_def)
  obtain x s' where x: "MemSlabAlloc (Suc d) c s = ret (x, s')" "x \<in> X" "cache_pool c s' (X - {x})"
    "slab_step c (set (cache_slabs (cacheAt s c))) s s'" "same_pages s s'"
    "set (cache_slabs (cacheAt s' c)) = set (cache_slabs (cacheAt s c))" using slab_pool_take [OF pool False] by blast
  have shape: "same_shape (cacheAt s c) (cacheAt s' c)" using x(4) by (simp add: slab_step_def)
  then have objs: "page_objects (cacheAt s' c) = page_objects (cacheAt s c)" by (simp add: page_objects_def same_shape_def fun_eq_iff)
  have "placed c P (X - {x}) s'" using ok x(3,5,6) shape
    by (auto simp: placed_def objs small_cache_def is_large_def same_shape_def same_pages_def)
  then have "handed_out x c P X P (X - {x}) s s'" using placed_object [OF ok x(2)] x(2,4,5) ok same_bounds_pages [OF x(5)]
    by (auto simp: handed_out_def same_pages_def placed_def)
  moreover have "kernel_pages n s'" using kernel_pages_mono [OF pages, of n] kernel_pages_same [OF x(5)] by simp
  ultimately show ?thesis using x(1) by blast
next
  case True
  have pool: "cache_pool c s {}" and small: "small_cache (cacheAt s c)" and heads: "headers_placed c s"
    using ok True by (auto simp: placed_def headers_placed_def)
  obtain p s1 where p: "MemPhysicalAlloc 1 MEM_KERNEL s = ret (p, s1)" "page_refs s p = 0" "page_refs s1 = (page_refs s)(p := 1)"
    "0 \<le> p" "p < MEM_KFIXED_MAX_PAGE" "kernel_pages n s1" using kernel_pages_take [OF pages] by blast
  let ?xs = "set (page_objects (cacheAt s c) p)"
  obtain x s' where x: "MemSlabAlloc (Suc d) c s = ret (x, s')" "x \<in> ?xs" "same_pages s1 s'" "cache_pool c s' (?xs - {x})"
    "slab_step c (insert (page_header p) ?xs) s s'" "set (cache_slabs (cacheAt s' c)) = insert (page_header p) (set (cache_slabs (cacheAt s c)))"
    using new_slab_pool [OF pool small heads p(1,2,4,5)] by blast
  note objs = page_objects_ok [OF small p(4,5)]
  have shape: "same_shape (cacheAt s c) (cacheAt s' c)" using x(5) by (simp add: slab_step_def)
  then have eq: "page_objects (cacheAt s' c) = page_objects (cacheAt s c)" by (simp add: page_objects_def same_shape_def fun_eq_iff)
  have refs: "page_refs s' = (page_refs s)(p := 1)" using x(3) p(3) by (simp add: same_pages_def)
  have "placed c (insert p P) (?xs - {x}) s'" using ok x(4,6) shape objs(4) p(4,5)
    by (auto simp: placed_def eq refs small_cache_def is_large_def same_shape_def)
  moreover have "same_bounds s s'" using alloc_bounds [OF p(1)] x(3) by (simp add: same_bounds_def same_pages_def)
  ultimately have "handed_out x c P X (insert p P) (?xs - {x}) s s'" using x(2,5) objs(3,4,5) p(2) True
    by (auto simp: handed_out_def refs intro!: exI [of _ "insert (page_header p) ?xs"])
  moreover have "kernel_pages n s'" using kernel_pages_same [OF x(3)] p(6) by simp
  ultimately show ?thesis using x(1) by blast
qed

section \<open>All caches\<close>

text \<open>
  The caches \<open>C\<close>, the pages \<open>P\<close> and the free objects \<open>X\<close> of each. The headers of the caches are themselves objects of the root
  cache, or static, and none of them is free.
\<close>

definition heap_ok :: "u32 set \<Rightarrow> (u32 \<Rightarrow> MemPhysPage set) \<Rightarrow> (u32 \<Rightarrow> u32 set) \<Rightarrow> 'a slab_state_scheme \<Rightarrow> bool" where
  "heap_ok C P X s \<longleftrightarrow> (\<forall>c \<in> C. placed c (P c) (X c) s) \<and> (\<forall>c \<in> C. \<forall>c' \<in> C. c \<noteq> c' \<longrightarrow> P c \<inter> P c' = {}) \<and>
     rootCache s \<in> C \<and> C \<inter> X (rootCache s) = {} \<and> (\<forall>c \<in> C. page_refs s (MemVirt2Phys c) \<noteq> 0)"

lemma heap_step:
  assumes ok: "heap_ok C P X s" and c: "c \<in> C" and out: "handed_out x c (P c) (X c) P' X' s s'"
  shows "heap_ok C (P(c := P')) (X(c := X')) s'"
proof -
  have new: "page_refs s p = 0" if "p \<in> P'" "p \<notin> P c" for p using out that by (simp add: handed_out_def)
  have used: "page_refs s p \<noteq> 0" if "c' \<in> C" "p \<in> P c'" for c' p using ok that by (auto simp: heap_ok_def placed_def)
  have apart: "P' \<inter> P c' = {}" if "c' \<in> C" "c' \<noteq> c" for c'
    using that ok c new used by (auto simp: heap_ok_def) (metis disjoint_iff)
  have keep: "page_refs s' p \<noteq> 0" if "page_refs s p \<noteq> 0" for p using out that by (simp add: handed_out_def)
  obtain A where A: "slab_step c A s s'" "\<And>y. y \<in> A \<Longrightarrow> MemVirt2Phys y \<in> P'" using out by (auto simp: handed_out_def)
  have others: "placed c' (P c') (X c') s'" if c': "c' \<in> C" "c' \<noteq> c" for c'
    by (rule placed_frame [OF _ A(1)]) (use ok c' apart [OF c'] A(2) keep in \<open>auto simp: heap_ok_def\<close>)
  have root: "rootCache s' = rootCache s" using A(1) by (simp add: slab_step_def other_caches_def)
  have "C \<inter> X' = {}" if "c = rootCache s" using that ok out by (auto simp: heap_ok_def handed_out_def)
  then show ?thesis using ok others out keep apart unfolding heap_ok_def root by (auto simp: handed_out_def Int_commute)
qed

lemma heap_alloc:
  assumes "heap_ok C P X s" "c \<in> C" "kernel_pages (Suc n) s"
  shows "\<exists>x s' P' X'. MemSlabAlloc (Suc d) c s = ret (x, s') \<and> handed_out x c (P c) (X c) P' X' s s' \<and>
    heap_ok C (P(c := P')) (X(c := X')) s' \<and> kernel_pages n s'"
proof -
  have "placed c (P c) (X c) s" using assms(1,2) by (simp add: heap_ok_def)
  then show ?thesis using placed_alloc [of c "P c" "X c" s n d] heap_step [OF assms(1,2)] assms(3) by blast
qed

section \<open>Objects do not overlap\<close>

definition ranges_apart :: "u32 \<times> nat \<Rightarrow> u32 \<times> nat \<Rightarrow> bool" where
  "ranges_apart = (\<lambda>(x, m) (y, n). unat x + m \<le> unat y \<or> unat y + n \<le> unat x)"

lemma page_object_range:
  assumes "small_cache c" "0 \<le> p" "p < MEM_KFIXED_MAX_PAGE" "x \<in> set (page_objects c p)"
  obtains i where "i < unat (objectsPerSlab c)" "unat x = 3221225472 + nat p * 4096 + i * unat (objectSize c)"
    "i * unat (objectSize c) + unat (objectSize c) \<le> 4072"
proof -
  have c: "0 < unat (objectSize c)" "unat (objectsPerSlab c) * unat (objectSize c) \<le> 4072" using assms(1) by (simp_all add: small_cache_def)
  have room: "unat (MemPhys2Virt p) + unat (objectsPerSlab c) * unat (objectSize c) < 2 ^ 32"
    using window_address [OF assms(2,3)] assms(2,3) c(2) by (simp add: kfixed_max)
  obtain i where i: "i < unat (objectsPerSlab c)" "x = MemPhys2Virt p + of_nat i * objectSize c"
    using assms(4) by (auto simp: page_objects_def slab_objects_def)
  have "Suc i * unat (objectSize c) \<le> unat (objectsPerSlab c) * unat (objectSize c)" using i(1) by (intro mult_right_mono) simp_all
  then have "i * unat (objectSize c) + unat (objectSize c) \<le> 4072" using c(2) by simp
  then show ?thesis using that i slab_object_addr [OF less_imp_le [OF i(1)] room] window_address [OF assms(2,3)] by simp
qed

lemma page_objects_apart:
  assumes "small_cache c" "0 \<le> p" "p < MEM_KFIXED_MAX_PAGE" "x \<in> set (page_objects c p)"
    and "small_cache c'" "0 \<le> p'" "p' < MEM_KFIXED_MAX_PAGE" "y \<in> set (page_objects c' p')"
    and "p \<noteq> p' \<or> same_shape c c' \<and> x \<noteq> y"
  shows "ranges_apart (x, unat (objectSize c)) (y, unat (objectSize c'))"
proof -
  obtain i where i: "unat x = 3221225472 + nat p * 4096 + i * unat (objectSize c)" "i * unat (objectSize c) + unat (objectSize c) \<le> 4072"
    by (rule page_object_range [OF assms(1-4)])
  obtain j where j: "unat y = 3221225472 + nat p' * 4096 + j * unat (objectSize c')" "j * unat (objectSize c') + unat (objectSize c') \<le> 4072"
    by (rule page_object_range [OF assms(5-8)])
  consider "nat p < nat p'" | "nat p' < nat p" | "p = p'" "same_shape c c'" "x \<noteq> y" using assms(2,6,9) by fastforce
  then show ?thesis
  proof cases
    case 3
    then have "i \<noteq> j" "objectSize c' = objectSize c" using i(1) j(1) by (auto simp: same_shape_def word_unat_eq_iff)
    moreover from this(1) have "Suc i * unat (objectSize c) \<le> j * unat (objectSize c) \<or> Suc j * unat (objectSize c) \<le> i * unat (objectSize c)"
      by (metis Suc_leI linorder_neqE_nat mult_le_mono1)
    ultimately show ?thesis using i(1) j(1) 3(1) by (auto simp: ranges_apart_def)
  qed (use i j in \<open>auto simp: ranges_apart_def\<close>)
qed

lemma ranges_apart_sym: "ranges_apart r r' \<Longrightarrow> ranges_apart r' r"
  by (auto simp: ranges_apart_def split: prod.splits)

section \<open>The interface of the heap\<close>

text \<open>A sequence of requests.\<close>

fun alloc_list :: "('c \<Rightarrow> 's \<Rightarrow> (u32 \<times> 's) run) \<Rightarrow> 'c list \<Rightarrow> 's \<Rightarrow> (u32 list \<times> 's) run" where
  "alloc_list alloc [] s = ret ([], s)"
| "alloc_list alloc (c # cs) s = seq (alloc c s) (\<lambda>(x, s1). seq (alloc_list alloc cs s1) (\<lambda>(xs, s2). ret (x # xs, s2)))"

text \<open>
  What the users of the heap rely on, with \<open>n\<close> pages left and the objects \<open>L\<close> in use: a request succeeds,
  costs at most one page, and its object lies apart from all objects in use.
\<close>

locale object_heap =
  fixes alloc :: "'c \<Rightarrow> 's \<Rightarrow> (u32 \<times> 's) run" and osize :: "'c \<Rightarrow> nat" and heap :: "'c set \<Rightarrow> nat \<Rightarrow> (u32 \<times> nat) set \<Rightarrow> 's \<Rightarrow> bool"
  assumes alloc_new: "heap C (Suc n) L s \<Longrightarrow> c \<in> C \<Longrightarrow>
    \<exists>x s'. alloc c s = ret (x, s') \<and> (\<forall>r \<in> L. ranges_apart r (x, osize c)) \<and> heap C n (insert (x, osize c) L) s'"
begin

lemma alloc_list_apart:
  "heap C (length cs) L s \<Longrightarrow> set cs \<subseteq> C \<Longrightarrow> \<exists>xs s'. alloc_list alloc cs s = ret (xs, s') \<and> length xs = length cs \<and>
    sorted_wrt ranges_apart (zip xs (map osize cs)) \<and> (\<forall>r \<in> L. \<forall>r' \<in> set (zip xs (map osize cs)). ranges_apart r r')"
proof (induction cs arbitrary: L s)
  case (Cons c cs)
  obtain x s1 where x: "alloc c s = ret (x, s1)" "\<forall>r \<in> L. ranges_apart r (x, osize c)" "heap C (length cs) (insert (x, osize c) L) s1"
    using alloc_new [of C "length cs" L s c] Cons.prems by auto
  obtain xs s' where xs: "alloc_list alloc cs s1 = ret (xs, s')" "length xs = length cs" "sorted_wrt ranges_apart (zip xs (map osize cs))"
    "\<forall>r \<in> insert (x, osize c) L. \<forall>r' \<in> set (zip xs (map osize cs)). ranges_apart r r'"
    using Cons.IH [OF x(3)] Cons.prems(2) by auto
  have "alloc_list alloc (c # cs) s = ret (x # xs, s')" using x(1) xs(1) by simp
  then show ?case using xs(2-4) x(2) by (intro exI [of _ "x # xs"] exI [of _ s']) auto
qed simp

end

text \<open>The heap in a state, with pages \<open>R\<close> that are in use for something else.\<close>

definition slab_heap :: "MemPhysPage set \<Rightarrow> (u32 \<Rightarrow> nat) \<Rightarrow> u32 set \<Rightarrow> nat \<Rightarrow> (u32 \<times> nat) set \<Rightarrow> 'a slab_state_scheme \<Rightarrow> bool" where
  "slab_heap R osize C n L s \<longleftrightarrow> (\<exists>P X. heap_ok C P X s \<and> kernel_pages n s \<and> (\<forall>c \<in> C. unat (objectSize (cacheAt s c)) = osize c) \<and>
     (\<forall>c \<in> C. P c \<inter> R = {}) \<and> (\<forall>p \<in> R. page_refs s p \<noteq> 0) \<and>
     (\<forall>r \<in> L. \<exists>c \<in> C. snd r = osize c \<and> fst r \<in> set (page_objects (cacheAt s c) (MemVirt2Phys (fst r))) \<and>
        MemVirt2Phys (fst r) \<in> P c \<and> fst r \<notin> X c))"

text \<open>An object in use stays apart from a new one and stays in use.\<close>

lemma live_object:
  assumes ok: "heap_ok C P X s" "c \<in> C" and out: "handed_out x c (P c) (X c) P' X' s s'"
    and y: "c' \<in> C" "y \<in> set (page_objects (cacheAt s c') (MemVirt2Phys y))" "MemVirt2Phys y \<in> P c'" "y \<notin> X c'"
  shows "ranges_apart (y, unat (objectSize (cacheAt s c'))) (x, unat (objectSize (cacheAt s c)))"
    "MemVirt2Phys y \<in> (P(c := P')) c'" "y \<notin> (X(c := X')) c'"
proof -
  have used: "page_refs s (MemVirt2Phys y) \<noteq> 0" using ok(1) y(1,3) by (auto simp: heap_ok_def placed_def)
  have pl: "placed c (P c) (X c) s" "placed c' (P c') (X c') s" "placed c P' X' s'" using ok y(1) out by (simp_all add: heap_ok_def handed_out_def)
  have x: "MemVirt2Phys x \<in> P'" "x \<in> set (page_objects (cacheAt s c) (MemVirt2Phys x))" "x \<in> X c \<or> page_refs s (MemVirt2Phys x) = 0"
    using out by (simp_all add: handed_out_def)
  have "MemVirt2Phys y \<noteq> MemVirt2Phys x \<or> same_shape (cacheAt s c') (cacheAt s c) \<and> y \<noteq> x"
  proof (cases "c' = c")
    case True
    then show ?thesis using x(3) y(4) used by (auto simp: same_shape_def)
  next
    case False
    have "heap_ok C (P(c := P')) (X(c := X')) s'" by (rule heap_step [OF ok out])
    then have "P' \<inter> P c' = {}" using False ok(2) y(1) by (fastforce simp: heap_ok_def)
    then show ?thesis using x(1) y(3) by auto
  qed
  moreover have "0 \<le> MemVirt2Phys x" "MemVirt2Phys x < MEM_KFIXED_MAX_PAGE" "0 \<le> MemVirt2Phys y" "MemVirt2Phys y < MEM_KFIXED_MAX_PAGE"
    using pl(2,3) x(1) y(3) by (simp_all add: placed_def)
  ultimately show "ranges_apart (y, unat (objectSize (cacheAt s c'))) (x, unat (objectSize (cacheAt s c)))"
    using page_objects_apart [OF _ _ _ y(2) _ _ _ x(2)] pl by (simp add: placed_def)
  show "MemVirt2Phys y \<in> (P(c := P')) c'" using y(3) out by (auto simp: handed_out_def)
  show "y \<notin> (X(c := X')) c'" using y(4) out used by (auto simp: handed_out_def)
qed

text \<open>A request keeps the heap. It leaves every page in use and all caches but its own, and the shape of that.\<close>

definition heap_frame :: "u32 \<Rightarrow> 'a slab_state_scheme \<Rightarrow> 'a slab_state_scheme \<Rightarrow> bool" where
  "heap_frame c s s' \<longleftrightarrow> other_caches c s s' \<and> same_shape (cacheAt s c) (cacheAt s' c) \<and> same_bounds s s' \<and>
     (\<forall>p. page_refs s p \<noteq> 0 \<longrightarrow> page_refs s' p \<noteq> 0)"

lemma slab_heap_step:
  assumes heap: "slab_heap R osize C m L s" "c \<in> C"
    and step: "\<And>P X. heap_ok C P X s \<Longrightarrow> \<exists>P' X'. handed_out x c (P c) (X c) P' X' s s'" and pages: "kernel_pages n s'"
  shows "(\<forall>r \<in> L. ranges_apart r (x, osize c)) \<and> slab_heap R osize C n (insert (x, osize c) L) s' \<and>
    heap_frame c s s' \<and> x \<noteq> 0 \<and> MemVirt2Phys x \<notin> R \<and> page_refs s' (MemVirt2Phys x) \<noteq> 0"
proof -
  obtain P X where ok: "heap_ok C P X s" and sizes: "\<forall>c \<in> C. unat (objectSize (cacheAt s c)) = osize c"
    and R: "\<forall>c \<in> C. P c \<inter> R = {}" "\<forall>p \<in> R. page_refs s p \<noteq> 0"
    and live: "\<And>r. r \<in> L \<Longrightarrow> \<exists>c \<in> C. snd r = osize c \<and> fst r \<in> set (page_objects (cacheAt s c) (MemVirt2Phys (fst r))) \<and>
        MemVirt2Phys (fst r) \<in> P c \<and> fst r \<notin> X c" using heap(1) unfolding slab_heap_def by blast
  obtain P' X' where x: "handed_out x c (P c) (X c) P' X' s s'" using step [OF ok] by blast
  have shape: "same_shape (cacheAt s c') (cacheAt s' c')" for c'
    using x by (cases "c' = c") (auto simp: handed_out_def slab_step_def other_caches_def same_shape_def)
  then have objs: "page_objects (cacheAt s' c') = page_objects (cacheAt s c')" "unat (objectSize (cacheAt s' c')) = unat (objectSize (cacheAt s c'))" for c'
    by (simp_all add: page_objects_def same_shape_def fun_eq_iff)
  have "\<exists>c' \<in> C. snd r = osize c' \<and> fst r \<in> set (page_objects (cacheAt s' c') (MemVirt2Phys (fst r))) \<and>
      MemVirt2Phys (fst r) \<in> (P(c := P')) c' \<and> fst r \<notin> (X(c := X')) c'" if r: "r \<in> insert (x, osize c) L" for r
  proof (cases "r = (x, osize c)")
    case True
    then show ?thesis using x heap(2) by (intro bexI [of _ c]) (simp_all add: handed_out_def objs)
  next
    case False
    then obtain c' where c': "c' \<in> C" "snd r = osize c'" "fst r \<in> set (page_objects (cacheAt s c') (MemVirt2Phys (fst r)))"
      "MemVirt2Phys (fst r) \<in> P c'" "fst r \<notin> X c'" using r live by blast
    then show ?thesis using live_object(2,3) [OF ok heap(2) x c'(1,3-5)] by (intro bexI [of _ c']) (simp_all only: objs simp_thms)
  qed
  then have all: "\<forall>r \<in> insert (x, osize c) L. \<exists>c' \<in> C. snd r = osize c' \<and> fst r \<in> set (page_objects (cacheAt s' c') (MemVirt2Phys (fst r))) \<and>
      MemVirt2Phys (fst r) \<in> (P(c := P')) c' \<and> fst r \<notin> (X(c := X')) c'" by (rule ballI)
  have "p \<notin> R" if "p \<in> P'" for p using that x R heap(2) by (cases "p \<in> P c") (auto simp: handed_out_def)
  then have R': "\<forall>c' \<in> C. (P(c := P')) c' \<inter> R = {}" "MemVirt2Phys x \<notin> R" using R(1) x by (auto simp: handed_out_def)
  have used: "page_refs s' p \<noteq> 0" if "page_refs s p \<noteq> 0" for p using that x by (simp add: handed_out_def)
  have "\<forall>c \<in> C. unat (objectSize (cacheAt s' c)) = osize c" "\<forall>p \<in> R. page_refs s' p \<noteq> 0" using sizes R(2) used by (simp_all add: objs(2))
  then have "slab_heap R osize C n (insert (x, osize c) L) s'" unfolding slab_heap_def
    by (intro exI [of _ "P(c := P')"] exI [of _ "X(c := X')"] conjI heap_step [OF ok heap(2) x] pages R'(1) all)
  moreover have "ranges_apart r (x, osize c)" if "r \<in> L" for r
    using live [OF that] live_object(1) [OF ok heap(2) x] sizes heap(2) by (metis prod.collapse)
  moreover have "heap_frame c s s'" "page_refs s' (MemVirt2Phys x) \<noteq> 0" using x used shape
    by (auto simp: heap_frame_def handed_out_def slab_step_def placed_def)
  ultimately show ?thesis using R'(2) x by (auto simp: handed_out_def)
qed

lemma slab_heap_alloc:
  assumes "slab_heap R osize C (Suc n) L s" "c \<in> C"
  shows "\<exists>x s'. MemSlabAlloc (Suc d) c s = ret (x, s') \<and> (\<forall>r \<in> L. ranges_apart r (x, osize c)) \<and> slab_heap R osize C n (insert (x, osize c) L) s' \<and>
    heap_frame c s s' \<and> x \<noteq> 0 \<and> MemVirt2Phys x \<notin> R \<and> page_refs s' (MemVirt2Phys x) \<noteq> 0"
proof -
  obtain P X where "heap_ok C P X s" "kernel_pages (Suc n) s" using assms(1) by (auto simp: slab_heap_def)
  then obtain x s' where run: "MemSlabAlloc (Suc d) c s = ret (x, s')" "kernel_pages n s'" using heap_alloc [OF _ assms(2)] by blast
  have step: "\<exists>P' X'. handed_out x c (P c) (X c) P' X' s s'" if "heap_ok C P X s" for P X
    using heap_alloc [OF that assms(2), of n d] \<open>kernel_pages (Suc n) s\<close> run(1) by auto
  show ?thesis using run(1) slab_heap_step [where x = x and s' = s' and n = n, OF assms] step run(2) by blast
qed

interpretation heap_objects: object_heap "MemSlabAlloc (Suc d)" osize "slab_heap R osize" for d R osize
  by unfold_locales (use slab_heap_alloc in blast)

section \<open>Cleared objects\<close>

lemma object_word:
  assumes "small_cache c" "0 \<le> p" "p < MEM_KFIXED_MAX_PAGE" "x \<in> set (page_objects c p)" "4 * i < unat (objectSize c)"
  shows "unat (x + of_nat (4 * i)) = unat x + 4 * i" "MemVirt2Phys (x + of_nat (4 * i)) = p"
proof -
  obtain j where j: "unat x = 3221225472 + nat p * 4096 + j * unat (objectSize c)" "j * unat (objectSize c) + unat (objectSize c) \<le> 4072"
    by (rule page_object_range [OF assms(1-4)])
  have w: "unat (MemPhys2Virt p) = 3221225472 + nat p * 4096" "nat p < 0x30000" using window_address [OF assms(2,3)] assms(2,3) by (auto simp: kfixed_max)
  have i: "unat (of_nat (4 * i) :: u32) = 4 * i" using j(2) assms(5) by (simp only: unsigned_of_nat) (simp add: take_bit_nat_eq_self)
  show a: "unat (x + of_nat (4 * i)) = unat x + 4 * i" using j assms(5) w(2) i by (simp add: unat_plus_32)
  then have "unat (x + of_nat (4 * i) - MemPhys2Virt p) < 4096" using j assms(5) w(1) by (simp add: unat_minus_32 word_le_nat_alt)
  then show "MemVirt2Phys (x + of_nat (4 * i)) = p"
    using phys_virt_roundtrip [OF assms(2,3), of "x + of_nat (4 * i) - MemPhys2Virt p"] by (simp add: PAGE_SIZE_def word_less_nat_alt)
qed

lemma handed_out_wiped:
  assumes out: "handed_out x c P X P' X' s s1"
  shows "handed_out x c P X P' X' s (s1\<lparr>smem := memset_object x (objectSize (cacheAt s1 c)) (smem s1)\<rparr>)"
proof -
  let ?c = "cacheAt s1 c" and ?p = "MemVirt2Phys x" and ?m = "memset_object x (objectSize (cacheAt s1 c)) (smem s1)"
  let ?s = "s1\<lparr>smem := ?m\<rparr>" and ?W = "{x + of_nat (4 * i) | i. 4 * i < unat (objectSize (cacheAt s1 c))}"
  obtain A where A: "slab_step c A s s1" "\<forall>y \<in> A. MemVirt2Phys y \<in> P'" using out by (auto simp: handed_out_def)
  have shape: "same_shape (cacheAt s c) ?c" using A(1) by (simp add: slab_step_def)
  have pl: "placed c P' X' s1" "?p \<in> P'" "x \<notin> X'" and objs: "x \<in> set (page_objects ?c ?p)"
    using out shape by (simp_all add: handed_out_def page_objects_def same_shape_def)
  have c: "small_cache ?c" "0 \<le> ?p" "?p < MEM_KFIXED_MAX_PAGE" "unat (objectSize ?c) mod 4 = 0" using pl by (auto simp: placed_def)
  have m: "?m y = smem s1 y" if "y \<notin> ?W" for y using that memset_object_mem [OF c(4)] by auto
  have page: "MemVirt2Phys y \<in> P'" if "y \<in> ?W" for y using that object_word(2) [OF c(1-3) objs] pl(2) by auto
  have free: "y \<notin> ?W" if y: "y \<in> X'" for y
  proof -
    have q: "MemVirt2Phys y \<in> P'" "y \<in> set (page_objects ?c (MemVirt2Phys y))" using placed_object [OF pl(1) y] by simp_all
    then have r: "0 \<le> MemVirt2Phys y" "MemVirt2Phys y < MEM_KFIXED_MAX_PAGE" using pl(1) by (auto simp: placed_def)
    have "ranges_apart (x, unat (objectSize ?c)) (y, unat (objectSize ?c))"
      using page_objects_apart [OF c(1-3) objs c(1) r q(2)] y pl(3) by (auto simp: same_shape_def)
    moreover have "0 < unat (objectSize ?c)" using c(1) by (simp add: small_cache_def)
    ultimately show ?thesis using object_word(1) [OF c(1-3) objs] by (auto simp: ranges_apart_def)
  qed
  have "cache_pool c ?s X'" by (rule cache_pool_frame [of c s1]) (use pl(1) m free in \<open>auto simp: placed_def\<close>)
  moreover have refs: "page_refs ?s = page_refs s1" by (simp add: page_refs_def fun_eq_iff)
  ultimately have "placed c P' X' ?s" using pl(1) by (simp add: placed_def)
  moreover have "slab_step c (A \<union> ?W) s ?s" using A(1) m by (auto simp: slab_step_def other_caches_def)
  moreover have "\<forall>y \<in> A \<union> ?W. MemVirt2Phys y \<in> P'" using A(2) page by blast
  moreover have "same_bounds s ?s" using out by (simp add: handed_out_def same_bounds_def)
  ultimately have step: "\<exists>A. slab_step c A s ?s \<and> (\<forall>y \<in> A. MemVirt2Phys y \<in> P')" "placed c P' X' ?s" "same_bounds s ?s" by blast+
  show ?thesis unfolding handed_out_def by (intro conjI step) (use out in \<open>simp_all add: handed_out_def refs\<close>)
qed

lemma slab_heap_zalloc:
  assumes "slab_heap R osize C (Suc n) L s" "c \<in> C"
  shows "\<exists>x s'. MemSlabZAlloc c s = ret (x, s') \<and> (\<forall>r \<in> L. ranges_apart r (x, osize c)) \<and> slab_heap R osize C n (insert (x, osize c) L) s' \<and>
    heap_frame c s s' \<and> x \<noteq> 0 \<and> MemVirt2Phys x \<notin> R \<and> page_refs s' (MemVirt2Phys x) \<noteq> 0"
proof -
  obtain P X where ok: "heap_ok C P X s" "kernel_pages (Suc n) s" using assms(1) by (auto simp: slab_heap_def)
  then obtain x s1 P' X' where run: "MemSlabAlloc (Suc (Suc 0)) c s = ret (x, s1)" "kernel_pages n s1" "handed_out x c (P c) (X c) P' X' s s1"
    using heap_alloc [OF _ assms(2)] by blast
  define s' where "s' = s1\<lparr>smem := memset_object x (objectSize (cacheAt s1 c)) (smem s1)\<rparr>"
  have step: "\<exists>P' X'. handed_out x c (P c) (X c) P' X' s s'" if "heap_ok C P X s" for P X
    using heap_alloc [OF that assms(2) ok(2), of "Suc 0"] run(1) handed_out_wiped unfolding s'_def by fastforce
  have "same_pages s1 s'" by (simp add: same_pages_def s'_def page_refs_def fun_eq_iff)
  then have pages: "kernel_pages n s'" using run(2) kernel_pages_same by blast
  have "MemSlabZAlloc c s = ret (x, s')" using run(1,3) by (simp add: MemSlabZAlloc_def numeral_2_eq_2 s'_def handed_out_def)
  then show ?thesis using slab_heap_step [where x = x and s' = s' and n = n, OF assms] step pages by blast
qed

section \<open>New caches\<close>

text \<open>What a sequence of requests and creations leaves: the root, the shape of the old caches, the pages in use.\<close>

definition heap_grows :: "u32 set \<Rightarrow> 'a slab_state_scheme \<Rightarrow> 'a slab_state_scheme \<Rightarrow> bool" where
  "heap_grows C s s' \<longleftrightarrow> rootCache s' = rootCache s \<and> same_bounds s s' \<and> (\<forall>c \<in> C. same_shape (cacheAt s c) (cacheAt s' c)) \<and>
     (\<forall>p. page_refs s p \<noteq> 0 \<longrightarrow> page_refs s' p \<noteq> 0)"

lemma heap_grows_refl [simp]: "heap_grows C s s"
  by (simp add: heap_grows_def same_shape_def same_bounds_def)

lemma heap_grows_trans: "heap_grows C s t \<Longrightarrow> heap_grows C t u \<Longrightarrow> heap_grows C s u"
  by (auto simp: heap_grows_def same_shape_def same_bounds_def)

lemma heap_frame_grows: "heap_frame c s s' \<Longrightarrow> heap_grows C s s' \<and> kAllocCache s' = kAllocCache s"
  by (auto simp: heap_frame_def heap_grows_def other_caches_def) (metis same_shape_def)

lemma heap_ok_upd:
  assumes "x \<notin> C"
  shows "heap_ok C P X (s\<lparr>cacheAt := (cacheAt s)(x := c), cacheChain := l\<rparr>) = heap_ok C P X s"
    "kernel_pages n (s\<lparr>cacheAt := a, cacheChain := l\<rparr>) = kernel_pages n s"
proof -
  have refs: "page_refs (s\<lparr>cacheAt := a, cacheChain := l\<rparr>) = page_refs s" for a by (simp add: page_refs_def fun_eq_iff)
  have "placed y (P y) (X y) (s\<lparr>cacheAt := (cacheAt s)(x := c), cacheChain := l\<rparr>) = placed y (P y) (X y) s" if "y \<in> C" for y
  proof -
    have "x \<noteq> y" using that assms by blast
    then show ?thesis by (simp add: placed_def cache_pool_upd(1) refs)
  qed
  then show "heap_ok C P X (s\<lparr>cacheAt := (cacheAt s)(x := c), cacheChain := l\<rparr>) = heap_ok C P X s" by (simp add: heap_ok_def refs)
  show "kernel_pages n (s\<lparr>cacheAt := a, cacheChain := l\<rparr>) = kernel_pages n s"
    by (rule kernel_pages_same) (simp add: same_pages_def refs)
qed

lemma slab_heap_upd:
  assumes "slab_heap R osize C n L s" "x \<notin> C"
  shows "slab_heap R osize C n L (s\<lparr>cacheAt := (cacheAt s)(x := c), cacheChain := l\<rparr>)"
proof -
  have "cacheAt (s\<lparr>cacheAt := (cacheAt s)(x := c), cacheChain := l\<rparr>) y = cacheAt s y" if "y \<in> C" for y using that assms(2) by auto
  moreover have "page_refs (s\<lparr>cacheAt := (cacheAt s)(x := c), cacheChain := l\<rparr>) = page_refs s" by (simp add: page_refs_def fun_eq_iff)
  ultimately show ?thesis using assms unfolding slab_heap_def by (simp add: heap_ok_upd [OF assms(2)] cong: bex_cong)
qed

lemma slab_heap_create:
  assumes heap: "slab_heap R osize C (Suc n) L s" and sz: "(sz0 + 3) AND NOT 3 = sz" "sz < 8 * PAGE_SIZE" "sz \<noteq> 0"
  shows "\<exists>x s'. MemSlabCreate sz0 flags s = ret (x, s') \<and> x \<notin> C \<and> slab_heap R osize C n (insert (x, osize (rootCache s)) L) s' \<and>
    cacheAt s' x = cache_layout sz flags \<and> heap_grows C s s' \<and> kAllocCache s' = kAllocCache s"
proof -
  let ?r = "rootCache s"
  obtain P X where ok: "heap_ok C P X s" "kernel_pages (Suc n) s" using heap by (auto simp: slab_heap_def)
  then have r: "?r \<in> C" by (simp add: heap_ok_def)
  obtain x s1 where x: "MemSlabAlloc (Suc (Suc 0)) ?r s = ret (x, s1)" "slab_heap R osize C n (insert (x, osize ?r) L) s1"
    "heap_frame ?r s s1" "x \<noteq> 0" using slab_heap_alloc [OF heap r] by blast
  obtain P' X' where "handed_out x ?r (P ?r) (X ?r) P' X' s s1" using heap_alloc [OF ok(1) r ok(2), of "Suc 0"] x(1) by auto
  then have new: "x \<notin> C" using ok(1) by (auto simp: handed_out_def heap_ok_def)
  let ?s = "s1\<lparr>cacheAt := (cacheAt s1)(x := cache_layout sz flags), cacheChain := cacheChain s1 @ [x]\<rparr>"
  have "MemSlabCreate sz0 flags s = ret (x, ?s)" using x(1,4) sz by (simp add: MemSlabCreate_def Let_def not_le numeral_2_eq_2)
  moreover have "page_refs ?s = page_refs s1" by (simp add: page_refs_def fun_eq_iff)
  then have "heap_grows C s1 ?s" using new by (auto simp: heap_grows_def same_shape_def same_bounds_def)
  then have "heap_grows C s ?s" using heap_frame_grows [OF x(3)] heap_grows_trans by blast
  ultimately show ?thesis using slab_heap_upd [OF x(2) new] new heap_frame_grows [OF x(3)]
    by (intro exI [of _ x] exI [of _ ?s]) simp
qed

text \<open>A new cache of small objects joins the heap.\<close>

lemma slab_heap_adopt:
  assumes heap: "slab_heap R osize C n L s" and x: "x \<notin> C" "(x, m) \<in> L" "cacheAt s x = cache_layout sz flags"
    and small: "small_cache (cache_layout sz flags)" "0 < unat (objectsPerSlab (cache_layout sz flags))" "unat sz mod 4 = 0"
  shows "slab_heap R (osize(x := unat sz)) (insert x C) n L s"
proof -
  obtain P X where ok: "heap_ok C P X s" "kernel_pages n s" and sizes: "\<forall>c \<in> C. unat (objectSize (cacheAt s c)) = osize c"
    and R: "\<forall>c \<in> C. P c \<inter> R = {}" "\<forall>p \<in> R. page_refs s p \<noteq> 0"
    and live: "\<forall>r \<in> L. \<exists>c \<in> C. snd r = osize c \<and> fst r \<in> set (page_objects (cacheAt s c) (MemVirt2Phys (fst r))) \<and>
        MemVirt2Phys (fst r) \<in> P c \<and> fst r \<notin> X c" using heap unfolding slab_heap_def by blast
  have lists: "cache_slabs (cache_layout sz flags) = []" "objectSize (cache_layout sz flags) = sz"
    by (simp_all add: cache_layout_def Let_def cache_slabs_def)
  have "cache_inv s x (\<lambda>_. [])" using small(2) lists by (simp add: cache_inv_def x(3)) (simp add: cache_slabs_def)
  then have "cache_pool x s {}" by (auto simp: cache_pool_def free_objs_def x(3) lists)
  then have "placed x {} {} s" using small lists by (simp add: placed_def x(3))
  moreover obtain c where c: "c \<in> C" "MemVirt2Phys x \<in> P c" "x \<notin> X c" using live x(2) by fastforce
  moreover have "page_refs s (MemVirt2Phys x) \<noteq> 0" using ok(1) c by (auto simp: heap_ok_def placed_def)
  moreover have "x \<notin> X (rootCache s)"
  proof
    assume a: "x \<in> X (rootCache s)"
    have root: "rootCache s \<in> C" "placed (rootCache s) (P (rootCache s)) (X (rootCache s)) s" using ok(1) by (auto simp: heap_ok_def)
    have "P c \<inter> P (rootCache s) = {}" if "c \<noteq> rootCache s" using ok(1) c(1) root(1) that unfolding heap_ok_def by blast
    then show False using placed_object(1) [OF root(2) a] c a by (cases "c = rootCache s") auto
  qed
  ultimately have "heap_ok (insert x C) (P(x := {})) (X(x := {})) s" using ok(1) x(1) unfolding heap_ok_def by auto
  moreover have "\<forall>r \<in> L. \<exists>c \<in> insert x C. snd r = (osize(x := unat sz)) c \<and> fst r \<in> set (page_objects (cacheAt s c) (MemVirt2Phys (fst r))) \<and>
      MemVirt2Phys (fst r) \<in> (P(x := {})) c \<and> fst r \<notin> (X(x := {})) c" using live x(1) by (metis fun_upd_apply insertCI)
  moreover have "\<forall>c \<in> insert x C. unat (objectSize (cacheAt s c)) = (osize(x := unat sz)) c" "\<forall>c \<in> insert x C. (P(x := {})) c \<inter> R = {}"
    using sizes R(1) by (auto simp: x(3) lists)
  ultimately show ?thesis using ok(2) R(2) unfolding slab_heap_def by blast
qed

text \<open>Pages that go elsewhere do not disturb the heap.\<close>

lemma slab_heap_pages:
  fixes s s' :: "'a slab_state_scheme"
  assumes heap: "slab_heap R osize C n L s" and more: "phys_state.more s' = phys_state.more s"
    and used: "\<And>p. page_refs s p \<noteq> 0 \<Longrightarrow> page_refs s' p \<noteq> 0" and pages: "kernel_pages m s'"
  shows "slab_heap R osize C m L s'"
proof -
  have same: "cacheAt s' = cacheAt s" "slabAt s' = slabAt s" "smem s' = smem s" "rootCache s' = rootCache s"
    using more by (cases s; cases s'; simp)+
  have "placed c P X s'" if "placed c P X s" for c P X using that used by (simp add: placed_def same cache_pool_def cache_inv_def slab_rep_def)
  then have "heap_ok C P X s'" if "heap_ok C P X s" for P X using that used by (auto simp: heap_ok_def same)
  then show ?thesis using heap used pages unfolding slab_heap_def same by blast
qed

section \<open>The caches of the start\<close>

lemma slab_heap_kalloc_caches:
  assumes "slab_heap R osize C (n + k) L s" "i + n \<le> 11"
  shows "\<exists>s' L'. kalloc_caches n i s = ret s' \<and> slab_heap R osize C k L' s' \<and> L \<subseteq> L' \<and> heap_grows C s s' \<and>
    (\<forall>j < i. kAllocCache s' j = kAllocCache s j)"
  using assms
proof (induction n arbitrary: i s L)
  case 0
  then show ?case by (intro exI [of _ s] exI [of _ L]) simp
next
  case (Suc n)
  have i: "i < 11" using Suc.prems(2) by simp
  have heap: "slab_heap R osize C (Suc (n + k)) L s" using Suc.prems(1) by simp
  obtain x s1 where x: "MemSlabCreate (push_bit i 8) 0 s = ret (x, s1)" "slab_heap R osize C (n + k) (insert (x, osize (rootCache s)) L) s1"
    "heap_grows C s s1" "kAllocCache s1 = kAllocCache s"
    using slab_heap_create [OF heap kalloc_sizes [OF i], of 0] by blast
  let ?s = "s1\<lparr>kAllocCache := (kAllocCache s1)(i := x)\<rparr>"
  have refs: "page_refs ?s = page_refs s1" by (simp add: page_refs_def fun_eq_iff)
  have "slab_heap R osize C (n + k) (insert (x, osize (rootCache s)) L) ?s" using x(2)
    by (simp add: slab_heap_def heap_ok_def placed_def cache_pool_upd(2) kernel_pages_same [of s1 ?s] same_pages_def refs)
  from Suc.IH [OF this, of "Suc i"] obtain s' L' where s': "kalloc_caches n (Suc i) ?s = ret s'" "slab_heap R osize C k L' s'"
    "insert (x, osize (rootCache s)) L \<subseteq> L'" "heap_grows C ?s s'" "\<forall>j < Suc i. kAllocCache s' j = kAllocCache ?s j" using Suc.prems(2) by auto
  have "heap_grows C s1 ?s" by (simp add: heap_grows_def refs same_shape_def same_bounds_def)
  then have "heap_grows C s s'" using x(3) s'(4) heap_grows_trans by blast
  then show ?case using x(1,4) s' by (intro exI [of _ s'] exI [of _ L']) auto
qed

lemma start_heap:
  assumes "cacheAt s (rootCache s) = root_cache" "page_refs s (MemVirt2Phys (rootCache s)) \<noteq> 0" "kernel_pages n s" "\<And>p. p \<in> R \<Longrightarrow> page_refs s p \<noteq> 0"
  shows "slab_heap R (\<lambda>_. 48) {rootCache s} n {} s"
proof -
  have "unat (objectSize root_cache) = 48" by (simp add: root_cache_def sizeof_MemCache_def)
  then have "placed (rootCache s) {} {} s" using root_cache_pool [OF assms(1)] by (auto simp: placed_def headers_placed_def assms(1) root_cache_def cache_slabs_def)
  then have "heap_ok {rootCache s} (\<lambda>_. {}) (\<lambda>_. {}) s" using assms(2) by (simp add: heap_ok_def)
  then show ?thesis using assms(1,3,4) \<open>unat (objectSize root_cache) = 48\<close> unfolding slab_heap_def
    by (intro exI [of _ "\<lambda>_. {}"]) auto
qed

lemma small_layout:
  assumes "sz \<noteq> 0" "sz < 0x200" "8 \<le> 4072 div sz" "4072 mod sz \<le> 128"
  shows "small_cache (cache_layout sz 0)" "0 < unat (objectsPerSlab (cache_layout sz 0))"
proof -
  have "best_pages 7 1 sz 24 8 0xFFFFFFFF = 1" using best_pages.simps(2) [of 6 1 sz 24 8 "0xFFFFFFFF"] assms(3,4)
    by (simp add: PAGE_SIZE_def Let_def linorder_not_le [symmetric])
  moreover have "drop_bit 3 PAGE_SIZE = 0x200" by (simp add: PAGE_SIZE_def drop_bit_eq_div)
  ultimately have c: "cache_layout sz 0 = \<lparr>slabsFull = [], slabsPartial = [], slabsEmpty = [], objectSize = sz, cacheFlags = 0,
      pagesPerSlab = 1, objectsPerSlab = 4072 div sz\<rparr>"
    using assms(2) by (simp add: cache_layout_def Let_def sizeof_MemSlab_def PAGE_SIZE_def linorder_not_le [symmetric])
  have "unat (4072 div sz) * unat sz \<le> 4072" by (simp add: unat_div)
  then show "small_cache (cache_layout sz 0)" using assms(1) by (simp add: small_cache_def is_large_def c unat_gt_0)
  have "8 \<le> unat (4072 div sz)" using assms(3) by (simp add: word_le_nat_alt)
  then show "0 < unat (objectsPerSlab (cache_layout sz 0))" by (simp add: c)
qed

lemma kalloc_layout: "small_cache (cache_layout 8 0)" "0 < unat (objectsPerSlab (cache_layout 8 0))" "unat (8 :: u32) mod 4 = 0"
  using small_layout [of 8] by simp_all

text \<open>After \<open>MemSlabInit\<close> the root cache and the smallest cache of \<open>MemKAlloc\<close> are in the heap.\<close>

lemma slab_init_heap:
  assumes "cacheAt s (rootCache s) = root_cache" "page_refs s (MemVirt2Phys (rootCache s)) \<noteq> 0" "kernel_pages (k + 12) s"
    and "\<And>p. p \<in> R \<Longrightarrow> page_refs s p \<noteq> 0"
  shows "\<exists>s' L. MemSlabInit s = ret s' \<and> kAllocCache s' 0 \<noteq> rootCache s \<and> rootCache s' = rootCache s \<and>
    slab_heap R ((\<lambda>_. 48)(kAllocCache s' 0 := 8)) {rootCache s, kAllocCache s' 0} k L s' \<and> (\<forall>p. page_refs s p \<noteq> 0 \<longrightarrow> page_refs s' p \<noteq> 0) \<and>
    same_bounds s s'"
proof -
  let ?r = "rootCache s"
  have heap: "slab_heap R (\<lambda>_. 48) {?r} (Suc (11 + k)) {} s" using start_heap [OF assms(1-3)] assms(4) by (simp add: add.commute)
  have sz: "(sizeof_MemSlab + 3) AND NOT 3 = 24" "(24 :: u32) < 8 * PAGE_SIZE" "(24 :: u32) \<noteq> 0"
    by (simp_all add: sizeof_MemSlab_def PAGE_SIZE_def)
  obtain x s1 where x: "MemSlabCreate sizeof_MemSlab 0 s = ret (x, s1)" "slab_heap R (\<lambda>_. 48) {?r} (11 + k) {(x, 48)} s1" "heap_grows {?r} s s1"
    using slab_heap_create [OF heap sz, of 0] by blast
  let ?s1 = "s1\<lparr>rootSlabCache := x\<rparr>"
  have refs1: "page_refs ?s1 = page_refs s1" by (simp add: page_refs_def fun_eq_iff)
  have heap1: "slab_heap R (\<lambda>_. 48) {?r} (Suc (10 + k)) {(x, 48)} ?s1" using x(2)
    by (simp add: slab_heap_def heap_ok_def placed_def cache_pool_upd(3) kernel_pages_same [of s1 ?s1] same_pages_def refs1)
  obtain y s2 where y: "MemSlabCreate (push_bit 0 8) 0 ?s1 = ret (y, s2)" "y \<notin> {?r}" "slab_heap R (\<lambda>_. 48) {?r} (10 + k) (insert (y, 48) {(x, 48)}) s2"
    "cacheAt s2 y = cache_layout (push_bit 0 8) 0" "heap_grows {?r} ?s1 s2" using slab_heap_create [OF heap1 kalloc_sizes [of 0], of 0] by auto
  let ?s2 = "s2\<lparr>kAllocCache := (kAllocCache s2)(0 := y)\<rparr>" and ?C = "{y, ?r}" and ?size = "(\<lambda>_. 48)(y := 8) :: u32 \<Rightarrow> nat"
  have refs2: "page_refs ?s2 = page_refs s2" by (simp add: page_refs_def fun_eq_iff)
  have "slab_heap R ((\<lambda>_. 48)(y := unat (8 :: u32))) (insert y {?r}) (10 + k) (insert (y, 48) {(x, 48)}) s2"
    by (rule slab_heap_adopt [OF y(3,2) _ y(4) [simplified] kalloc_layout, where m = 48]) simp
  then have "slab_heap R ?size ?C (10 + k) (insert (y, 48) {(x, 48)}) ?s2"
    by (simp add: slab_heap_def heap_ok_def placed_def cache_pool_upd(2) kernel_pages_same [of s2 ?s2] same_pages_def refs2)
  from slab_heap_kalloc_caches [OF this, of 1] obtain s' L' where s': "kalloc_caches 10 1 ?s2 = ret s'" "slab_heap R ?size ?C k L' s'"
    "heap_grows ?C ?s2 s'" "kAllocCache s' 0 = y" by auto
  have "kalloc_caches 11 0 ?s1 = ret s'" using y(1) s'(1) by (simp add: numeral_eq_Suc)
  then have "MemSlabInit s = ret s'" using x(1) by (simp add: MemSlabInit_def)
  moreover have "rootCache s' = ?r" "\<forall>p. page_refs s p \<noteq> 0 \<longrightarrow> page_refs s' p \<noteq> 0" "same_bounds s s'"
    using x(3) y(5) s'(3) by (simp_all add: heap_grows_def refs1 refs2 same_bounds_def)
  ultimately show ?thesis using s'(2,4) y(2) by (intro exI [of _ s'] exI [of _ L']) (auto simp: insert_commute)
qed

section \<open>Properties\<close>



end
