(* ===== verification/Mount.thy ===== *)
theory Mount
  imports Io_Context Linked_List
begin

text \<open>
  File system types and mount points: \<open>kernel/src/io/mount.c\<close> and the structures of
  \<open>kernel/include/io/fs.h\<close>.

  File systems and their types are records at addresses, with 0 for \<open>NULL\<close>. The ring of registered types
  is a pointer heap with the operations of theory \<open>Linked_List\<close>, because the code uses them in a way
  that the represented list does not show; the node of a type is named by the address of the type and
  the static head by \<open>fsTypeHead\<close>. The hash table of mount points is the association list of its items
  (theory \<open>Hash_Table\<close> shows that the table implements the map). The \<open>mount\<close> function of a type and the
  operations of a file system are arguments. Writing to a field of a \<open>NULL\<close> device faults in kernel
  mode, which panics (theory \<open>Page_Fault\<close>).
\<close>

section \<open>State\<close>

record IoFilesystem =
  fs_fsType :: u32
  fs_device :: u32
  fs_ops :: u32
  fs_rootINode :: u32
  fs_refCount :: u32
  fs_flags :: u32
  fs_fsData :: u32
  fs_parentFs :: u32
  fs_parentINode :: u32
  fs_mountPoints :: "(u32 \<times> u32) list"

record IoFilesystemType =
  ft_name :: u32
  ft_refCount :: u32

record vfs_state = io_state +
  fsAt :: "u32 \<Rightarrow> IoFilesystem"
  typeAt :: "u32 \<Rightarrow> IoFilesystemType"
  fsTypes :: "u32 heap"
  IoFilesystemRoot :: u32
  devMounted :: "u32 \<Rightarrow> bool"

record 's IoFilesystemOps =
  fo_umount :: "(u32 \<Rightarrow> 's \<Rightarrow> int \<times> 's) option"
  fo_readINode :: "IoINode \<Rightarrow> 's \<Rightarrow> int \<times> IoINode \<times> 's"
  fo_findINode :: "u32 \<Rightarrow> u32 \<Rightarrow> u32 \<Rightarrow> nat \<Rightarrow> 's \<Rightarrow> int \<times> u32 \<times> 's"
  fo_create :: "(u32 \<Rightarrow> IoINode \<Rightarrow> u32 \<Rightarrow> nat \<Rightarrow> IoMode \<Rightarrow> 's \<Rightarrow> int \<times> u32 \<times> 's) option"

definition fsTypeHead :: u32 where "fsTypeHead = 0"

definition upd_fs :: "u32 \<Rightarrow> (IoFilesystem \<Rightarrow> IoFilesystem) \<Rightarrow> 'a vfs_state_scheme \<Rightarrow> 'a vfs_state_scheme" where
  "upd_fs f g s = s\<lparr>fsAt := (fsAt s)(f := g (fsAt s f))\<rparr>"

definition upd_type :: "u32 \<Rightarrow> (IoFilesystemType \<Rightarrow> IoFilesystemType) \<Rightarrow> 'a vfs_state_scheme \<Rightarrow> 'a vfs_state_scheme" where
  "upd_type t g s = s\<lparr>typeAt := (typeAt s)(t := g (typeAt s t))\<rparr>"

section \<open>File system types\<close>

text \<open>
  The iteration of \<open>IoFilesystemFind\<close>; \<open>None\<close> is a loop that does not end. The comparison of two names may
  take \<open>fuel\<close> steps.
\<close>

partial_function (option) find_type :: "nat \<Rightarrow> mem \<Rightarrow> u32 \<Rightarrow> u32 \<Rightarrow> 'a vfs_state_scheme \<Rightarrow> u32 option" where
  "find_type fuel m name type s =
     (if type = fsTypeHead then Some 0
      else case strcmp fuel m (ft_name (typeAt s type)) name of
          None \<Rightarrow> None
        | Some c \<Rightarrow> if c = 0 then Some type else find_type fuel m name (nxt (fsTypes s type)) s)"

declare find_type.simps [simp del]

definition IoFilesystemFind :: "nat \<Rightarrow> mem \<Rightarrow> u32 \<Rightarrow> 'a vfs_state_scheme \<Rightarrow> u32 option" where
  "IoFilesystemFind fuel m name s = find_type fuel m name (nxt (fsTypes s fsTypeHead)) s"

definition IoFilesystemRegister :: "nat \<Rightarrow> mem \<Rightarrow> u32 \<Rightarrow> 'a vfs_state_scheme \<Rightarrow> (bool \<times> 'a vfs_state_scheme) option" where
  "IoFilesystemRegister fuel m type s =
     (case IoFilesystemFind fuel m (ft_name (typeAt s type)) s of
        None \<Rightarrow> None
      | Some found \<Rightarrow>
          if found = 0 then
            (let h1 = ListHeadInit fsTypeHead (fsTypes s)
             in Some (True, s\<lparr>fsTypes := ListHeadAddLast fsTypeHead type h1\<rparr>))
          else Some (False, s))"

definition IoFilesystemUnRegister :: "u32 \<Rightarrow> 'a vfs_state_scheme \<Rightarrow> bool \<times> 'a vfs_state_scheme" where
  "IoFilesystemUnRegister type s =
     (if ft_refCount (typeAt s type) \<noteq> 0 then (False, s)
      else (True, s\<lparr>fsTypes := ListDelete type (fsTypes s)\<rparr>))"

section \<open>Mounting\<close>

definition set_mounted :: "u32 \<Rightarrow> bool \<Rightarrow> 'a vfs_state_scheme \<Rightarrow> 'a vfs_state_scheme outcome" where
  "set_mounted device b s =
     (if device = 0 then Panics else Returns (s\<lparr>devMounted := (devMounted s)(device := b)\<rparr>))"

text \<open>\<open>newFs\<close> is the block \<open>MemKZAlloc\<close> returns; it is the new file system when the result is 0.\<close>

definition IoFilesystemMountInternal ::
  "(u32 \<Rightarrow> u32 \<Rightarrow> 'a vfs_state_scheme \<Rightarrow> int \<times> 'a vfs_state_scheme) \<Rightarrow> u32 \<Rightarrow> u32 \<Rightarrow> u32 \<Rightarrow> u32 \<Rightarrow> u32 \<Rightarrow> u32 \<Rightarrow>
   'a vfs_state_scheme \<Rightarrow> (int \<times> 'a vfs_state_scheme) outcome" where
  "IoFilesystemMountInternal mount type device flags newFs parentFs parentINode s =
     (if device \<noteq> 0 \<and> devMounted s device then Returns (- EBUSY, s)
      else let s1 = (if device \<noteq> 0 then s\<lparr>devMounted := (devMounted s)(device := True)\<rparr> else s);
               s2 = upd_type type (ft_refCount_update (\<lambda>n. n + 1)) s1;
               s3 = s2\<lparr>fsAt := (fsAt s2)(newFs := \<lparr>fs_fsType = type, fs_device = device, fs_ops = 0, fs_rootINode = 0,
                      fs_refCount = 0, fs_flags = flags, fs_fsData = 0, fs_parentFs = parentFs, fs_parentINode = parentINode,
                      fs_mountPoints = []\<rparr>)\<rparr>;
               (res, s4) = mount type newFs s3
           in if res \<noteq> 0 then
                bind_outcome
                  (set_mounted device False
                    (upd_type type (ft_refCount_update (\<lambda>n. n - 1)) (s4\<lparr>io_kfreed := io_kfreed s4 @ [newFs]\<rparr>)))
                  (\<lambda>s5. Returns (res, s5))
              else Returns (res, s4))"

definition IoFilesystemUnMount ::
  "(u32 \<Rightarrow> 'a vfs_state_scheme IoFilesystemOps) \<Rightarrow> u32 \<Rightarrow> 'a vfs_state_scheme \<Rightarrow> (int \<times> 'a vfs_state_scheme) outcome" where
  "IoFilesystemUnMount fsops fs s =
     (let f = fsAt s fs in
      if fs_refCount f > 0 \<or> fs_mountPoints f \<noteq> [] then Returns (- EBUSY, s)
      else let (res, s1) = (case fo_umount (fsops (fs_ops f)) of None \<Rightarrow> (0, s) | Some umount \<Rightarrow> umount fs s) in
        if res \<noteq> 0 then Returns (res, s1)
        else let f1 = fsAt s1 fs;
                 s2 = (if fs_parentFs f1 = 0 then (if fs = IoFilesystemRoot s1 then s1\<lparr>IoFilesystemRoot := 0\<rparr> else s1)
                       else upd_fs (fs_parentFs f1) (\<lambda>p. p\<lparr>fs_refCount := fs_refCount p - 1,
                              fs_mountPoints := filter (\<lambda>item. item \<noteq> (fs_parentINode f1, fs)) (fs_mountPoints p)\<rparr>) s1);
                 s3 = upd_type (fs_fsType f1) (ft_refCount_update (\<lambda>n. n - 1)) s2
             in bind_outcome (set_mounted (fs_device f1) False s3) (\<lambda>s4.
                  Returns (0, s4\<lparr>io_kfreed := io_kfreed s4 @ [fs]\<rparr>)))"

text \<open>When mounting fails, \<open>IoFilesystemUnMount\<close> is called with the uninitialised variable: \<open>junk\<close>.\<close>

definition IoFilesystemMount ::
  "(u32 \<Rightarrow> u32 \<Rightarrow> 'a vfs_state_scheme \<Rightarrow> int \<times> 'a vfs_state_scheme) \<Rightarrow> (u32 \<Rightarrow> 'a vfs_state_scheme IoFilesystemOps) \<Rightarrow>
   u32 \<Rightarrow> u32 \<Rightarrow> IoINode \<Rightarrow> u32 \<Rightarrow> u32 \<Rightarrow> u32 \<Rightarrow> 'a vfs_state_scheme \<Rightarrow> (int \<times> 'a vfs_state_scheme) outcome" where
  "IoFilesystemMount mount fsops type device onto flags newFs junk s =
     (if \<not> IO_ISDIR (in_mode onto) then Returns (- ENOTDIR, s)
      else let parent = in_fs onto; parentINode = in_number onto in
        if map_of (fs_mountPoints (fsAt s parent)) parentINode \<noteq> None then Returns (- EBUSY, s)
        else let s1 = upd_fs parent (fs_refCount_update (\<lambda>n. n + 1)) s in
          bind_outcome (IoFilesystemMountInternal mount type device flags newFs parent parentINode s1) (\<lambda>(res, s2).
            if res = 0 \<and> map_of (fs_mountPoints (fsAt s2 parent)) parentINode = None
            then Returns (0, upd_fs parent (fs_mountPoints_update (\<lambda>l. (parentINode, newFs) # l)) s2)
            else bind_outcome (IoFilesystemUnMount fsops (if res = 0 then newFs else junk) s2) (\<lambda>(_, s3). Returns (res, s3))))"

definition IoFilesystemMountRoot ::
  "(u32 \<Rightarrow> u32 \<Rightarrow> 'a vfs_state_scheme \<Rightarrow> int \<times> 'a vfs_state_scheme) \<Rightarrow> (u32 \<Rightarrow> 'a vfs_state_scheme IoFilesystemOps) \<Rightarrow>
   u32 \<Rightarrow> u32 \<Rightarrow> u32 \<Rightarrow> u32 \<Rightarrow> u32 \<Rightarrow> 'a vfs_state_scheme \<Rightarrow> (int \<times> 'a vfs_state_scheme) outcome" where
  "IoFilesystemMountRoot mount fsops type device flags newFs junk s =
     (if IoFilesystemRoot s \<noteq> 0 then Returns (- EBUSY, s)
      else bind_outcome (IoFilesystemMountInternal mount type device flags newFs 0 0 s) (\<lambda>(res, s1).
        if res = 0 \<and> IoFilesystemRoot s1 = 0 then Returns (0, s1\<lparr>IoFilesystemRoot := newFs\<rparr>)
        else bind_outcome (IoFilesystemUnMount fsops (if res = 0 then newFs else junk) s1) (\<lambda>(_, s2). Returns (res, s2))))"

section \<open>Properties\<close>

lemma upd_fs_sel [simp]:
  "fsAt (upd_fs f g s) = (fsAt s)(f := g (fsAt s f))" "typeAt (upd_fs f g s) = typeAt s" "devMounted (upd_fs f g s) = devMounted s"
  "IoFilesystemRoot (upd_fs f g s) = IoFilesystemRoot s" "io_kfreed (upd_fs f g s) = io_kfreed s"
  by (simp_all add: upd_fs_def)

lemma upd_type_sel [simp]:
  "typeAt (upd_type f g s) = (typeAt s)(f := g (typeAt s f))" "fsAt (upd_type f g s) = fsAt s" "devMounted (upd_type f g s) = devMounted s"
  "IoFilesystemRoot (upd_type f g s) = IoFilesystemRoot s" "io_kfreed (upd_type f g s) = io_kfreed s"
  by (simp_all add: upd_type_def)

text \<open>A mount function that succeeds sets the operations and the root node of the new file system, as \<open>fs.h\<close> asks.\<close>

definition mounts_with :: "u32 \<Rightarrow> u32 \<Rightarrow> (u32 \<Rightarrow> u32 \<Rightarrow> 'a vfs_state_scheme \<Rightarrow> int \<times> 'a vfs_state_scheme) \<Rightarrow> bool" where
  "mounts_with ops root mount \<longleftrightarrow>
     (\<forall>type fs s. mount type fs s = (0, upd_fs fs (\<lambda>f. f\<lparr>fs_ops := ops, fs_rootINode := root\<rparr>) s))"

lemma filter_fresh: "map_of l k = None \<Longrightarrow> filter (\<lambda>item. item \<noteq> (k, v)) l = l"
  by (auto simp: filter_id_conv map_of_eq_None_iff image_iff)

text \<open>
  (C35) Mounting and unmounting. Mounting a device on a free directory enters the new file system in the mount
  points of its parent and takes one reference on the parent, the type and the device. Unmounting it
  gives all of them back: parent, types, devices and root are as before, and the file system is freed.
\<close>

theorem mount_unmount:
  assumes mount: "mounts_with ops root mount" and umount: "fo_umount (fsops ops) = None"
    and onto: "IO_ISDIR (in_mode onto)" "in_fs onto \<noteq> 0" "in_fs onto \<noteq> newFs"
      "map_of (fs_mountPoints (fsAt s (in_fs onto))) (in_number onto) = None"
    and dev: "device \<noteq> 0" "\<not> devMounted s device"
  shows "\<exists>s1 s2. IoFilesystemMount mount fsops type device onto flags newFs junk s = Returns (0, s1) \<and>
     map_of (fs_mountPoints (fsAt s1 (in_fs onto))) (in_number onto) = Some newFs \<and> devMounted s1 device \<and>
     fs_rootINode (fsAt s1 newFs) = root \<and>
     IoFilesystemUnMount fsops newFs s1 = Returns (0, s2) \<and>
     fsAt s2 (in_fs onto) = fsAt s (in_fs onto) \<and> typeAt s2 = typeAt s \<and> devMounted s2 = devMounted s \<and>
     IoFilesystemRoot s2 = IoFilesystemRoot s \<and> io_kfreed s2 = io_kfreed s @ [newFs]"
proof -
  let ?p = "in_fs onto" and ?n = "in_number onto"
  define new where "new = \<lparr>fs_fsType = type, fs_device = device, fs_ops = ops, fs_rootINode = root, fs_refCount = 0,
    fs_flags = flags, fs_fsData = 0, fs_parentFs = ?p, fs_parentINode = ?n, fs_mountPoints = []\<rparr>"
  obtain s1 where s1: "IoFilesystemMount mount fsops type device onto flags newFs junk s = Returns (0, s1)"
    and state: "fsAt s1 = (fsAt s)(newFs := new, ?p := fs_mountPoints_update (\<lambda>l. (?n, newFs) # l)
        (fs_refCount_update (\<lambda>n. n + 1) (fsAt s ?p)))"
      "typeAt s1 = (typeAt s)(type := ft_refCount_update (\<lambda>n. n + 1) (typeAt s type))"
      "devMounted s1 = (devMounted s)(device := True)" "IoFilesystemRoot s1 = IoFilesystemRoot s" "io_kfreed s1 = io_kfreed s"
    using mount onto dev
    by (simp add: IoFilesystemMount_def IoFilesystemMountInternal_def Let_def mounts_with_def new_def fun_upd_twist)
  have parent: "(fs_mountPoints_update (\<lambda>l. (?n, newFs) # l) (fs_refCount_update (\<lambda>n. n + 1) (fsAt s ?p)))
      \<lparr>fs_refCount := fs_refCount (fsAt s ?p), fs_mountPoints := fs_mountPoints (fsAt s ?p)\<rparr> = fsAt s ?p"
    by (cases "fsAt s ?p") simp
  have kept: "ft_refCount_update (\<lambda>n. n - 1) (ft_refCount_update (\<lambda>n. n + 1) (typeAt s type)) = typeAt s type"
    by (cases "typeAt s type") simp
  have "\<exists>s2. IoFilesystemUnMount fsops newFs s1 = Returns (0, s2) \<and> fsAt s2 ?p = fsAt s ?p \<and> typeAt s2 = typeAt s \<and>
      devMounted s2 = devMounted s \<and> IoFilesystemRoot s2 = IoFilesystemRoot s \<and> io_kfreed s2 = io_kfreed s @ [newFs]"
    using onto dev umount filter_fresh [OF onto(4), of newFs] parent kept
    by (simp add: IoFilesystemUnMount_def state new_def set_mounted_def fun_upd_idem)
  then show ?thesis using s1 onto by (auto simp: state new_def)
qed

definition demo_vfs :: vfs_state where
  "demo_vfs = io_state.extend demo_io \<lparr>fsAt = (\<lambda>_. \<lparr>fs_fsType = 7, fs_device = 0, fs_ops = 0, fs_rootINode = 0, fs_refCount = 0,
     fs_flags = 0, fs_fsData = 0, fs_parentFs = 0, fs_parentINode = 0, fs_mountPoints = []\<rparr>),
     typeAt = (\<lambda>t. \<lparr>ft_name = (if t = 7 then 0x10 else 0x20), ft_refCount = 0\<rparr>), fsTypes = (\<lambda>p. \<lparr>nxt = p, prv = p\<rparr>),
     IoFilesystemRoot = 50, devMounted = (\<lambda>_. False)\<rparr>"

definition demo_dir :: IoINode where
  "demo_dir = \<lparr>in_number = 3, in_fs = 50, in_ops = 0, in_mode = 0x41FF, in_uid = 0, in_gid = 0, in_size = 0\<rparr>"

definition demo_fsops :: "'s IoFilesystemOps" where
  "demo_fsops = \<lparr>fo_umount = None, fo_readINode = (\<lambda>i s. (0, i, s)), fo_findINode = (\<lambda>fs parent name len s. (- ENOENT, 0, s)),
     fo_create = None\<rparr>"

theorem mount_unmount_witness:
  "\<exists>s1 s2. IoFilesystemMount (\<lambda>t fs s. (0, upd_fs fs (\<lambda>f. f\<lparr>fs_ops := 1, fs_rootINode := 2\<rparr>) s)) (\<lambda>_. demo_fsops) 7 9 demo_dir 0 60 0 demo_vfs =
       Returns (0, s1) \<and> IoFilesystemUnMount (\<lambda>_. demo_fsops) 60 s1 = Returns (0, s2) \<and> devMounted s2 = devMounted demo_vfs"
proof -
  have "mounts_with 1 2 (\<lambda>t fs s. (0, upd_fs fs (\<lambda>f. f\<lparr>fs_ops := 1, fs_rootINode := 2\<rparr>) s :: vfs_state))"
    by (simp add: mounts_with_def)
  from mount_unmount [OF this, of "\<lambda>_. demo_fsops" demo_dir 60 demo_vfs 9 7 0 0] show ?thesis
    by (auto simp: demo_fsops_def demo_dir_def demo_vfs_def io_state.defs IO_ISDIR_def IO_ALL_TYPES_def IO_DIR_def)
qed

text \<open>
  File systems without a device. A file system that is mounted without a device, as \<open>devfs\<close> is, cannot be
  unmounted: \<open>IoFilesystemUnMount\<close> clears the flag of its device without asking whether it has one.
\<close>

theorem unmount_without_device:
  assumes "fs_device (fsAt s fs) = 0" "fs_refCount (fsAt s fs) = 0" "fs_mountPoints (fsAt s fs) = []"
    and "fo_umount (fsops (fs_ops (fsAt s fs))) = None"
  shows "IoFilesystemUnMount fsops fs s = Panics"
  using assms by (simp add: IoFilesystemUnMount_def Let_def set_mounted_def)

theorem unmount_without_device_witness: "IoFilesystemUnMount (\<lambda>_. demo_fsops) 50 demo_vfs = Panics"
  by (rule unmount_without_device) (simp_all add: demo_vfs_def io_state.defs demo_fsops_def)

lemma register_ring:
  assumes "type \<noteq> fsTypeHead" "fsTypes s type = \<lparr>nxt = type, prv = type\<rparr>" "IoFilesystemRegister fuel m type s = Some (True, s')"
  shows "ListRep (fsTypes s') fsTypeHead [type]"
  using assms by (auto simp: IoFilesystemRegister_def ListHeadInit_def ListHeadAddLast_def ListAddBefore_def Let_def ListRep_def
      set_nxt_def set_prv_def split: option.splits if_splits)

text \<open>
  Registration forgets. Each successful registration of a file system type empties the list first: a type
  that was registered before, with another name, is not found any more.
\<close>

theorem register_forgets:
  assumes "type \<noteq> fsTypeHead" "fsTypes s type = \<lparr>nxt = type, prv = type\<rparr>" "IoFilesystemRegister fuel m type s = Some (True, s')"
    and "strcmp fuel m (ft_name (typeAt s type)) name = Some c" "c \<noteq> 0"
  shows "IoFilesystemFind fuel m name s' = Some 0"
proof -
  have ring: "nxt (fsTypes s' fsTypeHead) = type" "nxt (fsTypes s' type) = fsTypeHead"
    using register_ring [OF assms(1-3)] by (simp_all add: ListRep_def)
  have "typeAt s' = typeAt s" using assms(3) by (auto simp: IoFilesystemRegister_def Let_def split: option.splits if_splits)
  then show ?thesis using ring assms(1,4,5)
    by (simp add: IoFilesystemFind_def) (subst find_type.simps, simp, subst find_type.simps, simp)
qed

definition type_names :: mem where
  "type_names = (\<lambda>_. 0)(0x10 := 97, 0x20 := 98)"

theorem register_forgets_witness:
  "\<exists>s1 s2. IoFilesystemRegister 5 type_names 7 demo_vfs = Some (True, s1) \<and> IoFilesystemFind 5 type_names 0x10 s1 = Some 7 \<and>
     IoFilesystemRegister 5 type_names 8 s1 = Some (True, s2) \<and> IoFilesystemFind 5 type_names 0x10 s2 = Some 0"
proof -
  define s1 where "s1 = snd (the (IoFilesystemRegister 5 type_names 7 demo_vfs))"
  have first: "IoFilesystemRegister 5 type_names 7 demo_vfs = Some (True, s1)"
    by (simp add: s1_def IoFilesystemRegister_def IoFilesystemFind_def find_type.simps demo_vfs_def io_state.defs fsTypeHead_def Let_def)
  have s1: "typeAt s1 = typeAt demo_vfs" "fsTypes s1 8 = \<lparr>nxt = 8, prv = 8\<rparr>" "nxt (fsTypes s1 0) = 7" "nxt (fsTypes s1 7) = 0"
    using first by (auto simp: IoFilesystemRegister_def IoFilesystemFind_def find_type.simps demo_vfs_def io_state.defs fsTypeHead_def Let_def
        ListHeadInit_def ListHeadAddLast_def ListAddBefore_def set_nxt_def set_prv_def)
  have names: "ft_name (typeAt demo_vfs 7) = 0x10" "ft_name (typeAt demo_vfs 8) = 0x20" by (simp_all add: demo_vfs_def io_state.defs)
  have five: "(5 :: nat) = Suc (Suc (Suc (Suc (Suc 0))))" by simp
  have cmp: "strcmp 5 type_names 0x10 0x10 = Some 0" "strcmp 5 type_names 0x10 0x20 = Some (-1)" "strcmp 5 type_names 0x20 0x10 = Some 1"
    unfolding five by (simp_all add: type_names_def)
  have found: "IoFilesystemFind 5 type_names 0x10 s1 = Some 7"
    by (simp add: IoFilesystemFind_def find_type.simps fsTypeHead_def s1 names cmp)
  define s2 where "s2 = snd (the (IoFilesystemRegister 5 type_names 8 s1))"
  have "IoFilesystemFind 5 type_names 0x20 s1 = Some 0"
    by (simp add: IoFilesystemFind_def find_type.simps fsTypeHead_def s1 names cmp)
  then have second: "IoFilesystemRegister 5 type_names 8 s1 = Some (True, s2)"
    by (simp add: s2_def IoFilesystemRegister_def s1 names Let_def)
  have "IoFilesystemFind 5 type_names 0x10 s2 = Some 0"
    by (rule register_forgets [OF _ s1(2) second, of "0x10" 1]) (simp_all add: fsTypeHead_def s1 names cmp)
  then show ?thesis using first found second by blast
qed

end
