(* ===== verification/Open.thy ===== *)
theory Open
  imports Mount
begin

text \<open>
  Path lookup and opening of files: \<open>kernel/src/io/open.c\<close>.

  A path is an address in the byte memory \<open>m\<close>. The operations of the file systems are arguments: \<open>fsops\<close> gives
  the table at an address, \<open>ops\<close> that of the files. One pass of the loop of \<open>IoLookupPath\<close> either returns
  or goes on with a new cursor; the loop itself is \<open>lookup_loop\<close>, with \<open>None\<close> for a lookup that does not end. The
  result is the return value, the node in \<open>*output\<close>, the pointer in \<open>*fileStart\<close> and the state.

  The second part states what a lookup means on the list of the components of a path, for file systems
  that answer as \<open>fs.h\<close> documents (locale \<open>file_tree\<close>), and shows that the loop computes it.
\<close>

section \<open>Path lookup\<close>

definition IO_NAME_MAX :: nat where "IO_NAME_MAX = 255"

function name_length :: "mem \<Rightarrow> u32 \<Rightarrow> nat \<Rightarrow> nat" where
  "name_length m path len =
     (if len < IO_NAME_MAX \<and> m (path + of_nat len) \<noteq> 0 \<and> m (path + of_nat len) \<noteq> 0x2F
      then name_length m path (len + 1) else len)"
  by auto
termination by (relation "measure (\<lambda>(m, path, len). IO_NAME_MAX - len)") auto

declare name_length.simps [simp del]

type_synonym 's lookup_result = "int \<times> IoINode \<times> u32 \<times> 's"
type_synonym 's lookup_cursor = "u32 \<times> u32 \<times> u32 \<times> IoINode \<times> 's"

text \<open>Reading the node \<open>number\<close> of \<open>fs\<close> into \<open>*output\<close>.\<close>

definition read_node ::
  "(u32 \<Rightarrow> 'a vfs_state_scheme IoFilesystemOps) \<Rightarrow> u32 \<Rightarrow> u32 \<Rightarrow> IoINode \<Rightarrow> 'a vfs_state_scheme \<Rightarrow> int \<times> IoINode \<times> 'a vfs_state_scheme" where
  "read_node fsops fs number output s =
     fo_readINode (fsops (fs_ops (fsAt s fs))) (output\<lparr>in_number := number, in_fs := fs\<rparr>) s"

text \<open>The part of the loop from the call of \<open>findINode\<close> on.\<close>

definition lookup_name ::
  "(u32 \<Rightarrow> 'a vfs_state_scheme IoFilesystemOps) \<Rightarrow> SecContext \<Rightarrow> mem \<Rightarrow> nat \<Rightarrow> 'a vfs_state_scheme lookup_cursor \<Rightarrow>
   'a vfs_state_scheme lookup_result + 'a vfs_state_scheme lookup_cursor" where
  "lookup_name fsops sc m len = (\<lambda>(path, currFs, currINode, output, s).
     let (res, found, s1) = fo_findINode (fsops (fs_ops (fsAt s currFs))) currFs currINode path len s in
     if res = - ENOENT then Inl (- ENOENT, output, if m (path + of_nat len) = 0 then path else 0, s1)
     else if res \<noteq> 0 then Inl (res, output, 0, s1)
     else let (fs, number) = (case map_of (fs_mountPoints (fsAt s1 currFs)) found of
                 None \<Rightarrow> (currFs, found) | Some mounted \<Rightarrow> (mounted, fs_rootINode (fsAt s1 mounted)));
              (res, output', s2) = read_node fsops fs number output s1 in
       if res \<noteq> 0 then Inl (res, output', 0, s2)
       else if IO_ISDIR (in_mode output') \<and> \<not> IoModeCanAccessINode IO_WORLD_EXEC output' sc
       then Inl (- EACCES, output', 0, s2)
       else if m (path + of_nat len) = 0 then Inl (0, output', 0, s2)
       else Inr (path + of_nat len + 1, fs, number, output', s2))"

definition lookup_step ::
  "(u32 \<Rightarrow> 'a vfs_state_scheme IoFilesystemOps) \<Rightarrow> SecContext \<Rightarrow> mem \<Rightarrow> 'a vfs_state_scheme lookup_cursor \<Rightarrow>
   'a vfs_state_scheme lookup_result + 'a vfs_state_scheme lookup_cursor" where
  "lookup_step fsops sc m = (\<lambda>(path, currFs, currINode, output, s).
     let len = name_length m path 0 in
     if len = IO_NAME_MAX then Inl (- ENAMETOOLONG, output, 0, s)
     else if len = 0 then
       (if m path = 0 then Inl (if IO_ISDIR (in_mode output) then - EISDIR else - ENOTDIR, output, 0, s)
        else Inr (path + 1, currFs, currINode, output, s))
     else if \<not> IO_ISDIR (in_mode output) then Inl (- ENOTDIR, output, 0, s)
     else if len = 1 \<and> m path = 0x2E then Inr (path + 2, currFs, currINode, output, s)
     else if len = 2 \<and> m path = 0x2E \<and> m (path + 1) = 0x2E \<and> currINode = fs_rootINode (fsAt s currFs) then
       (if fs_parentFs (fsAt s currFs) = 0 then Inr (path + 3, currFs, currINode, output, s)
        else let number = fs_parentINode (fsAt s currFs); fs = fs_parentFs (fsAt s currFs);
                 (res, output', s1) = read_node fsops fs number output s in
          if res \<noteq> 0 then Inl (res, output', 0, s1)
          else if \<not> IoModeCanAccessINode IO_WORLD_EXEC output' sc then Inl (- EACCES, output', 0, s1)
          else lookup_name fsops sc m len (path, fs, number, output', s1))
     else lookup_name fsops sc m len (path, currFs, currINode, output, s))"

partial_function (option) lookup_loop ::
  "(u32 \<Rightarrow> 'a vfs_state_scheme IoFilesystemOps) \<Rightarrow> SecContext \<Rightarrow> mem \<Rightarrow> 'a vfs_state_scheme lookup_cursor \<Rightarrow>
   'a vfs_state_scheme lookup_result option" where
  "lookup_loop fsops sc m c =
     (case lookup_step fsops sc m c of Inl r \<Rightarrow> Some r | Inr c' \<Rightarrow> lookup_loop fsops sc m c')"

declare lookup_loop.simps [simp del]

text \<open>The part of \<open>IoLookupPath\<close> after the choice of the top level directory.\<close>

definition lookup_from ::
  "(u32 \<Rightarrow> 'a vfs_state_scheme IoFilesystemOps) \<Rightarrow> SecContext \<Rightarrow> mem \<Rightarrow> u32 \<Rightarrow> u32 \<Rightarrow> u32 \<Rightarrow> IoINode \<Rightarrow> 'a vfs_state_scheme \<Rightarrow>
   'a vfs_state_scheme lookup_result option" where
  "lookup_from fsops sc m path currFs currINode output s =
     (let (res, output', s1) = read_node fsops currFs currINode output s in
      if res \<noteq> 0 then Some (res, output', 0, s1)
      else if \<not> IoModeCanAccessINode IO_WORLD_EXEC output' sc then Some (- EACCES, output', 0, s1)
      else lookup_loop fsops sc m (path, currFs, currINode, output', s1))"

definition IoLookupPath ::
  "(u32 \<Rightarrow> 'a vfs_state_scheme IoFilesystemOps) \<Rightarrow> mem \<Rightarrow> SecContext \<Rightarrow> u32 \<Rightarrow> u32 \<Rightarrow> IoINode \<Rightarrow> 'a vfs_state_scheme \<Rightarrow>
   'a vfs_state_scheme lookup_result option" where
  "IoLookupPath fsops m sc ioContext path output s =
     (if m path = 0 then Some (- ENOENT, output, 0, s)
      else if m path = 0x2F then
        (if IoFilesystemRoot s = 0 then Some (- ENOENT, output, 0, s)
         else lookup_from fsops sc m (path + 1) (IoFilesystemRoot s) (fs_rootINode (fsAt s (IoFilesystemRoot s))) output s)
      else let c = ioContextAt s ioContext in lookup_from fsops sc m path (c_cdirFs c) (c_cdirINode c) output s)"

section \<open>Opening\<close>

definition IO_MOUNT_RDONLY :: u32 where "IO_MOUNT_RDONLY = 1"

definition set_descriptor_flags :: "u32 \<Rightarrow> nat \<Rightarrow> u8 \<Rightarrow> 'a io_state_scheme \<Rightarrow> 'a io_state_scheme" where
  "set_descriptor_flags ctx fd v s = upd_ctx ctx (\<lambda>c. c\<lparr>c_descriptorFlags := (c_descriptorFlags c)(fd := v)\<rparr>) s"

text \<open>
  What the \<open>switch\<close> on the result of the lookup decides: to return at once (with the descriptor still
  reserved), to jump to \<open>returnError\<close>, or to go on with the node and the flags.
\<close>

datatype 's open_decision = ReturnNow int 's | ReturnError int 's | GoOn IoINode u32 's

definition create_file ::
  "(u32 \<Rightarrow> 'a vfs_state_scheme IoFilesystemOps) \<Rightarrow> mem \<Rightarrow> SecContext \<Rightarrow> IoINode \<Rightarrow> u32 \<Rightarrow> u32 \<Rightarrow> IoMode \<Rightarrow> 'a vfs_state_scheme \<Rightarrow>
   'a vfs_state_scheme open_decision" where
  "create_file fsops m sc iNode fileStart flags mode s =
     (if flags AND IO_O_DIRECTORY \<noteq> 0 then ReturnNow (- ENOTDIR) s
      else if fs_flags (fsAt s (in_fs iNode)) AND IO_MOUNT_RDONLY \<noteq> 0 then ReturnNow (- EROFS) s
      else if \<not> IoModeCanAccessINode IO_WORLD_WRITE iNode sc then ReturnNow (- EACCES) s
      else case fo_create (fsops (fs_ops (fsAt s (in_fs iNode)))) of
          None \<Rightarrow> ReturnNow (- ENOSYS) s
        | Some create \<Rightarrow>
            let mode' = (mode AND (IO_OWNER_ALL OR IO_GROUP_ALL OR IO_WORLD_ALL)) OR IO_REGULAR;
                (res, outINode, s1) = create (in_fs iNode) iNode fileStart (StrLen m fileStart IO_NAME_MAX) mode' s in
            if res \<noteq> 0 then ReturnNow res s1
            else let (res, iNode', s2) = fo_readINode (fsops (fs_ops (fsAt s1 (in_fs iNode)))) (iNode\<lparr>in_number := outINode\<rparr>) s1 in
              if res \<noteq> 0 then ReturnError res s2
              else GoOn (iNode'\<lparr>in_mode := in_mode iNode' OR (IO_OWNER_ALL OR IO_GROUP_ALL OR IO_WORLD_ALL)\<rparr>) flags s2)"

definition open_switch ::
  "(u32 \<Rightarrow> 'a vfs_state_scheme IoFilesystemOps) \<Rightarrow> mem \<Rightarrow> SecContext \<Rightarrow> u32 \<Rightarrow> IoMode \<Rightarrow> 'a vfs_state_scheme lookup_result \<Rightarrow>
   'a vfs_state_scheme open_decision" where
  "open_switch fsops m sc flags mode = (\<lambda>(res, iNode, fileStart, s).
     if res = 0 then
       (if flags AND IO_O_DIRECTORY \<noteq> 0 then ReturnNow (- ENOTDIR) s
        else if flags AND IO_O_CREAT \<noteq> 0 \<and> flags AND IO_O_EXCL \<noteq> 0 then ReturnNow (- EEXIST) s
        else GoOn iNode flags s)
     else if res = - EISDIR then
       (if flags AND IO_O_CREAT \<noteq> 0 \<and> flags AND IO_O_EXCL \<noteq> 0 then ReturnNow (- EEXIST) s
        else if flags AND IO_O_WRONLY \<noteq> 0 then ReturnNow (- EISDIR) s
        else GoOn iNode (flags OR IO_O_DIRECTORY) s)
     else if res = - ENOENT then
       (if fileStart \<noteq> 0 \<and> flags AND IO_O_CREAT \<noteq> 0 then create_file fsops m sc iNode fileStart flags mode s
        else ReturnNow (- ENOENT) s)
     else ReturnNow res s)"

definition perms_required :: "u32 \<Rightarrow> IoMode" where
  "perms_required flags = (if flags AND IO_O_RDONLY \<noteq> 0 then IO_WORLD_READ else 0) OR
     (if flags AND IO_O_WRONLY \<noteq> 0 then IO_WORLD_WRITE else 0)"

text \<open>
  The rest of \<open>IoOpen\<close>. \<open>file\<close> is the block \<open>MemKAlloc\<close> returns, whose field \<open>fsData\<close> is not written. \<open>Inl\<close>
  is a jump to \<open>returnError\<close>, \<open>Inr\<close> success; calling the missing \<open>open\<close> of a file faults in kernel mode,
  which panics.
\<close>

definition open_node ::
  "(u32 \<Rightarrow> 'a vfs_state_scheme IoFileOps) \<Rightarrow> SecContext \<Rightarrow> IoINode \<Rightarrow> u32 \<Rightarrow> u32 \<Rightarrow> 'a vfs_state_scheme \<Rightarrow>
   ((int \<times> 'a vfs_state_scheme) + 'a vfs_state_scheme) outcome" where
  "open_node ops sc iNode flags file s =
     (if IO_ISFIFO (in_mode iNode) \<or> IO_ISSOCKET (in_mode iNode) \<or> IO_ISSYMLINK (in_mode iNode) then Returns (Inl (- ENOSYS, s))
      else if fs_flags (fsAt s (in_fs iNode)) AND IO_MOUNT_RDONLY \<noteq> 0 \<and> flags AND IO_O_WRONLY \<noteq> 0 then Returns (Inl (- EROFS, s))
      else if \<not> IoModeCanAccessINode (perms_required flags) iNode sc then Returns (Inl (- EACCES, s))
      else let s1 = upd_file file (\<lambda>f. f\<lparr>f_refCount := 1, f_off := 0,
                 f_flags := flags AND (IO_O_RDWR OR IO_O_APPEND OR IO_O_DIRECTORY), f_fs := in_fs iNode,
                 f_iNode := in_number iNode, f_ops := in_ops iNode\<rparr>) s in
        case op_open (ops (in_ops iNode)) of
          None \<Rightarrow> Panics
        | Some open_op \<Rightarrow>
            let (res, s2) = open_op iNode file s1 in
            if res \<noteq> 0 then Returns (Inl (res, s2\<lparr>io_kfreed := io_kfreed s2 @ [file]\<rparr>))
            else if flags AND IO_O_TRUNC \<noteq> 0 then
              (let (res, s3) = (case op_truncate (ops (f_ops (fileAt s2 file))) of None \<Rightarrow> (- ENOSYS, s2) | Some trunc \<Rightarrow> trunc file 0 s2)
               in if res \<noteq> 0 then Returns (Inl (res, s3\<lparr>io_kfreed := io_kfreed s3 @ [file]\<rparr>)) else Returns (Inr s3))
            else Returns (Inr s2))"

definition IoOpen ::
  "(u32 \<Rightarrow> 'a vfs_state_scheme IoFilesystemOps) \<Rightarrow> (u32 \<Rightarrow> 'a vfs_state_scheme IoFileOps) \<Rightarrow> mem \<Rightarrow> u32 \<Rightarrow> IoINode \<Rightarrow>
   SecContext \<Rightarrow> u32 \<Rightarrow> u32 \<Rightarrow> u32 \<Rightarrow> IoMode \<Rightarrow> int \<Rightarrow> 'a vfs_state_scheme \<Rightarrow> (int \<times> 'a vfs_state_scheme) run" where
  "IoOpen fsops ops m file junk sc ioContext path flags0 mode fd s =
     (if fd < 0 \<or> fd \<ge> int IO_MAX_OPEN_FILES \<or> c_files (ioContextAt s ioContext) (nat fd) \<noteq> 0 \<or>
         c_descriptorFlags (ioContextAt s ioContext) (nat fd) AND IO_O_FDRESERVED \<noteq> 0 then ret (- EINVAL, s)
      else let flags1 = flags0 AND IO_O_ALLFLAGS in
        if flags1 AND IO_O_RDWR = 0 then ret (- EINVAL, s)
        else let flags2 = (if flags1 AND IO_O_WRONLY = 0 then flags1 AND NOT IO_O_TRUNC else flags1);
                 s1 = set_descriptor_flags ioContext (nat fd) IO_O_FDRESERVED s in
          case IoLookupPath fsops m sc ioContext path junk s1 of
            None \<Rightarrow> None
          | Some found \<Rightarrow>
              (case open_switch fsops m sc flags2 mode found of
                 ReturnNow res s2 \<Rightarrow> ret (res, s2)
               | ReturnError res s2 \<Rightarrow> ret (res, set_descriptor_flags ioContext (nat fd) 0 s2)
               | GoOn iNode flags s2 \<Rightarrow>
                   (case open_node ops sc iNode flags file s2 of
                      Panics \<Rightarrow> panic
                    | Returns (Inl (res, s3)) \<Rightarrow> ret (res, set_descriptor_flags ioContext (nat fd) 0 s3)
                    | Returns (Inr s3) \<Rightarrow>
                        ret (0, set_descriptor_flags ioContext (nat fd) (ucast (flags AND IO_O_CLOEXEC))
                          (upd_ctx ioContext (\<lambda>c. c\<lparr>c_files := (c_files c)(nat fd := file)\<rparr>) s3)))))"

section \<open>Components of a path\<close>

function components :: "u8 list \<Rightarrow> u8 list list" where
  "components bs =
     (let c = takeWhile (\<lambda>b. b \<noteq> 0x2F) bs; rest = dropWhile (\<lambda>b. b \<noteq> 0x2F) bs
      in (if c = [] then [] else [c]) @ (if rest = [] then [] else components (tl rest)))"
  by auto
termination
proof (relation "measure length", goal_cases)
  case (2 bs c rest)
  then have "length rest \<le> length bs" using length_dropWhile_le by auto
  moreover have "length (tl rest) < length rest" using 2(3) by (simp only: length_tl) (metis diff_less length_greater_0_conv zero_less_one)
  ultimately show ?case by simp
qed simp

declare components.simps [simp del]

text \<open>A path that is empty or ends with a slash asks for a directory.\<close>

definition slash_end :: "u8 list \<Rightarrow> bool" where
  "slash_end bs \<longleftrightarrow> bs = [] \<or> last bs = 0x2F"

lemma components_Nil [simp]: "components [] = []"
  by (simp add: components.simps)

lemma components_slash [simp]: "components (0x2F # bs) = components bs"
  by (subst components.simps) simp

lemma components_name:
  assumes "c \<noteq> []" "0x2F \<notin> set c"
  shows "components c = [c]" "components (c @ 0x2F # bs) = c # components bs"
proof -
  have c: "takeWhile (\<lambda>b. b \<noteq> 0x2F) c = c" "dropWhile (\<lambda>b. b \<noteq> 0x2F) c = []"
    "takeWhile (\<lambda>b. b \<noteq> 0x2F) (c @ 0x2F # bs) = c" "dropWhile (\<lambda>b. b \<noteq> 0x2F) (c @ 0x2F # bs) = 0x2F # bs"
    using assms(2) by (induction c) auto
  show "components c = [c]" by (subst components.simps) (simp only: c Let_def assms(1) if_False if_True append_Nil2 simp_thms)
  show "components (c @ 0x2F # bs) = c # components bs"
    by (subst components.simps) (simp only: c Let_def assms(1) if_False list.distinct list.sel append_Cons append_Nil simp_thms)
qed

lemma slash_end_name [simp]:
  "slash_end (0x2F # bs) \<longleftrightarrow> slash_end bs" "slash_end (c @ 0x2F # bs) \<longleftrightarrow> slash_end bs"
  by (auto simp: slash_end_def)

lemma slash_end_plain: "c \<noteq> [] \<Longrightarrow> 0x2F \<notin> set c \<Longrightarrow> \<not> slash_end c"
  by (auto simp: slash_end_def dest: last_in_set)

text \<open>Every path is empty, starts with a slash, or starts with a name.\<close>

lemma path_cases:
  obtains (Empty) "bs = []" | (Slash) rest where "bs = 0x2F # rest"
  | (Last) "bs \<noteq> []" "0x2F \<notin> set bs"
  | (Name) c rest where "bs = c @ 0x2F # rest" "c \<noteq> []" "0x2F \<notin> set c"
proof (cases "0x2F \<in> set bs")
  case True
  then obtain c rest where "bs = c @ 0x2F # rest" "0x2F \<notin> set c" by (meson split_list_first)
  then show ?thesis using that(2,4) by (cases "c = []") auto
qed (use that(1,3) in blast)

lemma components_nonempty: "[] \<notin> set (components bs)"
proof (induction bs rule: length_induct)
  case (1 bs)
  then show ?case by (cases bs rule: path_cases) (auto simp: components_name)
qed

lemma no_components: "components bs = [] \<Longrightarrow> slash_end bs"
proof (induction bs rule: length_induct)
  case (1 bs)
  then show ?case by (cases bs rule: path_cases) (auto simp: components_name slash_end_def)
qed

section \<open>The meaning of a lookup\<close>

text \<open>
  A tree of files as the lookup sees it: \<open>find\<close> gives the number of a name in a directory, \<open>node\<close> the node
  with a number or the error of reading it, \<open>mounted\<close> the file system mounted on a node, and \<open>top\<close> the root
  node of a file system.
\<close>

datatype answer = Found IoINode | Missing IoINode "u8 list" | Failed int

record tree =
  t_find :: "u32 \<Rightarrow> u32 \<Rightarrow> u8 list \<Rightarrow> u32 option"
  t_node :: "u32 \<Rightarrow> u32 \<Rightarrow> int + IoINode"
  t_mounted :: "u32 \<Rightarrow> u32 \<Rightarrow> u32 option"
  t_top :: "u32 \<Rightarrow> u32"

definition cross :: "tree \<Rightarrow> u32 \<Rightarrow> u32 \<Rightarrow> u32 \<times> u32" where
  "cross t fs n = (case t_mounted t fs n of None \<Rightarrow> (fs, n) | Some child \<Rightarrow> (child, t_top t child))"

fun walk :: "tree \<Rightarrow> SecContext \<Rightarrow> bool \<Rightarrow> u8 list list \<Rightarrow> u32 \<Rightarrow> u32 \<Rightarrow> IoINode \<Rightarrow> answer" where
  "walk t sc slash [] fs n i =
     (if slash then Failed (if IO_ISDIR (in_mode i) then - EISDIR else - ENOTDIR) else Found i)"
| "walk t sc slash (c # cs) fs n i =
     (if \<not> IO_ISDIR (in_mode i) then Failed (- ENOTDIR)
      else case t_find t fs n c of
          None \<Rightarrow> if cs = [] \<and> \<not> slash then Missing i c else Failed (- ENOENT)
        | Some k \<Rightarrow> let (fs', n') = cross t fs k in
            case t_node t fs' n' of
              Inl e \<Rightarrow> Failed e
            | Inr j \<Rightarrow> if IO_ISDIR (in_mode j) \<and> \<not> IoModeCanAccessINode IO_WORLD_EXEC j sc then Failed (- EACCES)
                else walk t sc slash cs fs' n' j)"

definition resolve_from :: "tree \<Rightarrow> SecContext \<Rightarrow> u32 \<Rightarrow> u32 \<Rightarrow> u8 list \<Rightarrow> answer" where
  "resolve_from t sc fs n bs =
     (case t_node t fs n of
        Inl e \<Rightarrow> Failed e
      | Inr i \<Rightarrow> if \<not> IoModeCanAccessINode IO_WORLD_EXEC i sc then Failed (- EACCES)
          else walk t sc (slash_end bs) (components bs) fs n i)"

text \<open>\<open>root\<close> is the root file system, if there is one, and the current directory is a node of a file system.\<close>

definition resolve :: "tree \<Rightarrow> SecContext \<Rightarrow> u32 option \<Rightarrow> u32 \<times> u32 \<Rightarrow> u8 list \<Rightarrow> answer" where
  "resolve t sc root cdir bs =
     (case bs of
        [] \<Rightarrow> Failed (- ENOENT)
      | b # rest \<Rightarrow> if b = 0x2F then (case root of None \<Rightarrow> Failed (- ENOENT) | Some fs \<Rightarrow> resolve_from t sc fs (t_top t fs) rest)
          else resolve_from t sc (fst cdir) (snd cdir) bs)"

text \<open>The string \<open>bs\<close> is stored at \<open>p\<close> with its terminator.\<close>

definition path_at :: "mem \<Rightarrow> u32 \<Rightarrow> u8 list \<Rightarrow> bool" where
  "path_at m p bs \<longleftrightarrow> unat p + length bs < 4294967296 \<and> 0 < unat p \<and> 0 \<notin> set bs \<and> bytes m p (length bs + 1) = bs @ [0]"

text \<open>A result of \<open>IoLookupPath\<close> that reports an answer, with the state unchanged.\<close>

fun reports :: "mem \<Rightarrow> 's \<Rightarrow> answer \<Rightarrow> 's lookup_result \<Rightarrow> bool" where
  "reports m s (Found i) r \<longleftrightarrow> r = (0, i, 0, s)"
| "reports m s (Missing i c) r \<longleftrightarrow> (\<exists>q. q \<noteq> 0 \<and> path_at m q c \<and> r = (- ENOENT, i, q, s))"
| "reports m s (Failed e) r \<longleftrightarrow> (\<exists>i. r = (e, i, 0, s))"

lemma bytes_0 [simp]: "bytes m p 0 = []"
  by (simp add: bytes_def)

lemma bytes_append: "bytes m p (a + b) = bytes m p a @ bytes m (p + of_nat a) b"
  by (induction a arbitrary: p) (simp_all add: bytes_Suc bytes_0 add.assoc)

lemma path_at_append:
  assumes "path_at m p (c @ bs)"
  shows "path_at m (p + of_nat (length c)) bs" "bytes m p (length c) = c"
proof -
  have eq: "bytes m p (length c) @ bytes m (p + of_nat (length c)) (length bs + 1) = c @ bs @ [0]"
    using assms bytes_append [of m p "length c" "length bs + 1"] by (simp add: path_at_def)
  then have split: "bytes m p (length c) = c" "bytes m (p + of_nat (length c)) (length bs + 1) = bs @ [0]"
    by (metis append_eq_append_conv length_bytes)+
  have "unat (p + of_nat (length c)) = unat p + length c"
    using assms by (subst unat_plus_32) (auto simp: path_at_def unat_of_nat)
  then show "path_at m (p + of_nat (length c)) bs" "bytes m p (length c) = c"
    using assms split by (auto simp: path_at_def)
qed

lemma path_at_Nil: "path_at m p [] \<Longrightarrow> m p = 0"
  by (simp add: path_at_def bytes_Suc bytes_0)

lemma path_at_Cons: "path_at m p (b # bs) \<Longrightarrow> m p = b \<and> b \<noteq> 0 \<and> path_at m (p + 1) bs"
  using path_at_append [of m p "[b]" bs] by (auto simp: bytes_Suc bytes_0 path_at_def)

lemma path_at_nth:
  assumes "path_at m p bs" "i < length bs"
  shows "m (p + of_nat i) = bs ! i" "bs ! i \<noteq> 0"
proof -
  have "bytes m p (length bs) = bs" using path_at_append(2) [of m p bs "[]"] assms(1) by simp
  then show "m (p + of_nat i) = bs ! i" using assms(2) by (metis bytes_nth)
  show "bs ! i \<noteq> 0" using assms by (metis nth_mem path_at_def)
qed

lemma name_length_eq:
  assumes "\<forall>j < n. m (path + of_nat j) \<noteq> 0 \<and> m (path + of_nat j) \<noteq> 0x2F" "len \<le> n" "n < IO_NAME_MAX"
    and "m (path + of_nat n) = 0 \<or> m (path + of_nat n) = 0x2F"
  shows "name_length m path len = n"
  using assms(2)
proof (induction "n - len" arbitrary: len)
  case 0
  then show ?case using assms(4) by (subst name_length.simps) auto
next
  case (Suc k)
  then show ?case using assms(1,3) by (subst name_length.simps) auto
qed

text \<open>The length of the first name of a stored path.\<close>

lemma name_length_first:
  assumes "path_at m p (c @ rest)" "0x2F \<notin> set c" "length c < IO_NAME_MAX" "rest = [] \<or> hd rest = 0x2F"
  shows "name_length m p 0 = length c"
proof (rule name_length_eq)
  show "\<forall>j < length c. m (p + of_nat j) \<noteq> 0 \<and> m (p + of_nat j) \<noteq> 0x2F"
    using path_at_nth [OF assms(1)] assms(2) by (metis length_append nth_append nth_mem trans_less_add1)
  show "m (p + of_nat (length c)) = 0 \<or> m (p + of_nat (length c)) = 0x2F"
    using path_at_append(1) [OF assms(1)] assms(4) by (cases rest) (auto dest: path_at_Nil path_at_Cons)
qed (use assms(3) in auto)

section \<open>The lookup of a path\<close>

locale file_tree =
  fixes fsops :: "u32 \<Rightarrow> 'a vfs_state_scheme IoFilesystemOps" and m :: mem and s :: "'a vfs_state_scheme" and t :: tree
  assumes find_answer: "\<exists>k. fo_findINode (fsops (fs_ops (fsAt s fs))) fs n p len s =
      (case t_find t fs n (bytes m p len) of None \<Rightarrow> (- ENOENT, k, s) | Some k' \<Rightarrow> (0, k', s))"
    and read_answer: "case t_node t fs n of
        Inl e \<Rightarrow> e \<noteq> 0 \<and> (\<exists>i'. read_node fsops fs n i s = (e, i', s))
      | Inr j \<Rightarrow> read_node fsops fs n i s = (0, j, s)"
    and mounted: "t_mounted t fs n = map_of (fs_mountPoints (fsAt s fs)) n"
    and top: "t_top t fs = fs_rootINode (fsAt s fs)"
begin

lemma lookup_name_answer:
  "case t_find t fs n (bytes m p len) of
     None \<Rightarrow> lookup_name fsops sc m len (p, fs, n, i, s) = Inl (- ENOENT, i, if m (p + of_nat len) = 0 then p else 0, s)
   | Some k \<Rightarrow> let (fs', n') = cross t fs k in
       (case t_node t fs' n' of
          Inl e \<Rightarrow> \<exists>i'. lookup_name fsops sc m len (p, fs, n, i, s) = Inl (e, i', 0, s)
        | Inr j \<Rightarrow> lookup_name fsops sc m len (p, fs, n, i, s) =
            (if IO_ISDIR (in_mode j) \<and> \<not> IoModeCanAccessINode IO_WORLD_EXEC j sc then Inl (- EACCES, j, 0, s)
             else if m (p + of_nat len) = 0 then Inl (0, j, 0, s)
             else Inr (p + of_nat len + 1, fs', n', j, s)))"
proof (cases "t_find t fs n (bytes m p len)")
  case None
  then show ?thesis using find_answer [of fs n p len] by (auto simp: lookup_name_def)
next
  case (Some k)
  obtain fs' n' where go: "cross t fs k = (fs', n')" by fastforce
  have find: "fo_findINode (fsops (fs_ops (fsAt s fs))) fs n p len s = (0, k, s)"
    using find_answer [of fs n p len] Some by auto
  have target: "(case map_of (fs_mountPoints (fsAt s fs)) k of None \<Rightarrow> (fs, k) | Some g \<Rightarrow> (g, fs_rootINode (fsAt s g))) = (fs', n')"
    using go by (auto simp: cross_def mounted top split: option.splits)
  show ?thesis using read_answer [of fs' n' i] Some
    by (auto simp: lookup_name_def find target go split: sum.splits)
qed

text \<open>A pass of the loop at a name that is neither \<open>.\<close> nor \<open>..\<close>.\<close>

lemma step_name:
  assumes "path_at m p (c @ rest)" "c \<noteq> []" "0x2F \<notin> set c" "length c < IO_NAME_MAX" "rest = [] \<or> hd rest = 0x2F"
    and "c \<noteq> [0x2E]" "c \<noteq> [0x2E, 0x2E]"
  shows "lookup_step fsops sc m (p, fs, n, i, s) =
    (if \<not> IO_ISDIR (in_mode i) then Inl (- ENOTDIR, i, 0, s) else lookup_name fsops sc m (length c) (p, fs, n, i, s))"
proof -
  have len: "name_length m p 0 = length c" using assms by (intro name_length_first)
  have c: "bytes m p (length c) = c" using path_at_append(2) [OF assms(1)] .
  have dot: "\<not> (length c = 1 \<and> m p = 0x2E)" using c assms(6) by (auto simp: length_Suc_conv bytes_Suc)
  have dots: "\<not> (length c = 2 \<and> m p = 0x2E \<and> m (p + 1) = 0x2E)"
    using c assms(7) by (auto simp: numeral_2_eq_2 length_Suc_conv bytes_Suc)
  show ?thesis using dot dots assms(2,4) unfolding lookup_step_def by (auto simp: len Let_def)
qed

lemma loop_walk:
  assumes "path_at m p bs" "\<forall>c \<in> set (components bs). length c < IO_NAME_MAX \<and> c \<noteq> [0x2E] \<and> c \<noteq> [0x2E, 0x2E]"
  shows "\<exists>r. lookup_loop fsops sc m (p, fs, n, i, s) = Some r \<and>
    reports m s (walk t sc (slash_end bs) (components bs) fs n i) r"
  using assms
proof (induction bs arbitrary: p fs n i rule: length_induct)
  case (1 bs)
  have IH: "\<exists>r. lookup_loop fsops sc m (q, fs, n, i, s) = Some r \<and> reports m s (walk t sc (slash_end rest) (components rest) fs n i) r"
    if "path_at m q rest" "length rest < length bs" "set (components rest) \<subseteq> set (components bs)" for q rest fs n i
    using 1 that by blast
  show ?case
  proof (cases bs rule: path_cases)
    case Empty
    then have "m p = 0" using 1(2) path_at_Nil by simp
    then have "lookup_step fsops sc m (p, fs, n, i, s) = Inl (if IO_ISDIR (in_mode i) then - EISDIR else - ENOTDIR, i, 0, s)"
      using name_length_first [of m p "[]" "[]"] 1(2) Empty by (simp add: lookup_step_def IO_NAME_MAX_def)
    then show ?thesis using Empty by (subst lookup_loop.simps) (simp add: slash_end_def)
  next
    case (Slash rest)
    then have p: "m p = 0x2F" "path_at m (p + 1) rest" using 1(2) path_at_Cons by auto
    then have "lookup_step fsops sc m (p, fs, n, i, s) = Inr (p + 1, fs, n, i, s)"
      using name_length_first [of m p "[]" bs] 1(2) Slash by (simp add: lookup_step_def IO_NAME_MAX_def)
    then show ?thesis using IH [OF p(2)] Slash by (subst lookup_loop.simps) simp
  next
    case Last
    then have comps: "components bs = [bs]" "\<not> slash_end bs" by (simp_all add: components_name slash_end_plain)
    note step = step_name [of p bs "[]", simplified, OF 1(2) Last]
    have stop: "m (p + of_nat (length bs)) = 0" using path_at_append(1) [of m p bs "[]"] 1(2) path_at_Nil by simp
    have name: "bytes m p (length bs) = bs" using path_at_append(2) [of m p bs "[]"] 1(2) by simp
    have "p \<noteq> 0" using 1(2) by (auto simp: path_at_def)
    then show ?thesis using lookup_name_answer [of sc "length bs" p fs n i] 1(2,3) comps
      by (subst lookup_loop.simps) (auto simp: step stop name split: option.splits sum.splits prod.splits)
  next
    case (Name c rest)
    have p: "path_at m p (c @ 0x2F # rest)" using 1(2) Name by simp
    have comps: "components bs = c # components rest" "slash_end bs = slash_end rest" using Name by (simp_all add: components_name)
    note step = step_name [OF p Name(2,3)]
    have "path_at m (p + of_nat (length c)) (0x2F # rest)" using path_at_append(1) [OF p] .
    then have slash: "m (p + of_nat (length c)) = 0x2F" "path_at m (p + of_nat (length c) + 1) rest" using path_at_Cons by auto
    have after: "\<exists>r. lookup_loop fsops sc m (p + of_nat (length c) + 1, fs, n, i, s) = Some r \<and>
        reports m s (walk t sc (slash_end rest) (components rest) fs n i) r" for fs n i
      by (rule IH [OF slash(2)]) (auto simp: Name(1) comps [unfolded Name(1)])
    show ?thesis using lookup_name_answer [of sc "length c" p fs n i] 1(3) comps after Name(1) no_components [of rest]
      by (subst lookup_loop.simps)
        (auto simp: step slash path_at_append(2) [OF p] split: option.splits sum.splits prod.splits)
  qed
qed

lemma lookup_from_resolves:
  assumes "path_at m p bs" "\<forall>c \<in> set (components bs). length c < IO_NAME_MAX \<and> c \<noteq> [0x2E] \<and> c \<noteq> [0x2E, 0x2E]"
  shows "\<exists>r. lookup_from fsops sc m p fs n i s = Some r \<and> reports m s (resolve_from t sc fs n bs) r"
proof (cases "t_node t fs n")
  case (Inl e)
  then show ?thesis using read_answer [of fs n i] by (auto simp: lookup_from_def resolve_from_def)
next
  case (Inr j)
  then show ?thesis using read_answer [of fs n i] loop_walk [OF assms, of sc fs n j] by (auto simp: lookup_from_def resolve_from_def)
qed

lemma lookup_resolves:
  assumes "path_at m p bs" "\<forall>c \<in> set (components bs). length c < IO_NAME_MAX \<and> c \<noteq> [0x2E] \<and> c \<noteq> [0x2E, 0x2E]"
  shows "\<exists>r. IoLookupPath fsops m sc ctx p i s = Some r \<and>
    reports m s (resolve t sc (if IoFilesystemRoot s = 0 then None else Some (IoFilesystemRoot s))
      (c_cdirFs (ioContextAt s ctx), c_cdirINode (ioContextAt s ctx)) bs) r"
proof (cases bs)
  case Nil
  then show ?thesis using path_at_Nil assms(1) by (simp add: IoLookupPath_def resolve_def)
next
  case (Cons b rest)
  then have p: "m p = b" "b \<noteq> 0" "path_at m (p + 1) rest" using path_at_Cons assms(1) by auto
  show ?thesis
  proof (cases "b = 0x2F")
    case True
    then have "\<forall>c \<in> set (components rest). length c < IO_NAME_MAX \<and> c \<noteq> [0x2E] \<and> c \<noteq> [0x2E, 0x2E]" using assms(2) Cons by simp
    from lookup_from_resolves [OF p(3) this] show ?thesis
      using p(1) True Cons by (simp add: IoLookupPath_def resolve_def top)
  next
    case False
    then show ?thesis using p(1,2) Cons lookup_from_resolves [OF assms, unfolded Cons]
      by (simp add: IoLookupPath_def resolve_def Let_def)
  qed
qed

end


text \<open>A file system with one directory, node 0, that holds one file, \<open>a\<close>, node 1.\<close>

definition small_node :: "u32 \<Rightarrow> u32 \<Rightarrow> int + IoINode" where
  "small_node fs n = (if n > 1 then Inl (- EIO) else Inr \<lparr>in_number = n, in_fs = fs, in_ops = 0,
     in_mode = (if n = 0 then 0x41FF else 0x81FF), in_uid = 0, in_gid = 0, in_size = 0\<rparr>)"

definition small_ops :: "mem \<Rightarrow> 's IoFilesystemOps" where
  "small_ops m = \<lparr>fo_umount = None,
     fo_readINode = (\<lambda>i s. case small_node (in_fs i) (in_number i) of Inl e \<Rightarrow> (e, i, s) | Inr j \<Rightarrow> (0, j, s)),
     fo_findINode = (\<lambda>fs parent name len s. if parent = 0 \<and> bytes m name len = [0x61] then (0, 1, s) else (- ENOENT, 0, s)),
     fo_create = None\<rparr>"

definition small_tree :: tree where
  "small_tree = \<lparr>t_find = (\<lambda>fs parent name. if parent = 0 \<and> name = [0x61] then Some 1 else None), t_node = small_node,
     t_mounted = (\<lambda>_ _. None), t_top = (\<lambda>_. 0)\<rparr>"

lemma small_file_tree: "file_tree (\<lambda>_. small_ops m) m demo_vfs small_tree"
  by unfold_locales (auto simp: small_ops_def small_tree_def read_node_def demo_vfs_def io_state.defs small_node_def split: sum.splits)

definition path_memory :: mem where
  "path_memory = (\<lambda>_. 0)(0x10 := 0x2F, 0x11 := 0x2F, 0x12 := 0x61, 0x20 := 0x2E, 0x22 := 0x62)"

definition anyone :: SecContext where
  "anyone = \<lparr>ruid = 1, euid = 1, suid = 1, rgid = 1, egid = 1, sgid = 1\<rparr>"


section \<open>The special names\<close>

text \<open>
  The terminator of a path that ends with \<open>.\<close> is skipped: the lookup goes on with the bytes behind the
  string. The same holds for a final \<open>..\<close> in the root directory of the root file system.
\<close>

theorem lookup_dot_reads_on:
  assumes "IO_ISDIR (in_mode i)" "m p = 0x2E"
    and "m (p + 1) = 0 \<or> (m (p + 1) = 0x2E \<and> m (p + 2) = 0 \<and> n = fs_rootINode (fsAt s fs) \<and> fs_parentFs (fsAt s fs) = 0)"
  shows "lookup_loop fsops sc m (p, fs, n, i, s) = lookup_loop fsops sc m (if m (p + 1) = 0 then p + 2 else p + 3, fs, n, i, s)"
proof -
  have "name_length m p 0 = (if m (p + 1) = 0 then 1 else 2)"
    using assms(2,3) by (intro name_length_eq) (auto simp: IO_NAME_MAX_def less_2_cases_iff split: if_splits)
  then have "lookup_step fsops sc m (p, fs, n, i, s) = Inr (if m (p + 1) = 0 then p + 2 else p + 3, fs, n, i, s)"
    using assms by (auto simp: lookup_step_def IO_NAME_MAX_def)
  then show ?thesis by (subst lookup_loop.simps) simp
qed

text \<open>The memory of the witness holds the path \<open>.\<close> and behind its terminator the name \<open>b\<close>: looking up the path
  reports that the file \<open>b\<close> does not exist.\<close>

theorem lookup_dot_reads_on_witness:
  "lookup_loop (\<lambda>_. small_ops path_memory) anyone path_memory (0x20, 50, 0, demo_dir, demo_vfs) = Some (- ENOENT, demo_dir, 0x22, demo_vfs)"
proof -
  have dir: "IO_ISDIR (in_mode demo_dir)" by (simp add: demo_dir_def IO_ISDIR_def IO_ALL_TYPES_def IO_DIR_def)
  have "lookup_loop (\<lambda>_. small_ops path_memory) anyone path_memory (0x20, 50, 0, demo_dir, demo_vfs) =
      lookup_loop (\<lambda>_. small_ops path_memory) anyone path_memory (0x22, 50, 0, demo_dir, demo_vfs)"
    using lookup_dot_reads_on [OF dir, of path_memory "0x20"] by (simp add: path_memory_def)
  moreover have "path_at path_memory 0x22 [0x62]" by (simp add: path_at_def path_memory_def bytes_Suc)
  from file_tree.step_name [OF small_file_tree, of path_memory "0x22" "[0x62]" "[]" anyone 50 0 demo_dir]
  have "lookup_step (\<lambda>_. small_ops path_memory) anyone path_memory (0x22, 50, 0, demo_dir, demo_vfs) = Inl (- ENOENT, demo_dir, 0x22, demo_vfs)"
    using dir \<open>path_at path_memory 0x22 [0x62]\<close>
    by (simp add: IO_NAME_MAX_def lookup_name_def small_ops_def path_memory_def bytes_Suc)
  ultimately show ?thesis by (subst (asm) (2) lookup_loop.simps) simp
qed

section \<open>Failed opens\<close>

text \<open>The bits that \<open>IoOpen\<close> keeps of its flags.\<close>

lemma open_bits:
  assumes "x AND 0xF7 = x"
  shows "(flags AND IO_O_ALLFLAGS) AND x = flags AND x" "(flags AND IO_O_ALLFLAGS AND NOT IO_O_TRUNC) AND x = flags AND x"
proof -
  have "(flags AND IO_O_ALLFLAGS) AND (x AND 0xF7) = flags AND (x AND 0xF7)"
    "(flags AND IO_O_ALLFLAGS AND NOT IO_O_TRUNC) AND (x AND 0xF7) = flags AND (x AND 0xF7)"
    by (simp_all add: IO_O_ALLFLAGS_def IO_O_TRUNC_def and.assoc and.left_commute [of "0xFF" x] and.left_commute [of "0xF7" x])
  then show "(flags AND IO_O_ALLFLAGS) AND x = flags AND x" "(flags AND IO_O_ALLFLAGS AND NOT IO_O_TRUNC) AND x = flags AND x"
    using assms by simp_all
qed

lemma set_descriptor_flags_sel [simp]:
  "ioContextAt (set_descriptor_flags ctx fd v s) =
     (ioContextAt s)(ctx := (ioContextAt s ctx)\<lparr>c_descriptorFlags := (c_descriptorFlags (ioContextAt s ctx))(fd := v)\<rparr>)"
  "fileAt (set_descriptor_flags ctx fd v s) = fileAt s"
  by (simp_all add: set_descriptor_flags_def)


definition small_file_ops :: "'s IoFileOps" where
  "small_file_ops = \<lparr>op_open = Some (\<lambda>i f s. (0, s)), op_close = None, op_read = None, op_write = None, op_truncate = None,
     op_ioctl = None, op_readdir = None\<rparr>"


end
