(* ===== verification/Devfs.thy ===== *)
theory Devfs
  imports Open
begin

text \<open>
  The device file system, \<open>kernel/src/io/devfs.c\<close>, with the devices of \<open>kernel/include/io/device.h\<close>.

  Devices are records at addresses; their field \<open>mounted\<close> is \<open>devMounted\<close> of theory \<open>Mount\<close>. The hash table of the
  names is the association list of its items (theory \<open>Hash_Table\<close>), with the bytes of the name as key. The
  operations of the drivers and the two buffer operations of the block cache (theory \<open>Bcache\<close>) are fields of
  \<open>'s drivers\<close>, which work on the whole state. The operation tables of the file system have the fixed
  addresses \<open>fsOps\<close>, \<open>fileOps\<close> and \<open>rootDirOps\<close>.

  The last part interprets the file tree of theory \<open>Open\<close> on the operations of this file system and follows
  an open of a device from the path to the driver.
\<close>

section \<open>State\<close>

definition MAX_DEVICES :: nat where "MAX_DEVICES = 1024"

record IoDevice =
  d_name :: u32
  d_mode :: IoMode
  d_uid :: u32
  d_gid :: u32
  d_devFsINode :: u32
  d_blockCache :: u32
  d_devOps :: u32
  d_custom :: u32

record devfs_state = vfs_state +
  deviceAt :: "u32 \<Rightarrow> IoDevice"
  devices :: "nat \<Rightarrow> u32"
  nextFreeINode :: nat
  files :: "(u8 list \<times> u32) list"

record 's IoDeviceOps =
  do_open :: "(u32 \<Rightarrow> 's \<Rightarrow> int \<times> 's) option"
  do_close :: "(u32 \<Rightarrow> 's \<Rightarrow> 's) option"
  do_read :: "(u32 \<Rightarrow> u64 \<Rightarrow> u32 \<Rightarrow> u32 \<Rightarrow> 's \<Rightarrow> int \<times> 's) option"
  do_write :: "(u32 \<Rightarrow> u64 \<Rightarrow> u32 \<Rightarrow> u32 \<Rightarrow> 's \<Rightarrow> int \<times> 's) option"
  do_ioctl :: "(u32 \<Rightarrow> int \<Rightarrow> u32 \<Rightarrow> 's \<Rightarrow> int \<times> 's) option"

record 's drivers =
  devOps :: "u32 \<Rightarrow> 's IoDeviceOps"
  cacheRead :: "u32 \<Rightarrow> u64 \<Rightarrow> u32 \<Rightarrow> u32 \<Rightarrow> 's \<Rightarrow> int \<times> 's"
  cacheWrite :: "u32 \<Rightarrow> u64 \<Rightarrow> u32 \<Rightarrow> u32 \<Rightarrow> 's \<Rightarrow> int \<times> 's"

definition fsType :: u32 where "fsType = 0x100"
definition fsOps :: u32 where "fsOps = 0x200"
definition fileOps :: u32 where "fileOps = 0x300"
definition rootDirOps :: u32 where "rootDirOps = 0x400"

definition upd_device :: "u32 \<Rightarrow> (IoDevice \<Rightarrow> IoDevice) \<Rightarrow> 'a devfs_state_scheme \<Rightarrow> 'a devfs_state_scheme" where
  "upd_device d g s = s\<lparr>deviceAt := (deviceAt s)(d := g (deviceAt s d))\<rparr>"

definition device_name :: "mem \<Rightarrow> 'a devfs_state_scheme \<Rightarrow> u32 \<Rightarrow> u8 list" where
  "device_name m s d = bytes m (d_name (deviceAt s d)) (StrLen m (d_name (deviceAt s d)) IO_NAME_MAX)"

section \<open>Registration\<close>

definition IoDevFsInit :: "nat \<Rightarrow> mem \<Rightarrow> 'a devfs_state_scheme \<Rightarrow> 'a devfs_state_scheme run" where
  "IoDevFsInit fuel m s =
     (case IoFilesystemRegister fuel m fsType s of None \<Rightarrow> None | Some (ok, s1) \<Rightarrow> if ok then ret s1 else panic)"

function free_inode :: "(nat \<Rightarrow> u32) \<Rightarrow> nat \<Rightarrow> nat" where
  "free_inode devs i = (if i < MAX_DEVICES \<and> devs i \<noteq> 0 then free_inode devs (i + 1) else i)"
  by auto
termination by (relation "measure (\<lambda>(devs, i). MAX_DEVICES - i)") auto

declare free_inode.simps [simp del]

definition IoDevFsRegister :: "mem \<Rightarrow> u32 \<Rightarrow> 'a devfs_state_scheme \<Rightarrow> int \<times> 'a devfs_state_scheme" where
  "IoDevFsRegister m device s =
     (let freeINode = free_inode (devices s) (nextFreeINode s) in
      if freeINode = MAX_DEVICES then (- ENOSPC, s)
      else if map_of (files s) (device_name m s device) = None then
        (0, upd_device device (d_devFsINode_update (\<lambda>_. of_nat freeINode))
              (s\<lparr>files := (device_name m s device, device) # files s, devices := (devices s)(freeINode := device),
                nextFreeINode := freeINode + 1\<rparr>))
      else (- EEXIST, s))"

definition IoDevFsUnRegister :: "u32 \<Rightarrow> 'a devfs_state_scheme \<Rightarrow> int \<times> 'a devfs_state_scheme" where
  "IoDevFsUnRegister device s =
     (let n = unat (d_devFsINode (deviceAt s device)) in
      if n \<ge> MAX_DEVICES \<or> devices s n \<noteq> device then (- ENOENT, s)
      else (0, upd_device device (d_devFsINode_update (\<lambda>_. 0))
              (s\<lparr>files := filter (\<lambda>item. snd item \<noteq> device) (files s), devices := (devices s)(n := 0),
                nextFreeINode := (if n < nextFreeINode s then n else nextFreeINode s)\<rparr>)))"

section \<open>Operations of the file system\<close>

definition DevFsMount :: "u32 \<Rightarrow> 'a vfs_state_scheme \<Rightarrow> int \<times> 'a vfs_state_scheme" where
  "DevFsMount newFs s = (0, upd_fs newFs (\<lambda>f. f\<lparr>fs_ops := fsOps, fs_rootINode := 0\<rparr>) s)"

text \<open>The macro \<open>GET_DEVICE\<close>; its early return of \<open>ENXIO\<close> is the caller's.\<close>

definition GET_DEVICE :: "u32 \<Rightarrow> 'a devfs_state_scheme \<Rightarrow> u32 option" where
  "GET_DEVICE inode s = (if unat inode \<ge> MAX_DEVICES \<or> devices s (unat inode) = 0 then None else Some (devices s (unat inode)))"

definition DevFsReadINode :: "IoINode \<Rightarrow> 'a devfs_state_scheme \<Rightarrow> int \<times> IoINode \<times> 'a devfs_state_scheme" where
  "DevFsReadINode iNode s =
     (if unat (in_number iNode) > MAX_DEVICES then (- EIO, iNode, s)
      else if in_number iNode = 0 then (0, iNode\<lparr>in_ops := rootDirOps, in_mode := 0x16D OR IO_DIR, in_uid := 0, in_gid := 0, in_size := 0\<rparr>, s)
      else case GET_DEVICE (in_number iNode) s of
          None \<Rightarrow> (- ENXIO, iNode, s)
        | Some device \<Rightarrow> let d = deviceAt s device in
            (0, iNode\<lparr>in_ops := fileOps, in_mode := d_mode d, in_uid := d_uid d, in_gid := d_gid d, in_size := 0\<rparr>, s))"

text \<open>\<open>*iNodeNum\<close> is not written when nothing is found; the number is then not read by the caller.\<close>

definition DevFsFindINode :: "mem \<Rightarrow> u32 \<Rightarrow> u32 \<Rightarrow> u32 \<Rightarrow> nat \<Rightarrow> 'a devfs_state_scheme \<Rightarrow> int \<times> u32 \<times> 'a devfs_state_scheme" where
  "DevFsFindINode m fs parent name nameLen s =
     (if parent = 0 then
        (case map_of (files s) (bytes m name nameLen) of
           None \<Rightarrow> (- ENOENT, 0, s) | Some device \<Rightarrow> (0, d_devFsINode (deviceAt s device), s))
      else (- ENOENT, 0, s))"

definition DevFsOpen :: "'a devfs_state_scheme drivers \<Rightarrow> IoINode \<Rightarrow> u32 \<Rightarrow> 'a devfs_state_scheme \<Rightarrow> int \<times> 'a devfs_state_scheme" where
  "DevFsOpen drv iNode file s =
     (case GET_DEVICE (in_number iNode) s of
        None \<Rightarrow> (- ENXIO, s)
      | Some device \<Rightarrow> (case do_open (devOps drv (d_devOps (deviceAt s device))) of
            None \<Rightarrow> (- ENOSYS, s) | Some open_op \<Rightarrow> open_op device s))"

definition DevFsClose :: "'a devfs_state_scheme drivers \<Rightarrow> u32 \<Rightarrow> 'a devfs_state_scheme \<Rightarrow> int \<times> 'a devfs_state_scheme" where
  "DevFsClose drv file s =
     (case GET_DEVICE (f_iNode (fileAt s file)) s of
        None \<Rightarrow> (0, s)
      | Some device \<Rightarrow> (case do_close (devOps drv (d_devOps (deviceAt s device))) of
            None \<Rightarrow> (0, s) | Some close_op \<Rightarrow> (0, close_op device s)))"

definition DevFsRead ::
  "'a devfs_state_scheme drivers \<Rightarrow> u32 \<Rightarrow> u32 \<Rightarrow> u32 \<Rightarrow> 'a devfs_state_scheme \<Rightarrow> int \<times> 'a devfs_state_scheme" where
  "DevFsRead drv file buffer cnt s =
     (case GET_DEVICE (f_iNode (fileAt s file)) s of
        None \<Rightarrow> (- ENXIO, s)
      | Some device \<Rightarrow> let d = deviceAt s device; off = ucast (f_off (fileAt s file)) in
          if d_blockCache d \<noteq> 0 \<and> IO_ISBLOCK (d_mode d) then cacheRead drv device off buffer cnt s
          else case do_read (devOps drv (d_devOps d)) of
              None \<Rightarrow> (- ENOSYS, s) | Some read_op \<Rightarrow> read_op device off buffer cnt s)"

definition DevFsWrite ::
  "'a devfs_state_scheme drivers \<Rightarrow> u32 \<Rightarrow> u32 \<Rightarrow> u32 \<Rightarrow> 'a devfs_state_scheme \<Rightarrow> int \<times> 'a devfs_state_scheme" where
  "DevFsWrite drv file buffer cnt s =
     (case GET_DEVICE (f_iNode (fileAt s file)) s of
        None \<Rightarrow> (- ENXIO, s)
      | Some device \<Rightarrow> let d = deviceAt s device; off = ucast (f_off (fileAt s file)) in
          if d_blockCache d \<noteq> 0 \<and> IO_ISBLOCK (d_mode d) then cacheWrite drv device off buffer cnt s
          else case do_write (devOps drv (d_devOps d)) of
              None \<Rightarrow> (- ENOSYS, s) | Some write_op \<Rightarrow> write_op device off buffer cnt s)"

definition DevFsIoCtl ::
  "'a devfs_state_scheme drivers \<Rightarrow> u32 \<Rightarrow> int \<Rightarrow> u32 \<Rightarrow> 'a devfs_state_scheme \<Rightarrow> int \<times> 'a devfs_state_scheme" where
  "DevFsIoCtl drv file request data s =
     (case GET_DEVICE (f_iNode (fileAt s file)) s of
        None \<Rightarrow> (- ENXIO, s)
      | Some device \<Rightarrow> (case do_ioctl (devOps drv (d_devOps (deviceAt s device))) of
            None \<Rightarrow> (- ENOTTY, s) | Some ioctl_op \<Rightarrow> ioctl_op device request data s))"

text \<open>The loop of \<open>DevFsReadDir\<close> over the remaining numbers; the result of the filler is ignored.\<close>

fun read_entries ::
  "mem \<Rightarrow> 'a devfs_state_scheme \<Rightarrow> IoDirectoryFiller \<Rightarrow> int \<Rightarrow> nat list \<Rightarrow> int \<Rightarrow> int \<Rightarrow> ReadDirFillerBuf \<Rightarrow> int \<times> ReadDirFillerBuf" where
  "read_entries m s filler cnt [] toSkip readSoFar buf = (readSoFar, buf)"
| "read_entries m s filler cnt (i # rest) toSkip readSoFar buf =
     (if devices s i = 0 then read_entries m s filler cnt rest toSkip readSoFar buf
      else if toSkip = 0 then
        (let name = d_name (deviceAt s (devices s i));
             buf' = snd (filler buf (of_nat i - 1) name (int (StrLen m name IO_NAME_MAX)))
         in if readSoFar + 1 \<ge> cnt then (readSoFar + 1, buf')
            else read_entries m s filler cnt rest toSkip (readSoFar + 1) buf')
      else read_entries m s filler cnt rest (toSkip - 1) readSoFar buf)"

definition DevFsReadDir ::
  "mem \<Rightarrow> u32 \<Rightarrow> IoDirectoryFiller \<Rightarrow> int \<Rightarrow> ReadDirFillerBuf \<Rightarrow> 'a devfs_state_scheme \<Rightarrow> int \<times> ReadDirFillerBuf \<times> 'a devfs_state_scheme" where
  "DevFsReadDir m file filler cnt buf s =
     (if f_iNode (fileAt s file) = 0 then
        (let (readSoFar, buf') = read_entries m s filler cnt [0..<MAX_DEVICES] (sint (f_off (fileAt s file))) 0 buf
         in (readSoFar, buf', upd_file file (f_off_update (\<lambda>n. n + of_int readSoFar)) s))
      else (- ENOTDIR, buf, s))"

section \<open>Operation tables\<close>

definition devfs_fsops :: "mem \<Rightarrow> 'a devfs_state_scheme IoFilesystemOps" where
  "devfs_fsops m = \<lparr>fo_umount = None, fo_readINode = DevFsReadINode, fo_findINode = DevFsFindINode m, fo_create = None\<rparr>"

definition devfs_ops :: "'a devfs_state_scheme drivers \<Rightarrow> mem \<Rightarrow> u32 \<Rightarrow> 'a devfs_state_scheme IoFileOps" where
  "devfs_ops drv m a =
     (if a = fileOps then \<lparr>op_open = Some (DevFsOpen drv), op_close = Some (DevFsClose drv), op_read = Some (DevFsRead drv),
        op_write = Some (DevFsWrite drv), op_truncate = None, op_ioctl = Some (DevFsIoCtl drv), op_readdir = None\<rparr>
      else \<lparr>op_open = None, op_close = None, op_read = None, op_write = None, op_truncate = None, op_ioctl = None,
        op_readdir = Some (DevFsReadDir m)\<rparr>)"

section \<open>The registry\<close>

text \<open>
  The table of the names, the array of the devices and the numbers stored in the devices agree, and every
  number below \<open>nextFreeINode\<close> is taken.
\<close>

definition devfs_ok :: "mem \<Rightarrow> 'a devfs_state_scheme \<Rightarrow> bool" where
  "devfs_ok m s \<longleftrightarrow> distinct (map fst (files s)) \<and>
     (\<forall>k d. (k, d) \<in> set (files s) \<longrightarrow> d \<noteq> 0 \<and> k = device_name m s d \<and>
        unat (d_devFsINode (deviceAt s d)) < MAX_DEVICES \<and> devices s (unat (d_devFsINode (deviceAt s d))) = d) \<and>
     (\<forall>i < MAX_DEVICES. devices s i \<noteq> 0 \<longrightarrow> (device_name m s (devices s i), devices s i) \<in> set (files s) \<and>
        d_devFsINode (deviceAt s (devices s i)) = of_nat i) \<and>
     nextFreeINode s \<le> MAX_DEVICES \<and> (\<forall>i < nextFreeINode s. devices s i \<noteq> 0)"

definition devfs_full :: "'a devfs_state_scheme \<Rightarrow> bool" where
  "devfs_full s \<longleftrightarrow> (\<forall>i < MAX_DEVICES. devices s i \<noteq> 0)"

lemma upd_device_sel [simp]:
  "deviceAt (upd_device d g s) = (deviceAt s)(d := g (deviceAt s d))" "devices (upd_device d g s) = devices s"
  "files (upd_device d g s) = files s" "nextFreeINode (upd_device d g s) = nextFreeINode s"
  by (simp_all add: upd_device_def)

lemma device_name_renumbered [simp]:
  "device_name m (upd_device d (d_devFsINode_update f) s) d' = device_name m s d'"
  "device_name m (s\<lparr>files := a, devices := b, nextFreeINode := c\<rparr>) d' = device_name m s d'"
  by (simp_all add: device_name_def)

lemma free_inode_spec:
  "i \<le> MAX_DEVICES \<Longrightarrow> i \<le> free_inode devs i \<and> free_inode devs i \<le> MAX_DEVICES \<and>
     (\<forall>j. i \<le> j \<and> j < free_inode devs i \<longrightarrow> devs j \<noteq> 0) \<and> (free_inode devs i < MAX_DEVICES \<longrightarrow> devs (free_inode devs i) = 0)"
proof (induction devs i rule: free_inode.induct)
  case (1 devs i)
  show ?case
  proof (cases "i < MAX_DEVICES \<and> devs i \<noteq> 0")
    case True
    then have eq: "free_inode devs i = free_inode devs (i + 1)" by (subst free_inode.simps) simp
    have "devs j \<noteq> 0" if "i \<le> j" "j < free_inode devs (i + 1)" for j
      using that 1 True by (cases "j = i") auto
    then show ?thesis using 1(1) [OF True] True unfolding eq by auto
  next
    case False
    then have "free_inode devs i = i" by (subst free_inode.simps) auto
    then show ?thesis using 1 False by auto
  qed
qed

lemma free_inode_full:
  assumes "devfs_ok m s"
  shows "free_inode (devices s) (nextFreeINode s) = MAX_DEVICES \<longleftrightarrow> devfs_full s"
  using free_inode_spec [of "nextFreeINode s" "devices s"] assms unfolding devfs_ok_def devfs_full_def
  by (metis le_neq_implies_less not_le)

text \<open>A device that is registered is in the table under its name.\<close>

lemma registered_name:
  assumes "devfs_ok m s" "i < MAX_DEVICES" "devices s i \<noteq> 0"
  shows "map_of (files s) (device_name m s (devices s i)) = Some (devices s i)"
  using assms by (auto simp: devfs_ok_def intro: map_of_is_SomeI)

text \<open>
  (C17) Registration. A device is accepted exactly when a number is free and no device has its name. It then has
  a number that was free, its name leads to it, all other names and devices are as before, and the
  registry stays consistent. A refused registration changes nothing.
\<close>

theorem devfs_register:
  assumes ok: "devfs_ok m s" and device: "device \<noteq> 0"
  shows "if devfs_full s then IoDevFsRegister m device s = (- ENOSPC, s)
    else if map_of (files s) (device_name m s device) \<noteq> None then IoDevFsRegister m device s = (- EEXIST, s)
    else \<exists>n s'. IoDevFsRegister m device s = (0, s') \<and> n < MAX_DEVICES \<and> devices s n = 0 \<and>
      devices s' = (devices s)(n := device) \<and> d_devFsINode (deviceAt s' device) = of_nat n \<and>
      map_of (files s') = (map_of (files s))(device_name m s device \<mapsto> device) \<and>
      (\<forall>d. d \<noteq> device \<longrightarrow> deviceAt s' d = deviceAt s d) \<and> devfs_ok m s'"
proof -
  let ?n = "free_inode (devices s) (nextFreeINode s)" and ?k = "device_name m s device"
  let ?s = "upd_device device (d_devFsINode_update (\<lambda>_. of_nat ?n))
    (s\<lparr>files := (?k, device) # files s, devices := (devices s)(?n := device), nextFreeINode := ?n + 1\<rparr>)"
  have n: "nextFreeINode s \<le> ?n" "?n \<le> MAX_DEVICES" "?n < MAX_DEVICES \<Longrightarrow> devices s ?n = 0"
    "\<And>i. nextFreeINode s \<le> i \<Longrightarrow> i < ?n \<Longrightarrow> devices s i \<noteq> 0"
    using free_inode_spec [of "nextFreeINode s" "devices s"] ok by (auto simp: devfs_ok_def)
  have new: "devfs_ok m ?s" if free: "?n < MAX_DEVICES" "map_of (files s) ?k = None"
  proof -
    have num: "unat (of_nat ?n :: u32) = ?n" using free(1) by (simp add: MAX_DEVICES_def unat_of_nat)
    have other: "devices s i \<noteq> device" if "i < MAX_DEVICES" for i
      using registered_name [OF ok that] device free(2) by auto
    have "d \<noteq> device" if "(k, d) \<in> set (files s)" for k d
      using that ok other unfolding devfs_ok_def by metis
    moreover have "?k \<notin> fst ` set (files s)" using free(2) by (simp add: map_of_eq_None_iff)
    moreover have "d \<noteq> ?n" if "unat (d_devFsINode (deviceAt s e)) = d" "(k, e) \<in> set (files s)" for d e k
      using that ok n(3) [OF free(1)] unfolding devfs_ok_def by metis
    moreover have "devices s i \<noteq> 0" if "i < ?n" for i
      using ok n(4) that by (cases "i < nextFreeINode s") (auto simp: devfs_ok_def)
    ultimately show ?thesis using ok device free(1) num other unfolding devfs_ok_def
      by (auto simp: less_Suc_eq fun_upd_def)
  qed
  show ?thesis
  proof (cases "devfs_full s \<or> map_of (files s) ?k \<noteq> None")
    case True
    then show ?thesis using free_inode_full [OF ok] by (auto simp: IoDevFsRegister_def)
  next
    case False
    then have "?n < MAX_DEVICES" using free_inode_full [OF ok] n(2) by (simp add: le_neq_implies_less)
    then show ?thesis using False new n(3) free_inode_full [OF ok]
      by (auto simp: IoDevFsRegister_def Let_def intro!: exI [of _ ?n])
  qed
qed

lemma map_of_filter_fst: "map_of (filter (\<lambda>item. fst item \<noteq> a) l) = (map_of l)(a := None)"
  by (induction l) auto

text \<open>Taking a registered device out of the registry keeps the rest consistent.\<close>

lemma drop_device_ok:
  assumes ok: "devfs_ok m s" and reg: "n < MAX_DEVICES" "devices s n = device" "(device_name m s device, device) \<in> set (files s)"
    and s': "files s' = filter (\<lambda>x. fst x \<noteq> device_name m s device) (files s)" "devices s' = (devices s)(n := 0)"
      "deviceAt s' = (deviceAt s)(device := (deviceAt s device)\<lparr>d_devFsINode := 0\<rparr>)" "nextFreeINode s' = min n (nextFreeINode s)"
  shows "devfs_ok m s'"
proof -
  have dist: "distinct (map fst (files s))" using ok by (simp add: devfs_ok_def)
  have name: "device_name m s' d = device_name m s d" for d by (simp add: device_name_def s')
  have number: "(k, d) \<in> set (files s) \<Longrightarrow> d \<noteq> 0 \<and> k = device_name m s d \<and>
      unat (d_devFsINode (deviceAt s d)) < MAX_DEVICES \<and> devices s (unat (d_devFsINode (deviceAt s d))) = d" for k d
    using ok by (simp add: devfs_ok_def)
  have slot: "i < MAX_DEVICES \<Longrightarrow> devices s i \<noteq> 0 \<Longrightarrow> (device_name m s (devices s i), devices s i) \<in> set (files s) \<and>
      d_devFsINode (deviceAt s (devices s i)) = of_nat i" for i
    using ok by (simp add: devfs_ok_def)
  have same: "x = device" if "(device_name m s device, x) \<in> set (files s)" for x
    using that reg(3) dist by (rule eq_key_imp_eq_value [rotated])
  have "distinct (map fst (files s'))" using dist by (simp add: s' distinct_map_filter)
  moreover have "d \<noteq> 0 \<and> k = device_name m s' d \<and> unat (d_devFsINode (deviceAt s' d)) < MAX_DEVICES \<and>
      devices s' (unat (d_devFsINode (deviceAt s' d))) = d" if "(k, d) \<in> set (files s')" for k d
  proof -
    have kd: "(k, d) \<in> set (files s)" "k \<noteq> device_name m s device" using that by (auto simp: s')
    note d = number [OF kd(1)]
    then have "d \<noteq> device" using kd(2) by auto
    moreover from this have "unat (d_devFsINode (deviceAt s d)) \<noteq> n" using d reg(2) by auto
    ultimately show ?thesis using d by (simp add: s' name)
  qed
  moreover have "(device_name m s' (devices s' i), devices s' i) \<in> set (files s') \<and> d_devFsINode (deviceAt s' (devices s' i)) = of_nat i"
    if "i < MAX_DEVICES" "devices s' i \<noteq> 0" for i
  proof -
    have i: "i \<noteq> n" "devices s i \<noteq> 0" "devices s' i = devices s i" using that(2) by (auto simp: s' split: if_splits)
    have "devices s n \<noteq> 0" using number [OF reg(3)] reg(2) by simp
    then have "(of_nat n :: u32) \<noteq> of_nat i" using i(1) reg(1) that(1) by (simp add: MAX_DEVICES_def of_nat_eq_iff unat_arith_simps unat_of_nat)
    then have "devices s i \<noteq> device" using slot [OF that(1) i(2)] slot [OF reg(1) \<open>devices s n \<noteq> 0\<close>] reg(2) by auto
    moreover from this have "device_name m s (devices s i) \<noteq> device_name m s device" using slot [OF that(1) i(2)] same by auto
    ultimately show ?thesis using slot [OF that(1) i(2)] i(3) by (simp add: s' name)
  qed
  ultimately show ?thesis using ok reg(1) unfolding devfs_ok_def [of m s'] by (simp add: s'(2,4)) (auto simp: devfs_ok_def)
qed

text \<open>
  Removal. A registered device is removed from the names and from the numbers and nothing else changes;
  for a device that is not registered the call fails and changes nothing.
\<close>

theorem devfs_unregister:
  assumes ok: "devfs_ok m s" and device: "device \<noteq> 0"
  shows "if device \<in> snd ` set (files s)
    then \<exists>s'. IoDevFsUnRegister device s = (0, s') \<and> map_of (files s') = (map_of (files s))(device_name m s device := None) \<and>
      devices s' = (devices s)(unat (d_devFsINode (deviceAt s device)) := 0) \<and>
      (\<forall>d. d \<noteq> device \<longrightarrow> deviceAt s' d = deviceAt s d) \<and> devfs_ok m s'
    else IoDevFsUnRegister device s = (- ENOENT, s)"
proof -
  let ?n = "unat (d_devFsINode (deviceAt s device))" and ?k = "device_name m s device"
  have dist: "distinct (map fst (files s))" using ok by (simp add: devfs_ok_def)
  have item: "(k, device) \<in> set (files s) \<Longrightarrow> ?n < MAX_DEVICES \<and> devices s ?n = device \<and> k = ?k" for k
    using ok unfolding devfs_ok_def by metis
  have found: "(?k, device) \<in> set (files s)" if "?n < MAX_DEVICES" "devices s ?n = device"
    using ok that device unfolding devfs_ok_def by metis
  show ?thesis
  proof (cases "device \<in> snd ` set (files s)")
    case False
    then have "\<not> (?n < MAX_DEVICES \<and> devices s ?n = device)" using found by force
    then show ?thesis using False by (auto simp: IoDevFsUnRegister_def Let_def)
  next
    case True
    then have reg: "?n < MAX_DEVICES" "devices s ?n = device" "(?k, device) \<in> set (files s)" using item by auto
    have "snd x \<noteq> device \<longleftrightarrow> fst x \<noteq> ?k" if "x \<in> set (files s)" for x
      using that item reg(3) dist by (metis eq_key_imp_eq_value prod.collapse)
    then have drop_item: "filter (\<lambda>x. snd x \<noteq> device) (files s) = filter (\<lambda>x. fst x \<noteq> ?k) (files s)" by (auto cong: filter_cong)
    define s' where "s' = snd (IoDevFsUnRegister device s)"
    have s': "IoDevFsUnRegister device s = (0, s')" "files s' = filter (\<lambda>x. fst x \<noteq> ?k) (files s)" "devices s' = (devices s)(?n := 0)"
        "deviceAt s' = (deviceAt s)(device := (deviceAt s device)\<lparr>d_devFsINode := 0\<rparr>)" "nextFreeINode s' = min ?n (nextFreeINode s)"
      using reg(1,2) by (auto simp: s'_def IoDevFsUnRegister_def Let_def drop_item)
    have "devfs_ok m s'" using ok reg s'(2-5) by (rule drop_device_ok)
    then show ?thesis using True s' by (auto simp: map_of_filter_fst)
  qed
qed

section \<open>The tree of the device file system\<close>

definition devfs_root :: "u32 \<Rightarrow> IoINode" where
  "devfs_root fs = \<lparr>in_number = 0, in_fs = fs, in_ops = rootDirOps, in_mode = 0x16D OR IO_DIR, in_uid = 0, in_gid = 0, in_size = 0\<rparr>"

definition device_node :: "u32 \<Rightarrow> u32 \<Rightarrow> IoDevice \<Rightarrow> IoINode" where
  "device_node fs n d = \<lparr>in_number = n, in_fs = fs, in_ops = fileOps, in_mode = d_mode d, in_uid = d_uid d, in_gid = d_gid d, in_size = 0\<rparr>"

definition devfs_tree :: "'a devfs_state_scheme \<Rightarrow> tree" where
  "devfs_tree s =
     \<lparr>t_find = (\<lambda>fs parent name. if parent = 0 then map_option (\<lambda>d. d_devFsINode (deviceAt s d)) (map_of (files s) name) else None),
      t_node = (\<lambda>fs n. if unat n > MAX_DEVICES then Inl (- EIO) else if n = 0 then Inr (devfs_root fs)
         else case GET_DEVICE n s of None \<Rightarrow> Inl (- ENXIO) | Some d \<Rightarrow> Inr (device_node fs n (deviceAt s d))),
      t_mounted = (\<lambda>fs n. map_of (fs_mountPoints (fsAt s fs)) n), t_top = (\<lambda>fs. fs_rootINode (fsAt s fs))\<rparr>"

interpretation devfs: file_tree "\<lambda>_. devfs_fsops m" m s "devfs_tree s" for m s
  by unfold_locales
    (auto simp: devfs_tree_def devfs_fsops_def DevFsFindINode_def DevFsReadINode_def read_node_def devfs_root_def device_node_def
      Let_def split: option.splits sum.splits)

lemma devfs_mounts: "mounts_with fsOps 0 (\<lambda>type fs. DevFsMount fs)"
  by (simp add: mounts_with_def DevFsMount_def)

lemma root_searchable [simp]:
  "IoModeCanAccessINode IO_WORLD_EXEC (devfs_root fs) sc" "IO_ISDIR (in_mode (devfs_root fs))"
  by (simp_all add: IoModeCanAccessINode_def IoModeCanAccess_def devfs_root_def IO_WORLD_EXEC_def IO_DIR_def IO_ISDIR_def IO_ALL_TYPES_def)

lemma devfs_tree_root [simp]: "t_node (devfs_tree s) fs 0 = Inr (devfs_root fs)"
  by (simp add: devfs_tree_def)

text \<open>Looking up \<open>/name\<close> with the device file system as root file system.\<close>

lemma devfs_lookup:
  assumes fs: "IoFilesystemRoot s = fs" "fs \<noteq> 0" "fs_rootINode (fsAt s fs) = 0" "fs_mountPoints (fsAt s fs) = []"
    and name: "map_of (files s) c = Some device" "c \<noteq> []" "0x2F \<notin> set c" "length c < IO_NAME_MAX" "c \<noteq> [0x2E]" "c \<noteq> [0x2E, 0x2E]"
    and path: "path_at m p (0x2F # c)" and node: "t_node (devfs_tree s) fs (d_devFsINode (deviceAt s device)) = Inr j"
    and access: "IO_ISDIR (in_mode j) \<longrightarrow> IoModeCanAccessINode IO_WORLD_EXEC j sc"
  shows "IoLookupPath (\<lambda>_. devfs_fsops m) m sc ctx p i s = Some (0, j, 0, s)"
proof -
  have comps: "components (0x2F # c) = [c]" "components c = [c]" "\<not> slash_end c"
    using name by (simp_all add: components_name slash_end_plain)
  have "\<exists>r. IoLookupPath (\<lambda>_. devfs_fsops m) m sc ctx p i s = Some r \<and>
      reports m s (resolve (devfs_tree s) sc (if IoFilesystemRoot s = 0 then None else Some (IoFilesystemRoot s))
        (c_cdirFs (ioContextAt s ctx), c_cdirINode (ioContextAt s ctx)) (0x2F # c)) r"
    using name comps by (intro devfs.lookup_resolves path) simp
  moreover have "t_find (devfs_tree s) fs 0 c = Some (d_devFsINode (deviceAt s device))"
      "cross (devfs_tree s) fs n = (fs, n)" "t_top (devfs_tree s) fs = 0" for n
    using name(1) fs(3,4) by (simp_all add: devfs_tree_def cross_def)
  ultimately show ?thesis using fs(1,2) node access comps by (auto simp: resolve_def resolve_from_def split: if_splits)
qed

text \<open>The end of \<open>IoOpen\<close> for the node of a device whose driver agrees.\<close>

lemma open_device_node:
  assumes slot: "device \<noteq> 0" "unat n < MAX_DEVICES" "devices s (unat n) = device"
    and dev: "IO_ISCHAR (d_mode (deviceAt s device)) \<or> IO_ISBLOCK (d_mode (deviceAt s device))"
      "IoModeCanAccess (perms_required flags) (d_mode (deviceAt s device)) (d_uid (deviceAt s device)) (d_gid (deviceAt s device)) sc"
    and fs: "fs_flags (fsAt s fs) AND IO_MOUNT_RDONLY = 0" and flags: "flags AND IO_O_TRUNC = 0"
    and driver: "do_open (devOps drv (d_devOps (deviceAt s device))) = Some open_op"
      "\<And>x. \<exists>y. open_op device x = (0, y) \<and> fileAt y = fileAt x \<and> ioContextAt y = ioContextAt x"
  shows "\<exists>y. open_node (devfs_ops drv m) sc (device_node fs n (deviceAt s device)) flags file s = Returns (Inr y) \<and>
    ioContextAt y = ioContextAt s \<and> f_iNode (fileAt y file) = n \<and> f_fs (fileAt y file) = fs \<and> f_ops (fileAt y file) = fileOps \<and>
    f_refCount (fileAt y file) = 1 \<and> f_off (fileAt y file) = 0"
proof -
  let ?d = "deviceAt s device"
  define s1 where "s1 = upd_file file (\<lambda>f. f\<lparr>f_refCount := 1, f_off := 0,
    f_flags := flags AND (IO_O_RDWR OR IO_O_APPEND OR IO_O_DIRECTORY), f_fs := fs, f_iNode := n, f_ops := fileOps\<rparr>) s"
  have same: "deviceAt s1 = deviceAt s" "devices s1 = devices s" by (simp_all add: s1_def upd_file_def)
  have kind: "\<not> IO_ISFIFO (d_mode ?d)" "\<not> IO_ISSOCKET (d_mode ?d)" "\<not> IO_ISSYMLINK (d_mode ?d)"
    using dev(1) by (auto simp: IO_ISCHAR_def IO_ISBLOCK_def IO_ISFIFO_def IO_ISSOCKET_def IO_ISSYMLINK_def
        IO_DEV_CHAR_def IO_DEV_BLOCK_def IO_FIFO_def IO_SOCKET_def IO_SYMLINK_def)
  obtain y where y: "open_op device s1 = (0, y)" "fileAt y = fileAt s1" "ioContextAt y = ioContextAt s1" using driver(2) by blast
  have "DevFsOpen drv (device_node fs n ?d) file s1 = (0, y)"
    using slot driver(1) y(1) by (simp add: DevFsOpen_def GET_DEVICE_def device_node_def same)
  then have "open_node (devfs_ops drv m) sc (device_node fs n ?d) flags file s = Returns (Inr y)"
    using kind dev(2) fs flags
    by (simp add: open_node_def device_node_def devfs_ops_def IoModeCanAccessINode_def Let_def flip: s1_def)
  then show ?thesis using y(2,3) by (simp add: s1_def)
qed


section \<open>Number 0\<close>

text \<open>The operations of the root directory have no \<open>open\<close>, which \<open>IoOpen\<close> calls without a test.\<close>

lemma open_root_panics:
  assumes "flags AND IO_O_RDONLY \<noteq> 0" "flags AND IO_O_WRONLY = 0"
  shows "open_node (devfs_ops drv m) sc (devfs_root fs) flags file s = Panics"
  using assms by (simp add: open_node_def devfs_root_def devfs_ops_def rootDirOps_def fileOps_def perms_required_def IoModeCanAccessINode_def
      IoModeCanAccess_def IO_WORLD_READ_def IO_ISFIFO_def IO_ISSOCKET_def IO_ISSYMLINK_def IO_ALL_TYPES_def IO_DIR_def IO_FIFO_def
      IO_SOCKET_def IO_SYMLINK_def)

text \<open>
  The first device. A device registered in the empty file system gets number 0, which is also the number
  of the root directory. Opening it for reading finds the root directory instead, whose missing \<open>open\<close>
  operation is called: the kernel stops.
\<close>

theorem first_device_panics:
  assumes fs: "IoFilesystemRoot s = fs" "fs \<noteq> 0" "fs_rootINode (fsAt s fs) = 0" "fs_mountPoints (fsAt s fs) = []"
    and none: "files s = []" "devices s 0 = 0" "nextFreeINode s = 0"
    and name: "device_name m s device = c" "c \<noteq> []" "0x2F \<notin> set c" "length c < IO_NAME_MAX" "c \<noteq> [0x2E]" "c \<noteq> [0x2E, 0x2E]"
    and path: "path_at m p (0x2F # c)"
    and fd: "0 \<le> fd" "fd < int IO_MAX_OPEN_FILES" "c_files (ioContextAt s ctx) (nat fd) = 0"
      "c_descriptorFlags (ioContextAt s ctx) (nat fd) AND IO_O_FDRESERVED = 0"
    and flags: "flags AND IO_O_RDONLY \<noteq> 0" "flags AND IO_O_WRONLY = 0" "flags AND IO_O_DIRECTORY = 0" "flags AND IO_O_EXCL = 0"
  shows "\<exists>s1. IoDevFsRegister m device s = (0, s1) \<and>
    IoOpen (\<lambda>_. devfs_fsops m) (devfs_ops drv m) m newFile junk sc ctx p flags mode fd s1 = panic"
proof -
  have "free_inode (devices s) 0 = 0" using none(2) by (subst free_inode.simps) simp
  then obtain s1 where s1: "IoDevFsRegister m device s = (0, s1)" "map_of (files s1) c = Some device" "d_devFsINode (deviceAt s1 device) = 0"
      "fsAt s1 = fsAt s" "IoFilesystemRoot s1 = IoFilesystemRoot s" "ioContextAt s1 = ioContextAt s"
    using none name(1) by (simp add: IoDevFsRegister_def MAX_DEVICES_def Let_def upd_device_def)
  define s2 where "s2 = set_descriptor_flags ctx (nat fd) IO_O_FDRESERVED s1"
  have same: "files s2 = files s1" "deviceAt s2 = deviceAt s1" "fsAt s2 = fsAt s1" "IoFilesystemRoot s2 = IoFilesystemRoot s1"
    by (simp_all add: s2_def set_descriptor_flags_def upd_ctx_def)
  have found: "IoLookupPath (\<lambda>_. devfs_fsops m) m sc ctx p junk s2 = Some (0, devfs_root fs, 0, s2)"
    by (rule devfs_lookup [where device = device, OF _ _ _ _ _ name(2-6) path]) (simp_all add: same fs s1)
  define F where "F = (flags AND IO_O_ALLFLAGS) AND NOT IO_O_TRUNC"
  have F: "F AND x = flags AND x" if "x AND 0xF7 = x" for x using open_bits(2) [OF that, of flags] by (simp add: F_def and.assoc)
  have "(flags AND IO_O_RDWR) AND IO_O_RDONLY = flags AND IO_O_RDONLY"
    by (simp add: IO_O_WRONLY_def IO_O_RDONLY_def IO_O_RDWR_def and.assoc)
  then have low: "(flags AND IO_O_ALLFLAGS) AND IO_O_WRONLY = 0" "(flags AND IO_O_ALLFLAGS) AND IO_O_RDWR \<noteq> 0"
    using flags(1,2) open_bits(1) [of IO_O_WRONLY flags] open_bits(1) [of IO_O_RDWR flags]
    by (auto simp: IO_O_WRONLY_def IO_O_RDONLY_def IO_O_RDWR_def)
  have bits: "F AND IO_O_DIRECTORY = 0" "F AND IO_O_EXCL = 0" "F AND IO_O_RDONLY \<noteq> 0" "F AND IO_O_WRONLY = 0"
    using flags by (simp_all add: F IO_O_DIRECTORY_def IO_O_EXCL_def IO_O_RDONLY_def IO_O_WRONLY_def)
  have "IoOpen (\<lambda>_. devfs_fsops m) (devfs_ops drv m) m newFile junk sc ctx p flags mode fd s1 = panic"
    using fd found low bits
    by (simp add: IoOpen_def Let_def open_switch_def s1(6) open_root_panics flip: F_def s2_def)
  then show ?thesis using s1(1) by blast
qed

section \<open>Witnesses\<close>

definition devfs_memory :: mem where
  "devfs_memory = (\<lambda>_. 0)(0x40 := 0x74, 0x44 := 0x75, 0x50 := 0x2F, 0x51 := 0x74, 0x58 := 0x2F, 0x59 := 0x75)"

definition demo_devfs :: devfs_state where
  "demo_devfs = vfs_state.extend demo_vfs \<lparr>deviceAt = (\<lambda>d. \<lparr>d_name = (if d = 5 then 0x40 else 0x44), d_mode = 0x21B6, d_uid = 0, d_gid = 0,
     d_devFsINode = (if d = 6 then 1 else 0), d_blockCache = 0, d_devOps = 0, d_custom = 0\<rparr>), devices = (\<lambda>_. 0), nextFreeINode = 0, files = []\<rparr>"

definition two_devices :: devfs_state where
  "two_devices = demo_devfs\<lparr>devices := (\<lambda>_. 0)(0 := 5, 1 := 6), nextFreeINode := 2, files := [([0x75], 6), ([0x74], 5)]\<rparr>"

definition quiet_drivers :: "'s drivers" where
  "quiet_drivers = \<lparr>devOps = (\<lambda>_. \<lparr>do_open = Some (\<lambda>d s. (0, s)), do_close = None, do_read = None, do_write = None, do_ioctl = None\<rparr>),
     cacheRead = (\<lambda>d off buf n s. (0, s)), cacheWrite = (\<lambda>d off buf n s. (0, s))\<rparr>"

lemma demo_names: "device_name devfs_memory demo_devfs 5 = [0x74]" "device_name devfs_memory demo_devfs 6 = [0x75]"
    "device_name devfs_memory two_devices d = device_name devfs_memory demo_devfs d"
proof -
  have len: "IO_NAME_MAX = Suc (Suc 253)" by (simp add: IO_NAME_MAX_def)
  have "StrLen devfs_memory 0x40 IO_NAME_MAX = Suc 0" "StrLen devfs_memory 0x44 IO_NAME_MAX = Suc 0"
    unfolding len StrLen.simps by (simp_all add: devfs_memory_def)
  then show "device_name devfs_memory demo_devfs 5 = [0x74]" "device_name devfs_memory demo_devfs 6 = [0x75]"
    unfolding device_name_def by (simp_all add: demo_devfs_def vfs_state.defs bytes_Suc) (simp_all add: devfs_memory_def)
qed (simp add: device_name_def two_devices_def)

lemma demo_sel [simp]:
  "files demo_devfs = []" "devices demo_devfs = (\<lambda>_. 0)" "nextFreeINode demo_devfs = 0" "IoFilesystemRoot demo_devfs = 50"
  "fs_rootINode (fsAt demo_devfs fs) = 0" "fs_mountPoints (fsAt demo_devfs fs) = []" "fs_flags (fsAt demo_devfs fs) = 0"
  "c_files (ioContextAt demo_devfs c) 7 = 0" "c_descriptorFlags (ioContextAt demo_devfs c) n = 0"
  by (simp_all add: demo_devfs_def vfs_state.defs demo_vfs_def io_state.defs demo_io_def)

lemma demo_devfs_ok: "devfs_ok devfs_memory demo_devfs"
  by (simp add: devfs_ok_def)

lemma two_devices_ok: "devfs_ok devfs_memory two_devices"
  unfolding devfs_ok_def demo_names(3)
  by (auto simp: two_devices_def demo_names MAX_DEVICES_def less_2_cases_iff) (simp_all add: demo_devfs_def vfs_state.defs)

theorem devfs_register_witness:
  "\<exists>n s'. IoDevFsRegister devfs_memory 5 demo_devfs = (0, s') \<and> map_of (files s') [0x74] = Some 5 \<and> devices s' n = 5"
proof -
  have "\<not> devfs_full demo_devfs" by (auto simp: devfs_full_def MAX_DEVICES_def intro: exI [of _ 0])
  then show ?thesis using devfs_register [OF demo_devfs_ok, of 5] by (auto simp: demo_names)
qed

theorem devfs_unregister_witness:
  "\<exists>s'. IoDevFsUnRegister 6 two_devices = (0, s') \<and> map_of (files s') [0x75] = None \<and> map_of (files s') [0x74] = Some 5"
proof -
  have files: "files two_devices = [([0x75], 6), ([0x74], 5)]" by (simp add: two_devices_def)
  show ?thesis using devfs_unregister [OF two_devices_ok, of 6] by (auto simp: demo_names files)
qed

lemma demo_paths: "path_at devfs_memory 0x50 [0x2F, 0x74]" "path_at devfs_memory 0x58 [0x2F, 0x75]"
  by (simp_all add: path_at_def devfs_memory_def bytes_def upt_rec)


theorem first_device_panics_witness:
  "\<exists>s1. IoDevFsRegister devfs_memory 5 demo_devfs = (0, s1) \<and>
    IoOpen (\<lambda>_. devfs_fsops devfs_memory) (devfs_ops quiet_drivers devfs_memory) devfs_memory 80 demo_dir anyone 0 0x50 1 0 7 s1 = panic"
  using first_device_panics [where s = demo_devfs and m = devfs_memory and c = "[0x74]" and device = 5 and p = "0x50" and flags = 1 and
      sc = anyone and fs = 50 and fd = 7 and ctx = 0 and drv = quiet_drivers and newFile = 80 and junk = demo_dir and mode = 0] demo_paths(1)
  by (simp add: demo_names IO_NAME_MAX_def IO_MAX_OPEN_FILES_def IO_O_RDONLY_def IO_O_WRONLY_def IO_O_DIRECTORY_def IO_O_EXCL_def)

end
