(* ===== verification/Hash_Table.thy ===== *)
theory Hash_Table
  imports Mem_Utils "HOL-Library.Multiset"
begin

text \<open>
  The generic hash table of \<open>kernel/src/htable.c\<close>, used for the process and thread identifiers, the
  mount points, the device names and the cached disk blocks.

  A \<open>HashItem\<close> is embedded in the structure it indexes; \<open>ident\<close> stands for the address of that
  structure, and a bucket's chain of \<open>next\<close> pointers is the list of its items, first item first. Keys
  stay in memory and are read through \<open>keyPtr\<close> and \<open>keyLen\<close>, so every operation takes the memory \<open>m\<close>
  in which the keys live; as \<open>htable.h\<close> requires, a key does not change while its item is in a table,
  and an item is in at most one chain. \<open>MemVirtualZAlloc\<close>, which provides the bucket array, is taken
  to return a zeroed block (an allocation failure leaves the kernel with a NULL bucket array).
\<close>

section \<open>Data\<close>

record 'a HashItem =
  ident :: 'a
  keyPtr :: u32
  keyLen :: u32
  hashValue :: u32

record 'a HashTable =
  buckets :: "'a HashItem list list"
  bucketCount :: u32
  itemCount :: u32

definition HASH_INITIAL_SIZE :: u32 where "HASH_INITIAL_SIZE = 1024"
definition HASH_THRESHOLD_REF :: u32 where "HASH_THRESHOLD_REF = 8"
definition HASH_THRESHOLD_GROW :: u32 where "HASH_THRESHOLD_GROW = 7"
definition HASH_THRESHOLD_SHRINK :: u32 where "HASH_THRESHOLD_SHRINK = 1"

text \<open>A table cleared with \<open>MemSet\<close>, as \<open>htable.h\<close> asks before use.\<close>

definition ht_cleared :: "'a HashTable" where
  "ht_cleared = \<lparr>buckets = [], bucketCount = 0, itemCount = 0\<rparr>"

section \<open>Operations\<close>

text \<open>The bytes of a key are read as (signed) \<open>char\<close>.\<close>

fun hash_loop :: "mem \<Rightarrow> u32 \<Rightarrow> nat \<Rightarrow> u32 \<Rightarrow> u32" where
  "hash_loop m p 0 hash = hash"
| "hash_loop m p (Suc n) hash = hash_loop m (p + 1) n ((hash XOR scast (m p)) * 16777619)"

definition HashTableHash :: "mem \<Rightarrow> u32 \<Rightarrow> u32 \<Rightarrow> u32" where
  "HashTableHash m kp kl = hash_loop m kp (unat kl) 2166136261"

definition bucket_of :: "u32 \<Rightarrow> u32 \<Rightarrow> nat" where
  "bucket_of h n = unat (h mod n)"

primrec rehash_chain ::
  "u32 \<Rightarrow> 'a HashItem list \<Rightarrow> 'a HashItem list list \<Rightarrow> 'a HashItem list list" where
  "rehash_chain newSize [] bs = bs"
| "rehash_chain newSize (currItem # nextItem) bs =
     (let bucketID = bucket_of (hashValue currItem) newSize
      in rehash_chain newSize nextItem (bs[bucketID := currItem # bs ! bucketID]))"

primrec rehash_buckets ::
  "u32 \<Rightarrow> 'a HashItem list list \<Rightarrow> 'a HashItem list list \<Rightarrow> 'a HashItem list list" where
  "rehash_buckets newSize [] bs = bs"
| "rehash_buckets newSize (c # cs) bs =
     rehash_buckets newSize cs (rehash_chain newSize c bs)"

definition HashTableResize :: "'a HashTable \<Rightarrow> u32 \<Rightarrow> 'a HashTable" where
  "HashTableResize table newSize =
     (if newSize = 0 then table
      else table\<lparr>buckets := rehash_buckets newSize (take (unat (bucketCount table)) (buckets table))
                             (replicate (unat newSize) []),
                 bucketCount := newSize\<rparr>)"

definition HashTableKeyCompare :: "mem \<Rightarrow> u32 \<Rightarrow> u32 \<Rightarrow> u32 \<Rightarrow> u32 \<Rightarrow> bool" where
  "HashTableKeyCompare m keyPtr1 keyPtr2 keyLen1 keyLen2 \<longleftrightarrow>
     keyLen1 = keyLen2 \<and> memcmp m keyPtr1 keyPtr2 (unat keyLen1) = 0"

definition HashTableGrowCheck :: "'a HashTable \<Rightarrow> u32 \<Rightarrow> bool" where
  "HashTableGrowCheck table nItems \<longleftrightarrow>
     nItems > (bucketCount table * HASH_THRESHOLD_GROW) div HASH_THRESHOLD_REF"

fun HashTableFindFromBucket :: "mem \<Rightarrow> 'a HashItem list \<Rightarrow> u32 \<Rightarrow> u32 \<Rightarrow> 'a HashItem option" where
  "HashTableFindFromBucket m [] kp kl = None"
| "HashTableFindFromBucket m (currItem # rest) kp kl =
     (if HashTableKeyCompare m (keyPtr currItem) kp (keyLen currItem) kl then Some currItem
      else HashTableFindFromBucket m rest kp kl)"

definition HashTableInsert ::
  "mem \<Rightarrow> 'a HashTable \<Rightarrow> 'a \<Rightarrow> u32 \<Rightarrow> u32 \<Rightarrow> bool \<times> 'a HashTable" where
  "HashTableInsert m table0 obj kp kl =
     (let item = \<lparr>ident = obj, keyPtr = kp, keyLen = kl, hashValue = HashTableHash m kp kl\<rparr>;
          table = (if HashTableGrowCheck table0 (itemCount table0 + 1) then
                     (if bucketCount table0 = 0 then HashTableResize table0 HASH_INITIAL_SIZE
                      else HashTableResize table0 (bucketCount table0 * 2))
                   else table0);
          bucketID = bucket_of (hashValue item) (bucketCount table);
          bucket = buckets table ! bucketID
      in if HashTableFindFromBucket m bucket kp kl \<noteq> None then (False, table)
         else (True, table\<lparr>buckets := (buckets table)[bucketID := item # bucket],
                           itemCount := itemCount table + 1\<rparr>))"

fun remove_from_chain ::
  "mem \<Rightarrow> 'a option \<Rightarrow> u32 \<Rightarrow> u32 \<Rightarrow> 'a HashItem list \<Rightarrow> 'a HashItem list option" where
  "remove_from_chain m item kp kl [] = None"
| "remove_from_chain m item kp kl (currItem # rest) =
     (if item = Some (ident currItem) \<or>
         (item = None \<and> HashTableKeyCompare m (keyPtr currItem) kp (keyLen currItem) kl)
      then Some rest
      else map_option (\<lambda>chain. currItem # chain) (remove_from_chain m item kp kl rest))"

text \<open>\<open>item\<close> is \<open>None\<close> for the NULL pointer; \<open>itemHash\<close> is the cached hash of the item when there is one.\<close>

definition HashTableRemoveKeyItem ::
  "mem \<Rightarrow> 'a HashTable \<Rightarrow> 'a option \<Rightarrow> u32 \<Rightarrow> u32 \<Rightarrow> u32 \<Rightarrow> bool \<times> 'a HashTable" where
  "HashTableRemoveKeyItem m table item itemHash kp kl =
     (if itemCount table = 0 then (False, table)
      else let bucketID = (if item = None then bucket_of (HashTableHash m kp kl) (bucketCount table)
                           else bucket_of itemHash (bucketCount table))
           in case remove_from_chain m item kp kl (buckets table ! bucketID) of
                Some chain \<Rightarrow> (True, table\<lparr>buckets := (buckets table)[bucketID := chain],
                                            itemCount := itemCount table - 1\<rparr>)
              | None \<Rightarrow> (False, table))"

definition HashTableRemove :: "mem \<Rightarrow> 'a HashTable \<Rightarrow> u32 \<Rightarrow> u32 \<Rightarrow> bool \<times> 'a HashTable" where
  "HashTableRemove m table kp kl = HashTableRemoveKeyItem m table None 0 kp kl"

definition HashTableRemoveItem :: "mem \<Rightarrow> 'a HashTable \<Rightarrow> 'a HashItem \<Rightarrow> bool \<times> 'a HashTable" where
  "HashTableRemoveItem m table item =
     HashTableRemoveKeyItem m table (Some (ident item)) (hashValue item) (keyPtr item) (keyLen item)"

definition HashTableFind :: "mem \<Rightarrow> 'a HashTable \<Rightarrow> u32 \<Rightarrow> u32 \<Rightarrow> 'a HashItem option" where
  "HashTableFind m table kp kl =
     (if itemCount table = 0 then None
      else HashTableFindFromBucket m
             (buckets table ! bucket_of (HashTableHash m kp kl) (bucketCount table)) kp kl)"

text \<open>The doubling loop of \<open>HashTableReserve\<close>: it has no bound of its own.\<close>

partial_function (option) reserve_size :: "u32 \<Rightarrow> u32 \<Rightarrow> u32 option" where
  "reserve_size nItems currSize =
     (if currSize < nItems then reserve_size nItems (currSize * 2) else Some currSize)"

definition HashTableReserve :: "'a HashTable \<Rightarrow> u32 \<Rightarrow> 'a HashTable option" where
  "HashTableReserve table nItems0 =
     (let nItems = (if nItems0 > 0x40000000 then 0x40000000 else nItems0)
      in if HashTableGrowCheck table nItems
         then map_option (HashTableResize table) (reserve_size nItems (bucketCount table))
         else Some table)"

function shrink_size :: "u32 \<Rightarrow> u32 \<Rightarrow> u32" where
  "shrink_size threshold currSize =
     (if currSize > threshold then shrink_size threshold (currSize div 2) else currSize)"
  by pat_completeness auto
termination
proof (relation "measure (\<lambda>(threshold, currSize). unat currSize)")
  fix threshold currSize :: u32
  assume "currSize > threshold"
  then have "0 < unat currSize" by (auto simp: word_less_nat_alt)
  then show "((threshold, currSize div 2), threshold, currSize)
      \<in> measure (\<lambda>(threshold, currSize). unat currSize)"
    by (simp add: unat_div)
qed simp

declare shrink_size.simps [simp del]

definition HashTableShrink :: "'a HashTable \<Rightarrow> 'a HashTable" where
  "HashTableShrink table =
     (let shrinkThreshold = (bucketCount table * HASH_THRESHOLD_SHRINK) div HASH_THRESHOLD_REF
      in if bucketCount table < shrinkThreshold
         then (let currSize = shrink_size shrinkThreshold (bucketCount table)
               in if currSize \<noteq> 0 then HashTableResize table currSize else table)
         else table)"

definition HashTableCount :: "'a HashTable \<Rightarrow> u32" where
  "HashTableCount table = itemCount table"

section \<open>Abstraction and invariant\<close>

definition item_key :: "mem \<Rightarrow> 'a HashItem \<Rightarrow> u8 list" where
  "item_key m it = bytes m (keyPtr it) (unat (keyLen it))"

definition ht_items :: "'a HashTable \<Rightarrow> 'a HashItem list" where
  "ht_items t = concat (buckets t)"

text \<open>What the table stores: a map from byte strings to the structures inserted under them.\<close>

definition ht_map :: "mem \<Rightarrow> 'a HashTable \<Rightarrow> (u8 list \<rightharpoonup> 'a)" where
  "ht_map m t = map_of (map (\<lambda>it. (item_key m it, ident it)) (ht_items t))"

definition placed :: "u32 \<Rightarrow> 'a HashItem list list \<Rightarrow> bool" where
  "placed n bs \<longleftrightarrow> (\<forall>i < length bs. \<forall>it \<in> set (bs ! i). bucket_of (hashValue it) n = i)"

definition items_ok :: "mem \<Rightarrow> 'a HashItem list \<Rightarrow> bool" where
  "items_ok m its \<longleftrightarrow> (\<forall>it \<in> set its. hashValue it = HashTableHash m (keyPtr it) (keyLen it))
     \<and> distinct (map (item_key m) its) \<and> distinct (map ident its)"

definition ht_inv :: "mem \<Rightarrow> 'a HashTable \<Rightarrow> bool" where
  "ht_inv m t \<longleftrightarrow> length (buckets t) = unat (bucketCount t) \<and> placed (bucketCount t) (buckets t)
     \<and> items_ok m (ht_items t) \<and> length (ht_items t) = unat (itemCount t)"

section \<open>Hashing and key comparison\<close>

definition fnv_step :: "u32 \<Rightarrow> u8 \<Rightarrow> u32" where
  "fnv_step hash b = (hash XOR scast b) * 16777619"

lemma hash_loop_foldl: "hash_loop m p n h = foldl fnv_step h (bytes m p n)"
  by (induction n arbitrary: p h) (simp_all add: bytes_Suc fnv_step_def, simp add: bytes_def)

lemma HashTableHash_key: "HashTableHash m p l = foldl fnv_step 2166136261 (bytes m p (unat l))"
  by (simp add: HashTableHash_def hash_loop_foldl)

lemma HashTableKeyCompare_iff:
  "HashTableKeyCompare m p q l l' \<longleftrightarrow> bytes m p (unat l) = bytes m q (unat l')"
proof -
  have "bytes m p (unat l) = bytes m q (unat l') \<Longrightarrow> l = l'"
    by (metis length_bytes word_unat_eq_iff)
  then show ?thesis by (auto simp: HashTableKeyCompare_def memcmp_0_iff)
qed

lemma HashTableFindFromBucket_find:
  "HashTableFindFromBucket m chain kp kl = List.find (\<lambda>it. item_key m it = bytes m kp (unat kl)) chain"
  by (induction chain) (auto simp: HashTableKeyCompare_iff item_key_def)

section \<open>Buckets\<close>

lemma bucket_of_less: "n \<noteq> 0 \<Longrightarrow> bucket_of h n < unat n"
  by (simp add: bucket_of_def unat_mod unat_gt_0)

lemma mset_concat_update:
  assumes "b < length bs"
  shows "mset (concat (bs[b := c])) + mset (bs ! b) = mset (concat bs) + mset c"
proof -
  have "concat bs = concat (take b bs) @ bs ! b @ concat (drop (Suc b) bs)"
    using id_take_nth_drop [OF assms] by (metis concat.simps(2) concat_append)
  moreover have "concat (bs[b := c]) = concat (take b bs) @ c @ concat (drop (Suc b) bs)"
    using assms by (simp add: upd_conv_take_nth_drop)
  ultimately show ?thesis by simp
qed

lemma placed_update:
  assumes "placed n bs" "b < length bs" "\<And>it. it \<in> set c \<Longrightarrow> bucket_of (hashValue it) n = b"
  shows "placed n (bs[b := c])"
  using assms by (auto simp: placed_def nth_list_update split: if_splits)

text \<open>\<open>spread n bs its\<close>: an array of \<open>n\<close> buckets that holds exactly the items \<open>its\<close>, each where its
  hash puts it.\<close>

definition spread :: "u32 \<Rightarrow> 'a HashItem list list \<Rightarrow> 'a HashItem multiset \<Rightarrow> bool" where
  "spread n bs its \<longleftrightarrow> length bs = unat n \<and> placed n bs \<and> mset (concat bs) = its"

lemma spread_empty: "spread n (replicate (unat n) []) {#}"
  by (auto simp: spread_def placed_def)

lemma spread_cons:
  assumes "spread n bs its" "n \<noteq> 0"
  shows "spread n (bs[bucket_of (hashValue it) n := it # bs ! bucket_of (hashValue it) n])
           (add_mset it its)"
proof -
  let ?b = "bucket_of (hashValue it) n"
  have b: "?b < length bs" using bucket_of_less [OF assms(2)] assms(1) by (simp add: spread_def)
  have "mset (concat (bs[?b := it # bs ! ?b])) = add_mset it its"
    using mset_concat_update [OF b, of "it # bs ! ?b"] assms(1) by (simp add: spread_def)
  moreover have "placed n (bs[?b := it # bs ! ?b])"
    using assms(1) b by (intro placed_update) (auto simp: spread_def placed_def)
  ultimately show ?thesis using assms(1) by (simp add: spread_def)
qed

lemma spread_rehash_chain:
  "spread n bs its \<Longrightarrow> n \<noteq> 0 \<Longrightarrow> spread n (rehash_chain n xs bs) (mset xs + its)"
proof (induction xs arbitrary: bs its)
  case (Cons x xs)
  show ?case using Cons.IH [OF spread_cons [OF Cons.prems] Cons.prems(2), of x] by (simp add: Let_def)
qed simp

lemma spread_rehash_buckets:
  "spread n bs its \<Longrightarrow> n \<noteq> 0 \<Longrightarrow> spread n (rehash_buckets n css bs) (mset (concat css) + its)"
proof (induction css arbitrary: bs its)
  case (Cons c css)
  show ?case
    using Cons.IH [OF spread_rehash_chain [OF Cons.prems] Cons.prems(2), of c] by (simp add: ac_simps)
qed simp

lemma items_ok_mset: "mset xs = mset ys \<Longrightarrow> items_ok m xs = items_ok m ys"
  by (metis (no_types, lifting) items_ok_def mset_eq_imp_distinct_iff mset_eq_setD mset_map)

lemma HashTableResize_props:
  assumes "length (buckets t) = unat (bucketCount t)" "n \<noteq> 0"
  shows "spread n (buckets (HashTableResize t n)) (mset (ht_items t))"
    and "mset (ht_items (HashTableResize t n)) = mset (ht_items t)"
    and "bucketCount (HashTableResize t n) = n" "itemCount (HashTableResize t n) = itemCount t"
proof -
  show spr: "spread n (buckets (HashTableResize t n)) (mset (ht_items t))"
    using assms spread_rehash_buckets [OF spread_empty assms(2)]
    by (simp add: HashTableResize_def ht_items_def)
  then show "mset (ht_items (HashTableResize t n)) = mset (ht_items t)"
    by (simp add: spread_def ht_items_def)
  show "bucketCount (HashTableResize t n) = n" "itemCount (HashTableResize t n) = itemCount t"
    using assms by (simp_all add: HashTableResize_def)
qed

lemma ht_inv_alt:
  "ht_inv m t \<longleftrightarrow> spread (bucketCount t) (buckets t) (mset (ht_items t)) \<and> items_ok m (ht_items t)
     \<and> length (ht_items t) = unat (itemCount t)"
  by (auto simp: ht_inv_def spread_def ht_items_def)

lemma HashTableResize_inv: "ht_inv m t \<Longrightarrow> ht_inv m (HashTableResize t n)"
proof (cases "n = 0")
  case False
  assume inv: "ht_inv m t"
  then have len: "length (buckets t) = unat (bucketCount t)" by (simp add: ht_inv_def)
  note props = HashTableResize_props [OF len False]
  have "length (ht_items (HashTableResize t n)) = length (ht_items t)"
    using props(2) by (rule mset_eq_length)
  then show ?thesis using inv props items_ok_mset [OF props(2)] by (simp add: ht_inv_alt)
qed (simp add: HashTableResize_def)

lemma ht_map_Some_iff:
  assumes "items_ok m (ht_items t)"
  shows "ht_map m t k = Some x \<longleftrightarrow> (\<exists>it \<in> set (ht_items t). item_key m it = k \<and> ident it = x)"
proof -
  have "distinct (map fst (map (\<lambda>it. (item_key m it, ident it)) (ht_items t)))"
    using assms by (simp add: items_ok_def comp_def)
  then show ?thesis unfolding ht_map_def by (auto simp: map_of_eq_Some_iff)
qed

lemma ht_map_cong:
  assumes "items_ok m (ht_items t)" "mset (ht_items t') = mset (ht_items t)"
  shows "ht_map m t' = ht_map m t"
proof -
  have "items_ok m (ht_items t')" using assms items_ok_mset by blast
  moreover have "set (ht_items t') = set (ht_items t)" using assms(2) mset_eq_setD by blast
  ultimately have "ht_map m t' k = Some x \<longleftrightarrow> ht_map m t k = Some x" for k x
    using assms(1) by (simp add: ht_map_Some_iff)
  then show ?thesis by (intro ext) (metis option.exhaust)
qed

lemma HashTableResize_map: "ht_inv m t \<Longrightarrow> ht_map m (HashTableResize t n) = ht_map m t"
proof (cases "n = 0")
  case False
  assume "ht_inv m t"
  then show ?thesis
    using HashTableResize_props(2) [OF _ False, of t] by (auto simp: ht_inv_def intro: ht_map_cong)
qed (simp add: HashTableResize_def)

section \<open>Lookup\<close>

text \<open>An item is found in the bucket of its own hash, and nowhere else.\<close>

lemma ht_bucket_mem:
  assumes inv: "ht_inv m t" and n: "bucketCount t \<noteq> 0"
    and k: "item_key m it = bytes m kp (unat kl)"
  shows "it \<in> set (buckets t ! bucket_of (HashTableHash m kp kl) (bucketCount t))
     \<longleftrightarrow> it \<in> set (ht_items t)"
proof
  let ?b = "bucket_of (HashTableHash m kp kl) (bucketCount t)"
  have "?b < length (buckets t)" using inv bucket_of_less [OF n] by (simp add: ht_inv_def)
  then show "it \<in> set (buckets t ! ?b) \<Longrightarrow> it \<in> set (ht_items t)"
    by (auto simp: ht_items_def)
  assume it: "it \<in> set (ht_items t)"
  then obtain i where i: "i < length (buckets t)" "it \<in> set (buckets t ! i)"
    by (auto simp: ht_items_def) (metis in_set_conv_nth)
  then have "bucket_of (hashValue it) (bucketCount t) = i"
    using inv by (auto simp: ht_inv_def placed_def)
  moreover have "hashValue it = HashTableHash m kp kl"
    using inv it k by (auto simp: ht_inv_def items_ok_def HashTableHash_key item_key_def)
  ultimately show "it \<in> set (buckets t ! ?b)" using i by simp
qed

lemma find_item_key:
  assumes "items_ok m its"
  shows "List.find (\<lambda>it. item_key m it = k) xs = Some it \<Longrightarrow> it \<in> set xs \<and> item_key m it = k"
    and "List.find (\<lambda>it. item_key m it = k) xs = None \<longleftrightarrow> (\<forall>it \<in> set xs. item_key m it \<noteq> k)"
  by (auto simp: find_Some_iff find_None_iff)

lemma HashTableFindFromBucket_map:
  assumes inv: "ht_inv m t" and n: "bucketCount t \<noteq> 0"
  shows "map_option ident (HashTableFindFromBucket m
      (buckets t ! bucket_of (HashTableHash m kp kl) (bucketCount t)) kp kl)
    = ht_map m t (bytes m kp (unat kl))"
proof -
  let ?k = "bytes m kp (unat kl)"
    and ?xs = "buckets t ! bucket_of (HashTableHash m kp kl) (bucketCount t)"
  have ok: "items_ok m (ht_items t)" using inv by (simp add: ht_inv_def)
  show ?thesis
  proof (cases "List.find (\<lambda>it. item_key m it = ?k) ?xs")
    case None
    then have "\<forall>it \<in> set (ht_items t). item_key m it \<noteq> ?k"
      using ht_bucket_mem [OF inv n, of _ kp kl] by (auto simp: find_None_iff)
    then have "ht_map m t ?k \<noteq> Some x" for x using ht_map_Some_iff [OF ok] by auto
    with None show ?thesis by (simp add: HashTableFindFromBucket_find) (metis not_Some_eq)
  next
    case (Some it)
    then have "it \<in> set ?xs" "item_key m it = ?k" by (auto simp: find_Some_iff)
    then have "ht_map m t ?k = Some (ident it)"
      using ht_map_Some_iff [OF ok] ht_bucket_mem [OF inv n, of it kp kl] by auto
    with Some show ?thesis by (simp add: HashTableFindFromBucket_find)
  qed
qed

lemma ht_inv_nonempty: "ht_inv m t \<Longrightarrow> itemCount t \<noteq> 0 \<Longrightarrow> bucketCount t \<noteq> 0"
  by (auto simp: ht_inv_def ht_items_def unat_eq_0)

lemma ht_inv_empty_map: "ht_inv m t \<Longrightarrow> itemCount t = 0 \<Longrightarrow> ht_map m t k = None"
  by (auto simp: ht_inv_def ht_map_def)

lemma HashTableFind_map:
  assumes "ht_inv m t"
  shows "map_option ident (HashTableFind m t kp kl) = ht_map m t (bytes m kp (unat kl))"
  using HashTableFindFromBucket_map [OF assms ht_inv_nonempty [OF assms]] ht_inv_empty_map [OF assms]
  by (simp add: HashTableFind_def)

section \<open>Insertion\<close>

lemma ht_inv_cons:
  assumes inv: "ht_inv m t" and n: "bucketCount t \<noteq> 0" and room: "itemCount t \<noteq> - 1"
    and hash: "hashValue it = HashTableHash m (keyPtr it) (keyLen it)"
    and new: "ht_map m t (item_key m it) = None" "ident it \<notin> ident ` set (ht_items t)"
  defines "b \<equiv> bucket_of (hashValue it) (bucketCount t)"
  defines "t' \<equiv> t\<lparr>buckets := (buckets t)[b := it # buckets t ! b], itemCount := itemCount t + 1\<rparr>"
  shows "ht_inv m t'" and "ht_map m t' = (ht_map m t)(item_key m it \<mapsto> ident it)"
proof -
  have spr: "spread (bucketCount t) (buckets t') (mset (it # ht_items t))"
    using inv n spread_cons [of "bucketCount t" "buckets t" "mset (ht_items t)" it]
    by (simp add: t'_def b_def ht_inv_alt)
  then have items: "mset (ht_items t') = mset (it # ht_items t)"
    by (simp add: spread_def ht_items_def)
  have diff: "\<forall>j \<in> set (ht_items t). item_key m j \<noteq> item_key m it"
    using new(1) inv ht_map_Some_iff [of m t] by (metis ht_inv_def option.distinct(1))
  then have ok: "items_ok m (it # ht_items t)"
    using inv hash new(2) by (auto simp: ht_inv_def items_ok_def)
  have cnt: "unat (itemCount t') = Suc (unat (itemCount t))"
    using room unatSuc [of "itemCount t"] by (simp add: t'_def add.commute eq_neg_iff_add_eq_0)
  have "length (ht_items t') = Suc (length (ht_items t))"
    using mset_eq_length [OF items] by simp
  then show inv': "ht_inv m t'"
    using inv spr cnt ok items items_ok_mset [OF items]
    by (simp add: ht_inv_alt) (simp add: t'_def)
  have "ht_map m t' k = Some x \<longleftrightarrow> ((ht_map m t)(item_key m it \<mapsto> ident it)) k = Some x" for k x
    using inv inv' ht_map_Some_iff [of m t] ht_map_Some_iff [of m t'] mset_eq_setD [OF items] diff
    by (auto simp: ht_inv_def)
  then show "ht_map m t' = (ht_map m t)(item_key m it \<mapsto> ident it)"
    by (intro ext) (metis option.exhaust)
qed

lemma HashTableInsert_grown:
  fixes t :: "'a HashTable"
  assumes inv: "ht_inv m t"
  defines "t' \<equiv> (if HashTableGrowCheck t (itemCount t + 1) then
         if bucketCount t = 0 then HashTableResize t HASH_INITIAL_SIZE
         else HashTableResize t (bucketCount t * 2)
       else t)"
  shows "ht_inv m t'" "ht_map m t' = ht_map m t" "itemCount t' = itemCount t"
    "bucketCount t' \<noteq> 0" "set (ht_items t') = set (ht_items t)"
proof -
  have len: "length (buckets t) = unat (bucketCount t)" using inv by (simp add: ht_inv_def)
  have empty: "bucketCount t = 0 \<Longrightarrow> HashTableGrowCheck t (itemCount t + 1)"
    using ht_inv_nonempty [OF inv] by (cases "itemCount t = 0") (auto simp: HashTableGrowCheck_def)
  show "ht_inv m t'" "ht_map m t' = ht_map m t"
    using inv HashTableResize_inv HashTableResize_map by (auto simp: t'_def)
  have zero: "HashTableResize t 0 = t" by (simp add: HashTableResize_def)
  show "itemCount t' = itemCount t"
    by (auto simp: t'_def HashTableResize_def)
  have "bucketCount (HashTableResize t n) = (if n = 0 then bucketCount t else n)" for n
    by (simp add: HashTableResize_def)
  then show "bucketCount t' \<noteq> 0" using empty by (auto simp: t'_def HASH_INITIAL_SIZE_def)
  have "set (ht_items (HashTableResize t n)) = set (ht_items t)" for n
    using HashTableResize_props(2) [OF len, of n] zero by (cases "n = 0") (auto dest: mset_eq_setD)
  then show "set (ht_items t') = set (ht_items t)" by (auto simp: t'_def)
qed

lemma HashTableInsert_correct:
  fixes kp kl :: u32
  assumes inv: "ht_inv m t" and room: "itemCount t \<noteq> - 1"
    and fresh: "obj \<notin> ident ` set (ht_items t)"
  defines "k \<equiv> bytes m kp (unat kl)"
  shows "fst (HashTableInsert m t obj kp kl) \<longleftrightarrow> ht_map m t k = None"
    and "ht_inv m (snd (HashTableInsert m t obj kp kl))"
    and "ht_map m (snd (HashTableInsert m t obj kp kl)) =
           (if ht_map m t k = None then (ht_map m t)(k \<mapsto> obj) else ht_map m t)"
    and "itemCount (snd (HashTableInsert m t obj kp kl)) =
           (if ht_map m t k = None then itemCount t + 1 else itemCount t)"
proof -
  define t' where "t' = (if HashTableGrowCheck t (itemCount t + 1) then
         if bucketCount t = 0 then HashTableResize t HASH_INITIAL_SIZE
         else HashTableResize t (bucketCount t * 2)
       else t)"
  note g = HashTableInsert_grown [OF inv, folded t'_def]
  let ?it = "\<lparr>ident = obj, keyPtr = kp, keyLen = kl, hashValue = HashTableHash m kp kl\<rparr>"
  let ?b = "bucket_of (HashTableHash m kp kl) (bucketCount t')"
  have found: "HashTableFindFromBucket m (buckets t' ! ?b) kp kl = None \<longleftrightarrow> ht_map m t k = None"
    using HashTableFindFromBucket_map [OF g(1,4), of kp kl] g(2) by (auto simp: k_def)
  have ins: "HashTableInsert m t obj kp kl = (if ht_map m t k = None
      then (True, t'\<lparr>buckets := (buckets t')[?b := ?it # buckets t' ! ?b], itemCount := itemCount t' + 1\<rparr>)
      else (False, t'))"
    unfolding HashTableInsert_def Let_def t'_def [symmetric] using found by auto
  have key: "item_key m ?it = k" by (simp add: item_key_def k_def)
  note cons = ht_inv_cons [OF g(1,4), of ?it, unfolded g(2,3,5) key, simplified, OF room _ fresh]
  show "fst (HashTableInsert m t obj kp kl) \<longleftrightarrow> ht_map m t k = None"
    "ht_inv m (snd (HashTableInsert m t obj kp kl))"
    "ht_map m (snd (HashTableInsert m t obj kp kl)) =
       (if ht_map m t k = None then (ht_map m t)(k \<mapsto> obj) else ht_map m t)"
    "itemCount (snd (HashTableInsert m t obj kp kl)) =
       (if ht_map m t k = None then itemCount t + 1 else itemCount t)"
    using g cons by (simp_all add: ins)
qed

section \<open>Removal\<close>

definition selected :: "mem \<Rightarrow> 'a option \<Rightarrow> u32 \<Rightarrow> u32 \<Rightarrow> 'a HashItem \<Rightarrow> bool" where
  "selected m item kp kl it \<longleftrightarrow> item = Some (ident it) \<or> (item = None \<and> item_key m it = bytes m kp (unat kl))"

lemma remove_from_chain_None:
  "remove_from_chain m item kp kl chain = None \<longleftrightarrow> (\<forall>it \<in> set chain. \<not> selected m item kp kl it)"
  by (induction chain) (auto simp: selected_def HashTableKeyCompare_iff item_key_def)

lemma remove_from_chain_Some:
  "remove_from_chain m item kp kl chain = Some chain' \<Longrightarrow>
     \<exists>as it bs. chain = as @ it # bs \<and> chain' = as @ bs \<and> selected m item kp kl it"
proof (induction chain arbitrary: chain')
  case (Cons it chain)
  show ?case
  proof (cases "selected m item kp kl it")
    case True
    then have "chain' = chain"
      using Cons.prems by (auto simp: selected_def HashTableKeyCompare_iff item_key_def)
    then show ?thesis using True by (intro exI [of _ "[]"]) auto
  next
    case False
    then obtain c where c: "remove_from_chain m item kp kl chain = Some c" "chain' = it # c"
      using Cons.prems by (auto simp: selected_def HashTableKeyCompare_iff item_key_def)
    then obtain as j bs where "chain = as @ j # bs" "c = as @ bs" "selected m item kp kl j"
      using Cons.IH by blast
    then show ?thesis using c by (intro exI [of _ "it # as"]) auto
  qed
qed simp

lemma ht_inv_uncons:
  assumes inv: "ht_inv m t" and b: "b < length (buckets t)" "buckets t ! b = as @ it # bs"
  defines "t' \<equiv> t\<lparr>buckets := (buckets t)[b := as @ bs], itemCount := itemCount t - 1\<rparr>"
  shows "ht_inv m t'" and "ht_map m t' = (ht_map m t)(item_key m it := None)"
    and "it \<in> set (ht_items t)"
proof -
  have items: "mset (ht_items t) = mset (it # ht_items t')"
    using mset_concat_update [OF b(1), of "as @ bs"] b(2) by (simp add: t'_def ht_items_def)
  then show it: "it \<in> set (ht_items t)" using mset_eq_setD by fastforce
  have ok: "items_ok m (it # ht_items t')" using inv items_ok_mset [OF items] by (simp add: ht_inv_def)
  then have ok': "items_ok m (ht_items t')" by (simp add: items_ok_def)
  have len: "length (ht_items t) = Suc (length (ht_items t'))" using mset_eq_length [OF items] by simp
  then have "itemCount t \<noteq> 0" using inv by (auto simp: ht_inv_def)
  then have "unat (itemCount t') = unat (itemCount t) - 1" by (simp add: t'_def unat_minus_one)
  then have "length (ht_items t') = unat (itemCount t')"
    using len inv [unfolded ht_inv_def] by linarith
  moreover have "placed (bucketCount t) ((buckets t)[b := as @ bs])"
    using inv b by (intro placed_update) (auto simp: ht_inv_def placed_def)
  ultimately show inv': "ht_inv m t'" using inv ok' by (simp add: ht_inv_def t'_def)
  have diff: "\<forall>j \<in> set (ht_items t'). item_key m j \<noteq> item_key m it"
    using ok by (auto simp: items_ok_def) (metis image_eqI)
  have "ht_map m t' k = Some x \<longleftrightarrow> ((ht_map m t)(item_key m it := None)) k = Some x" for k x
    using inv inv' ht_map_Some_iff [of m t] ht_map_Some_iff [of m t'] mset_eq_setD [OF items] diff
    by (auto simp: ht_inv_def)
  then show "ht_map m t' = (ht_map m t)(item_key m it := None)"
    by (intro ext) (metis option.exhaust)
qed

lemma HashTableRemove_correct:
  fixes kp kl :: u32
  assumes inv: "ht_inv m t"
  defines "k \<equiv> bytes m kp (unat kl)"
  shows "fst (HashTableRemove m t kp kl) \<longleftrightarrow> ht_map m t k \<noteq> None"
    and "ht_inv m (snd (HashTableRemove m t kp kl))"
    and "ht_map m (snd (HashTableRemove m t kp kl)) = (ht_map m t)(k := None)"
proof -
  let ?b = "bucket_of (HashTableHash m kp kl) (bucketCount t)"
  consider (none) "itemCount t = 0"
    | (miss) "itemCount t \<noteq> 0" "remove_from_chain m None kp kl (buckets t ! ?b) = None"
    | (hit) chain where "itemCount t \<noteq> 0" "remove_from_chain m None kp kl (buckets t ! ?b) = Some chain"
    by fastforce
  then have "(fst (HashTableRemove m t kp kl) \<longleftrightarrow> ht_map m t k \<noteq> None)
    \<and> ht_inv m (snd (HashTableRemove m t kp kl))
    \<and> ht_map m (snd (HashTableRemove m t kp kl)) = (ht_map m t)(k := None)"
  proof cases
    case none
    then show ?thesis using inv ht_inv_empty_map [OF inv]
      by (auto simp: HashTableRemove_def HashTableRemoveKeyItem_def)
  next
    case miss
    have n: "bucketCount t \<noteq> 0" using ht_inv_nonempty [OF inv miss(1)] .
    have "\<forall>it \<in> set (buckets t ! ?b). item_key m it \<noteq> k"
      using miss(2) by (auto simp: remove_from_chain_None selected_def k_def)
    then have "HashTableFindFromBucket m (buckets t ! ?b) kp kl = None"
      by (simp add: HashTableFindFromBucket_find find_None_iff k_def)
    then have "ht_map m t k = None"
      using HashTableFindFromBucket_map [OF inv n, of kp kl] by (simp add: k_def)
    then show ?thesis using miss inv
      by (auto simp: HashTableRemove_def HashTableRemoveKeyItem_def)
  next
    case hit
    have n: "bucketCount t \<noteq> 0" using ht_inv_nonempty [OF inv hit(1)] .
    then have b: "?b < length (buckets t)" using inv bucket_of_less by (simp add: ht_inv_def)
    obtain as it bs where chain: "buckets t ! ?b = as @ it # bs" "chain = as @ bs" "item_key m it = k"
      using remove_from_chain_Some [OF hit(2)] by (auto simp: selected_def k_def)
    note rm = ht_inv_uncons [OF inv b chain(1)]
    have "ht_map m t k \<noteq> None"
      using rm(3) chain(3) inv ht_map_Some_iff [of m t k "ident it"] by (auto simp: ht_inv_def)
    then show ?thesis using rm(1,2) hit chain
      by (auto simp: HashTableRemove_def HashTableRemoveKeyItem_def)
  qed
  then show "fst (HashTableRemove m t kp kl) \<longleftrightarrow> ht_map m t k \<noteq> None"
    "ht_inv m (snd (HashTableRemove m t kp kl))"
    "ht_map m (snd (HashTableRemove m t kp kl)) = (ht_map m t)(k := None)" by auto
qed

lemma HashTableRemoveItem_correct:
  assumes inv: "ht_inv m t" and it: "it \<in> set (ht_items t)"
  shows "fst (HashTableRemoveItem m t it)"
    and "ht_inv m (snd (HashTableRemoveItem m t it))"
    and "ht_map m (snd (HashTableRemoveItem m t it)) = (ht_map m t)(item_key m it := None)"
proof -
  let ?b = "bucket_of (hashValue it) (bucketCount t)"
  have "itemCount t \<noteq> 0" using inv it by (auto simp: ht_inv_def)
  moreover from this have n: "bucketCount t \<noteq> 0" by (rule ht_inv_nonempty [OF inv])
  have hash: "hashValue it = HashTableHash m (keyPtr it) (keyLen it)"
    using inv it by (simp add: ht_inv_def items_ok_def)
  have mem: "it \<in> set (buckets t ! ?b)"
    using ht_bucket_mem [OF inv n, of it "keyPtr it" "keyLen it"] it by (simp add: item_key_def hash)
  have b: "?b < length (buckets t)" using inv n bucket_of_less by (simp add: ht_inv_def)
  obtain chain where chain: "remove_from_chain m (Some (ident it)) (keyPtr it) (keyLen it) (buckets t ! ?b)
      = Some chain"
    using mem remove_from_chain_None [of m "Some (ident it)" "keyPtr it" "keyLen it" "buckets t ! ?b"]
    by (cases "remove_from_chain m (Some (ident it)) (keyPtr it) (keyLen it) (buckets t ! ?b)")
      (auto simp: selected_def)
  obtain as j bs where j: "buckets t ! ?b = as @ j # bs" "chain = as @ bs" "ident j = ident it"
    using remove_from_chain_Some [OF chain] by (auto simp: selected_def)
  note rm = ht_inv_uncons [OF inv b j(1)]
  have "j = it" using inv it rm(3) j(3) by (auto simp: ht_inv_def items_ok_def distinct_map inj_on_def)
  then show "fst (HashTableRemoveItem m t it)" "ht_inv m (snd (HashTableRemoveItem m t it))"
    "ht_map m (snd (HashTableRemoveItem m t it)) = (ht_map m t)(item_key m it := None)"
    using rm(1,2) chain j(2) calculation
    by (simp_all add: HashTableRemoveItem_def HashTableRemoveKeyItem_def)
qed

section \<open>The dictionary interface\<close>

text \<open>
  What the users of a hash table rely on: a finite map from keys to objects. The laws are those of
  an insertion that refuses an existing key, a removal and a lookup; the lemmas derived from them
  are the round trips and the independence of different keys.
\<close>

locale keyed_table =
  fixes inv :: "'t \<Rightarrow> bool"
    and contents :: "'t \<Rightarrow> ('k \<rightharpoonup> 'v)"
    and key :: "'p \<Rightarrow> 'k"
    and empty :: 't
    and can_insert :: "'t \<Rightarrow> 'v \<Rightarrow> bool"
    and insert :: "'t \<Rightarrow> 'v \<Rightarrow> 'p \<Rightarrow> bool \<times> 't"
    and remove :: "'t \<Rightarrow> 'p \<Rightarrow> bool \<times> 't"
    and find :: "'t \<Rightarrow> 'p \<Rightarrow> 'v option"
  assumes empty_inv: "inv empty" and empty_contents: "contents empty = Map.empty"
    and insert_inv: "inv t \<Longrightarrow> can_insert t v \<Longrightarrow> inv (snd (insert t v p))"
    and insert_result: "inv t \<Longrightarrow> can_insert t v \<Longrightarrow> fst (insert t v p) \<longleftrightarrow> contents t (key p) = None"
    and insert_contents: "inv t \<Longrightarrow> can_insert t v \<Longrightarrow>
      contents (snd (insert t v p)) =
        (if contents t (key p) = None then (contents t)(key p \<mapsto> v) else contents t)"
    and remove_inv: "inv t \<Longrightarrow> inv (snd (remove t p))"
    and remove_result: "inv t \<Longrightarrow> fst (remove t p) \<longleftrightarrow> contents t (key p) \<noteq> None"
    and remove_contents: "inv t \<Longrightarrow> contents (snd (remove t p)) = (contents t)(key p := None)"
    and find_contents: "inv t \<Longrightarrow> find t p = contents t (key p)"
begin

lemma find_insert:
  assumes "inv t" "can_insert t v" "fst (insert t v p)"
  shows "find (snd (insert t v p)) q = (if key q = key p then Some v else find t q)"
  using assms by (simp add: find_contents insert_inv insert_contents insert_result)

lemma insert_refused:
  assumes "inv t" "can_insert t v" "\<not> fst (insert t v p)"
  shows "find (snd (insert t v p)) q = find t q"
  using assms by (simp add: find_contents insert_inv insert_contents insert_result)

lemma insert_remove:
  assumes "inv t" "can_insert t v" "find t p = None"
  shows "contents (snd (remove (snd (insert t v p)) p)) = contents t"
  using assms by (simp add: find_contents insert_inv insert_contents remove_contents fun_upd_idem)

lemma find_remove:
  assumes "inv t"
  shows "find (snd (remove t p)) q = (if key q = key p then None else find t q)"
  using assms by (simp add: find_contents remove_inv remove_contents)

end

lemma ht_cleared_inv: "ht_inv m ht_cleared" and ht_cleared_map: "ht_map m ht_cleared = Map.empty"
  by (simp_all add: ht_inv_def ht_cleared_def ht_items_def placed_def items_ok_def ht_map_def)

text \<open>The key passed by a caller is an address and a length; the key it denotes is the bytes there.\<close>

interpretation ht: keyed_table "ht_inv m" "ht_map m" "\<lambda>(kp, kl). bytes m kp (unat kl)" ht_cleared
  "\<lambda>t v. itemCount t \<noteq> - 1 \<and> v \<notin> ident ` set (ht_items t)"
  "\<lambda>t v (kp, kl). HashTableInsert m t v kp kl" "\<lambda>t (kp, kl). HashTableRemove m t kp kl"
  "\<lambda>t (kp, kl). map_option ident (HashTableFind m t kp kl)" for m
  by unfold_locales
    (auto simp: ht_cleared_inv ht_cleared_map HashTableInsert_correct HashTableRemove_correct
      HashTableFind_map)

section \<open>Growing and shrinking\<close>

lemma reserve_size_enough:
  "0 < currSize \<Longrightarrow> nItems \<le> 0x40000000 \<Longrightarrow> \<exists>r. reserve_size nItems currSize = Some r \<and> nItems \<le> r"
proof (induction "unat nItems - unat currSize" arbitrary: currSize rule: less_induct)
  case less
  show ?case
  proof (cases "currSize < nItems")
    case True
    then have small: "unat currSize < 0x40000000" "unat currSize < unat nItems"
      using less.prems(2) by (auto simp: word_less_nat_alt word_le_nat_alt)
    then have dbl: "unat (currSize * 2) = unat currSize * 2"
      by (simp add: unat_word_ariths)
    have pos: "0 < unat currSize" using less.prems(1) by (simp add: unat_gt_0 word_neq_0_conv)
    then have "0 < currSize * 2" using dbl by (auto simp: word_less_nat_alt)
    then have "\<exists>r. reserve_size nItems (currSize * 2) = Some r \<and> nItems \<le> r"
      using less.prems(2) dbl pos small by (intro less.hyps) auto
    then show ?thesis using True by (subst reserve_size.simps) simp
  next
    case False
    then show ?thesis by (subst reserve_size.simps) auto
  qed
qed

lemma reserve_size_zero_diverges:
  assumes "0 < nItems"
  shows "reserve_size nItems 0 = None"
proof (rule ccontr)
  assume "reserve_size nItems 0 \<noteq> None"
  then obtain r where ret: "reserve_size nItems 0 = Some r" by blast
  have "0 < nItems \<longrightarrow> (0::u32) \<noteq> 0"
  proof (rule reserve_size.raw_induct [where P = "\<lambda>n c r. 0 < n \<longrightarrow> c \<noteq> 0", OF _ ret])
    fix f and n c r :: u32
    assume IH: "\<And>n c r. f n c = Some r \<Longrightarrow> 0 < n \<longrightarrow> c \<noteq> 0"
      and eq: "(if c < n then f n (c * 2) else Some c) = Some r"
    show "0 < n \<longrightarrow> c \<noteq> 0" using eq IH [of n "c * 2" r] by (auto split: if_splits)
  qed
  then show False using assms by simp
qed

lemma shrink_threshold_le: "(n * HASH_THRESHOLD_SHRINK) div HASH_THRESHOLD_REF \<le> n"
  by (simp add: HASH_THRESHOLD_SHRINK_def HASH_THRESHOLD_REF_def word_le_nat_alt unat_div)

section \<open>Properties\<close>

text \<open>
  (C22) Insertion into a hash table: it succeeds exactly when no item with the same key bytes is in the
  table, it keeps the table's invariant, and afterwards a lookup under any key returns the new
  object for that key and what it returned before for every other key, even when the insertion
  had to rehash the whole table.
\<close>

theorem hash_insert_find:
  assumes "ht_inv m t" "itemCount t \<noteq> - 1" "obj \<notin> ident ` set (ht_items t)"
    and "HashTableInsert m t obj kp kl = (ok, t')"
  shows "ht_inv m t' \<and> (ok \<longleftrightarrow> HashTableFind m t kp kl = None)
    \<and> (\<forall>kp' kl'. map_option ident (HashTableFind m t' kp' kl') =
         (if ok \<and> bytes m kp' (unat kl') = bytes m kp (unat kl) then Some obj
          else map_option ident (HashTableFind m t kp' kl')))"
proof -
  have can: "itemCount t \<noteq> - 1 \<and> obj \<notin> ident ` set (ht_items t)" using assms(2,3) by simp
  note laws = ht.insert_inv [OF assms(1) can, of "(kp, kl)"] ht.insert_result [OF assms(1) can, of "(kp, kl)"]
    ht.find_insert [OF assms(1) can, of "(kp, kl)" "(_, _)"]
    ht.insert_refused [OF assms(1) can, of "(kp, kl)" "(_, _)"]
    ht.find_contents [OF assms(1), of "(kp, kl)"]
  show ?thesis using laws by (cases ok) (auto simp: assms(4))
qed

theorem hash_insert_find_witness:
  "fst (HashTableInsert (\<lambda>a. ucast a) ht_cleared ''init'' 16 4)
   \<and> map_option ident (HashTableFind (\<lambda>a. ucast a)
        (snd (HashTableInsert (\<lambda>a. ucast a) ht_cleared ''init'' 16 4)) 16 4) = Some ''init''"
proof -
  obtain ok t' where ins: "HashTableInsert (\<lambda>a. ucast a) ht_cleared ''init'' 16 4 = (ok, t')"
    by (cases "HashTableInsert (\<lambda>a. ucast a) ht_cleared ''init'' 16 4") auto
  have "itemCount (ht_cleared :: string HashTable) \<noteq> - 1" by (simp add: ht_cleared_def)
  moreover have "''init'' \<notin> ident ` set (ht_items ht_cleared)" by (simp add: ht_cleared_def ht_items_def)
  moreover have "HashTableFind (\<lambda>a. ucast a) (ht_cleared :: string HashTable) 16 4 = None"
    by (simp add: HashTableFind_def ht_cleared_def)
  ultimately show ?thesis using hash_insert_find [OF ht_cleared_inv _ _ ins] by (auto simp: ins)
qed

text \<open>
  (C23) Removal by key: it reports whether the key was there, keeps the invariant, and afterwards that
  key is absent and every other lookup is unchanged.
\<close>

theorem hash_remove_find:
  assumes "ht_inv m t" "HashTableRemove m t kp kl = (ok, t')"
  shows "ht_inv m t' \<and> (ok \<longleftrightarrow> HashTableFind m t kp kl \<noteq> None)
    \<and> (\<forall>kp' kl'. map_option ident (HashTableFind m t' kp' kl') =
         (if bytes m kp' (unat kl') = bytes m kp (unat kl) then None
          else map_option ident (HashTableFind m t kp' kl')))"
  using ht.remove_inv [OF assms(1), of "(kp, kl)"] ht.remove_result [OF assms(1), of "(kp, kl)"]
    ht.find_remove [OF assms(1), of "(kp, kl)" "(_, _)"] ht.find_contents [OF assms(1), of "(kp, kl)"]
  by (auto simp: assms(2))

theorem hash_remove_find_witness:
  "\<not> fst (HashTableRemove (\<lambda>a. ucast a) (ht_cleared :: string HashTable) 16 4)"
proof -
  obtain ok t' where rm: "HashTableRemove (\<lambda>a. ucast a) (ht_cleared :: string HashTable) 16 4 = (ok, t')"
    by (cases "HashTableRemove (\<lambda>a. ucast a) (ht_cleared :: string HashTable) 16 4") auto
  have "HashTableFind (\<lambda>a. ucast a) (ht_cleared :: string HashTable) 16 4 = None"
    by (simp add: HashTableFind_def ht_cleared_def)
  then show ?thesis using hash_remove_find [OF ht_cleared_inv rm] by (auto simp: rm)
qed

text \<open>
  (C40) \<open>HashTableReserve\<close> on a well-formed table runs forever exactly when the table has no buckets yet
  and at least one item is to be reserved (doubling zero never reaches the request); in every other
  case it returns a well-formed table with the same contents.
\<close>

theorem hash_reserve_diverges_iff:
  assumes "ht_inv m t"
  shows "(HashTableReserve t n = None \<longleftrightarrow> bucketCount t = 0 \<and> n \<noteq> 0)
    \<and> (\<forall>t'. HashTableReserve t n = Some t' \<longrightarrow> ht_inv m t' \<and> ht_map m t' = ht_map m t)"
proof -
  let ?n = "if n > 0x40000000 then 0x40000000 else n"
  have le: "?n \<le> 0x40000000" by auto
  have pos: "0 < ?n \<longleftrightarrow> n \<noteq> 0" by (cases "n = 0") (auto simp: word_neq_0_conv)
  show ?thesis
  proof (cases "bucketCount t = 0")
    case True
    then show ?thesis
      using assms reserve_size_zero_diverges [of ?n] pos
      by (simp add: HashTableReserve_def HashTableGrowCheck_def Let_def)
  next
    case False
    then obtain r where "reserve_size ?n (bucketCount t) = Some r"
      using reserve_size_enough [OF _ le, of "bucketCount t"] by (auto simp: word_neq_0_conv)
    then show ?thesis
      using assms False HashTableResize_inv HashTableResize_map
      unfolding HashTableReserve_def Let_def by (auto split: if_splits)
  qed
qed

theorem hash_reserve_diverges_iff_witness:
  "HashTableReserve (ht_cleared :: string HashTable) 10 = None"
proof -
  have "bucketCount (ht_cleared :: string HashTable) = 0" by (simp add: ht_cleared_def)
  then show ?thesis using hash_reserve_diverges_iff [of "\<lambda>_. 0" "ht_cleared :: string HashTable" 10]
    by (simp add: ht_cleared_inv)
qed

text \<open>
  \<open>HashTableShrink\<close> never changes a table: its guard compares the number of buckets (not of items)
  with an eighth of itself.
\<close>

theorem hash_shrink_noop: "HashTableShrink t = t"
  using shrink_threshold_le [of "bucketCount t"] by (simp add: HashTableShrink_def Let_def not_less)

end
