(* ===== verification/Kernel_Main.thy ===== *)
theory Kernel_Main
  imports Start_Up Heap Devfs Hash_Table
begin

text \<open>
  The start of the kernel, \<open>kernel/src/kMain.c\<close>, and the parts of \<open>kernel/src/process/process.c\<close> that allocate while it runs. The
  states of the components are put together: the interrupt state, which has the processes and their memory
  manager, the slab allocator on the pages of that memory manager, the file systems, and the screen.

  The contents of slab objects are the words of \<open>smem\<close>; what the other components keep in them, such as threads,
  are their records at the same addresses. \<open>CpuInit\<close> is assembly: its result, the features of the processor, is an
  input, as are the interrupt stubs, the clock chip and the entry points of the threads.
\<close>

section \<open>State\<close>

text \<open>A hash table as far as it allocates: address and number of its buckets, number of its items.\<close>

record table_size =
  ts_buckets :: u32
  ts_bucketCount :: u32
  ts_itemCount :: u32

record kernel =
  kIntr :: intr_state
  kSlab :: slab_state
  kDevfs :: devfs_state
  kVideo :: mem
  hTableProcess :: table_size
  hTableThread :: table_size
  fpuStateCache :: u32
  cacheProcess :: u32
  cacheThread :: u32
  blockHeadCache :: u32
  pitPorts :: "(u16 \<times> u8) list"

record boot_env =
  be_image :: kernel_image
  be_memory :: mem
  be_info :: multiboot_info
  be_junk :: u32
  be_features :: u32
  be_daz :: bool
  be_isrList :: "nat \<Rightarrow> u32"
  be_isr66 :: u32
  be_cmos :: "u8 \<Rightarrow> u8"
  be_keyboard :: u8
  be_threadReturn :: u32
  be_idleEntry :: u32
  be_reaperEntry :: u32
  be_nameFuel :: nat

text \<open>The slab allocator works on the pages of the memory manager and gives them back.\<close>

definition with_pages :: "'a phys_state_scheme \<Rightarrow> mm_state \<Rightarrow> mm_state" where
  "with_pages t m = phys_state.extend (phys_state.truncate t) (phys_state.more m)"

definition on_slab :: "(slab_state \<Rightarrow> ('b \<times> slab_state) run) \<Rightarrow> kernel \<Rightarrow> ('b \<times> kernel) run" where
  "on_slab f k = seq (f (slab_of (pmm (kIntr k)) (kSlab k))) (\<lambda>(x, t).
     ret (x, k\<lparr>kSlab := t, kIntr := (kIntr k)\<lparr>pmm := with_pages t (pmm (kIntr k))\<rparr>\<rparr>))"

definition on_pages :: "(mm_state \<Rightarrow> ('b \<times> mm_state) run) \<Rightarrow> kernel \<Rightarrow> ('b \<times> kernel) run" where
  "on_pages f k = seq (f (pmm (kIntr k))) (\<lambda>(x, m). ret (x, k\<lparr>kIntr := (kIntr k)\<lparr>pmm := m\<rparr>\<rparr>))"

section \<open>Operations\<close>

definition MULTIBOOT_BOOTLOADER_MAGIC :: u32 where "MULTIBOOT_BOOTLOADER_MAGIC = 0x2BADB002"

text \<open>\<open>sizeof(ProcProcess)\<close> and \<open>sizeof(ProcThread)\<close> on the 32-bit target.\<close>

definition sizeof_ProcProcess :: u32 where "sizeof_ProcProcess = 484"
definition sizeof_ProcThread :: u32 where "sizeof_ProcThread = 100"

text \<open>The part of \<open>HashTableInsert\<close> before the lookup; the items move with the buckets.\<close>

definition grow_table :: "table_size \<Rightarrow> mm_state \<Rightarrow> (table_size \<times> mm_state) run" where
  "grow_table t s =
     (if ts_itemCount t + 1 > (ts_bucketCount t * HASH_THRESHOLD_GROW) div HASH_THRESHOLD_REF then
        (let newSize = (if ts_bucketCount t = 0 then HASH_INITIAL_SIZE else ts_bucketCount t * 2)
         in if newSize = 0 then ret (t, s)
            else seq (MemVirtualZAlloc (4 * newSize) s) (\<lambda>(b, s1).
              ret (t\<lparr>ts_buckets := b, ts_bucketCount := newSize\<rparr>,
                   if ts_buckets t \<noteq> 0 then MemVirtualFree (ts_buckets t) s1 else s1)))
      else ret (t, s))"

definition count_item :: "table_size \<Rightarrow> table_size" where
  "count_item t = t\<lparr>ts_itemCount := ts_itemCount t + 1\<rparr>"

text \<open>
  \<open>ProcCreateKernelThread\<close> with its allocations: the thread, the buckets when the table of threads grows, the copy of
  the name by \<open>StrDup\<close>, and the stack.
\<close>

definition create_kernel_thread :: "boot_env \<Rightarrow> u32 \<Rightarrow> string \<Rightarrow> kernel \<Rightarrow> (u32 \<times> kernel) run" where
  "create_kernel_thread env startAddr name k =
     seq (on_slab (MemSlabZAlloc (cacheThread k)) k) (\<lambda>(thread, k1).
     seq (on_pages (grow_table (hTableThread k1)) k1) (\<lambda>(t, k2).
     seq (on_slab (MemKAlloc (of_nat (length name) + 1)) k2) (\<lambda>(_, k3).
     seq (ProcCreateKernelThread (be_threadReturn env) thread startAddr 0 (kIntr k3)) (\<lambda>i.
       ret (thread, k3\<lparr>kIntr := i, hTableThread := count_item t\<rparr>)))))"

definition proc_init :: "boot_env \<Rightarrow> kernel \<Rightarrow> kernel run" where
  "proc_init env k =
     seq (on_slab (MemSlabCreate sizeof_ProcProcess 0) k) (\<lambda>(cp, k1).
     seq (on_slab (MemSlabCreate sizeof_ProcThread 0) k1) (\<lambda>(ct, k2).
     seq (on_pages (grow_table (hTableProcess k2)) k2) (\<lambda>(t, k3).
     let k4 = k3\<lparr>cacheProcess := cp, cacheThread := ct, hTableProcess := count_item t, kIntr := init_kernel_process (kIntr k3)\<rparr>
     in seq (create_kernel_thread env (be_idleEntry env) ''idle'' k4) (\<lambda>(idle, k5).
        seq (create_kernel_thread env (be_reaperEntry env) ''reaper'' (k5\<lparr>kIntr := (kIntr k5)\<lparr>ProcIdleThread := idle\<rparr>\<rparr>)) (\<lambda>(reaper, k6).
          ret (k6\<lparr>kIntr := (kIntr k6)\<lparr>reaperThread := reaper\<rparr>\<rparr>))))))"

definition with_unit :: "('s \<Rightarrow> 's run) \<Rightarrow> 's \<Rightarrow> (unit \<times> 's) run" where
  "with_unit f s = seq (f s) (\<lambda>s'. ret ((), s'))"

text \<open>The outcome of \<open>CpuInit\<close>: \<open>cpuFeaturesEDX\<close> and \<open>CpuHasDenormalsAreZero\<close>, on which the switches of the floating point unit depend.\<close>

definition cpu_found :: "boot_env \<Rightarrow> intr_state \<Rightarrow> intr_state" where
  "cpu_found env s = s\<lparr>hasFpu := CpuHasFpu (be_features env), hasFxSave := CpuHasFxSave (be_features env), hasDenormalsAreZero := be_daz env\<rparr>"

definition kMain :: "boot_env \<Rightarrow> u32 \<Rightarrow> kernel \<Rightarrow> kernel run" where
  "kMain env mBootCode k =
     (if mBootCode \<noteq> MULTIBOOT_BOOTLOADER_MAGIC then panic
      else let k0 = k\<lparr>kVideo := memset 0xC00B8000 0 0xFA0 (kVideo k),
                      kIntr := cpu_found env (IntrInit (be_isrList env) (be_isr66 env) (kIntr k))\<rparr>
      in case read_boot (be_memory env) (be_info env) of
           None \<Rightarrow> None
         | Some boot \<Rightarrow>
             seq (on_pages (with_unit (MemManagerInit boot (be_image env) (be_features env) (be_junk env))) k0) (\<lambda>(_, k1).
             seq (on_slab (with_unit MemSlabInit) k1) (\<lambda>(_, k2).
             seq (on_slab (CpuInitLate (be_features env)) k2) (\<lambda>(fpu, k3).
             seq (TimerInit (be_cmos env) (be_keyboard env) (kIntr k3)) (\<lambda>(ports, i).
             seq (proc_init env (k3\<lparr>fpuStateCache := fpu, pitPorts := ports, kIntr := i\<rparr>)) (\<lambda>k4.
             seq (on_slab IoBlockCacheInit k4) (\<lambda>(blocks, k5).
             seq (IoDevFsInit (be_nameFuel env) (be_memory env) (kDevfs k5)) (\<lambda>d.
             let k6 = k5\<lparr>blockHeadCache := blocks, kDevfs := d,
                        kIntr := (kIntr k5)\<lparr>pmm := MemFreeInitPages (be_image env) (pmm (kIntr k5))\<rparr>\<rparr>
             in seq (ProcIntSelfExit (kIntr k6)) (\<lambda>j. ret (k6\<lparr>kIntr := j\<rparr>))))))))))"

section \<open>Pages for the tables\<close>

lemma highmem_fallback: "\<not> live_zone s MEM_HIGHMEM \<Longrightarrow> MemPhysicalAlloc 1 MEM_HIGHMEM s = MemPhysicalAlloc 1 MEM_KERNEL s"
  using alloc_next_zone [of s 1 1] by (simp add: MemPhysicalAlloc_def numeral_2_eq_2)

text \<open>Room for \<open>n\<close> single pages in the virtual region.\<close>

definition virtual_room :: "nat \<Rightarrow> 'a vm_state_scheme \<Rightarrow> bool" where
  "virtual_room n s \<longleftrightarrow> unmapped_ok s \<and> n \<le> card {i. unat i < 65532 \<and> \<not> vp_allocated (allocData s i)}"

lemma wipe_virtual_pmem: "\<exists>m. wipe_virtual n a s = s\<lparr>pmem := m\<rparr>"
proof (induction n a s rule: wipe_virtual.induct)
  case (1 a s)
  show ?case by (rule exI [of _ "pmem s"]) simp
next
  case (2 n a s)
  then show ?case by (auto simp: set_word_def)
qed

lemma memset_virtual_pmem: "\<exists>m. memset_virtual a len s = s\<lparr>pmem := m\<rparr>"
  using wipe_virtual_pmem [of "unat len div 4" a s] by (auto simp: memset_virtual_def Let_def set_word_def)

lemma virtual_page_mapped:
  fixes s :: "'a vm_state_scheme"
  assumes pages: "kernel_pages (Suc n) s" and none: "\<not> live_zone s MEM_HIGHMEM" and i: "unat i < 65532" "\<not> vp_allocated (allocData s i)"
    and un: "unmapped_ok s"
  obtains f p s1 m where "MemVirtualZAlloc 4096 s = ret (page_addr f, s1\<lparr>allocData := reserved (unat f) 1 (allocData s),
      MemVirtualPageTables := (MemVirtualPageTables s)(f := kernel_entry p), pmem := m\<rparr>)"
    "unat f < 65532" "\<not> vp_allocated (allocData s f)" "kernel_pages n s1" "\<not> live_zone s1 MEM_HIGHMEM" "page_refs s1 = (page_refs s)(p := 1)"
proof -
  have one: "unat (pages_of 4096) = 1" using pages_of_unat [of 4096] by simp
  have "free_run (allocData s) (unat i) 1" using i(2) by (auto simp: free_run_def dest: le_antisym)
  moreover have "unat i + 1 \<le> 65532" using i(1) by simp
  ultimately obtain f where f: "MemVirtualReserve 4096 s = (page_addr f, s\<lparr>allocData := reserved (unat f) 1 (allocData s)\<rparr>)"
    "unat f + 1 \<le> 65532" "free_run (allocData s) (unat f) 1"
    using reserve_result [of 4096 s] unfolding one by auto
  let ?t = "s\<lparr>allocData := reserved (unat f) 1 (allocData s)\<rparr>"
  have same: "same_pages s ?t" by (simp add: same_pages_def page_refs_def fun_eq_iff)
  have "kernel_pages (Suc n) ?t" using pages kernel_pages_same [OF same] by simp
  then obtain p t1 where p: "MemPhysicalAlloc 1 MEM_KERNEL ?t = ret (p, t1)" "page_refs t1 = (page_refs ?t)(p := 1)" "kernel_pages n t1"
    using kernel_pages_take by blast
  have live: "live_zone ?t MEM_HIGHMEM = live_zone s MEM_HIGHMEM" by (simp add: live_zone_def)
  then have alloc: "MemPhysicalAlloc 1 MEM_HIGHMEM ?t = ret (p, t1)" using highmem_fallback [of ?t] none p(1) by simp
  have live1: "\<not> live_zone t1 MEM_HIGHMEM" using none live alloc_bounds [OF p(1), of MEM_HIGHMEM] by (simp add: live_zone_def)
  note more = vm_more [OF alloc_more [OF p(1)], simplified]
  have free: "\<not> vp_allocated (allocData s f)" using f(3) by (auto simp: free_run_def dest: spec [of _ "unat f"])
  then have "\<not> e_present (MemVirtualPageTables t1 f)" using un more(1) by (simp add: unmapped_ok_def)
  then have "MemMapPage (page_addr f) p t1 = (True, t1\<lparr>MemVirtualPageTables := (MemVirtualPageTables s)(f := kernel_entry p)\<rparr>)"
    using map_slot [of f t1 p] f(2) more(1) by simp
  moreover have "alloc_loop (page_addr f) 4096 4096 u = ret u" for u :: "'a vm_state_scheme" by (subst alloc_loop.simps) simp
  ultimately have "alloc_loop (page_addr f) 4096 0 ?t = ret (t1\<lparr>MemVirtualPageTables := (MemVirtualPageTables s)(f := kernel_entry p)\<rparr>)"
    using alloc by (subst alloc_loop.simps) (simp add: PAGE_SIZE_def)
  then have run: "MemVirtualAlloc 4096 s = ret (page_addr f, t1\<lparr>MemVirtualPageTables := (MemVirtualPageTables s)(f := kernel_entry p)\<rparr>)"
    using f(1) by (simp add: MemVirtualAlloc_def)
  obtain m where m: "memset_virtual (page_addr f) 4096 (t1\<lparr>MemVirtualPageTables := (MemVirtualPageTables s)(f := kernel_entry p)\<rparr>) =
      t1\<lparr>MemVirtualPageTables := (MemVirtualPageTables s)(f := kernel_entry p), pmem := m\<rparr>" using memset_virtual_pmem by blast
  have "page_addr f \<noteq> 0" using unat_page_addr [of f] f(2) by auto
  then have "MemVirtualZAlloc 4096 s = ret (page_addr f, t1\<lparr>MemVirtualPageTables := (MemVirtualPageTables s)(f := kernel_entry p), pmem := m\<rparr>)"
    using run m by (simp add: MemVirtualZAlloc_def)
  moreover have "t1\<lparr>allocData := reserved (unat f) 1 (allocData s)\<rparr> = t1" using more(3) by (simp add: vm_state.surjective)
  ultimately show ?thesis using that [of f m p t1] f(2) free p(2,3) live1 same by (simp add: same_pages_def)
qed

lemma virtual_page:
  fixes s :: "'a vm_state_scheme"
  assumes pages: "kernel_pages (Suc n) s" "\<not> live_zone s MEM_HIGHMEM" and room: "virtual_room (Suc v) s"
  shows "\<exists>a s'. MemVirtualZAlloc 4096 s = ret (a, s') \<and> kernel_pages n s' \<and> \<not> live_zone s' MEM_HIGHMEM \<and> virtual_room v s' \<and>
    (\<forall>p. page_refs s p \<noteq> 0 \<longrightarrow> page_refs s' p \<noteq> 0)"
proof -
  let ?F = "{i. unat i < 65532 \<and> \<not> vp_allocated (allocData s i)}"
  have un: "unmapped_ok s" and many: "Suc v \<le> card ?F" using room by (simp_all add: virtual_room_def)
  then obtain i where i: "unat i < 65532" "\<not> vp_allocated (allocData s i)" by (metis (no_types, lifting) Collect_empty_eq card.empty not_less_eq_eq zero_le)
  obtain f p s1 m where run: "MemVirtualZAlloc 4096 s = ret (page_addr f, s1\<lparr>allocData := reserved (unat f) 1 (allocData s),
      MemVirtualPageTables := (MemVirtualPageTables s)(f := kernel_entry p), pmem := m\<rparr>)"
    and f: "unat f < 65532" "\<not> vp_allocated (allocData s f)"
    and s1: "kernel_pages n s1" "\<not> live_zone s1 MEM_HIGHMEM" "page_refs s1 = (page_refs s)(p := 1)"
    by (rule virtual_page_mapped [OF pages i un])
  let ?s = "s1\<lparr>allocData := reserved (unat f) 1 (allocData s), MemVirtualPageTables := (MemVirtualPageTables s)(f := kernel_entry p), pmem := m\<rparr>"
  have same: "same_pages s1 ?s" by (simp add: same_pages_def page_refs_def fun_eq_iff)
  have "vp_allocated (reserved (unat f) 1 (allocData s) j) \<longleftrightarrow> j = f \<or> vp_allocated (allocData s j)" for j
    by (auto simp: reserved_def word_unat_eq_iff)
  then have "{i. unat i < 65532 \<and> \<not> vp_allocated (allocData ?s i)} = ?F - {f}" "unmapped_ok ?s" using un by (auto simp: unmapped_ok_def)
  moreover have "card (?F - {f}) = card ?F - 1" using f by simp
  ultimately have "virtual_room v ?s" using many by (simp add: virtual_room_def)
  moreover have "kernel_pages n ?s" "\<not> live_zone ?s MEM_HIGHMEM" using s1(1,2) kernel_pages_same [OF same] by (simp_all add: live_zone_def)
  moreover have "\<forall>p. page_refs s p \<noteq> 0 \<longrightarrow> page_refs ?s p \<noteq> 0" using same s1(3) by (simp add: same_pages_def)
  ultimately show ?thesis using run by blast
qed

text \<open>The first item of a table allocates its buckets, the second one does not.\<close>

lemma grow_table_cases:
  assumes "ts_bucketCount t = 0" "ts_buckets t = 0" "kernel_pages (Suc n) s" "\<not> live_zone s MEM_HIGHMEM" "virtual_room (Suc v) s" "ts_itemCount t = 0"
  shows "\<exists>t' s'. grow_table t s = ret (t', s') \<and> ts_bucketCount t' = 1024 \<and> ts_itemCount t' = 0 \<and> kernel_pages n s' \<and>
    \<not> live_zone s' MEM_HIGHMEM \<and> virtual_room v s' \<and> (\<forall>p. page_refs s p \<noteq> 0 \<longrightarrow> page_refs s' p \<noteq> 0)"
  using virtual_page [OF assms(3-5)] assms(1,2,6) by (auto simp: grow_table_def HASH_INITIAL_SIZE_def Let_def)

lemma grow_table_second: "ts_bucketCount t = 1024 \<Longrightarrow> ts_itemCount t = 1 \<Longrightarrow> grow_table t s = ret (t, s)"
  by (simp add: grow_table_def HASH_THRESHOLD_GROW_def HASH_THRESHOLD_REF_def)

section \<open>Kernel threads\<close>

lemma store_words_other: "(\<And>i. i < length vs \<Longrightarrow> x \<noteq> a + 4 * of_nat i) \<Longrightarrow> store_words a vs m x = m x"
proof (induction vs arbitrary: a m)
  case (Cons v vs)
  have "x \<noteq> a" using Cons.prems [of 0] by simp
  moreover have "x \<noteq> a + 4 + 4 * of_nat i" if "i < length vs" for i using Cons.prems [of "Suc i"] that by (simp add: algebra_simps)
  ultimately show ?case by (simp add: Cons.IH)
qed simp

text \<open>The fields of the timer on which its interrupt depends.\<close>

definition timer_view :: "'a timer_state_scheme \<Rightarrow> TimerTime \<times> TimerTime \<times> TimerQueue list \<times> TimerQueue list" where
  "timer_view s = (currentTime s, beepEndTime s, sleepQueueHead s, alarmQueueHead s)"

lemma timer_view_upd [simp]:
  "timer_view (s\<lparr>ProcIdleThread := t\<rparr>) = timer_view s" "timer_view (s\<lparr>reaperThread := t\<rparr>) = timer_view s"
  "timer_view (s\<lparr>ProcCurrProcess := p\<rparr>) = timer_view s" "timer_view (u\<lparr>pmm := m\<rparr>) = timer_view u"
  by (simp_all add: timer_view_def)

text \<open>What \<open>ProcCreateKernelThread\<close> leaves, with the stack in page \<open>p\<close>.\<close>

definition thread_made :: "u32 \<Rightarrow> u32 \<Rightarrow> u32 \<Rightarrow> MemPhysPage \<Rightarrow> 'a proc_state_scheme \<Rightarrow> 'a proc_state_scheme \<Rightarrow> bool" where
  "thread_made thread start tid p s s' \<longleftrightarrow> threadTable s' = (threadTable s)(tid \<mapsto> thread) \<and> threadNextID s' = tid + 1 \<and>
     p_threads (processAt s' (ProcKernelProcess s)) = p_threads (processAt s (ProcKernelProcess s)) @ [thread] \<and>
     t_parent (threadAt s' thread) = ProcKernelProcess s \<and> t_state (threadAt s' thread) = PTS_STARTUP \<and>
     t_kStackBase (threadAt s' thread) = MemPhys2Virt p \<and> kStackPointer s' = (kStackPointer s)(thread := MemPhys2Virt p + 4060) \<and>
     kstack s' (MemPhys2Virt p + 4076) = start \<and> (\<forall>a. MemVirt2Phys a \<noteq> p \<longrightarrow> kstack s' a = kstack s a) \<and>
     (\<forall>u. u \<noteq> thread \<longrightarrow> threadAt s' u = threadAt s u) \<and> threadQueue s' = threadQueue s \<and> ProcCurrThread s' = ProcCurrThread s \<and>
     ProcCurrProcess s' = ProcCurrProcess s \<and> ProcIdleThread s' = ProcIdleThread s \<and> ProcKernelProcess s' = ProcKernelProcess s \<and>
     procTable s' = procTable s \<and> reaperThread s' = reaperThread s \<and> timer_view s' = timer_view s \<and> proc_state.more s' = proc_state.more s"

lemma stack_page:
  assumes "0 \<le> p" "p < MEM_KFIXED_MAX_PAGE"
  shows "MemPhys2Virt p \<le> a \<and> a < MemPhys2Virt p + 4096 \<Longrightarrow> MemVirt2Phys a = p"
    "off < 4096 \<Longrightarrow> MemVirt2Phys (MemPhys2Virt p + off) = p"
proof -
  show *: "MemVirt2Phys (MemPhys2Virt p + off) = p" if "off < 4096" for off using phys_virt_roundtrip [OF assms] that by (simp add: PAGE_SIZE_def)
  have w: "unat (MemPhys2Virt p) = 3221225472 + nat p * 4096" "nat p < 0x30000" using window_address [OF assms] assms by (auto simp: kfixed_max)
  assume a: "MemPhys2Virt p \<le> a \<and> a < MemPhys2Virt p + 4096"
  then have "unat a < unat (MemPhys2Virt p) + 4096" using w by (simp add: word_less_nat_alt unat_plus_32)
  then have "a - MemPhys2Virt p < 4096" using a by (simp add: word_less_nat_alt unat_minus_32)
  then show "MemVirt2Phys a = p" using * [of "a - MemPhys2Virt p"] by simp
qed

lemma kernel_thread_made:
  assumes tid: "threadTable s (threadNextID s) = None" and page: "MemPhysicalAlloc 1 MEM_KERNEL (pmm s) = ret (p, m)"
    and p: "0 \<le> p" "p < MEM_KFIXED_MAX_PAGE"
  shows "\<exists>s'. ProcCreateKernelThread tr thread start arg s = ret s' \<and> thread_made thread start (threadNextID s) p s s' \<and> pmm s' = m"
proof -
  have id: "alloc_id (threadTable s) (threadNextID s) = Some (threadNextID s)" using tid by (subst alloc_id.simps) simp
  define base where "base = MemPhys2Virt p"
  let ?vs = "kernel_stack tr start arg"
  have out: "store_words (base + 4060) ?vs m a = m a" if "MemVirt2Phys a \<noteq> p" for a m
  proof (rule store_words_other)
    fix i assume "i < length ?vs"
    then have "i \<in> {0, 1, 2, 3, 4, 5, 6, 7, 8}" by (auto simp: kernel_stack_def)
    then have "4060 + 4 * of_nat i < (4096 :: u32)" by auto
    then show "a \<noteq> base + 4060 + 4 * of_nat i" using that stack_page(2) [OF p, of "4060 + 4 * of_nat i"] by (auto simp: base_def add.assoc)
  qed
  have keep: "\<not> (base \<le> a \<and> a < base + PROC_KSTACK_SIZE)" if "MemVirt2Phys a \<noteq> p" for a
    using that stack_page(1) [OF p, of a] by (auto simp: base_def PROC_KSTACK_SIZE_def)
  have eip: "store_words (base + 4060) ?vs m (base + 4076) = start" for m by (simp add: kernel_stack_def add.assoc)
  have sp: "base + PROC_KSTACK_SIZE - 36 = base + 4060" by (simp add: PROC_KSTACK_SIZE_def)
  show ?thesis using page
    by (simp add: ProcCreateKernelThread_def ProcCreateRawThread_def id Let_def onMemory_def zero_thread_def flip: base_def)
      (simp add: thread_made_def timer_view_def sp eip out keep upd_process_def upd_thread_def flip: base_def cong: if_cong)
qed

section \<open>The heap while the kernel starts\<close>

definition heap_of :: "kernel \<Rightarrow> slab_state" where
  "heap_of k = slab_of (pmm (kIntr k)) (kSlab k)"

text \<open>\<open>n\<close> pages of the kernel zone and room for \<open>v\<close> pages of the virtual region are left, and no zone above the window exists.\<close>

definition booting :: "MemPhysPage set \<Rightarrow> (u32 \<Rightarrow> nat) \<Rightarrow> u32 set \<Rightarrow> nat \<Rightarrow> nat \<Rightarrow> (u32 \<times> nat) set \<Rightarrow> kernel \<Rightarrow> bool" where
  "booting R osize C n v L k \<longleftrightarrow> slab_heap R osize C n L (heap_of k) \<and> \<not> live_zone (pmm (kIntr k)) MEM_HIGHMEM \<and> virtual_room v (pmm (kIntr k))"

lemma slab_of_shared [simp]:
  "kAllocCache (slab_of s t) = kAllocCache t" "phys_state.more (slab_of s t) = phys_state.more t" "slab_of (with_pages u m) u = u"
  by (cases s; cases t; simp add: slab_of_def phys_state.defs) (cases u; cases m; simp add: with_pages_def slab_of_def phys_state.defs)+

lemma with_pages_fields [simp]:
  "page_refs (with_pages t m) = page_refs t" "zones (with_pages t m) = zones t" "highestPage (with_pages t m) = highestPage t"
  "phys_state.more (with_pages t m) = phys_state.more m"
  by (cases t; cases m; simp add: with_pages_def phys_state.defs page_refs_def fun_eq_iff)+

lemma same_pages_slab_of [simp]: "same_pages s (slab_of s t)"
  by (simp add: same_pages_def)

lemma heap_of_refs [simp]: "page_refs (heap_of k) = page_refs (pmm (kIntr k))" "zones (heap_of k) = zones (pmm (kIntr k))"
  by (simp_all add: heap_of_def)

lemma virtual_room_more:
  assumes "phys_state.more m = phys_state.more (s :: 'a vm_state_scheme)"
  shows "virtual_room v m = virtual_room v s"
  by (simp add: virtual_room_def unmapped_ok_def vm_more [OF assms])

text \<open>Steps that touch only the pages and the slab allocator.\<close>

definition mem_step :: "kernel \<Rightarrow> kernel \<Rightarrow> bool" where
  "mem_step k k' \<longleftrightarrow> k' = k\<lparr>kSlab := kSlab k', kIntr := (kIntr k)\<lparr>pmm := pmm (kIntr k')\<rparr>\<rparr> \<and>
     rootCache (kSlab k') = rootCache (kSlab k) \<and> kAllocCache (kSlab k') = kAllocCache (kSlab k) \<and>
     (\<forall>p. page_refs (pmm (kIntr k)) p \<noteq> 0 \<longrightarrow> page_refs (pmm (kIntr k')) p \<noteq> 0)"

lemma mem_step_sel:
  assumes "mem_step k k'"
  shows "kIntr k' = (kIntr k)\<lparr>pmm := pmm (kIntr k')\<rparr>" "hTableThread k' = hTableThread k" "hTableProcess k' = hTableProcess k"
    "cacheThread k' = cacheThread k" "kDevfs k' = kDevfs k" "kAllocCache (kSlab k') = kAllocCache (kSlab k)"
    "rootCache (kSlab k') = rootCache (kSlab k)" "page_refs (pmm (kIntr k)) p \<noteq> 0 \<Longrightarrow> page_refs (pmm (kIntr k')) p \<noteq> 0"
proof -
  obtain t m where k': "k' = k\<lparr>kSlab := t, kIntr := (kIntr k)\<lparr>pmm := m\<rparr>\<rparr>" using assms unfolding mem_step_def by blast
  show "kIntr k' = (kIntr k)\<lparr>pmm := pmm (kIntr k')\<rparr>" "hTableThread k' = hTableThread k" "hTableProcess k' = hTableProcess k"
    "cacheThread k' = cacheThread k" "kDevfs k' = kDevfs k" by (simp_all add: k')
  show "kAllocCache (kSlab k') = kAllocCache (kSlab k)" "rootCache (kSlab k') = rootCache (kSlab k)"
    "page_refs (pmm (kIntr k)) p \<noteq> 0 \<Longrightarrow> page_refs (pmm (kIntr k')) p \<noteq> 0" using assms unfolding mem_step_def by blast+
qed

lemma mem_step_trans:
  assumes "mem_step k k1" "mem_step k1 k2"
  shows "mem_step k k2"
proof -
  obtain t m where k1: "k1 = k\<lparr>kSlab := t, kIntr := (kIntr k)\<lparr>pmm := m\<rparr>\<rparr>" using assms(1) unfolding mem_step_def by blast
  obtain t' m' where k2: "k2 = k1\<lparr>kSlab := t', kIntr := (kIntr k1)\<lparr>pmm := m'\<rparr>\<rparr>" using assms(2) unfolding mem_step_def by blast
  show ?thesis using assms by (simp add: mem_step_def k2 k1)
qed

lemma on_slab_step:
  assumes "booting R osize C m v L k" "f (heap_of k) = ret (x, t)" "slab_heap R osize' C' n L' t" "same_bounds (heap_of k) t"
    and "rootCache t = rootCache (heap_of k)" "kAllocCache t = kAllocCache (heap_of k)" "\<forall>p. page_refs (heap_of k) p \<noteq> 0 \<longrightarrow> page_refs t p \<noteq> 0"
  shows "\<exists>k'. on_slab f k = ret (x, k') \<and> booting R osize' C' n v L' k' \<and> mem_step k k' \<and> heap_of k' = t"
proof -
  let ?k = "k\<lparr>kSlab := t, kIntr := (kIntr k)\<lparr>pmm := with_pages t (pmm (kIntr k))\<rparr>\<rparr>"
  have "on_slab f k = ret (x, ?k)" using assms(2) by (simp add: on_slab_def heap_of_def)
  moreover have heap: "heap_of ?k = t" by (simp add: heap_of_def)
  moreover have "booting R osize' C' n v L' ?k" using assms(1,3,4) heap virtual_room_more [of "with_pages t (pmm (kIntr k))" "pmm (kIntr k)"]
    by (simp add: booting_def live_zone_def same_bounds_def)
  moreover have "mem_step k ?k" using assms(5-7) by (simp add: mem_step_def heap_of_def)
  ultimately show ?thesis by blast
qed

lemma booting_pages:
  assumes "booting R osize C m v L k" "kSlab k' = kSlab k" "kernel_pages n (pmm (kIntr k'))" "\<not> live_zone (pmm (kIntr k')) MEM_HIGHMEM"
    "virtual_room w (pmm (kIntr k'))" "\<And>p. page_refs (pmm (kIntr k)) p \<noteq> 0 \<Longrightarrow> page_refs (pmm (kIntr k')) p \<noteq> 0"
  shows "booting R osize C n w L k'"
proof -
  have pages: "kernel_pages n (heap_of k')" using assms(3) by (simp add: heap_of_def kernel_pages_same [OF same_pages_slab_of])
  have more: "phys_state.more (heap_of k') = phys_state.more (heap_of k)" using assms(2) by (simp add: heap_of_def)
  have heap: "slab_heap R osize C m L (heap_of k)" using assms(1) by (simp add: booting_def)
  have used: "page_refs (heap_of k') p \<noteq> 0" if "page_refs (heap_of k) p \<noteq> 0" for p using assms(6) [of p] that unfolding heap_of_refs .
  have "slab_heap R osize C n L (heap_of k')" by (rule slab_heap_pages [OF heap more used pages])
  then show ?thesis using assms(4,5) by (simp add: booting_def)
qed

lemma on_pages_step:
  assumes "booting R osize C m v L k" "f (pmm (kIntr k)) = ret (x, s)" "kernel_pages n s" "\<not> live_zone s MEM_HIGHMEM" "virtual_room w s"
    "\<forall>p. page_refs (pmm (kIntr k)) p \<noteq> 0 \<longrightarrow> page_refs s p \<noteq> 0"
  shows "\<exists>k'. on_pages f k = ret (x, k') \<and> booting R osize C n w L k' \<and> mem_step k k'"
proof -
  let ?k = "k\<lparr>kIntr := (kIntr k)\<lparr>pmm := s\<rparr>\<rparr>"
  have "on_pages f k = ret (x, ?k)" using assms(2) by (simp add: on_pages_def)
  moreover have "booting R osize C n w L ?k" using assms by (intro booting_pages [OF assms(1)]) simp_all
  moreover have "mem_step k ?k" using assms(6) by (simp add: mem_step_def)
  ultimately show ?thesis by blast
qed

lemma booting_kernel_pages: "booting R osize C n v L k \<Longrightarrow> kernel_pages n (pmm (kIntr k))"
  by (auto simp: booting_def slab_heap_def heap_of_def kernel_pages_same [OF same_pages_slab_of])

lemma booting_alloc:
  assumes "booting R osize C (Suc n) v L k"
    and "\<exists>x s'. f (heap_of k) = ret (x, s') \<and> (\<forall>r \<in> L. ranges_apart r (x, osize c)) \<and> slab_heap R osize C n (insert (x, osize c) L) s' \<and>
      heap_frame c (heap_of k) s' \<and> x \<noteq> 0 \<and> MemVirt2Phys x \<notin> R \<and> page_refs s' (MemVirt2Phys x) \<noteq> 0"
  shows "\<exists>x k'. on_slab f k = ret (x, k') \<and> booting R osize C n v (insert (x, osize c) L) k' \<and> mem_step k k' \<and>
    (\<forall>r \<in> L. ranges_apart r (x, osize c)) \<and> MemVirt2Phys x \<notin> R"
proof -
  obtain x s' where x: "f (heap_of k) = ret (x, s')" "\<forall>r \<in> L. ranges_apart r (x, osize c)" "slab_heap R osize C n (insert (x, osize c) L) s'"
    "heap_frame c (heap_of k) s'" "MemVirt2Phys x \<notin> R" using assms(2) by blast
  have "same_bounds (heap_of k) s'" "rootCache s' = rootCache (heap_of k)" "kAllocCache s' = kAllocCache (heap_of k)"
    "\<forall>p. page_refs (heap_of k) p \<noteq> 0 \<longrightarrow> page_refs s' p \<noteq> 0" using x(4) by (simp_all add: heap_frame_def other_caches_def)
  from on_slab_step [where f = f, OF assms(1) x(1,3) this] show ?thesis using x(2,5) by blast
qed

lemma booting_create:
  assumes "booting R osize C (Suc n) v L k" and sz: "(sz0 + 3) AND NOT 3 = sz" "sz < 8 * PAGE_SIZE" "sz \<noteq> 0"
  shows "\<exists>x k'. on_slab (MemSlabCreate sz0 flags) k = ret (x, k') \<and> booting R osize C n v (insert (x, osize (rootCache (kSlab k))) L) k' \<and> mem_step k k' \<and>
    x \<notin> C \<and> cacheAt (heap_of k') x = cache_layout sz flags"
proof -
  have heap: "slab_heap R osize C (Suc n) L (heap_of k)" using assms(1) by (simp add: booting_def)
  obtain x s' where x: "MemSlabCreate sz0 flags (heap_of k) = ret (x, s')" "x \<notin> C"
    "slab_heap R osize C n (insert (x, osize (rootCache (heap_of k))) L) s'" "cacheAt s' x = cache_layout sz flags" "heap_grows C (heap_of k) s'"
    "kAllocCache s' = kAllocCache (heap_of k)" using slab_heap_create [OF heap sz] by blast
  have "same_bounds (heap_of k) s'" "rootCache s' = rootCache (heap_of k)"
    "\<forall>p. page_refs (heap_of k) p \<noteq> 0 \<longrightarrow> page_refs s' p \<noteq> 0" using x(5) by (simp_all add: heap_grows_def)
  moreover have "rootCache (heap_of k) = rootCache (kSlab k)" by (simp add: heap_of_def)
  ultimately show ?thesis using on_slab_step [where f = "MemSlabCreate sz0 flags", OF assms(1) x(1,3) _ _ x(6)] x(2,4) by auto
qed

lemma small_kalloc: "0 < b \<Longrightarrow> b \<le> 8 \<Longrightarrow> MemKAlloc b s = MemSlabAlloc (Suc (Suc 0)) (kAllocCache s 0) s"
proof -
  assume b: "0 < b" "b \<le> 8"
  then have "\<not> push_bit 10 8 < b" by (auto simp: push_bit_eq_mult not_less intro: order.trans)
  then show ?thesis using b by (auto simp: MemKAlloc_def kalloc_index_def numeral_2_eq_2)
qed

text \<open>The table of threads before the first thread and after it.\<close>

definition table_state :: "nat \<Rightarrow> nat \<Rightarrow> table_size \<Rightarrow> bool" where
  "table_state v w t \<longleftrightarrow> (t = \<lparr>ts_buckets = 0, ts_bucketCount = 0, ts_itemCount = 0\<rparr> \<and> v = Suc w) \<or>
     (ts_bucketCount t = 1024 \<and> ts_itemCount t = 1 \<and> v = w)"

lemma booting_grow:
  assumes "booting R osize C (Suc n) v L k" "table_state v w t"
  shows "\<exists>t' k'. on_pages (grow_table t) k = ret (t', k') \<and> booting R osize C n w L k' \<and> mem_step k k' \<and>
    ts_bucketCount t' = 1024 \<and> ts_itemCount t' = ts_itemCount t"
proof -
  have pages: "kernel_pages (Suc n) (pmm (kIntr k))" "\<not> live_zone (pmm (kIntr k)) MEM_HIGHMEM" "virtual_room v (pmm (kIntr k))"
    using booting_kernel_pages [OF assms(1)] assms(1) by (simp_all add: booting_def)
  have "\<exists>t' s. grow_table t (pmm (kIntr k)) = ret (t', s) \<and> ts_bucketCount t' = 1024 \<and> ts_itemCount t' = ts_itemCount t \<and> kernel_pages n s \<and>
    \<not> live_zone s MEM_HIGHMEM \<and> virtual_room w s \<and> (\<forall>p. page_refs (pmm (kIntr k)) p \<noteq> 0 \<longrightarrow> page_refs s p \<noteq> 0)"
    using assms(2) unfolding table_state_def
  proof (elim disjE conjE)
    assume t: "t = \<lparr>ts_buckets = 0, ts_bucketCount = 0, ts_itemCount = 0\<rparr>" "v = Suc w"
    then show ?thesis using grow_table_cases [of t n "pmm (kIntr k)" w] pages by auto
  next
    assume "ts_bucketCount t = 1024" "ts_itemCount t = 1" "v = w"
    then show ?thesis using grow_table_second [of t "pmm (kIntr k)"] pages kernel_pages_mono [OF pages(1), of n]
      by (intro exI [of _ t] exI [of _ "pmm (kIntr k)"]) simp
  qed
  then show ?thesis using on_pages_step [where f = "grow_table t", OF assms(1)] by blast
qed

text \<open>What the creation of a thread leaves of the rest of the kernel.\<close>

definition thread_rest :: "kernel \<Rightarrow> kernel \<Rightarrow> bool" where
  "thread_rest k k' \<longleftrightarrow> ts_bucketCount (hTableThread k') = 1024 \<and> ts_itemCount (hTableThread k') = ts_itemCount (hTableThread k) + 1 \<and>
     cacheThread k' = cacheThread k \<and> kAllocCache (kSlab k') = kAllocCache (kSlab k) \<and> rootCache (kSlab k') = rootCache (kSlab k) \<and>
     kDevfs k' = kDevfs k \<and> (\<forall>p. page_refs (pmm (kIntr k)) p \<noteq> 0 \<longrightarrow> page_refs (pmm (kIntr k')) p \<noteq> 0)"

lemma booting_thread:
  assumes boot: "booting R osize C (Suc n) v L k" and tid: "threadTable (kIntr k) (threadNextID (kIntr k)) = None"
  shows "\<exists>p i. ProcCreateKernelThread tr thread start 0 (kIntr k) = ret i \<and> thread_made thread start (threadNextID (kIntr k)) p (kIntr k) i \<and>
    0 \<le> p \<and> p < MEM_KFIXED_MAX_PAGE \<and> page_refs (pmm (kIntr k)) p = 0 \<and> page_refs (pmm i) = (page_refs (pmm (kIntr k)))(p := 1) \<and>
    (\<forall>t. booting R osize C n v L (k\<lparr>kIntr := i, hTableThread := t\<rparr>))"
proof -
  obtain p m where p: "MemPhysicalAlloc 1 MEM_KERNEL (pmm (kIntr k)) = ret (p, m)" "page_refs (pmm (kIntr k)) p = 0"
    "page_refs m = (page_refs (pmm (kIntr k)))(p := 1)" "0 \<le> p" "p < MEM_KFIXED_MAX_PAGE" "kernel_pages n m"
    using kernel_pages_take [OF booting_kernel_pages [OF boot]] by blast
  obtain i where i: "ProcCreateKernelThread tr thread start 0 (kIntr k) = ret i"
    "thread_made thread start (threadNextID (kIntr k)) p (kIntr k) i" "pmm i = m" using kernel_thread_made [OF tid p(1,4,5)] by blast
  have "virtual_room v m" using boot virtual_room_more [OF alloc_more [OF p(1)]] by (simp add: booting_def)
  moreover have "\<not> live_zone m MEM_HIGHMEM" using boot alloc_bounds [OF p(1), of MEM_HIGHMEM] by (simp add: booting_def live_zone_def)
  ultimately have "booting R osize C n v L (k\<lparr>kIntr := i, hTableThread := t\<rparr>)" for t
    by (intro booting_pages [OF boot]) (use p(3,6) i(3) in simp_all)
  then show ?thesis using i p by blast
qed

lemma thread_created:
  assumes boot: "booting R osize C (n + 4) v L k" and caches: "cacheThread k \<in> C" "kAllocCache (kSlab k) 0 \<in> C" and name: "length name \<le> 7"
    and tab: "table_state v w (hTableThread k)" and tid: "threadTable (kIntr k) (threadNextID (kIntr k)) = None"
  shows "\<exists>thread p k' L'. create_kernel_thread env start name k = ret (thread, k') \<and>
    thread_made thread start (threadNextID (kIntr k)) p (kIntr k) (kIntr k') \<and>
    booting R osize C n w L' k' \<and> insert (thread, osize (cacheThread k)) L \<subseteq> L' \<and>
    (\<forall>r \<in> L. ranges_apart r (thread, osize (cacheThread k))) \<and> MemVirt2Phys thread \<notin> R \<and>
    0 \<le> p \<and> p < MEM_KFIXED_MAX_PAGE \<and> page_refs (pmm (kIntr k)) p = 0 \<and> page_refs (pmm (kIntr k')) p \<noteq> 0 \<and> thread_rest k k'"
proof -
  have b0: "booting R osize C (Suc (n + 3)) v L k" using boot by (simp add: numeral_eq_Suc)
  obtain thread k1 where 1: "on_slab (MemSlabZAlloc (cacheThread k)) k = ret (thread, k1)"
    "booting R osize C (n + 3) v (insert (thread, osize (cacheThread k)) L) k1" "mem_step k k1"
    "\<forall>r \<in> L. ranges_apart r (thread, osize (cacheThread k))" "MemVirt2Phys thread \<notin> R"
    using booting_alloc [where f = "MemSlabZAlloc (cacheThread k)" and c = "cacheThread k", OF b0] slab_heap_zalloc [OF _ caches(1)] b0
    unfolding booting_def by blast
  have tab1: "table_state v w (hTableThread k1)" using tab mem_step_sel(2) [OF 1(3)] by simp
  have b1: "booting R osize C (Suc (n + 2)) v (insert (thread, osize (cacheThread k)) L) k1" using 1(2) by (simp add: numeral_eq_Suc)
  obtain t k2 where 2: "on_pages (grow_table (hTableThread k1)) k1 = ret (t, k2)"
    "booting R osize C (n + 2) w (insert (thread, osize (cacheThread k)) L) k2" "mem_step k1 k2"
    "ts_bucketCount t = 1024" "ts_itemCount t = ts_itemCount (hTableThread k1)" using booting_grow [OF b1 tab1] by blast
  have k2: "mem_step k k2" by (rule mem_step_trans [OF 1(3) 2(3)])
  let ?a = "kAllocCache (kSlab k) 0" and ?b = "of_nat (length name) + 1 :: u32"
  have small: "0 < ?b" "?b \<le> 8"
  proof -
    have "unat ?b = length name + 1" using name by (simp add: unat_plus_32 unat_of_nat)
    then show "0 < ?b" "?b \<le> 8" using name by (simp_all add: word_less_nat_alt word_le_nat_alt)
  qed
  have b2: "booting R osize C (Suc (n + 1)) w (insert (thread, osize (cacheThread k)) L) k2" using 2(2) by simp
  have alloc: "MemKAlloc ?b (heap_of k2) = MemSlabAlloc (Suc (Suc 0)) ?a (heap_of k2)"
    using small_kalloc [OF small, of "heap_of k2"] mem_step_sel(6) [OF k2] by (simp add: heap_of_def del: MemSlabAlloc.simps)
  obtain y k3 where 3: "on_slab (MemKAlloc ?b) k2 = ret (y, k3)"
    "booting R osize C (n + 1) w (insert (y, osize ?a) (insert (thread, osize (cacheThread k)) L)) k3" "mem_step k2 k3"
    using booting_alloc [where f = "MemKAlloc ?b" and c = ?a, OF b2] slab_heap_alloc [OF _ caches(2), of R osize "n + 1" _ _ "Suc 0"] b2
    unfolding booting_def alloc by blast
  have k3: "mem_step k k3" by (rule mem_step_trans [OF k2 3(3)])
  note i3 = mem_step_sel(1) [OF k3]
  have tid3: "threadTable (kIntr k3) (threadNextID (kIntr k3)) = None" using tid by (subst (1 2) i3) simp
  obtain p i where i: "ProcCreateKernelThread (be_threadReturn env) thread start 0 (kIntr k3) = ret i"
    "thread_made thread start (threadNextID (kIntr k3)) p (kIntr k3) i" "0 \<le> p" "p < MEM_KFIXED_MAX_PAGE" "page_refs (pmm (kIntr k3)) p = 0"
    "page_refs (pmm i) = (page_refs (pmm (kIntr k3)))(p := 1)"
    "booting R osize C n w (insert (y, osize ?a) (insert (thread, osize (cacheThread k)) L)) (k3\<lparr>kIntr := i, hTableThread := count_item t\<rparr>)"
    using booting_thread [OF 3(2) [unfolded Suc_eq_plus1 [symmetric]] tid3, of "be_threadReturn env" thread start] by blast
  let ?k = "k3\<lparr>kIntr := i, hTableThread := count_item t\<rparr>"
  have "create_kernel_thread env start name k = ret (thread, ?k)" using 1(1) 2(1) 3(1) i(1) by (simp add: create_kernel_thread_def)
  moreover have "thread_made thread start (threadNextID (kIntr k)) p (kIntr k) i" using i(2) by (subst (asm) (1 2) i3) (simp add: thread_made_def)
  moreover have "page_refs (pmm (kIntr k)) p = 0" using mem_step_sel(8) [OF k3, of p] i(5) by blast
  moreover have "thread_rest k ?k" using mem_step_sel(2,4-8) [OF k3] mem_step_sel(2) [OF 1(3)] 2(4,5) i(6) by (simp add: thread_rest_def count_item_def)
  ultimately show ?thesis using 1(4,5) i by (intro exI [of _ thread] exI [of _ p] exI [of _ ?k]) auto
qed

section \<open>The first threads\<close>

definition empty_table :: table_size where
  "empty_table = \<lparr>ts_buckets = 0, ts_bucketCount = 0, ts_itemCount = 0\<rparr>"

text \<open>The two threads of the kernel, ready to run at their entries on stacks of their own.\<close>

definition started :: "boot_env \<Rightarrow> u32 \<Rightarrow> u32 \<Rightarrow> 'a proc_state_scheme \<Rightarrow> bool" where
  "started env idle reaper s \<longleftrightarrow> idle \<noteq> reaper \<and> ProcIdleThread s = idle \<and> reaperThread s = reaper \<and>
     threadTable s = [0 \<mapsto> idle, 1 \<mapsto> reaper] \<and> p_threads (processAt s (ProcKernelProcess s)) = [idle, reaper] \<and>
     procTable s 0 = Some (ProcKernelProcess s) \<and>
     (\<forall>t \<in> {idle, reaper}. t_parent (threadAt s t) = ProcKernelProcess s \<and> t_state (threadAt s t) = PTS_STARTUP) \<and>
     t_kStackBase (threadAt s idle) \<noteq> t_kStackBase (threadAt s reaper) \<and>
     sw_eip (ProcIntSchedulerSwap (kstack s) (kStackPointer s idle)) = be_idleEntry env \<and>
     sw_eip (ProcIntSchedulerSwap (kstack s) (kStackPointer s reaper)) = be_reaperEntry env"

lemma threads_started:
  assumes s0: "threadTable s0 = Map.empty" "threadNextID s0 = 0" "p_threads (processAt s0 (ProcKernelProcess s0)) = []"
      "procTable s0 0 = Some (ProcKernelProcess s0)"
    and idle: "thread_made idle (be_idleEntry env) 0 p s0 s1" "0 \<le> p" "p < MEM_KFIXED_MAX_PAGE"
    and reaper: "thread_made reaper (be_reaperEntry env) 1 q (s1\<lparr>ProcIdleThread := idle\<rparr>) s2" "0 \<le> q" "q < MEM_KFIXED_MAX_PAGE"
    and new: "p \<noteq> q" "idle \<noteq> reaper"
  shows "started env idle reaper (s2\<lparr>reaperThread := reaper\<rparr>)"
proof -
  have page: "MemVirt2Phys (MemPhys2Virt p + 4076) = p" using stack_page(2) [OF idle(2,3)] by simp
  have "MemVirt2Phys (MemPhys2Virt p) = p" "MemVirt2Phys (MemPhys2Virt q) = q"
    using stack_page(2) [OF idle(2,3), of 0] stack_page(2) [OF reaper(2,3), of 0] by simp_all
  then have "MemPhys2Virt p \<noteq> MemPhys2Virt q" using new(1) by metis
  then show ?thesis using idle(1) reaper(1) s0 new page
    by (auto simp: started_def thread_made_def ProcIntSchedulerSwap_def add.assoc fun_upd_twist)
qed

lemma thread_layout: "small_cache (cache_layout 100 0)" "0 < unat (objectsPerSlab (cache_layout 100 0))" "unat (100 :: u32) mod 4 = 0"
  using small_layout [of 100] by simp_all

lemma booting_sizes:
  "(sizeof_ProcProcess + 3) AND NOT 3 = 484" "(484 :: u32) < 8 * PAGE_SIZE" "(484 :: u32) \<noteq> 0"
  "(sizeof_ProcThread + 3) AND NOT 3 = 100" "(100 :: u32) < 8 * PAGE_SIZE" "(100 :: u32) \<noteq> 0"
  "(sizeof_IoBlock + 3) AND NOT 3 = 52" "(52 :: u32) < 8 * PAGE_SIZE" "(52 :: u32) \<noteq> 0"
  by (simp_all add: sizeof_ProcProcess_def sizeof_ProcThread_def sizeof_IoBlock_def PAGE_SIZE_def)

lemma init_kernel_process_fields:
  "threadTable (init_kernel_process s) = threadTable s" "threadNextID (init_kernel_process s) = threadNextID s"
  "p_threads (processAt (init_kernel_process s) (ProcKernelProcess s)) = []" "procTable (init_kernel_process s) 0 = Some (ProcKernelProcess s)"
  "ProcKernelProcess (init_kernel_process s) = ProcKernelProcess s" "pmm (init_kernel_process s) = pmm s" "threadQueue (init_kernel_process s) = threadQueue s"
  "ProcCurrThread (init_kernel_process s) = ProcCurrThread s" "proc_state.more (init_kernel_process s) = proc_state.more s"
  "ProcCurrProcess (init_kernel_process s) = ProcKernelProcess s" "timer_view (init_kernel_process s) = timer_view s"
  by (simp_all add: init_kernel_process_def Let_def upd_process_def timer_view_def)

text \<open>The fields of the processes that creating kernel threads leaves.\<close>

definition same_run :: "'a proc_state_scheme \<Rightarrow> 'a proc_state_scheme \<Rightarrow> bool" where
  "same_run s s' \<longleftrightarrow> threadQueue s' = threadQueue s \<and> ProcCurrThread s' = ProcCurrThread s \<and> ProcKernelProcess s' = ProcKernelProcess s \<and>
     ProcCurrProcess s' = ProcCurrProcess s \<and> timer_view s' = timer_view s \<and> proc_state.more s' = proc_state.more s"

text \<open>The cache of threads is created and joins the heap.\<close>

lemma thread_cache_created:
  assumes boot: "booting R osize C (n + 2) v L k"
  shows "\<exists>cp ct k1 k2 L'. on_slab (MemSlabCreate sizeof_ProcProcess 0) k = ret (cp, k1) \<and> on_slab (MemSlabCreate sizeof_ProcThread 0) k1 = ret (ct, k2) \<and>
    booting R (osize(ct := 100)) (insert ct C) n v L' k2 \<and> mem_step k k2"
proof -
  have b0: "booting R osize C (Suc (n + 1)) v L k" using boot by simp
  obtain cp k1 where 1: "on_slab (MemSlabCreate sizeof_ProcProcess 0) k = ret (cp, k1)"
    "booting R osize C (n + 1) v (insert (cp, osize (rootCache (kSlab k))) L) k1" "mem_step k k1"
    using booting_create [OF b0 booting_sizes(1-3), of 0] by blast
  let ?L1 = "insert (cp, osize (rootCache (kSlab k))) L"
  have b1: "booting R osize C (Suc n) v ?L1 k1" using 1(2) by simp
  obtain ct k2 where 2: "on_slab (MemSlabCreate sizeof_ProcThread 0) k1 = ret (ct, k2)"
    "booting R osize C n v (insert (ct, osize (rootCache (kSlab k1))) ?L1) k2" "mem_step k1 k2" "ct \<notin> C"
    "cacheAt (heap_of k2) ct = cache_layout 100 0" using booting_create [OF b1 booting_sizes(4-6), of 0] by blast
  let ?L2 = "insert (ct, osize (rootCache (kSlab k1))) ?L1"
  have "slab_heap R osize C n ?L2 (heap_of k2)" using 2(2) by (simp add: booting_def)
  then have "slab_heap R (osize(ct := unat (100 :: u32))) (insert ct C) n ?L2 (heap_of k2)"
    by (rule slab_heap_adopt [OF _ 2(4) _ 2(5) thread_layout, where m = "osize (rootCache (kSlab k1))"]) simp
  then have "booting R (osize(ct := 100)) (insert ct C) n v ?L2 k2" using 2(2) by (simp add: booting_def)
  then show ?thesis using 1(1) 2(1) mem_step_trans [OF 1(3) 2(3)] by blast
qed

text \<open>The idle thread and the reaper.\<close>

lemma two_threads_started:
  assumes boot: "booting R osize C (n + 8) 1 L k" and caches: "cacheThread k \<in> C" "osize (cacheThread k) = 100" "kAllocCache (kSlab k) 0 \<in> C"
    and tables: "hTableThread k = empty_table" "threadTable (kIntr k) = Map.empty" "threadNextID (kIntr k) = 0"
    and kernel: "p_threads (processAt (kIntr k) (ProcKernelProcess (kIntr k))) = []" "procTable (kIntr k) 0 = Some (ProcKernelProcess (kIntr k))"
  shows "\<exists>idle reaper k1 k2 L'. create_kernel_thread env (be_idleEntry env) ''idle'' k = ret (idle, k1) \<and>
    create_kernel_thread env (be_reaperEntry env) ''reaper'' (k1\<lparr>kIntr := (kIntr k1)\<lparr>ProcIdleThread := idle\<rparr>\<rparr>) = ret (reaper, k2) \<and>
    started env idle reaper ((kIntr k2)\<lparr>reaperThread := reaper\<rparr>) \<and> booting R osize C n 0 L' k2 \<and> MemVirt2Phys idle \<notin> R \<and>
    same_run (kIntr k) (kIntr k2) \<and> kDevfs k2 = kDevfs k"
proof -
  have b0: "booting R osize C (n + 4 + 4) 1 L k" using boot by (simp add: add.commute)
  have tab: "table_state 1 0 (hTableThread k)" by (simp add: tables table_state_def empty_table_def)
  from thread_created [OF b0 caches(1,3) _ tab, of "''idle''" env "be_idleEntry env"] obtain idle p k1 L1 where 1:
    "create_kernel_thread env (be_idleEntry env) ''idle'' k = ret (idle, k1)" "thread_made idle (be_idleEntry env) 0 p (kIntr k) (kIntr k1)"
    "booting R osize C (n + 4) 0 L1 k1" "insert (idle, 100) L \<subseteq> L1" "MemVirt2Phys idle \<notin> R" "0 \<le> p" "p < MEM_KFIXED_MAX_PAGE"
    "page_refs (pmm (kIntr k1)) p \<noteq> 0" "thread_rest k k1" using tables(2,3) caches(2) by auto
  let ?k1 = "k1\<lparr>kIntr := (kIntr k1)\<lparr>ProcIdleThread := idle\<rparr>\<rparr>"
  have b1: "booting R osize C (n + 4) 0 L1 ?k1"
    by (rule booting_pages [OF 1(3)]) (use 1(3) booting_kernel_pages [OF 1(3)] in \<open>simp_all add: booting_def\<close>)
  have tab1: "table_state 0 0 (hTableThread ?k1)" "cacheThread ?k1 = cacheThread k" "kAllocCache (kSlab ?k1) 0 \<in> C" "kDevfs ?k1 = kDevfs k"
    using 1(9) caches(3) tables(1) by (simp_all add: thread_rest_def table_state_def empty_table_def)
  have tid: "threadTable (kIntr ?k1) (threadNextID (kIntr ?k1)) = None" "threadNextID (kIntr ?k1) = 1"
    using 1(2) tables(2,3) by (simp_all add: thread_made_def)
  from thread_created [OF b1 _ tab1(3) _ tab1(1) tid(1), of "''reaper''" env "be_reaperEntry env"] obtain reaper q k2 L2 where 2:
    "create_kernel_thread env (be_reaperEntry env) ''reaper'' ?k1 = ret (reaper, k2)" "thread_made reaper (be_reaperEntry env) 1 q (kIntr ?k1) (kIntr k2)"
    "booting R osize C n 0 L2 k2" "\<forall>r \<in> L1. ranges_apart r (reaper, 100)" "0 \<le> q" "q < MEM_KFIXED_MAX_PAGE"
    "page_refs (pmm (kIntr ?k1)) q = 0" "thread_rest ?k1 k2" using tid(2) tab1(2) caches(1,2) by auto
  have ne: "idle \<noteq> reaper" "p \<noteq> q" using 1(4,8) 2(4,7) by (auto simp: ranges_apart_def)
  have "started env idle reaper ((kIntr k2)\<lparr>reaperThread := reaper\<rparr>)"
    using threads_started [OF tables(2,3) kernel 1(2,6,7) _ 2(5,6) ne(2,1)] 2(2) by simp
  moreover have "same_run (kIntr k) (kIntr k2)" using 1(2) 2(2) by (simp add: same_run_def thread_made_def)
  moreover have "kDevfs k2 = kDevfs k" using 2(8) tab1(4) by (simp add: thread_rest_def)
  ultimately show ?thesis using 1(1,5) 2(1,3) by blast
qed

lemma proc_init_started:
  assumes boot: "booting R osize C (n + 11) 2 L k" "kAllocCache (kSlab k) 0 \<in> C"
    and tables: "hTableProcess k = empty_table" "hTableThread k = empty_table" "threadTable (kIntr k) = Map.empty" "threadNextID (kIntr k) = 0"
  shows "\<exists>idle reaper k' osize' C' L'. proc_init env k = ret k' \<and> started env idle reaper (kIntr k') \<and> booting R osize' C' n 0 L' k' \<and>
    MemVirt2Phys idle \<notin> R \<and> same_run ((kIntr k)\<lparr>ProcCurrProcess := ProcKernelProcess (kIntr k)\<rparr>) (kIntr k') \<and> kDevfs k' = kDevfs k"
proof -
  have b0: "booting R osize C (n + 9 + 2) 2 L k" using boot(1) by (simp add: add.commute)
  obtain cp ct k1 k2 L2 where 2: "on_slab (MemSlabCreate sizeof_ProcProcess 0) k = ret (cp, k1)" "on_slab (MemSlabCreate sizeof_ProcThread 0) k1 = ret (ct, k2)"
    "booting R (osize(ct := 100)) (insert ct C) (n + 9) 2 L2 k2" "mem_step k k2" using thread_cache_created [OF b0] by blast
  let ?C = "insert ct C" and ?size = "osize(ct := 100)"
  have b2: "booting R ?size ?C (Suc (n + 8)) 2 L2 k2" using 2(3) by (simp add: numeral_eq_Suc)
  have "table_state 2 1 (hTableProcess k2)" using mem_step_sel(3) [OF 2(4)] tables(1) by (simp add: table_state_def empty_table_def)
  from booting_grow [OF b2 this] obtain t k3 where 3: "on_pages (grow_table (hTableProcess k2)) k2 = ret (t, k3)"
    "booting R ?size ?C (n + 8) 1 L2 k3" "mem_step k2 k3" by blast
  have k3: "mem_step k k3" by (rule mem_step_trans [OF 2(4) 3(3)])
  define k4 where "k4 = k3\<lparr>cacheProcess := cp, cacheThread := ct, hTableProcess := count_item t, kIntr := init_kernel_process (kIntr k3)\<rparr>"
  have i4: "kIntr k4 = init_kernel_process (kIntr k3)" "cacheThread k4 = ct" "kSlab k4 = kSlab k3" "hTableThread k4 = empty_table" "kDevfs k4 = kDevfs k"
    using mem_step_sel(2,5) [OF k3] tables(2) by (simp_all add: k4_def)
  have b4: "booting R ?size ?C (n + 8) 1 L2 k4"
    by (rule booting_pages [OF 3(2)]) (use 3(2) booting_kernel_pages [OF 3(2)] in \<open>simp_all add: i4 init_kernel_process_fields booting_def\<close>)
  note f4 = init_kernel_process_fields [of "kIntr k3"] and i3 = mem_step_sel(1) [OF k3]
  have s0: "threadTable (kIntr k4) = Map.empty" "threadNextID (kIntr k4) = 0" using tables(3,4) unfolding i4 f4 by (subst i3, simp)+
  have caches: "cacheThread k4 \<in> ?C" "?size (cacheThread k4) = 100" "kAllocCache (kSlab k4) 0 \<in> ?C"
    using boot(2) mem_step_sel(6) [OF k3] by (simp_all add: i4)
  obtain idle reaper k5 k6 L6 where 6: "create_kernel_thread env (be_idleEntry env) ''idle'' k4 = ret (idle, k5)"
    "create_kernel_thread env (be_reaperEntry env) ''reaper'' (k5\<lparr>kIntr := (kIntr k5)\<lparr>ProcIdleThread := idle\<rparr>\<rparr>) = ret (reaper, k6)"
    "started env idle reaper ((kIntr k6)\<lparr>reaperThread := reaper\<rparr>)" "booting R ?size ?C n 0 L6 k6" "MemVirt2Phys idle \<notin> R"
    "same_run (kIntr k4) (kIntr k6)" "kDevfs k6 = kDevfs k4"
    using two_threads_started [OF b4 caches i4(4) s0, of env] f4(3-5) unfolding i4(1) by metis
  let ?k = "k6\<lparr>kIntr := (kIntr k6)\<lparr>reaperThread := reaper\<rparr>\<rparr>"
  have "proc_init env k = ret ?k" using 2(1,2) 3(1) 6(1,2) by (simp add: proc_init_def Let_def flip: k4_def)
  moreover have "booting R ?size ?C n 0 L6 ?k"
    by (rule booting_pages [OF 6(4)]) (use 6(4) booting_kernel_pages [OF 6(4)] in \<open>simp_all add: booting_def\<close>)
  moreover have "same_run ((kIntr k)\<lparr>ProcCurrProcess := ProcKernelProcess (kIntr k)\<rparr>) (kIntr k4)"
    unfolding same_run_def i4 f4 by (intro conjI) (subst i3, simp)+
  then have "same_run ((kIntr k)\<lparr>ProcCurrProcess := ProcKernelProcess (kIntr k)\<rparr>) (kIntr ?k)" using 6(6) by (simp add: same_run_def)
  ultimately show ?thesis using 6(3,5,7) i4(5) by (intro exI [of _ idle] exI [of _ reaper] exI [of _ ?k]) auto
qed

end
