(* ===== verification/Idle_Loop.thy ===== *)
theory Idle_Loop
  imports Interrupt
begin

text \<open>
  The idle thread of \<open>kernel/src/process/schedulerAsm.s\<close> together with the interrupt dispatcher, the timer and the
  scheduler: how an idle machine keeps the time, and how a thread that called \<open>TimerSleep\<close> runs again.
\<close>

section \<open>The loop\<close>

text \<open>
  \<open>ProcIntIdleThread\<close> halts until an interrupt comes and then calls \<open>ProcDoSchedule\<close>, for ever. The interrupts that
  arrive are given by their frames; the run ends with them, or with the switch to another thread.
\<close>

fun ProcIntIdleThread ::
  "(u32 \<Rightarrow> IntrContext \<Rightarrow> 'a intr_state_scheme \<Rightarrow> 'a intr_state_scheme flow run) \<Rightarrow> ('a intr_state_scheme \<Rightarrow> 'a intr_state_scheme) \<Rightarrow>
   (u32 \<Rightarrow> u32 \<Rightarrow> bool) \<Rightarrow> IntrContext list \<Rightarrow> user_mem \<Rightarrow> 'a intr_state_scheme \<Rightarrow> 'a intr_state_scheme flow run" where
  "ProcIntIdleThread driver others canWrite [] m s = ret (Goes s)"
| "ProcIntIdleThread driver others canWrite (c # frames) m s =
     flow_seq (IntrHandler driver others canWrite c m s) (\<lambda>(_, m1, s1).
       let s2 = ProcDoSchedule s1
       in if ProcCurrThread s2 = ProcCurrThread s1 then ProcIntIdleThread driver others canWrite frames m1 s2 else ret (Goes s2))"

section \<open>Ticks\<close>

text \<open>A timer interrupt that finds the processor in the kernel.\<close>

definition timer_frame :: "IntrContext \<Rightarrow> bool" where
  "timer_frame c \<longleftrightarrow> intrNum c = 0x20 \<and> cs c = 0x08"

text \<open>The idle thread is current, nothing can run, and \<open>q\<close> is the queue of the sleepers.\<close>

definition idle_waiting :: "TimerQueue list \<Rightarrow> 'a intr_state_scheme \<Rightarrow> bool" where
  "idle_waiting q s \<longleftrightarrow> ProcCurrThread s = ProcIdleThread s \<and> threadQueue s = [] \<and> sleepQueueHead s = q \<and> alarmQueueHead s = [] \<and>
     beepEndTime s = 0 \<and> (\<exists>e. IntrDispatchTable s 32 = (e, []) \<and> ie_handler e = Some TimerIrq)"

text \<open>What a tick changes when nobody wakes up.\<close>

definition ticked :: "'a intr_state_scheme \<Rightarrow> 'a intr_state_scheme" where
  "ticked s = s\<lparr>currentTime := currentTime s + PIT_TICKS_PER_INTERRUPT,
     TimerQuantum := (if TimerQuantum s > 0 then TimerQuantum s - 1 else TimerQuantum s), picEoi := picEoi s @ [0x20]\<rparr>"

lemma tick_positive: "0 < PIT_TICKS_PER_INTERRUPT"
  by (simp add: PIT_TICKS_PER_INTERRUPT_def)

lemma timer_irq_runs:
  assumes "idle_waiting q s" "timer_frame c"
  shows "IntrHandler driver others canWrite c m s = ret (Goes (c, m, end_of_interrupt 0x20 (TimerInterrupt s)))"
  using assms by (auto simp: idle_waiting_def timer_frame_def IntrHandler_def run_handler_def post_interrupt_def)

lemma ticked_fields [simp]:
  "idle_waiting q (ticked s) = idle_waiting q s" "currentTime (ticked s) = currentTime s + PIT_TICKS_PER_INTERRUPT"
  "threadAt (ticked s) = threadAt s" "ProcIdleThread (ticked s) = ProcIdleThread s" "picEoi (ticked s) = picEoi s @ [0x20]"
  by (simp_all add: idle_waiting_def ticked_def)

lemma ticked_pow:
  "currentTime ((ticked ^^ n) s) = currentTime s + int n * PIT_TICKS_PER_INTERRUPT" "threadAt ((ticked ^^ n) s) = threadAt s"
  "ProcIdleThread ((ticked ^^ n) s) = ProcIdleThread s" "picEoi ((ticked ^^ n) s) = picEoi s @ replicate n 0x20"
  "idle_waiting q ((ticked ^^ n) s) = idle_waiting q s"
  by (induction n) (simp_all add: algebra_simps replicate_append_same)

lemma quiet_pass:
  assumes "idle_waiting q s" "timer_frame c" "\<forall>e \<in> set q. currentTime s + PIT_TICKS_PER_INTERRUPT < endTime e"
  shows "ProcIntIdleThread driver others canWrite (c # frames) m s = ProcIntIdleThread driver others canWrite frames m (ticked s)"
proof -
  have "end_of_interrupt 0x20 (TimerInterrupt s) = ticked s" using assms(1,3)
    by (cases q) (simp_all add: idle_waiting_def TimerInterrupt_def end_of_interrupt_def ticked_def)
  moreover have "ProcDoSchedule (ticked s) = ticked s" using assms(1) by (simp add: ProcDoSchedule_def idle_waiting_def ticked_def)
  ultimately show ?thesis using timer_irq_runs [OF assms(1,2)] by simp
qed

text \<open>As long as every sleeper is later, ticks do nothing but count.\<close>

lemma idle_counts:
  assumes "idle_waiting q s" "list_all timer_frame frames" "\<forall>e \<in> set q. currentTime s + int (length frames) * PIT_TICKS_PER_INTERRUPT < endTime e"
  shows "ProcIntIdleThread driver others canWrite (frames @ rest) m s =
    ProcIntIdleThread driver others canWrite rest m ((ticked ^^ length frames) s)"
  using assms
proof (induction frames arbitrary: s)
  case (Cons c frames)
  have now: "currentTime s + PIT_TICKS_PER_INTERRUPT < endTime e" if "e \<in> set q" for e
  proof -
    have "0 \<le> int (length frames) * PIT_TICKS_PER_INTERRUPT" using tick_positive by simp
    then show ?thesis using bspec [OF Cons.prems(3) that] by (simp add: algebra_simps)
  qed
  have "ProcIntIdleThread driver others canWrite ((c # frames) @ rest) m s = ProcIntIdleThread driver others canWrite (frames @ rest) m (ticked s)"
    unfolding append_Cons by (rule quiet_pass [OF Cons.prems(1)]) (use Cons.prems(2) now in auto)
  also have "\<dots> = ProcIntIdleThread driver others canWrite rest m ((ticked ^^ length frames) (ticked s))"
    using Cons.prems by (intro Cons.IH) (simp_all add: algebra_simps)
  finally show ?case by (simp add: funpow_swap1)
qed simp

section \<open>A sleeper\<close>

text \<open>The pass that wakes it switches to it.\<close>

lemma waking_pass:
  assumes "idle_waiting [e] s" "timer_frame c" "endTime e \<le> currentTime s + PIT_TICKS_PER_INTERRUPT"
    and t: "tq_owner e = t" "t \<noteq> ProcIdleThread s" "t_state (threadAt s t) = PTS_INTR"
  shows "\<exists>s'. ProcIntIdleThread driver others canWrite (c # frames) m s = ret (Goes s') \<and> ProcCurrThread s' = t \<and>
    t_state (threadAt s' t) = PTS_RUNNING \<and> \<not> t_schedInterrupted (threadAt s' t) \<and> sleepQueueHead s' = [] \<and> threadQueue s' = [] \<and>
    currentTime s' = currentTime s + PIT_TICKS_PER_INTERRUPT"
proof -
  let ?s1 = "end_of_interrupt 0x20 (TimerInterrupt s)"
  have s1: "threadQueue ?s1 = [t]" "ProcCurrThread ?s1 = ProcIdleThread s" "t_state (threadAt ?s1 t) = PTS_RUNNING"
    "\<not> t_schedInterrupted (threadAt ?s1 t)" "sleepQueueHead ?s1 = []" "currentTime ?s1 = currentTime s + PIT_TICKS_PER_INTERRUPT"
    using assms by (simp_all add: idle_waiting_def TimerInterrupt_def end_of_interrupt_def ProcWakeUp_def ProcWakeUpSig_def Let_def upd_thread_def)
  have run: "ProcDoSchedule ?s1 = switch_to t (?s1\<lparr>threadQueue := []\<rparr>)" using s1(1,2) t(2) by (simp add: ProcDoSchedule_def)
  have frame: "sleepQueueHead (switch_to t u) = sleepQueueHead u" "currentTime (switch_to t u) = currentTime u" for u :: "'a intr_state_scheme"
    by (simp_all add: switch_to_def Let_def TimerResetQuantum_def CpuTaskSwitched_def DoFpuSwitch_def split: option.split)
  show ?thesis using timer_irq_runs [OF assms(1,2)] s1 t(2) by (simp add: run frame)
qed

lemma sleep_blocks:
  assumes "idle_waiting [] (s\<lparr>ProcCurrThread := ProcIdleThread s\<rparr>)" "ProcCurrThread s \<noteq> ProcIdleThread s" "\<not> ProcSignalIsPending (ProcCurrThread s) s"
  shows "\<exists>s1. fst (TimerSleep time item s) = Some s1 \<and>
    idle_waiting [\<lparr>tq_addr = item, tq_owner = ProcCurrThread s, endTime = time + currentTime s\<rparr>] s1 \<and> ProcIdleThread s1 = ProcIdleThread s \<and>
    t_state (threadAt s1 (ProcCurrThread s)) = PTS_INTR \<and> currentTime s1 = currentTime s"
proof -
  define e where "e = \<lparr>tq_addr = item, tq_owner = ProcCurrThread s, endTime = time + currentTime s\<rparr>"
  let ?s0 = "upd_thread (ProcCurrThread s) (\<lambda>t. t\<lparr>t_schedInterrupted := False, t_state := PTS_INTR\<rparr>) (s\<lparr>sleepQueueHead := [e]\<rparr>)"
  let ?s1 = "switch_to (ProcIdleThread s) ?s0"
  have "fst (TimerSleep time item s) = Some ?s1" using assms(1-3)
    by (simp add: TimerSleep_def ProcYieldBlock_def ProcDoSchedule_def idle_waiting_def ProcSignalIsPending_def e_def Let_def)
  moreover have "sleepQueueHead (switch_to t u) = sleepQueueHead u" "alarmQueueHead (switch_to t u) = alarmQueueHead u"
    "beepEndTime (switch_to t u) = beepEndTime u" "currentTime (switch_to t u) = currentTime u" "IntrDispatchTable (switch_to t u) = IntrDispatchTable u"
    for t and u :: "'a intr_state_scheme"
    by (simp_all add: switch_to_def Let_def TimerResetQuantum_def CpuTaskSwitched_def DoFpuSwitch_def split: option.split)
  ultimately show ?thesis using assms(1) by (intro exI [of _ ?s1]) (auto simp: idle_waiting_def upd_thread_def e_def)
qed


text \<open>Thread 7 sleeps for a time between two and three ticks.\<close>

definition demo_sleeper :: intr_state where
  "demo_sleeper = (snd (IntrRegister 0 0 (Some TimerIrq) demo_intr))\<lparr>ProcCurrThread := 7, ProcIdleThread := 1, threadQueue := [],
     sleepQueueHead := [], alarmQueueHead := [], beepEndTime := 0\<rparr>"


end
