(* ===== verification/Kernel_Boot.thy ===== *)
theory Kernel_Boot
  imports Kernel_Main Idle_Loop
begin

text \<open>
  The run of \<open>kMain\<close> (\<open>kernel/src/kMain.c\<close>) from the static data of the image to the first switch to the idle thread: what
  \<open>MemManagerInit\<close> leaves for the allocators, each step after it on the heap of the steps before, and the
  theorem that the kernel starts.
\<close>

section \<open>The memory manager\<close>

lemma directory_tables [simp]:
  "MemVirtualPageTables (virtual_directory img is s) = MemVirtualPageTables s" "allocData (virtual_directory img is s) = allocData s"
  "MemVirtualPageTables (huge_directory is s) = MemVirtualPageTables s" "allocData (huge_directory is s) = allocData s"
  "allocData (small_directory t is s) = allocData s"
proof -
  have fill: "allocData (fill_table t i js s) = allocData s" for t i js and s :: "'b vm_state_scheme"
    by (induction js arbitrary: s) (simp_all add: set_word_def)
  show "MemVirtualPageTables (virtual_directory img is s) = MemVirtualPageTables s" by (induction "is" arbitrary: s) (simp_all add: set_directory_def)
  show "allocData (virtual_directory img is s) = allocData s" by (induction "is" arbitrary: s) (simp_all add: set_directory_def)
  show "MemVirtualPageTables (huge_directory is s) = MemVirtualPageTables s" by (induction "is" arbitrary: s) (simp_all add: set_directory_def)
  show "allocData (huge_directory is s) = allocData s" by (induction "is" arbitrary: s) (simp_all add: set_directory_def)
  show "allocData (small_directory t is s) = allocData s" by (induction "is" arbitrary: s) (simp_all add: set_directory_def fill)
qed

lemma manager_init_tables:
  assumes "MemManagerInit boot img features junk s = ret s'"
  shows "allocData s' = allocData s" "MemVirtualPageTables s' = MemVirtualPageTables s \<or> MemVirtualPageTables s' = (MemVirtualPageTables s)(0 := 0)"
proof -
  obtain n t where loc: "GetPhysicalTableLocation boot img (\<not> bit features 3) junk = ret (n, t)"
    using assms by (auto simp: MemManagerInit_def Let_def simp del: upt_rec_numeral)
  note more = vm_more [OF fill_state_table_more]
  show "allocData s' = allocData s" "MemVirtualPageTables s' = MemVirtualPageTables s \<or> MemVirtualPageTables s' = (MemVirtualPageTables s)(0 := 0)"
    using assms loc by (auto simp: MemManagerInit_def Let_def more split: if_splits simp del: upt_rec_numeral)
qed

text \<open>The virtual region as the image has it: no page taken and none mapped.\<close>

definition fresh_virtual :: "'a vm_state_scheme \<Rightarrow> bool" where
  "fresh_virtual s \<longleftrightarrow> (\<forall>i. \<not> vp_allocated (allocData s i) \<and> \<not> e_present (MemVirtualPageTables s i))"

lemma fresh_virtual_room: "fresh_virtual s \<Longrightarrow> virtual_room 2 s"
proof -
  assume fresh: "fresh_virtual s"
  let ?F = "{i :: u32. unat i < 65532 \<and> \<not> vp_allocated (allocData s i)}"
  have "{0, 1} \<subseteq> ?F" using fresh by (simp add: fresh_virtual_def)
  then have "card {0, 1 :: u32} \<le> card ?F" by (rule card_mono [rotated]) simp
  then show ?thesis using fresh by (simp add: virtual_room_def unmapped_ok_def fresh_virtual_def)
qed

lemma manager_fresh: "MemManagerInit boot img features junk s = ret s' \<Longrightarrow> fresh_virtual s \<Longrightarrow> fresh_virtual s'"
  using manager_init_tables [of boot img features junk s s'] by (auto simp: fresh_virtual_def e_present_def split: if_splits)

text \<open>A machine on which the kernel starts: its memory ends below the window and \<open>m\<close> pages above 16 MB are left free.\<close>

definition enough_memory :: "nat \<Rightarrow> u32 \<Rightarrow> 'a phys_state_scheme \<Rightarrow> bool" where
  "enough_memory m n s \<longleftrightarrow> uint n \<le> MEM_KFIXED_MAX_PAGE \<and> m \<le> card {q. 0x1000 \<le> q \<and> q < uint n \<and> page_refs s q = 0}"

lemma manager_ready:
  assumes init: "zones s = (\<lambda>_. no_zone)" "MemManagerInit boot img features junk s = ret s'"
    and loc: "GetPhysicalTableLocation boot img (\<not> bit features 3) junk = ret (n, t)" and mem: "enough_memory (Suc m) n s'"
  shows "kernel_pages (Suc m) s'" "\<not> live_zone s' MEM_HIGHMEM"
proof -
  obtain e s2 where s': "s' = fill_state_table boot img n t e s2" "zones s2 = zones s" using manager_init_cases [OF init(2)] loc by auto
  let ?F = "{q. 0x1000 \<le> q \<and> q < uint n \<and> page_refs s' q = 0}"
  have small: "uint n \<le> MEM_KFIXED_MAX_PAGE" and many: "Suc m \<le> card ?F" using mem by (simp_all add: enough_memory_def)
  then obtain q where "q \<in> ?F" by (metis (no_types, lifting) all_not_in_conv card.empty not_less_eq_eq zero_le)
  then have q: "0x1000 \<le> q" "q < uint n" "q < MEM_KFIXED_MAX_PAGE" "page_refs s' q = 0" using small by simp_all
  note ready = boot_page_ready [OF init loc q]
  have "zones s' MEM_KERNEL = \<lparr>headPtr = 0x1000, zstart = 0x1000, zend = min (uint n) MEM_KFIXED_MAX_PAGE\<rparr>"
    unfolding s'(1) using init(1) s'(2) q by (intro kernel_zone) simp_all
  then have "zone_free (zones s' MEM_KERNEL) (page_refs s') = ?F" using small by (auto simp: zone_free_def)
  then show "kernel_pages (Suc m) s'" using ready many by (simp add: kernel_pages_def)
  show "\<not> live_zone s' MEM_HIGHMEM" using small init(1) s'
    by (simp add: fill_state_table_def Let_def MemPhysicalInit_def live_zone_def no_zone_def)
qed

text \<open>The pages of the image.\<close>

definition image_pages :: "kernel_image \<Rightarrow> MemPhysPage set" where
  "image_pages img = {0xA0..<uint (kernel_end_page img)}"

lemma image_pages_used:
  assumes "MemManagerInit boot img features junk s = ret s'" "GetPhysicalTableLocation boot img (\<not> bit features 3) junk = ret (n, t)"
    and "kernel_end_page img \<le> 0x100000" "kernel_end_page img \<le> n" "p \<in> image_pages img"
  shows "page_refs s' p \<noteq> 0"
proof -
  obtain e s2 where s': "s' = fill_state_table boot img n t e s2" using manager_init_cases [OF assms(1)] assms(2) by auto
  have k: "sint (kernel_end_page img) = uint (kernel_end_page img)" using assms(3) by (intro sint_low) (simp add: word_le_def)
  have "page_refs s' p = 1"
    using fill_state_table_marked [of n boot img t e s2] assms(4,5) k
    by (auto simp: s' marked_def boot_used_def word_le_def image_pages_def)
  then show ?thesis by simp
qed

section \<open>The steps after the memory manager\<close>

lemma slab_started:
  assumes root: "cacheAt (kSlab k) (rootCache (kSlab k)) = root_cache" "page_refs (pmm (kIntr k)) (MemVirt2Phys (rootCache (kSlab k))) \<noteq> 0"
    and pages: "kernel_pages (n + 12) (pmm (kIntr k))" "\<And>p. p \<in> R \<Longrightarrow> page_refs (pmm (kIntr k)) p \<noteq> 0"
    and rest: "\<not> live_zone (pmm (kIntr k)) MEM_HIGHMEM" "virtual_room v (pmm (kIntr k))"
  shows "\<exists>t m osize C L. on_slab (with_unit MemSlabInit) k = ret ((), k\<lparr>kSlab := t, kIntr := (kIntr k)\<lparr>pmm := m\<rparr>\<rparr>) \<and>
    booting R osize C n v L (k\<lparr>kSlab := t, kIntr := (kIntr k)\<lparr>pmm := m\<rparr>\<rparr>) \<and> kAllocCache t 0 \<in> C"
proof -
  have "cacheAt (heap_of k) (rootCache (heap_of k)) = root_cache" "page_refs (heap_of k) (MemVirt2Phys (rootCache (heap_of k))) \<noteq> 0"
    "kernel_pages (n + 12) (heap_of k)" "\<And>p. p \<in> R \<Longrightarrow> page_refs (heap_of k) p \<noteq> 0"
    using root pages by (simp_all add: heap_of_def kernel_pages_same [OF same_pages_slab_of])
  from slab_init_heap [OF this] obtain t L where t: "MemSlabInit (heap_of k) = ret t" "same_bounds (heap_of k) t"
    "slab_heap R ((\<lambda>_. 48)(kAllocCache t 0 := 8)) {rootCache (heap_of k), kAllocCache t 0} n L t" by blast
  let ?k = "k\<lparr>kSlab := t, kIntr := (kIntr k)\<lparr>pmm := with_pages t (pmm (kIntr k))\<rparr>\<rparr>"
  have "on_slab (with_unit MemSlabInit) k = ret ((), ?k)" using t(1) by (simp add: on_slab_def with_unit_def heap_of_def)
  moreover have "booting R ((\<lambda>_. 48)(kAllocCache t 0 := 8)) {rootCache (heap_of k), kAllocCache t 0} n v L ?k"
    using t(2,3) rest virtual_room_more [of "with_pages t (pmm (kIntr k))" "pmm (kIntr k)"]
    by (simp add: booting_def heap_of_def live_zone_def same_bounds_def)
  ultimately show ?thesis by blast
qed

lemma cpu_init_late_step:
  assumes "booting R osize C (Suc n) v L k"
  shows "\<exists>x k' L'. on_slab (CpuInitLate features) k = ret (x, k') \<and> booting R osize C n v L' k' \<and> mem_step k k'"
proof -
  have sizes: "(CPU_EXTRA_FXSAVE + 3) AND NOT 3 = 0x200" "(0x200 :: u32) < 8 * PAGE_SIZE" "(0x200 :: u32) \<noteq> 0"
    "(CPU_EXTRA_FPU + 3) AND NOT 3 = 0x6C" "(0x6C :: u32) < 8 * PAGE_SIZE" "(0x6C :: u32) \<noteq> 0"
    by (simp_all add: CPU_EXTRA_FXSAVE_def CPU_EXTRA_FPU_def PAGE_SIZE_def)
  have "CpuInitLate features = (MemSlabCreate (if CpuHasFxSave features then CPU_EXTRA_FXSAVE else CPU_EXTRA_FPU) 0 :: slab_state \<Rightarrow> _)"
    by (rule ext) (simp add: CpuInitLate_def)
  then show ?thesis using booting_create [OF assms sizes(1-3), of 0] booting_create [OF assms sizes(4-6), of 0] by (cases "CpuHasFxSave features") auto
qed

lemma block_cache_step:
  assumes "booting R osize C (Suc n) v L k"
  shows "\<exists>x k' L'. on_slab IoBlockCacheInit k = ret (x, k') \<and> booting R osize C n v L' k' \<and> mem_step k k'"
proof -
  have "IoBlockCacheInit = (MemSlabCreate sizeof_IoBlock 0 :: slab_state \<Rightarrow> _)" by (rule ext) (simp add: IoBlockCacheInit_def)
  then show ?thesis using booting_create [OF assms booting_sizes(7-9), of 0] by auto
qed

text \<open>What \<open>TimerInit\<close> leaves of the processes.\<close>

lemma timer_step:
  assumes "IntrDispatchTable s = initial_table" "picMaster s = 0xFB"
  shows "\<exists>ports s'. TimerInit cmos k s = ret (ports, s') \<and> handlers_of s' 0 = [TimerIrq] \<and> \<not> irq_masked s' 0 \<and> pmm s' = pmm s \<and>
    threadTable s' = threadTable s \<and> threadNextID s' = threadNextID s \<and> ProcCurrThread s' = ProcCurrThread s \<and>
    ProcKernelProcess s' = ProcKernelProcess s \<and> threadQueue s' = threadQueue s \<and>
    timer_view s' = (sint (TimerGetCMOSTime cmos), 0, sleepQueueHead s, alarmQueueHead s)"
proof -
  have vec: "irq_vector 0 = 32" "\<not> 32 < length exception_handlers" by (simp_all add: irq_vector_def exception_handlers_def)
  have mask: "\<not> bit (0xFB AND NOT 1 :: u8) 0" by (simp add: bit_iff_odd)
  show ?thesis using assms mask
    by (simp add: TimerInit_def IntrRegister_def Let_def initial_table_def vec empty_entry_def set_chain_def unmask_irq_def
        TimerBeepStop_def handlers_of_def irq_masked_def timer_view_def)
qed

lemma devfs_init_step:
  assumes "nxt (fsTypes d fsTypeHead) = fsTypeHead"
  shows "\<exists>d'. IoDevFsInit fuel m d = ret d'"
  using assms by (simp add: IoDevFsInit_def IoFilesystemRegister_def IoFilesystemFind_def find_type.simps Let_def)

lemma handlers_more: "proc_state.more s' = proc_state.more s \<Longrightarrow> handlers_of s' = handlers_of s \<and> irq_masked s' = irq_masked s"
  for s :: "'a intr_state_scheme"
  by (cases s; cases s') (simp add: handlers_of_def irq_masked_def fun_eq_iff)

lemma task_switched_frame [simp]:
  "procTable (CpuTaskSwitched t s) = procTable s" "threadTable (CpuTaskSwitched t s) = threadTable s" "kstack (CpuTaskSwitched t s) = kstack s"
  "kStackPointer (CpuTaskSwitched t s) = kStackPointer s" "reaperThread (CpuTaskSwitched t s) = reaperThread s"
  "proc_state.more (CpuTaskSwitched t s) = proc_state.more s" "timer_view (CpuTaskSwitched t u) = timer_view u"
  by (simp_all add: timer_view_def CpuTaskSwitched_def DoFpuSwitch_def Let_def split: option.splits)

text \<open>Nothing is in the queue, so the first switch is to the idle thread.\<close>

lemma self_exit_to_idle:
  assumes "started env idle reaper s" "threadQueue s = []" "ProcCurrThread s \<noteq> idle"
  shows "\<exists>s'. ProcIntSelfExit s = ret s' \<and> started env idle reaper s' \<and> ProcCurrThread s' = idle \<and> ProcCurrProcess s' = ProcKernelProcess s' \<and>
    threadQueue s' = [] \<and> timer_view s' = timer_view s \<and> proc_state.more s' = proc_state.more s"
proof -
  have idle: "ProcIdleThread s = idle" "t_parent (threadAt s idle) = ProcKernelProcess s" using assms(1) by (simp_all add: started_def)
  let ?s = "switch_to idle s"
  have "ProcIntSelfExit s = ret ?s" using assms(2,3) idle(1) by (simp add: ProcIntSelfExit_def ProcDoSchedule_def)
  moreover have frame: "procTable ?s = procTable s" "threadTable ?s = threadTable s" "kstack ?s = kstack s" "kStackPointer ?s = kStackPointer s"
    "reaperThread ?s = reaperThread s" "proc_state.more ?s = proc_state.more s" "timer_view ?s = timer_view s"
    by (simp_all add: switch_to_def Let_def idle(2)) (simp add: timer_view_def)
  moreover have "started env idle reaper ?s" using assms(1) by (simp add: started_def frame)
  ultimately show ?thesis using idle(2) assms(2) by (intro exI [of _ ?s]) simp
qed

section \<open>The start of the kernel\<close>

text \<open>The static data of the image that the start relies on.\<close>

definition fresh_kernel :: "kernel_image \<Rightarrow> kernel \<Rightarrow> bool" where
  "fresh_kernel img k \<longleftrightarrow> zones (pmm (kIntr k)) = (\<lambda>_. no_zone) \<and> fresh_virtual (pmm (kIntr k)) \<and>
     cacheAt (kSlab k) (rootCache (kSlab k)) = root_cache \<and> MemVirt2Phys (rootCache (kSlab k)) \<in> image_pages img \<and>
     IntrDispatchTable (kIntr k) = initial_table \<and> threadTable (kIntr k) = Map.empty \<and> threadNextID (kIntr k) = 0 \<and> threadQueue (kIntr k) = [] \<and>
     sleepQueueHead (kIntr k) = [] \<and> alarmQueueHead (kIntr k) = [] \<and> MemVirt2Phys (ProcCurrThread (kIntr k)) \<in> image_pages img \<and>
     hTableProcess k = empty_table \<and> hTableThread k = empty_table \<and>
     nxt (fsTypes (kDevfs k) fsTypeHead) = fsTypeHead"

text \<open>From the slab allocator to the first threads.\<close>

lemma kernel_threads_started:
  assumes boot: "booting R osize C (n + 12) 2 L k" "kAllocCache (kSlab k) 0 \<in> C"
    and intr: "IntrDispatchTable (kIntr k) = initial_table" "picMaster (kIntr k) = 0xFB"
    and tables: "hTableProcess k = empty_table" "hTableThread k = empty_table" "threadTable (kIntr k) = Map.empty" "threadNextID (kIntr k) = 0"
  shows "\<exists>fpu k3 ports i idle reaper k4 osize' C' L'. on_slab (CpuInitLate (be_features env)) k = ret (fpu, k3) \<and>
    TimerInit (be_cmos env) (be_keyboard env) (kIntr k3) = ret (ports, i) \<and>
    proc_init env (k3\<lparr>fpuStateCache := fpu, pitPorts := ports, kIntr := i\<rparr>) = ret k4 \<and> started env idle reaper (kIntr k4) \<and>
    booting R osize' C' n 0 L' k4 \<and> MemVirt2Phys idle \<notin> R \<and> handlers_of (kIntr k4) 0 = [TimerIrq] \<and> \<not> irq_masked (kIntr k4) 0 \<and>
    threadQueue (kIntr k4) = threadQueue (kIntr k) \<and> ProcCurrThread (kIntr k4) = ProcCurrThread (kIntr k) \<and> kDevfs k4 = kDevfs k \<and>
    timer_view (kIntr k4) = (sint (TimerGetCMOSTime (be_cmos env)), 0, sleepQueueHead (kIntr k), alarmQueueHead (kIntr k))"
proof -
  have b: "booting R osize C (Suc (n + 11)) 2 L k" using boot(1) by (simp add: numeral_eq_Suc)
  obtain fpu k3 L3 where 3: "on_slab (CpuInitLate (be_features env)) k = ret (fpu, k3)" "booting R osize C (n + 11) 2 L3 k3" "mem_step k k3"
    using cpu_init_late_step [OF b] by blast
  note i3 = mem_step_sel(1) [OF 3(3)]
  have "IntrDispatchTable (kIntr k3) = initial_table" "picMaster (kIntr k3) = 0xFB" using intr by (subst i3, simp)+
  from timer_step [OF this, of "be_cmos env" "be_keyboard env"] obtain ports i where t: "TimerInit (be_cmos env) (be_keyboard env) (kIntr k3) = ret (ports, i)"
    "handlers_of i 0 = [TimerIrq]" "\<not> irq_masked i 0" "pmm i = pmm (kIntr k3)" "threadTable i = threadTable (kIntr k3)"
    "threadNextID i = threadNextID (kIntr k3)" "ProcCurrThread i = ProcCurrThread (kIntr k3)" "threadQueue i = threadQueue (kIntr k3)"
    "timer_view i = (sint (TimerGetCMOSTime (be_cmos env)), 0, sleepQueueHead (kIntr k3), alarmQueueHead (kIntr k3))" by blast
  let ?k = "k3\<lparr>fpuStateCache := fpu, pitPorts := ports, kIntr := i\<rparr>"
  have same: "threadTable i = threadTable (kIntr k)" "threadNextID i = threadNextID (kIntr k)" "ProcCurrThread i = ProcCurrThread (kIntr k)"
    "threadQueue i = threadQueue (kIntr k)"
    "timer_view i = (sint (TimerGetCMOSTime (be_cmos env)), 0, sleepQueueHead (kIntr k), alarmQueueHead (kIntr k))"
    unfolding t by (subst i3, simp)+
  have "booting R osize C (n + 11) 2 L3 ?k"
    by (rule booting_pages [OF 3(2)]) (use 3(2) booting_kernel_pages [OF 3(2)] t(4) in \<open>simp_all add: booting_def\<close>)
  moreover have "kAllocCache (kSlab ?k) 0 \<in> C" "hTableProcess ?k = empty_table" "hTableThread ?k = empty_table"
    "threadTable (kIntr ?k) = Map.empty" "threadNextID (kIntr ?k) = 0"
    using boot(2) tables mem_step_sel(2,3,6) [OF 3(3)] by (simp_all add: same)
  ultimately obtain idle reaper k4 osize' C' L' where 4: "proc_init env ?k = ret k4" "started env idle reaper (kIntr k4)" "booting R osize' C' n 0 L' k4"
    "MemVirt2Phys idle \<notin> R" "same_run (i\<lparr>ProcCurrProcess := ProcKernelProcess i\<rparr>) (kIntr k4)" "kDevfs k4 = kDevfs ?k"
    using proc_init_started [of R osize C n L3 ?k env] by auto
  have "handlers_of (kIntr k4) = handlers_of i" "irq_masked (kIntr k4) = irq_masked i"
    using 4(5) handlers_more [of "kIntr k4" i] by (simp_all add: same_run_def)
  then show ?thesis using 3(1) t(1-3) 4 same mem_step_sel(5) [OF 3(3)]
    by (intro exI [of _ fpu] exI [of _ k3] exI [of _ ports] exI [of _ i] exI [of _ idle] exI [of _ reaper] exI [of _ k4]) (auto simp: same_run_def)
qed

text \<open>The two allocators of memory, on the pages of the image and behind it.\<close>

lemma heap_started:
  assumes init: "MemManagerInit boot img features junk (pmm (kIntr k)) = ret mm"
    and loc: "GetPhysicalTableLocation boot img (\<not> bit features 3) junk = ret (n, t)"
    and mem: "enough_memory 25 n mm" "kernel_end_page img \<le> 0x100000" "kernel_end_page img \<le> n" and fresh: "fresh_kernel img k"
  shows "\<exists>k1 s m osize C L. on_pages (with_unit (MemManagerInit boot img features junk)) k = ret ((), k1) \<and>
    on_slab (with_unit MemSlabInit) k1 = ret ((), k\<lparr>kSlab := s, kIntr := (kIntr k)\<lparr>pmm := m\<rparr>\<rparr>) \<and>
    booting {MemVirt2Phys (ProcCurrThread (kIntr k))} osize C 13 2 L (k\<lparr>kSlab := s, kIntr := (kIntr k)\<lparr>pmm := m\<rparr>\<rparr>) \<and> kAllocCache s 0 \<in> C"
proof -
  let ?R = "{MemVirt2Phys (ProcCurrThread (kIntr k))}" and ?k1 = "k\<lparr>kIntr := (kIntr k)\<lparr>pmm := mm\<rparr>\<rparr>"
  have mm: "kernel_pages (13 + 12) mm" "\<not> live_zone mm MEM_HIGHMEM" "virtual_room 2 mm"
    using manager_ready [OF _ init loc, of 24] fresh mem(1) fresh_virtual_room [OF manager_fresh [OF init]] by (simp_all add: fresh_kernel_def)
  have used: "page_refs mm p \<noteq> 0" if "p \<in> image_pages img" for p by (rule image_pages_used [OF init loc mem(2,3) that])
  have "\<exists>s m osize C L. on_slab (with_unit MemSlabInit) ?k1 = ret ((), ?k1\<lparr>kSlab := s, kIntr := (kIntr ?k1)\<lparr>pmm := m\<rparr>\<rparr>) \<and>
    booting ?R osize C 13 2 L (?k1\<lparr>kSlab := s, kIntr := (kIntr ?k1)\<lparr>pmm := m\<rparr>\<rparr>) \<and> kAllocCache s 0 \<in> C"
    by (rule slab_started) (use fresh used mm in \<open>auto simp: fresh_kernel_def\<close>)
  moreover have "on_pages (with_unit (MemManagerInit boot img features junk)) k = ret ((), ?k1)" using init by (simp add: on_pages_def with_unit_def)
  ultimately show ?thesis by (intro exI [of _ ?k1]) simp
qed

text \<open>The block cache, devfs, and the switch to the idle thread.\<close>

lemma boot_finished:
  assumes boot: "booting R osize C 1 0 L k" "started env idle reaper (kIntr k)" "MemVirt2Phys idle \<noteq> MemVirt2Phys (ProcCurrThread (kIntr k))"
    and fresh: "threadQueue (kIntr k) = []" "nxt (fsTypes (kDevfs k) fsTypeHead) = fsTypeHead"
  shows "\<exists>blocks k5 d j. on_slab IoBlockCacheInit k = ret (blocks, k5) \<and> IoDevFsInit fuel names (kDevfs k5) = ret d \<and>
    ProcIntSelfExit ((kIntr k5)\<lparr>pmm := MemFreeInitPages img (pmm (kIntr k5))\<rparr>) = ret j \<and> started env idle reaper j \<and>
    ProcCurrThread j = idle \<and> ProcCurrProcess j = ProcKernelProcess j \<and> threadQueue j = [] \<and> timer_view j = timer_view (kIntr k) \<and>
    proc_state.more j = proc_state.more (kIntr k)"
proof -
  obtain blocks k5 where 5: "on_slab IoBlockCacheInit k = ret (blocks, k5)" "mem_step k k5" using block_cache_step [of R osize C 0 0 L k] boot(1) by auto
  obtain d where d: "IoDevFsInit fuel names (kDevfs k5) = ret d" using devfs_init_step fresh(2) mem_step_sel(5) [OF 5(2)] by metis
  let ?m = "MemFreeInitPages img (pmm (kIntr k5))"
  have i5: "(kIntr k5)\<lparr>pmm := ?m\<rparr> = (kIntr k)\<lparr>pmm := ?m\<rparr>" by (subst (1) mem_step_sel(1) [OF 5(2)]) simp
  have "started env idle reaper ((kIntr k)\<lparr>pmm := ?m\<rparr>)" using boot(2) by (simp add: started_def)
  then have "\<exists>j. ProcIntSelfExit ((kIntr k)\<lparr>pmm := ?m\<rparr>) = ret j \<and> started env idle reaper j \<and> ProcCurrThread j = idle \<and>
    ProcCurrProcess j = ProcKernelProcess j \<and> threadQueue j = [] \<and> timer_view j = timer_view (kIntr k) \<and> proc_state.more j = proc_state.more (kIntr k)"
    using self_exit_to_idle [of env idle reaper "(kIntr k)\<lparr>pmm := ?m\<rparr>"] boot(3) fresh(1) by auto
  then show ?thesis using 5(1) d i5 by (intro exI [of _ blocks] exI [of _ k5] exI [of _ d]) simp
qed

text \<open>The clock of the idle machine.\<close>

lemma started_ticked: "started env idle reaper ((ticked ^^ n) s) = started env idle reaper s"
  by (induction n) (simp_all add: started_def ticked_def)

lemma clock_runs:
  assumes s: "started env idle reaper s" "ProcCurrThread s = idle" "threadQueue s = []" "timer_view s = (now, 0, [], [])" "handlers_of s 0 = [TimerIrq]"
    and frames: "list_all timer_frame frames"
  shows "\<exists>s'. ProcIntIdleThread driver others canWrite frames m s = ret (Goes s') \<and> started env idle reaper s' \<and> ProcCurrThread s' = idle \<and>
    currentTime s' = now + int (length frames) * PIT_TICKS_PER_INTERRUPT"
proof -
  have "\<exists>e. IntrDispatchTable s 32 = (e, []) \<and> ie_handler e = Some TimerIrq"
    using s(5) by (cases "IntrDispatchTable s 32") (auto simp: handlers_of_def irq_vector_def split: if_splits)
  then have wait: "idle_waiting [] s" using s(1-4) by (simp add: idle_waiting_def timer_view_def started_def)
  then have "idle_waiting [] ((ticked ^^ length frames) s)" by (simp add: ticked_pow)
  then show ?thesis using idle_counts [OF wait frames, of driver others canWrite "[]" m] s(1,4)
    by (intro exI [of _ "(ticked ^^ length frames) s"]) (simp add: started_ticked ticked_pow timer_view_def idle_waiting_def started_def [of _ _ _ s])
qed

text \<open>The run of \<open>kMain\<close>, step by step.\<close>

lemma boot_run:
  assumes fresh: "fresh_kernel (be_image env) k" and lists: "read_boot (be_memory env) (be_info env) = Some boot"
    and init: "MemManagerInit boot (be_image env) (be_features env) (be_junk env) (pmm (kIntr k)) = ret mm"
    and loc: "GetPhysicalTableLocation boot (be_image env) (\<not> bit (be_features env) 3) (be_junk env) = ret (n, t)"
    and mem: "enough_memory 25 n mm" "kernel_end_page (be_image env) \<le> 0x100000" "kernel_end_page (be_image env) \<le> n"
  shows "\<exists>k' idle reaper. kMain env MULTIBOOT_BOOTLOADER_MAGIC k = ret k' \<and> started env idle reaper (kIntr k') \<and> ProcCurrThread (kIntr k') = idle \<and>
      ProcCurrProcess (kIntr k') = ProcKernelProcess (kIntr k') \<and> threadQueue (kIntr k') = [] \<and>
      timer_view (kIntr k') = (sint (TimerGetCMOSTime (be_cmos env)), 0, [], []) \<and> handlers_of (kIntr k') 0 = [TimerIrq] \<and> \<not> irq_masked (kIntr k') 0"
proof -
  let ?R = "{MemVirt2Phys (ProcCurrThread (kIntr k))}" and ?f = "be_features env"
  define k0 where "k0 = k\<lparr>kVideo := memset 0xC00B8000 0 0xFA0 (kVideo k), kIntr := cpu_found env (IntrInit (be_isrList env) (be_isr66 env) (kIntr k))\<rparr>"
  have i0: "pmm (kIntr k0) = pmm (kIntr k)" "ProcCurrThread (kIntr k0) = ProcCurrThread (kIntr k)" "threadQueue (kIntr k0) = threadQueue (kIntr k)"
    "kDevfs k0 = kDevfs k" by (simp_all add: k0_def cpu_found_def IntrInit_def Let_def)
  have fresh0: "fresh_kernel (be_image env) k0" "picMaster (kIntr k0) = 0xFB" using fresh by (simp_all add: fresh_kernel_def k0_def cpu_found_def IntrInit_def Let_def)
  have init0: "MemManagerInit boot (be_image env) ?f (be_junk env) (pmm (kIntr k0)) = ret mm" using init i0(1) by simp
  obtain k1 s m osize C L where 1: "on_pages (with_unit (MemManagerInit boot (be_image env) ?f (be_junk env))) k0 = ret ((), k1)"
    "on_slab (with_unit MemSlabInit) k1 = ret ((), k0\<lparr>kSlab := s, kIntr := (kIntr k0)\<lparr>pmm := m\<rparr>\<rparr>)"
    "booting ?R osize C 13 2 L (k0\<lparr>kSlab := s, kIntr := (kIntr k0)\<lparr>pmm := m\<rparr>\<rparr>)" "kAllocCache s 0 \<in> C"
    using heap_started [OF init0 loc mem fresh0(1)] unfolding i0 by blast
  define k2 where "k2 = k0\<lparr>kSlab := s, kIntr := (kIntr k0)\<lparr>pmm := m\<rparr>\<rparr>"
  have k2: "IntrDispatchTable (kIntr k2) = initial_table" "picMaster (kIntr k2) = 0xFB" "hTableProcess k2 = empty_table" "hTableThread k2 = empty_table"
    "threadTable (kIntr k2) = Map.empty" "threadNextID (kIntr k2) = 0" "kAllocCache (kSlab k2) 0 \<in> C" "threadQueue (kIntr k2) = []"
    "ProcCurrThread (kIntr k2) = ProcCurrThread (kIntr k)" "nxt (fsTypes (kDevfs k2) fsTypeHead) = fsTypeHead"
    "sleepQueueHead (kIntr k2) = []" "alarmQueueHead (kIntr k2) = []" using fresh0 1(4) i0 by (simp_all add: fresh_kernel_def k2_def)
  have b2: "booting ?R osize C (1 + 12) 2 L k2" using 1(3) by (simp add: k2_def)
  from kernel_threads_started [OF b2 k2(7,1-6), of env, unfolded k2(8,9,11,12)] obtain fpu k3 ports i idle reaper k4 osize' C' L' where
    4: "on_slab (CpuInitLate ?f) k2 = ret (fpu, k3)" "TimerInit (be_cmos env) (be_keyboard env) (kIntr k3) = ret (ports, i)"
      "proc_init env (k3\<lparr>fpuStateCache := fpu, pitPorts := ports, kIntr := i\<rparr>) = ret k4" "started env idle reaper (kIntr k4)"
      "booting ?R osize' C' 1 0 L' k4" "MemVirt2Phys idle \<notin> ?R" "handlers_of (kIntr k4) 0 = [TimerIrq]" "\<not> irq_masked (kIntr k4) 0"
      "threadQueue (kIntr k4) = []" "ProcCurrThread (kIntr k4) = ProcCurrThread (kIntr k)" "kDevfs k4 = kDevfs k2"
      "timer_view (kIntr k4) = (sint (TimerGetCMOSTime (be_cmos env)), 0, [], [])" by blast
  have other: "MemVirt2Phys idle \<noteq> MemVirt2Phys (ProcCurrThread (kIntr k4))" "nxt (fsTypes (kDevfs k4) fsTypeHead) = fsTypeHead"
    using 4(6,10,11) k2(10) by simp_all
  obtain blocks k5 d j where 5: "on_slab IoBlockCacheInit k4 = ret (blocks, k5)" "IoDevFsInit (be_nameFuel env) (be_memory env) (kDevfs k5) = ret d"
    "ProcIntSelfExit ((kIntr k5)\<lparr>pmm := MemFreeInitPages (be_image env) (pmm (kIntr k5))\<rparr>) = ret j"
    and j: "started env idle reaper j" "ProcCurrThread j = idle" "ProcCurrProcess j = ProcKernelProcess j" "threadQueue j = []"
      "timer_view j = timer_view (kIntr k4)" "proc_state.more j = proc_state.more (kIntr k4)"
    using boot_finished [OF 4(5,4) other(1) 4(9) other(2)] by blast
  let ?k = "k5\<lparr>blockHeadCache := blocks, kDevfs := d, kIntr := j\<rparr>"
  have main: "kMain env MULTIBOOT_BOOTLOADER_MAGIC k = ret ?k"
    using lists 1(1,2) 4(1-3) 5 by (simp add: kMain_def Let_def flip: k0_def k2_def)
  moreover have "handlers_of j 0 = [TimerIrq]" "\<not> irq_masked j 0" using handlers_more [OF j(6)] 4(7,8) by simp_all
  ultimately show ?thesis using j(1-5) 4(12) by (intro exI [of _ ?k]) auto
qed


text \<open>33 megabytes above the first one, in the form a boot loader writes, and an image with the root cache in page
  \<open>0x120\<close> and the thread of the start in page \<open>0x110\<close>.\<close>

definition big_bytes :: mem where
  "big_bytes a = (let i = unat (a - 0xC0000000); bs = concat (map enc_entry [(hd (bi_mmap big_boot), [])]) in if i < length bs then bs ! i else 0)"

definition big_info :: multiboot_info where
  "big_info = \<lparr>mb_flags = 0, mods_count = 0, mods_addr = 0, mmap_length = 24, mmap_addr = 0\<rparr>"

definition demo_env :: boot_env where
  "demo_env = \<lparr>be_image = demo_image, be_memory = big_bytes, be_info = big_info, be_junk = 0, be_features = 8, be_daz = False, be_isrList = (\<lambda>_. 0), be_isr66 = 0,
     be_cmos = noon_registers, be_keyboard = 0, be_threadReturn = 0xC0100010, be_idleEntry = 0xC0100020, be_reaperEntry = 0xC0100030, be_nameFuel = 1\<rparr>"

definition demo_kernel :: kernel where
  "demo_kernel = \<lparr>kIntr = demo_intr\<lparr>pmm := demo_mm, ProcCurrThread := 0xC0110000, threadQueue := [], sleepQueueHead := [], alarmQueueHead := []\<rparr>,
     kSlab = demo_start\<lparr>rootCache := 0xC0120000\<rparr>,
     kDevfs = demo_devfs, kVideo = (\<lambda>_. 7), hTableProcess = empty_table, hTableThread = empty_table, fpuStateCache = 0, cacheProcess = 0,
     cacheThread = 0, blockHeadCache = 0, pitPorts = []\<rparr>"

lemma big_read: "read_boot big_bytes big_info = Some big_boot"
proof -
  let ?es = "[(hd (bi_mmap big_boot), [])] :: (multiboot_mmap_entry \<times> u8 list) list"
  have "holds big_bytes 0xC0000000 (concat (map enc_entry ?es))"
    by (simp add: big_bytes_def big_boot_def enc_entry_def enc64_def enc32_def Let_def)
  from mmap_walk_enc [OF this] show ?thesis
    by (simp add: read_boot_def boot_modules_def MMAP_FOREACH_def big_info_def big_boot_def enc_entry_def enc64_def enc32_def)
qed

lemma demo_kernel_fresh: "fresh_kernel demo_image demo_kernel"
proof -
  have "MemVirt2Phys 0xC0120000 = 0x120" "MemVirt2Phys 0xC0110000 = 0x110" by (simp_all add: MemVirt2Phys_def KERNEL_VIRTUAL_BASE_def signed_divide_int_def)
  then show ?thesis
    by (simp add: fresh_kernel_def demo_kernel_def image_pages_def demo_image_def demo_start_def demo_mm_def blank_vm_def vm_state.defs fresh_virtual_def
        e_present_def demo_devfs_def vfs_state.defs demo_vfs_def io_state.defs)
      (simp add: demo_intr_def proc_state.defs demo_proc_defs)
qed

lemma big_memory: "MemManagerInit big_boot demo_image 8 0 demo_mm = ret mm \<Longrightarrow> enough_memory 25 0x2100 mm"
proof -
  assume init: "MemManagerInit big_boot demo_image 8 0 demo_mm = ret mm"
  have bit3: "bit (8 :: u32) 3" by (simp add: bit_iff_odd)
  from manager_init_cases [OF init] obtain e s2 where mm: "mm = fill_state_table big_boot demo_image 0x2100 0x140 e s2"
    and e: "e \<le> 0x140 + uint (((0x2100 :: u32) * 8 + 4095) div 4096) + uint (((0x2100 :: u32) * 4 + 4095) div 4096)"
    using bit3 by (auto simp: big_location)
  have "e \<le> 0x15A" using e by simp
  then have free: "q \<notin> boot_used big_boot demo_image 0x2100 0x140 e" if "0x1000 \<le> q" for q
    using that by (auto simp: boot_used_def big_boot_def demo_image_def is_reserved_def MULTIBOOT_MEMORY_AVAILABLE_def)
  let ?F = "{q. 0x1000 \<le> q \<and> q < uint (0x2100 :: u32) \<and> page_refs mm q = 0}"
  have "?F = {0x1000..<0x2100}" using fill_state_table_marked [of "0x2100" big_boot demo_image "0x140" e s2] free by (auto simp: mm marked_def)
  then show ?thesis by (simp add: enough_memory_def kfixed_max)
qed


end
