(* ===== verification/Exit_Wait.thy ===== *)
theory Exit_Wait
  imports Process
begin

text \<open>
  A child's exit meets its parent's wait: \<open>ProcWaitProcess\<close> and \<open>ProcExitProcess\<close> of
  \<open>kernel/src/process/process.c\<close> together with the scheduler, the wake-up and the signal code between them.

  What the other threads do while the parent is blocked is the argument of the wait; here it is
  \<open>exit_then_yield\<close>: the child leaves, and every thread that was queued yields once it has run.
\<close>

definition exit_then_yield :: "(u32 \<Rightarrow> io_state IoFileOps) \<Rightarrow> u32 \<Rightarrow> nat \<Rightarrow> 'a proc_state_scheme \<Rightarrow> 'a proc_state_scheme" where
  "exit_then_yield ops code n s =
     (case ProcExitProcess ops code s of Some (Returns s') \<Rightarrow> (ProcYield ^^ n) s' | _ \<Rightarrow> s)"

section \<open>The woken thread gets its turn\<close>

lemma switch_tables [simp]:
  "procTable (switch_to t s) = procTable s" "slabFreed (switch_to t s) = slabFreed s"
  by (simp_all add: switch_to_def Let_def TimerResetQuantum_def CpuTaskSwitched_def DoFpuSwitch_def split: option.split)

lemma schedule_tables [simp]:
  "procTable (ProcDoSchedule s) = procTable s" "slabFreed (ProcDoSchedule s) = slabFreed s"
  "ProcKernelProcess (ProcDoSchedule s) = ProcKernelProcess s"
  by (simp_all add: ProcDoSchedule_def split: list.split)

text \<open>When the current thread gives up the processor and every thread in front of \<open>t\<close> yields, \<open>t\<close> runs, and
  the yields have changed neither it, nor any process, nor what state a thread is in.\<close>

lemma turn_comes:
  assumes "threadQueue s = xs @ t # ys" "t \<notin> set (ProcCurrThread s # xs)"
  defines "s' \<equiv> (ProcYield ^^ length xs) (ProcDoSchedule s)"
  shows "ProcCurrThread s' = t \<and> ProcCurrProcess s' = t_parent (threadAt s t) \<and> processAt s' = processAt s \<and>
    threadAt s' t = threadAt s t \<and> (\<forall>u. t_state (threadAt s' u) = t_state (threadAt s u)) \<and>
    ProcKernelProcess s' = ProcKernelProcess s \<and> procTable s' = procTable s \<and> slabFreed s' = slabFreed s"
  using assms(1,2) unfolding s'_def
proof (induction xs arbitrary: s ys)
  case Nil
  then show ?case by (auto simp: ProcDoSchedule_def)
next
  case (Cons x xs)
  let ?s1 = "ProcDoSchedule s"
  let ?s2 = "(upd_thread x (t_schedInterrupted_update (\<lambda>_. False)) ?s1)\<lparr>threadQueue := (xs @ t # ys) @ [x]\<rparr>"
  have s1: "ProcCurrThread ?s1 = x" "threadQueue ?s1 = xs @ t # ys" using Cons.prems(1) by (simp_all add: ProcDoSchedule_def)
  then have "ProcYield ?s1 = ProcDoSchedule ?s2" by (simp add: ProcYield_def Let_def)
  then have "(ProcYield ^^ length (x # xs)) ?s1 = (ProcYield ^^ length xs) (ProcDoSchedule ?s2)" by (simp add: funpow_swap1)
  then show ?case using Cons.IH [of ?s2 "ys @ [x]"] Cons.prems(2) s1 by simp
qed

section \<open>The child's exit\<close>

lemma wake_waiting_none:
  "\<forall>t \<in> set ts. \<not> (t_state (threadAt s t) = PTS_INTR \<and> t_waitMode (threadAt s t) = mode) \<Longrightarrow> wake_waiting mode ts s = s"
  by (induction ts) auto

lemma wake_waiting_one:
  assumes "distinct ts" "t \<in> set ts"
    and "\<forall>u \<in> set ts. (t_state (threadAt s u) = PTS_INTR \<and> t_waitMode (threadAt s u) = mode) = (u = t)"
  shows "wake_waiting mode ts s = ProcWakeUp t s"
  using assms
proof (induction ts)
  case (Cons u ts)
  show ?case
  proof (cases "u = t")
    case True
    then have "\<forall>v \<in> set ts. threadAt (ProcWakeUp t s) v = threadAt s v" "t_state (threadAt s t) = PTS_INTR"
      using Cons.prems(1,3) by (auto simp: ProcWakeUp_def ProcWakeUpSig_def Let_def split: ProcThreadState.splits)
    then show ?thesis using Cons.prems True by (subst wake_waiting.simps) (auto intro!: wake_waiting_none)
  next
    case False
    then show ?thesis using Cons by auto
  qed
qed simp

lemma unset_process_fields:
  "p_alarmPtr x = None \<Longrightarrow> p_alarmPtr_update (\<lambda>_. None) x = x"
  "p_memContext x = 0 \<Longrightarrow> p_memContext_update (\<lambda>_. 0) x = x" "p_ioContext x = 0 \<Longrightarrow> p_ioContext_update (\<lambda>_. 0) x = x"
  for x :: ProcProcess
  by (cases x; simp)+

lemma alarm_cleared_frame [simp]:
  fixes s :: "'a proc_state_scheme" and e :: u32
  defines "s' \<equiv> snd (TimerSetAlarm 0 e s)"
  shows "threadAt s' = threadAt s" "ProcCurrThread s' = ProcCurrThread s" "ProcCurrProcess s' = ProcCurrProcess s"
    "ProcKernelProcess s' = ProcKernelProcess s" "threadQueue s' = threadQueue s" "procTable s' = procTable s"
    "slabFreed s' = slabFreed s"
    "processAt s' = (processAt s)(ProcCurrProcess s := p_alarmPtr_update (\<lambda>_. None) (processAt s (ProcCurrProcess s)))"
  unfolding s'_def
  by (cases "p_alarmPtr (processAt s (ProcCurrProcess s))"; simp add: TimerSetAlarm_def Let_def unset_process_fields)+

lemma release_frame [simp]:
  "threadAt (release_contexts ops p s) = threadAt s" "ProcCurrThread (release_contexts ops p s) = ProcCurrThread s"
  "ProcCurrProcess (release_contexts ops p s) = ProcCurrProcess s"
  "ProcKernelProcess (release_contexts ops p s) = ProcKernelProcess s"
  "threadQueue (release_contexts ops p s) = threadQueue s" "procTable (release_contexts ops p s) = procTable s"
  "slabFreed (release_contexts ops p s) = slabFreed s"
  by (simp_all add: release_contexts_def Let_def)

lemma release_processes [simp]:
  "processAt (release_contexts ops p s) = (processAt s)(p := (processAt s p)\<lparr>p_memContext := 0, p_ioContext := 0\<rparr>)"
  by (cases "p_memContext (processAt s p) = 0"; cases "p_ioContext (processAt s p) = 0")
    (simp_all add: release_contexts_def Let_def unset_process_fields)

lemma disown_frame [simp]:
  "threadAt (ProcDisownChildren p s) = threadAt s" "ProcCurrThread (ProcDisownChildren p s) = ProcCurrThread s"
  "ProcCurrProcess (ProcDisownChildren p s) = ProcCurrProcess s" "threadQueue (ProcDisownChildren p s) = threadQueue s"
  "ProcKernelProcess (ProcDisownChildren p s) = ProcKernelProcess s" "procTable (ProcDisownChildren p s) = procTable s"
  "slabFreed (ProcDisownChildren p s) = slabFreed s"
  by (simp_all add: ProcDisownChildren_def Let_def)

lemma disown_processes:
  "q \<noteq> ProcKernelProcess s \<Longrightarrow> p \<noteq> ProcKernelProcess s \<Longrightarrow>
     processAt (ProcDisownChildren p s) q = (if q = p then p_children_update (\<lambda>_. []) (processAt s q) else processAt s q)"
  "p_zombie (processAt (ProcDisownChildren p s) q) = p_zombie (processAt s q)"
  by (simp_all add: ProcDisownChildren_def Let_def)

text \<open>Process \<open>c\<close> has the thread \<open>u\<close> only; \<open>t\<close> is a thread of its parent, which leaves \<open>SIGCLD\<close> ignored, and
  no other thread of the parent waits for a process.\<close>

definition parent_and_child :: "u32 \<Rightarrow> u32 \<Rightarrow> u32 \<Rightarrow> 'a proc_state_scheme \<Rightarrow> bool" where
  "parent_and_child t c u s \<longleftrightarrow>
     (let p = p_parent (processAt s c) in
      p \<noteq> c \<and> p \<noteq> ProcKernelProcess s \<and> c \<noteq> ProcKernelProcess s \<and>
      t_parent (threadAt s t) = p \<and> t_parent (threadAt s u) = c \<and> p_threads (processAt s c) = [u] \<and>
      t \<in> set (p_threads (processAt s p)) \<and> u \<notin> set (p_threads (processAt s p)) \<and> distinct (p_threads (processAt s p)) \<and>
      (\<forall>v \<in> set (p_threads (processAt s p)). v \<noteq> t \<longrightarrow>
         \<not> (t_state (threadAt s v) = PTS_INTR \<and> t_waitMode (threadAt s v) = PWM_PROCESS)) \<and>
      SignalIsIgnored p SIGCLD s)"

lemma parent_and_childD:
  assumes "parent_and_child t c u s"
  defines "p \<equiv> p_parent (processAt s c)"
  shows "p \<noteq> c" "p \<noteq> ProcKernelProcess s" "c \<noteq> ProcKernelProcess s" "t \<noteq> u" "t_parent (threadAt s t) = p"
    "t_parent (threadAt s u) = c" "p_threads (processAt s c) = [u]" "distinct (p_threads (processAt s p))"
    "t \<in> set (p_threads (processAt s p))" "u \<notin> set (p_threads (processAt s p))" "SignalIsIgnored p SIGCLD s"
    "\<forall>v \<in> set (p_threads (processAt s p)). v \<noteq> t \<longrightarrow> \<not> (t_state (threadAt s v) = PTS_INTR \<and> t_waitMode (threadAt s v) = PWM_PROCESS)"
  using assms(1) by (auto simp: parent_and_child_def p_def Let_def)

lemma child_exits:
  assumes "parent_and_child t c u s" "t_state (threadAt s t) = PTS_INTR" "t_waitMode (threadAt s t) = PWM_PROCESS"
    and curr: "ProcCurrThread s = u" "ProcCurrProcess s = c" "u \<notin> set (threadQueue s)"
  shows "\<exists>s0. ProcExitProcess ops code s = ret (ProcDoSchedule s0) \<and> threadQueue s0 = threadQueue s @ [t] \<and>
    ProcCurrThread s0 = u \<and> ProcKernelProcess s0 = ProcKernelProcess s \<and> procTable s0 = procTable s \<and> slabFreed s0 = slabFreed s \<and>
    t_parent (threadAt s0 t) = t_parent (threadAt s t) \<and> \<not> t_schedInterrupted (threadAt s0 t) \<and>
    t_state (threadAt s0 u) = PTS_ZOMBIE \<and> processAt s0 (p_parent (processAt s c)) = processAt s (p_parent (processAt s c)) \<and>
    p_exitCode (processAt s0 c) = code \<and> p_threads (processAt s0 c) = [u] \<and> p_pid (processAt s0 c) = p_pid (processAt s c) \<and>
    (\<forall>q. p_zombie (processAt s0 q) = (q = c \<or> p_zombie (processAt s q)))"
proof -
  let ?p = "p_parent (processAt s c)"
  note w = parent_and_childD [OF assms(1)]
  define s1 where "s1 = upd_process c (p_exitCode_update (\<lambda>_. code)) s"
  define s2 where "s2 = ProcDisownChildren c (snd (TimerSetAlarm 0 0 s1))"
  define s3 where "s3 = upd_thread u (t_state_update (\<lambda>_. PTS_ZOMBIE))
    (upd_process c (p_zombie_update (\<lambda>_. True)) (release_contexts ops c s2))"
  have par: "processAt s3 ?p = processAt s ?p" "p_parent (processAt s3 c) = ?p" "p_exitCode (processAt s3 c) = code"
    "p_threads (processAt s3 c) = [u]" "p_pid (processAt s3 c) = p_pid (processAt s c)"
    using w(1-3,7) by (simp_all add: s3_def s2_def s1_def disown_processes(1) curr(2))
  have zombie: "p_zombie (processAt s3 q) = (q = c \<or> p_zombie (processAt s q))" for q
    by (simp add: s3_def s2_def s1_def curr(2) disown_processes(2))
  have threads: "threadAt s3 = (threadAt s)(u := t_state_update (\<lambda>_. PTS_ZOMBIE) (threadAt s u))"
    and queue: "threadQueue s3 = threadQueue s" and kernel: "ProcKernelProcess s3 = ProcKernelProcess s"
    and rest: "ProcCurrThread s3 = u" "procTable s3 = procTable s" "slabFreed s3 = slabFreed s"
    by (simp_all add: s3_def s2_def s1_def curr(1))
  have wake: "wake_waiting PWM_PROCESS (p_threads (processAt s3 ?p)) s3 = ProcWakeUp t s3"
    unfolding par(1) using w(8-10,12) assms(2,3) by (intro wake_waiting_one) (auto simp: threads)
  have sig: "ProcSignalSendProcess ?p (int SIGCLD) (ProcWakeUp t s3) = ProcWakeUp t s3"
    using w(11) by (auto simp: ProcSignalSendProcess_def Let_def SignalIsIgnored_def ProcWakeUp_def par(1) signal_numbers)
  have cu: "ProcCurrProcess s1 = c" "ProcCurrThread (release_contexts ops c s2) = u" by (simp_all add: s1_def s2_def curr)
  have "exit_last ops s1 = ProcIntSelfExit (ProcWakeUp t s3)"
    unfolding exit_last_def Let_def cu(1) s2_def [symmetric] cu(2) s3_def [symmetric]
    using w(2) by (simp add: par(2) kernel wake sig)
  then have "ProcExitProcess ops code s = ProcIntSelfExit (ProcWakeUp t s3)"
    using w(7) by (simp add: ProcExitProcess_def last_thread_def Let_def curr s1_def)
  moreover have up: "ProcWakeUp t s3 = (upd_thread t (\<lambda>v. v\<lparr>t_schedInterrupted := False, t_state := PTS_RUNNING\<rparr>) s3)
      \<lparr>threadQueue := threadQueue s @ [t]\<rparr>"
    using assms(2) w(4) by (simp add: ProcWakeUp_def ProcWakeUpSig_def threads queue)
  moreover have "ProcCurrThread (ProcDoSchedule (ProcWakeUp t s3)) \<noteq> u"
    using w(4) curr(3) by (cases "threadQueue s") (auto simp: up ProcDoSchedule_def rest)
  ultimately have "ProcExitProcess ops code s = ret (ProcDoSchedule (ProcWakeUp t s3))"
    by (simp add: ProcIntSelfExit_def Let_def rest)
  then show ?thesis using par zombie w(4) by (intro exI [of _ "ProcWakeUp t s3"]) (simp add: up rest kernel threads)
qed

section \<open>The parent's wait\<close>

lemma reap_thread_current: "ProcIntReapThread t s = ret s' \<Longrightarrow> ProcCurrThread s' = ProcCurrThread s"
  by (auto simp: ProcIntReapThread_def Let_def split: if_splits)

lemma reap_threads_current: "reap_threads ts s = ret s' \<Longrightarrow> ProcCurrThread s' = ProcCurrThread s"
proof (induction ts arbitrary: s)
  case (Cons t ts)
  from Cons.prems obtain r where r: "ProcIntReapThread t s = ret r" "reap_threads ts r = ret s'" by auto
  show ?case using Cons.IH [OF r(2)] reap_thread_current [OF r(1)] by simp
qed simp

lemma reap_process_current:
  assumes "ProcIntReapProcess p s = ret s'"
  shows "ProcCurrThread s' = ProcCurrThread s"
proof -
  obtain r where r: "reap_threads (p_threads (processAt s p)) s = ret r" "ProcCurrThread s' = ProcCurrThread r"
    using assms unfolding ProcIntReapProcess_def Let_def by (cases "p_zombie (processAt s p)") (simp, elim exE conjE, force, simp)
  show ?thesis using reap_threads_current [OF r(1)] r(2) by simp
qed

lemma find_only:
  assumes "x \<in> set xs" "P x" "\<forall>y \<in> set xs. P y \<longrightarrow> y = x"
  shows "find P xs = Some x"
proof (cases "find P xs")
  case None
  then show ?thesis using assms(1,2) by (simp add: find_None_iff)
next
  case (Some y)
  then have "P y" "y \<in> set xs" by (auto simp: find_Some_iff)
  then show ?thesis using assms(3) Some by blast
qed

text \<open>Blocking in the wait: the child's thread, the first of the queue, runs and the family is as before.\<close>

lemma parent_blocks:
  assumes "parent_and_child t c u s" "ProcCurrThread s = t" "threadQueue s = u # rest" "\<not> ProcSignalIsPending t s"
  shows "\<exists>s2. ProcYieldBlock True (upd_thread t (t_waitMode_update (\<lambda>_. PWM_PROCESS)) s) = Some s2 \<and>
    parent_and_child t c u s2 \<and> t_state (threadAt s2 t) = PTS_INTR \<and> t_waitMode (threadAt s2 t) = PWM_PROCESS \<and>
    ProcCurrThread s2 = u \<and> ProcCurrProcess s2 = c \<and> threadQueue s2 = rest \<and> processAt s2 = processAt s \<and>
    ProcKernelProcess s2 = ProcKernelProcess s \<and> procTable s2 = procTable s \<and> slabFreed s2 = slabFreed s \<and>
    t_parent (threadAt s2 t) = t_parent (threadAt s t)"
proof -
  note w = parent_and_childD [OF assms(1)]
  let ?s1 = "upd_thread t (\<lambda>v. v\<lparr>t_schedInterrupted := False, t_state := PTS_INTR\<rparr>)
    (upd_thread t (t_waitMode_update (\<lambda>_. PWM_PROCESS)) s)"
  have "ProcYieldBlock True (upd_thread t (t_waitMode_update (\<lambda>_. PWM_PROCESS)) s) = Some (ProcDoSchedule ?s1)"
    using assms(2,4) by (simp add: ProcYieldBlock_def ProcSignalIsPending_def)
  moreover have "ProcDoSchedule ?s1 = switch_to u (?s1\<lparr>threadQueue := rest\<rparr>)"
    using assms(2,3) w(4) by (simp add: ProcDoSchedule_def)
  moreover have "parent_and_child t c u (ProcDoSchedule ?s1)"
    using w by (auto simp: parent_and_child_def Let_def SignalIsIgnored_def)
  ultimately show ?thesis using w(4,6) by simp
qed

text \<open>The child has left and its waiting parent runs again.\<close>

lemma child_gone:
  fixes ops :: "u32 \<Rightarrow> io_state IoFileOps" and code :: u32
  assumes "parent_and_child t c u s" "t_state (threadAt s t) = PTS_INTR" "t_waitMode (threadAt s t) = PWM_PROCESS"
    and curr: "ProcCurrThread s = u" "ProcCurrProcess s = c" "t \<notin> set (threadQueue s)" "u \<notin> set (threadQueue s)"
  defines "p \<equiv> p_parent (processAt s c)" and "s' \<equiv> exit_then_yield ops code (length (threadQueue s)) s"
  shows "ProcCurrThread s' = t" "ProcCurrProcess s' = p" "\<not> block_result s'" "ProcKernelProcess s' = ProcKernelProcess s"
    "procTable s' = procTable s" "t_state (threadAt s' u) = PTS_ZOMBIE" "processAt s' p = processAt s p"
    "p_exitCode (processAt s' c) = code" "p_threads (processAt s' c) = [u]" "p_pid (processAt s' c) = p_pid (processAt s c)"
    "p_zombie (processAt s' q) = (q = c \<or> p_zombie (processAt s q))"
proof -
  note w = parent_and_childD [OF assms(1)]
  obtain s0 where s0: "ProcExitProcess ops code s = ret (ProcDoSchedule s0)" "threadQueue s0 = threadQueue s @ [t]"
    "ProcCurrThread s0 = u" "ProcKernelProcess s0 = ProcKernelProcess s" "procTable s0 = procTable s"
    "t_parent (threadAt s0 t) = p" "\<not> t_schedInterrupted (threadAt s0 t)" "t_state (threadAt s0 u) = PTS_ZOMBIE"
    "processAt s0 p = processAt s p" "p_exitCode (processAt s0 c) = code" "p_threads (processAt s0 c) = [u]"
    "p_pid (processAt s0 c) = p_pid (processAt s c)" "\<forall>q. p_zombie (processAt s0 q) = (q = c \<or> p_zombie (processAt s q))"
    using child_exits [OF assms(1-3) curr(1,2,4), of ops code] w(5) by (auto simp: p_def)
  have "s' = (ProcYield ^^ length (threadQueue s)) (ProcDoSchedule s0)" by (simp add: s'_def exit_then_yield_def s0(1))
  then have turn: "ProcCurrThread s' = t \<and> ProcCurrProcess s' = t_parent (threadAt s0 t) \<and> processAt s' = processAt s0 \<and>
    threadAt s' t = threadAt s0 t \<and> (\<forall>v. t_state (threadAt s' v) = t_state (threadAt s0 v)) \<and>
    ProcKernelProcess s' = ProcKernelProcess s0 \<and> procTable s' = procTable s0 \<and> slabFreed s' = slabFreed s0"
    using turn_comes [of s0 "threadQueue s" t "[]"] s0(2,3) curr(3) w(4) by simp
  then show "ProcCurrThread s' = t" "ProcCurrProcess s' = p" "\<not> block_result s'" "ProcKernelProcess s' = ProcKernelProcess s"
    "procTable s' = procTable s" "t_state (threadAt s' u) = PTS_ZOMBIE" "processAt s' p = processAt s p"
    "p_exitCode (processAt s' c) = code" "p_threads (processAt s' c) = [u]" "p_pid (processAt s' c) = p_pid (processAt s c)"
    "p_zombie (processAt s' q) = (q = c \<or> p_zombie (processAt s q))"
    using s0 by (simp_all add: block_result_def)
qed

text \<open>One pass of the wait that blocks, is not interrupted and then finds what it waits for.\<close>

lemma wait_loop_once:
  assumes "look s = None" "ProcYieldBlock True (upd_thread (ProcCurrThread s) (t_waitMode_update (\<lambda>_. mode)) s) = Some s2"
    and "\<not> block_result (others s2)"
    and "look (upd_thread (ProcCurrThread (others s2)) (t_waitMode_update (\<lambda>_. PWM_NONE)) (others s2)) = Some x"
  shows "wait_loop others look mode False False s =
    Some (Inr x, upd_thread (ProcCurrThread (others s2)) (t_waitMode_update (\<lambda>_. PWM_NONE)) (others s2))"
  using assms by (subst wait_loop.simps, simp add: Let_def) (subst wait_loop.simps, simp)

text \<open>
  (C14) A child's exit ends its parent's wait. A thread of a process waits for any child, in a well-formed
  scheduler state, with no signal pending, \<open>SIGCLD\<close> ignored as it is by default, no dead child yet and no other
  thread of the process waiting for a child. The next thread in the run queue is the only thread of one of the
  children, which exits with \<open>code\<close>; the threads queued behind it each run and yield. Then the wait returns the
  identifier of the child and its exit code, the waiting thread runs again, and the child is gone: its structure
  is freed, it is no longer found under its identifier nor in the parent's list, and no other identifier has
  changed.
\<close>

theorem exit_ends_wait:
  assumes "sched_ok s" "parent_and_child t c u s" "ProcCurrThread s = t" "ProcCurrProcess s = t_parent (threadAt s t)"
    and "threadQueue s = u # rest" "\<not> ProcSignalIsPending t s" "options AND WNOHANG = 0"
    and kids: "c \<in> set (p_children (processAt s (ProcCurrProcess s)))" "distinct (p_children (processAt s (ProcCurrProcess s)))"
      "\<forall>q \<in> set (p_children (processAt s (ProcCurrProcess s))). \<not> p_zombie (processAt s q)"
  shows "\<exists>s'. ProcWaitProcess (exit_then_yield ops code (length rest)) (-1) options s =
      ret (Some code, sint (p_pid (processAt s c)), s') \<and> ProcCurrThread s' = t \<and> c \<in> set (slabFreed s') \<and>
    procTable s' (p_pid (processAt s c)) \<noteq> Some c \<and> (\<forall>i. i \<noteq> p_pid (processAt s c) \<longrightarrow> procTable s' i = procTable s i) \<and>
    c \<notin> set (p_children (processAt s' (ProcCurrProcess s)))"
proof -
  note w = parent_and_childD [OF assms(2)]
  let ?p = "ProcCurrProcess s"
  let ?others = "exit_then_yield ops code (length rest)"
  let ?look = "\<lambda>s. find (\<lambda>q. p_zombie (processAt s q)) (p_children (processAt s (ProcCurrProcess s)))"
  have p: "p_parent (processAt s c) = ?p" using w(5) assms(4) by simp
  have apart: "t \<notin> set (u # rest)" "u \<notin> set rest" using assms(1,3,5) by (auto simp: sched_ok_def)
  obtain s2 where s2: "ProcYieldBlock True (upd_thread t (t_waitMode_update (\<lambda>_. PWM_PROCESS)) s) = Some s2"
    "parent_and_child t c u s2" "t_state (threadAt s2 t) = PTS_INTR" "t_waitMode (threadAt s2 t) = PWM_PROCESS"
    "ProcCurrThread s2 = u" "ProcCurrProcess s2 = c" "threadQueue s2 = rest" "processAt s2 = processAt s"
    "ProcKernelProcess s2 = ProcKernelProcess s" "procTable s2 = procTable s" "t_parent (threadAt s2 t) = ?p"
    using parent_blocks [OF assms(2,3,5,6)] assms(4) by auto
  have "t \<notin> set (threadQueue s2)" "u \<notin> set (threadQueue s2)" using apart s2(7) by auto
  note gone = child_gone [OF s2(2-6) this, of ops code, unfolded s2(7-10) p]
  define s3 where "s3 = upd_thread t (t_waitMode_update (\<lambda>_. PWM_NONE)) (?others s2)"
  have s3: "ProcCurrThread s3 = t" "ProcCurrProcess s3 = ?p" "processAt s3 = processAt (?others s2)"
    "ProcKernelProcess s3 = ProcKernelProcess s" "procTable s3 = procTable s" "t_state (threadAt s3 u) = PTS_ZOMBIE"
    using gone(1,2,4-6) w(4) by (auto simp: s3_def)
  have found: "find (\<lambda>q. p_zombie (processAt s3 q)) (p_children (processAt s3 ?p)) = Some c"
    using kids gone(7,11) by (intro find_only) (auto simp: s3(3))
  have dead: "p_zombie (processAt s3 c)" "\<forall>v \<in> set (p_threads (processAt s3 c)). v \<noteq> ProcCurrThread s3 \<and> t_state (threadAt s3 v) = PTS_ZOMBIE"
    using gone(9,11) s3(1,3,6) w(4) by auto
  obtain s' where s': "ProcIntReapProcess c s3 = ret s'" "procTable s' (p_pid (processAt s c)) \<noteq> Some c"
    "\<forall>i. i \<noteq> p_pid (processAt s c) \<longrightarrow> procTable s' i = procTable s i" "c \<in> set (slabFreed s')"
    "c \<notin> set (p_children (processAt s' ?p))"
    using reap_process_ret [OF dead] kids(2) w(2) p gone(7,10) s3(3-5) by metis
  have alive: "?look s = None" using kids(3) by (simp add: find_None_iff)
  have "ProcWaitProcess ?others (-1) options s = ret (Some code, sint (p_pid (processAt s c)), s')"
    using wait_loop_once [of ?look s PWM_PROCESS s2 ?others c] alive found s2(1) s3(1-3) gone(1,3,8,10) s'(1) w(2) p assms(3,7) kids(1)
    by (auto simp: ProcWaitProcess_def Let_def s3_def)
  then show ?thesis using s' reap_process_current [OF s'(1)] s3(1) by auto
qed

text \<open>Thread 5 of process 2 runs; the child 3 has thread 7, first in the queue, and thread 6 of process 4 is
  behind it.\<close>

definition family :: proc_state where
  "family = demo_proc\<lparr>ProcCurrThread := 5, threadQueue := [7, 6],
     threadAt := (\<lambda>t. zero_thread\<lparr>t_tid := t, t_parent := (if t = 5 then 2 else if t = 7 then 3 else 4),
       t_state := (if t \<in> {5, 6, 7} then PTS_RUNNING else PTS_STARTUP)\<rparr>),
     processAt := (\<lambda>p. if p = 2 then zero_process\<lparr>p_pid := 2, p_parent := 1, p_threads := [5], p_children := [4, 3]\<rparr>
       else if p = 3 then zero_process\<lparr>p_pid := 3, p_parent := 2, p_threads := [7]\<rparr> else zero_process),
     procTable := [2 \<mapsto> 2, 3 \<mapsto> 3]\<rparr>"

theorem exit_ends_wait_witness:
  "\<exists>s'. ProcWaitProcess (exit_then_yield demo_ops 42 1) (-1) 0 family = ret (Some 42, 3, s') \<and> ProcCurrThread s' = 5 \<and>
     procTable s' 3 \<noteq> Some 3 \<and> procTable s' 2 = Some 2"
proof -
  have f: "ProcCurrThread family = 5" "ProcCurrProcess family = 2" "ProcKernelProcess family = 1" "threadQueue family = [7, 6]"
    by (simp_all add: family_def demo_proc_defs)
  have "sched_ok family" by (auto simp: sched_ok_def family_def demo_proc_defs zero_thread_def)
  moreover have "parent_and_child 5 3 7 family"
    by (auto simp: parent_and_child_def family_def demo_proc_defs zero_process_def SignalIsIgnored_def SIG_DFL_def)
  moreover have "\<not> ProcSignalIsPending 5 family"
    by (simp add: ProcSignalIsPending_def family_def zero_thread_def zero_process_def)
  moreover have "processAt family 2 = zero_process\<lparr>p_pid := 2, p_parent := 1, p_threads := [5], p_children := [4, 3]\<rparr>"
    "t_parent (threadAt family 5) = 2" "p_pid (processAt family 3) = 3" "\<not> p_zombie (processAt family 3)"
    "\<not> p_zombie (processAt family 4)" "procTable family 2 = Some 2"
    by (simp_all add: family_def zero_process_def)
  ultimately show ?thesis using exit_ends_wait [of family 5 3 7 "[6]" 0 demo_ops 42] f by auto
qed

end
