(* ===== verification/Spec2Isabelle.thy ===== *)
theory Spec2Isabelle
  imports Linked_List Bcache Log_Format Kernel_Boot Exit_Wait
begin

text \<open>
  Verification of the Chaff kernel, a small Unix-like kernel for one 32-bit x86 processor written in C
  (\<open>src/kernel\<close>, with file names below relative to \<open>src/kernel/src\<close> and \<open>src/kernel/include\<close>).

  \<^bold>\<open>The program.\<close> The kernel has four layers. The lowest is a library of intrusive lists, a chained hash
  table and byte and string routines. On it stands memory management: physical pages in zones with reference
  counts, page tables, the kernel's virtual allocator, slab caches behind \<open>MemKAlloc\<close>, and memory contexts
  whose regions are filled by the page fault handler on demand and copied on write. The process layer has a
  round robin scheduler, wait queues, signals, timers, lazy switching of the FPU, and processes and threads
  from creation to reaping; interrupts enter it through a table of handler chains. The top layer is input
  and output: descriptors in I/O contexts, access modes, path lookup, opening, mount points, the block
  cache and the device file system.

  \<^bold>\<open>Theories and sources.\<close> Each theory follows one part of the kernel and keeps the names of its functions.
  \<^item> \<open>Prelude\<close>: machine types, outcomes (\<open>Returns\<close>, \<open>Panics\<close>, and \<open>None\<close> for a call that never returns), the error
    numbers of \<open>errno.h\<close>, shared lemmas.
  \<^item> \<open>Linked_List\<close>: \<open>list.h\<close> on a pointer heap. \<open>Hash_Table\<close>: \<open>htable.c\<close>, buckets as lists of items.
    \<open>Mem_Utils\<close>: \<open>utils.c\<close> on a byte memory.
  \<^item> \<open>Physical\<close>: \<open>mm/physical.c\<close>, the page array and the zones. \<open>Paging\<close>: \<open>mm/pageMapping.c\<close> and
    \<open>mm/pagingInt.h\<close>, page tables as words of physical memory with the bit fields of the headers, and a page
    walk of the processor (\<open>mmu_walk\<close>) as reference. \<open>Vmalloc\<close>: \<open>mm/vmalloc.c\<close>. \<open>Slab\<close>: \<open>mm/slab.c\<close> and \<open>mm/kmemory.h\<close>.
    \<open>Region\<close>: \<open>mm/region.c\<close> and \<open>mm/check.c\<close>. \<open>Page_Fault\<close>: \<open>mm/pageFault.c\<close>, including the faults that the
    handler itself causes.
  \<^item> \<open>Scheduler\<close>: \<open>process/scheduler.c\<close>, \<open>process/waitqueue.c\<close> and the queue of \<open>process/reaper.c\<close>.
    \<open>Cpu_Fpu\<close>: \<open>cpu.c\<close> and \<open>process/tls.c\<close>. \<open>Signal\<close>: \<open>process/signal.c\<close>. \<open>Timer\<close>: \<open>timer.c\<close>. \<open>Hw_Time\<close>: \<open>hwTime.c\<close>. \<open>Process\<close>:
    \<open>process/process.c\<close>, the reaper thread and the frames that \<open>process/schedulerAsm.s\<close> pops.
    \<open>Interrupt\<close>: \<open>interrupt.c\<close> and \<open>exceptions.c\<close>. \<open>Idle_Loop\<close>: the idle thread under timer interrupts.
    \<open>Exit_Wait\<close>: the exit of a child meets the wait of its parent.
  \<^item> \<open>Io_Mode\<close>: \<open>io/mode.c\<close>. \<open>Io_Context\<close>: \<open>io/iocontext.c\<close>. \<open>Mount\<close>: \<open>io/mount.c\<close>. \<open>Open\<close>: \<open>io/open.c\<close>.
    \<open>Bcache\<close>: \<open>io/bcache.c\<close>. \<open>Devfs\<close>: \<open>io/devfs.c\<close>.
  \<^item> Start-up: \<open>Boot_Info\<close> is \<open>multiboot.h\<close>, the structures of the boot loader as bytes of memory and the walks over them.
    \<open>Mem_Init\<close> is \<open>mm/memInit.c\<close>, from the place of the page state table to the release of the start code.
    \<open>Slab_Init\<close> follows \<open>MemSlabInit\<close> from the static root cache to the caches of \<open>MemKAlloc\<close>. \<open>Start_Up\<close> has the
    initialisers of \<open>cpu.c\<close>, \<open>io/bcache.c\<close> and \<open>timer.c\<close> and puts the start of the two allocators together.
    \<open>Kernel_Main\<close> is \<open>kMain.c\<close> on one state of all components, with the allocations of \<open>ProcInit\<close>, and \<open>Kernel_Boot\<close> follows
    its run to the first switch of threads.
  \<^item> \<open>Heap\<close>: all caches of \<open>mm/slab.c\<close> together, with the pages of each and the objects that are out.
  \<^item> \<open>Zalloc\<close>: the allocators of \<open>mm/vmalloc.c\<close> and \<open>mm/slab.c\<close> that clear the new memory. \<open>Log_Format\<close>: \<open>log.c\<close>, the formatter,
    the screen as bytes of video memory, and the stack trace.

  \<^bold>\<open>State.\<close> A C structure is a record, an object is a record at an address (a function from addresses) with 0
  for \<open>NULL\<close>, and the global variables of a file are the fields of a state record. The records extend one
  another along the calls of the components: \<open>phys_state\<close>, \<open>paging_state\<close>, \<open>vm_state\<close> and \<open>mm_state\<close>; \<open>sched_state\<close> up to
  \<open>proc_state\<close> and \<open>intr_state\<close>; \<open>io_state\<close>, \<open>vfs_state\<close> and \<open>devfs_state\<close>. Integers keep their width where C's
  arithmetic can wrap. Results of allocators that belong to another component, registers, ports and the
  functions behind function pointers are arguments; what other threads do while a thread sleeps is an
  argument too.

  \<^bold>\<open>Interfaces.\<close> The contracts between components are locales, each interpreted on the kernel's definitions:
  the list that a ring represents (\<open>Linked_List\<close>), the map of a hash table (\<open>Hash_Table\<close>), a source of physical
  pages (\<open>Physical\<close>), a pool of objects (\<open>Slab_Init\<close>), a heap of objects (\<open>Heap\<close>), the registry of interrupt handlers (\<open>Interrupt\<close>), and a tree of files (\<open>Open\<close>, interpreted
  on the device file system in \<open>Devfs\<close>), among others.

  \<^bold>\<open>What is shown.\<close>
  \<^item> Data structures: list operations and hash table operations refine lists and maps; iterations end.
  \<^item> Memory: allocations return free pages or objects and mark exactly those; caches and regions stay well
    formed; mapping makes the processor translate an address and changes no other; a demand fault maps a
    cleared page, a write to a shared page copies it and drops one reference.
  \<^item> Start-up: the kernel reads what the boot loader wrote; the page state table lies in available memory
    beside the kernel and the modules; no page handed out later overlaps anything in use; the fixed
    window is mapped linearly; objects of all caches stay apart; from fresh static data and with 25 free
    pages \<open>kMain\<close> returns from every step and ends in the idle thread, which then takes any number of ticks.
  \<^item> Log: numbers are printed so that they read back, and messages write nothing but the screen.
  \<^item> Processes: in every reachable state exactly the runnable threads run or are queued, once; a yield is
    round robin; a sleeper on an idle machine runs again in time; the exit of a child ends the wait of its
    parent, which gets the exit code; registers of the FPU and of a signal frame survive switches and handlers; new
    threads start at their entry; processes are created with fresh numbers and waited for.
  \<^item> Interrupts: lines are masked exactly when they have no handler, handlers run in order, a bad access of
    a program ends the process.
  \<^item> Files: reference counts equal the number of descriptors; a path lookup is the resolution of its
    components; reading through the block cache equals reading the device; mounting and unmounting, and
    registering and removing a device, are inverse; opening the path of a device reaches its driver.
  \<^item> Faults of the code: where it does not do what it means to, a theorem states what it does, for example
    the page table index that misses addresses with bit 22 or 23 set, the signal mask without its
    complement, the first device that shares its number with the root directory.

  \<^bold>\<open>Loops and bounds.\<close> Loops are structural recursions over the range they cover, functions with a
  termination proof, or \<open>partial_function (option)\<close>, where \<open>None\<close> is a loop that does not end; theorems about
  the latter show that a result exists, or that none does. Two loops take fuel, because on bad data they have no
  end: the iteration macros of \<open>list.h\<close>, for which one unit more than the length of the ring is enough, and the
  comparison of strings, which needs one unit per byte.

  \<^bold>\<open>Not modelled.\<close> The loader and the assembly stubs except the two stack frames; \<open>CpuInit\<close>, which is assembly and
  whose results are inputs of \<open>kMain\<close>; port access, which is an argument or a recorded output;
  invalidation of the TLB, which cannot be seen in a model that always walks the tables; the checks of the
  slab allocator in a build with \<open>DEBUG\<close>. Interrupts during a routine of the kernel appear only where the
  code waits.
\<close>

end
